(* ===== verification/Prelude.thy ===== *)
theory Prelude
  imports Main "HOL-Library.Word"
begin

text \<open>
  Shared ground of the development: Rust's fixed-width unsigned integers with their
  saturating operations, and the theorem collections of the component theories.

  \<^item> A \<open>u8\<close>, \<open>u16\<close>, \<open>u32\<close> or \<open>u64\<close> value of the source is a word of that width; the
    operations \<open>saturating_add\<close>, \<open>saturating_sub\<close> and \<open>saturating_mul\<close> of the standard
    library are \<open>sat_add\<close>, \<open>sat_sub\<close> and \<open>sat_mul\<close>, characterised through \<open>unat\<close>.
  \<^item> Lengths and indices of collections (\<open>usize\<close>) are \<open>nat\<close>: a Rust collection never
    holds more than \<open>isize::MAX\<close> elements, so an index computation over one does not wrap.
    Where a \<open>usize\<close> counter can wrap (the probe counter of the circuit breaker) it is
    modelled at its width.
  \<^item> A \<open>Result<T, E>\<close> is \<open>'e + 't\<close> with \<open>Inl\<close> the error.
\<close>

type_synonym u8 = "8 word"
type_synonym u16 = "16 word"
type_synonym u32 = "32 word"
type_synonym u64 = "64 word"

named_theorems sat_simps "readings of the saturating operations through unat"
named_theorems str_simps "equations of the string primitives"

section \<open>Saturating arithmetic\<close>

definition sat_add :: "'a::len word \<Rightarrow> 'a word \<Rightarrow> 'a word" where
  "sat_add a b = (if unat a + unat b < 2 ^ LENGTH('a) then a + b else - 1)"

definition sat_sub :: "'a::len word \<Rightarrow> 'a word \<Rightarrow> 'a word" where
  "sat_sub a b = (if b \<le> a then a - b else 0)"

definition sat_mul :: "'a::len word \<Rightarrow> 'a word \<Rightarrow> 'a word" where
  "sat_mul a b = (if unat a * unat b < 2 ^ LENGTH('a) then a * b else - 1)"

lemma unat_max_word [sat_simps]: "unat (- 1 :: 'a::len word) = 2 ^ LENGTH('a) - 1"
  by (simp add: unsigned_minus_1_eq_mask mask_eq_exp_minus_1)

lemma unat_less_exp: "unat (a :: 'a::len word) < 2 ^ LENGTH('a)"
  by simp

lemma unat_le_max: "unat (a :: 'a::len word) \<le> 2 ^ LENGTH('a) - 1"
  using unat_less_exp [of a] by linarith

lemma unat_plus_1: "unat (a + 1) = Suc (unat a)" if "a < b" for a b :: "'a::len word"
proof -
  have "Suc (unat a) \<le> unat b" using that by (simp add: word_less_nat_alt)
  also have "\<dots> < 2 ^ LENGTH('a)" by (rule unat_less_exp)
  finally show ?thesis by (simp add: unat_word_ariths)
qed

lemma unat_sat_add [sat_simps]:
  fixes a b :: "'a::len word"
  shows "unat (sat_add a b) = min (unat a + unat b) (2 ^ LENGTH('a) - 1)"
proof (cases "unat a + unat b < 2 ^ LENGTH('a)")
  case True
  then show ?thesis by (simp add: sat_add_def unat_word_ariths)
next
  case False
  then have "2 ^ LENGTH('a) - 1 \<le> unat a + unat b" by linarith
  with False show ?thesis by (simp add: sat_add_def unat_max_word min_absorb2)
qed

lemma unat_sat_sub [sat_simps]: "unat (sat_sub a b) = unat a - unat b"
  by (auto simp: sat_sub_def unat_sub word_le_nat_alt)

lemma unat_sat_mul [sat_simps]:
  fixes a b :: "'a::len word"
  shows "unat (sat_mul a b) = min (unat a * unat b) (2 ^ LENGTH('a) - 1)"
proof (cases "unat a * unat b < 2 ^ LENGTH('a)")
  case True
  then show ?thesis by (simp add: sat_mul_def unat_word_ariths)
next
  case False
  then have "2 ^ LENGTH('a) - 1 \<le> unat a * unat b" by linarith
  with False show ?thesis by (simp add: sat_mul_def unat_max_word min_absorb2)
qed

lemma sat_add_0 [simp]: "sat_add a 0 = a" "sat_add 0 a = a"
  by (simp_all add: sat_add_def)

lemma sat_mul_0 [simp]: "sat_mul a 0 = 0" "sat_mul 0 a = 0"
  by (simp_all add: sat_mul_def)

lemma sat_sub_0 [simp]: "sat_sub a 0 = a"
  by (simp add: sat_sub_def)

section \<open>Counting list elements\<close>

definition count_if :: "('a \<Rightarrow> bool) \<Rightarrow> 'a list \<Rightarrow> nat" where
  "count_if P xs = length (filter P xs)"

lemma count_if_simps [simp]:
  "count_if P [] = 0" "count_if P (x # xs) = (if P x then Suc (count_if P xs) else count_if P xs)"
  "count_if P (xs @ ys) = count_if P xs + count_if P ys"
  by (simp_all add: count_if_def)

lemma count_if_le: "count_if P xs \<le> length xs"
  by (simp add: count_if_def)

lemma count_if_replicate: "count_if P (replicate n x) = (if P x then n else 0)"
  by (induction n) auto

lemma count_if_update:
  "i < length xs \<Longrightarrow>
     count_if P (xs[i := y]) + of_bool (P (xs ! i)) = count_if P xs + of_bool (P y)"
proof (induction xs arbitrary: i)
  case (Cons x xs)
  then show ?case by (cases i) auto
qed simp

lemma count_if_pos: "i < length xs \<Longrightarrow> P (xs ! i) \<Longrightarrow> 0 < count_if P xs"
  by (metis count_if_def filter_empty_conv length_greater_0_conv nth_mem)

lemma find_eq_None: "find P xs = None \<longleftrightarrow> \<not> list_ex P xs"
  by (induction xs) auto

lemma find_map: "find P (map f xs) = map_option f (find (P \<circ> f) xs)"
  by (induction xs) auto

section \<open>What series of steps keep\<close>

text \<open>A relation between the states before and after an operation that holds for doing nothing and for one operation
  behind another holds for a loop when it holds for every round.\<close>

locale step_order =
  fixes step_rel :: "'s \<Rightarrow> 's \<Rightarrow> bool"
  assumes step_refl: "step_rel s s"
    and step_trans: "step_rel s t \<Longrightarrow> step_rel t u \<Longrightarrow> step_rel s u"
begin

lemma over_fold: "(\<And>x s. x \<in> set xs \<Longrightarrow> step_rel s (f x s)) \<Longrightarrow> step_rel s (fold f xs s)"
proof (induction xs arbitrary: s)
  case (Cons x xs)
  have "step_rel s (f x s)" by (rule Cons.prems) simp
  moreover have "step_rel (f x s) (fold f xs (f x s))" using Cons.prems by (intro Cons.IH) auto
  ultimately show ?case using step_trans by simp
qed (simp add: step_refl)

end

interpretation same_view: step_order "\<lambda>s t. v t = v s" for v :: "'s \<Rightarrow> 'v"
  by unfold_locales simp_all

lemma fold_same: "(\<And>x s. v (g x s) = v s) \<Longrightarrow> v (fold g xs s) = v s"
  by (rule same_view.over_fold)

end
