(* ===== verification/Float64.thy ===== *)
theory Float64
  imports Complex_Main "HOL-Library.Log_Nat" Prelude
begin

text \<open>
  Binary64 arithmetic on non-negative numbers, as far as the program uses it: a finite
  \<open>f64\<close> is the rational number it stands for, and the result of an operation is the exact
  rational result rounded to 53 significant bits, ties to even (\<open>f64_round\<close>). The program
  applies it to quotients of two counters and to percentages: neither the subnormal range
  nor overflow is reachable from \<open>u64\<close> operands, so the exponent is unbounded here.
  Infinities and NaN occur only as configured values; \<open>f64_le\<close> is \<open>f64::le\<close>.

  The main lemma, \<open>f64_round_compare\<close>: comparing two rounded quotients gives the exact
  answer as long as the product of their denominators stays below \<open>2 ^ 51\<close>.
\<close>

section \<open>Rounding\<close>

definition rat_expo :: "rat \<Rightarrow> int" where
  "rat_expo x =
     (let (n, d) = quotient_of x; e = bitlen n - bitlen d
      in if 2 powi e \<le> x then e else e - 1)"

definition round_half_even :: "rat \<Rightarrow> int" where
  "round_half_even x =
     (let f = \<lfloor>x\<rfloor>; r = x - of_int f
      in if r < 1 / 2 then f else if 1 / 2 < r then f + 1 else if even f then f else f + 1)"

definition f64_round :: "rat \<Rightarrow> rat" where
  "f64_round x =
     (if x \<le> 0 then 0
      else let k = 52 - rat_expo x in of_int (round_half_even (x * 2 powi k)) / 2 powi k)"

datatype f64 = Finite rat | PosInf | NegInf | NaN

fun f64_le :: "f64 \<Rightarrow> f64 \<Rightarrow> bool" where
  "f64_le NaN _ = False"
| "f64_le _ NaN = False"
| "f64_le NegInf _ = True"
| "f64_le _ PosInf = True"
| "f64_le (Finite a) (Finite b) = (a \<le> b)"
| "f64_le _ _ = False"

text \<open>\<open>n as f64\<close> of an unsigned integer, and the division of two such values.\<close>

definition f64_of_nat :: "nat \<Rightarrow> rat" where
  "f64_of_nat n = f64_round (of_nat n)"

definition f64_div :: "rat \<Rightarrow> rat \<Rightarrow> rat" where
  "f64_div a b = f64_round (a / b)"

definition f64_mul :: "rat \<Rightarrow> rat \<Rightarrow> rat" where
  "f64_mul a b = f64_round (a * b)"

section \<open>Accuracy\<close>

lemma round_half_even_error: "\<bar>of_int (round_half_even x) - x\<bar> \<le> 1 / 2"
proof -
  define r where "r = x - of_int \<lfloor>x\<rfloor>"
  have "0 \<le> r" "r < 1" by (simp_all add: r_def floor_correct) linarith
  moreover have "x = of_int \<lfloor>x\<rfloor> + r" by (simp add: r_def)
  ultimately show ?thesis
    unfolding round_half_even_def Let_def r_def [symmetric] by auto
qed

lemma round_half_even_of_int [simp]: "round_half_even (of_int i) = i"
  by (simp add: round_half_even_def)

lemma rat_expo_bounds:
  assumes "0 < x"
  shows "2 powi rat_expo x \<le> x" and "x < 2 powi (rat_expo x + 1)"
proof -
  obtain n d where nd: "quotient_of x = (n, d)" by (cases "quotient_of x")
  have d: "0 < d" using nd by (rule quotient_of_denom_pos)
  have x: "x = of_int n / of_int d" using nd by (rule quotient_of_div)
  have n: "0 < n" using assms d x by (simp add: zero_less_divide_iff)
  let ?e = "bitlen n - bitlen d"
  have pow: "(of_int (2 ^ nat i) :: rat) = 2 powi i" if "0 \<le> i" for i
    using that by (simp add: power_int_def)
  have bl: "1 \<le> bitlen n" "1 \<le> bitlen d"
    using n d by (auto simp: bitlen_ge_iff_power)
  have n1: "2 powi (bitlen n - 1) \<le> (of_int n :: rat)"
    using bitlen_bounds [OF n] pow [of "bitlen n - 1"] bl
    by (metis diff_ge_0_iff_ge of_int_le_iff)
  have n2: "(of_int n :: rat) < 2 powi bitlen n"
    using bitlen_bounds [OF n] pow [of "bitlen n"] bl
    by (metis bitlen_nonneg of_int_less_iff)
  have d1: "2 powi (bitlen d - 1) \<le> (of_int d :: rat)"
    using bitlen_bounds [OF d] pow [of "bitlen d - 1"] bl
    by (metis diff_ge_0_iff_ge of_int_le_iff)
  have d2: "(of_int d :: rat) < 2 powi bitlen d"
    using bitlen_bounds [OF d] pow [of "bitlen d"] bl
    by (metis bitlen_nonneg of_int_less_iff)
  have lo: "2 powi (?e - 1) \<le> x"
  proof -
    have "(2::rat) powi (?e - 1) = 2 powi (bitlen n - 1) / 2 powi bitlen d"
      by (subst power_int_diff [symmetric]) (simp_all add: algebra_simps)
    also have "\<dots> \<le> of_int n / of_int d"
      using n1 d2 n d by (intro frac_le) auto
    finally show ?thesis by (simp add: x)
  qed
  have hi: "x < 2 powi (?e + 1)"
  proof -
    have "of_int n / of_int d < 2 powi bitlen n / (2 :: rat) powi (bitlen d - 1)"
      using n2 d1 n by (intro frac_less) auto
    also have "\<dots> = 2 powi (?e + 1)"
      by (subst power_int_diff [symmetric]) (simp_all add: algebra_simps)
    finally show ?thesis by (simp add: x)
  qed
  show "2 powi rat_expo x \<le> x" using lo by (auto simp: rat_expo_def nd Let_def)
  show "x < 2 powi (rat_expo x + 1)" using hi by (auto simp: rat_expo_def nd Let_def)
qed

lemma f64_round_nonpos [simp]: "x \<le> 0 \<Longrightarrow> f64_round x = 0"
  by (simp add: f64_round_def)

lemma f64_round_error:
  assumes "0 \<le> x"
  shows "\<bar>f64_round x - x\<bar> \<le> x / 2 ^ 53"
proof (cases "x = 0")
  case False
  with assms have x: "0 < x" by simp
  define k where "k = 52 - rat_expo x"
  have "f64_round x - x = (of_int (round_half_even (x * 2 powi k)) - x * 2 powi k) / 2 powi k"
    using x by (simp add: f64_round_def Let_def k_def diff_divide_distrib)
  then have "\<bar>f64_round x - x\<bar> = \<bar>of_int (round_half_even (x * 2 powi k)) - x * 2 powi k\<bar> / 2 powi k"
    by simp
  also have "\<dots> \<le> (1 / 2) / 2 powi k"
    by (intro divide_right_mono round_half_even_error) simp
  also have "\<dots> = 2 powi rat_expo x / 2 ^ 53"
    unfolding k_def by (subst power_int_diff) simp_all
  also have "\<dots> \<le> x / 2 ^ 53"
    by (intro divide_right_mono rat_expo_bounds(1) x) simp
  finally show ?thesis .
qed simp

lemma f64_round_error_unit:
  assumes "0 \<le> x" and "x \<le> 1"
  shows "\<bar>f64_round x - x\<bar> \<le> 1 / 2 ^ 53"
  using order_trans [OF f64_round_error divide_right_mono] assms by fastforce

lemma f64_round_nonneg: "0 \<le> f64_round x"
proof (cases "0 < x")
  case True
  then have "\<bar>f64_round x - x\<bar> \<le> x / 2 ^ 53" by (intro f64_round_error) simp
  moreover have "x / 2 ^ 53 \<le> x" using True by (simp add: divide_le_eq)
  ultimately show ?thesis by linarith
qed simp

text \<open>A number with at most 53 significant bits is a binary64 value.\<close>

lemma f64_round_exact:
  assumes "0 < x" and "x * 2 powi (52 - rat_expo x) = of_int i"
  shows "f64_round x = x"
  using assms by (simp add: f64_round_def Let_def) (metis nonzero_mult_div_cancel_right power_int_eq_0_iff zero_neq_numeral)

lemma f64_of_nat_exact: "n < 2 ^ 53 \<Longrightarrow> f64_of_nat n = of_nat n"
proof (cases "n = 0")
  case False
  assume n: "n < 2 ^ 53"
  let ?x = "of_nat n :: rat" and ?e = "rat_expo (of_nat n)"
  have pos: "0 < ?x" using False by simp
  have "2 powi ?e < (2 :: rat) powi 53"
  proof -
    have "2 powi ?e \<le> ?x" using pos by (rule rat_expo_bounds)
    also have "?x < of_nat (2 ^ 53)" using n by (simp only: of_nat_less_iff)
    finally show ?thesis by simp
  qed
  then have e: "?e \<le> 52" using power_int_increasing [of 53 ?e "2 :: rat"] by (cases "?e \<le> 52") auto
  have "?x * 2 powi (52 - ?e) = of_int (int n * 2 ^ nat (52 - ?e))"
    using e by (simp add: power_int_def)
  with pos show ?thesis unfolding f64_of_nat_def by (rule f64_round_exact)
qed (simp add: f64_of_nat_def)

lemma f64_round_compare:
  fixes a b p q :: nat
  assumes b: "0 < b" and q: "0 < q" and ab: "a \<le> b" and pq: "p \<le> q" and small: "b * q \<le> 2 ^ 51"
  shows "f64_round (of_nat p / of_nat q) \<le> f64_round (of_nat a / of_nat b) \<longleftrightarrow>
         (of_nat p / of_nat q :: rat) \<le> of_nat a / of_nat b"
proof -
  let ?x = "of_nat a / of_nat b :: rat" and ?y = "of_nat p / of_nat q :: rat"
  have x1: "?x \<le> 1" and y1: "?y \<le> 1" using ab pq b q by (simp_all add: divide_le_eq)
  have ex: "\<bar>f64_round ?x - ?x\<bar> \<le> 1 / 2 ^ 53"
    by (rule f64_round_error_unit) (use x1 in simp_all)
  have ey: "\<bar>f64_round ?y - ?y\<bar> \<le> 1 / 2 ^ 53"
    by (rule f64_round_error_unit) (use y1 in simp_all)
  have gap: "1 / 2 ^ 51 \<le> \<bar>?x - ?y\<bar>" if "?x \<noteq> ?y"
  proof -
    define z where "z = int a * int q - int p * int b"
    have eq: "?x - ?y = of_int z / of_nat (b * q)"
      using b q by (simp add: z_def field_simps)
    have "z \<noteq> 0"
    proof
      assume "z = 0"
      with eq have "?x - ?y = 0" by simp
      with that show False by simp
    qed
    then have "1 \<le> \<bar>z\<bar>" by linarith
    then have "(of_int 1 :: rat) \<le> of_int \<bar>z\<bar>" by (simp only: of_int_le_iff)
    moreover have "(of_nat (b * q) :: rat) \<le> of_nat (2 ^ 51)"
      using small by (simp only: of_nat_le_iff)
    ultimately have "(1 :: rat) / 2 ^ 51 \<le> \<bar>of_int z\<bar> / of_nat (b * q)"
      using b q by (intro frac_le) auto
    then show ?thesis unfolding eq abs_divide by simp
  qed
  show ?thesis
  proof (cases "?x = ?y")
    case False
    have "(2 :: rat) * (1 / 2 ^ 53) < 1 / 2 ^ 51" by simp
    with gap [OF False] ex ey show ?thesis by linarith
  qed simp
qed

end
