(* ===== verification/Window.thy ===== *)
theory Window
  imports Float64
begin

text \<open>
  The bounded sliding window of \<open>xai-circuit-breaker/src/window.rs\<close>: a queue of
  \<open>(timestamp, is_failure)\<close> samples with an incrementally maintained failure count.

  An \<open>Instant\<close> is the number of nanoseconds since the platform's least instant and a
  \<open>Duration\<close> a number of nanoseconds, so \<open>Instant::checked_sub\<close> fails exactly when the
  duration is larger. The counter \<open>failures\<close> is a 64-bit \<open>usize\<close>: its decrements would
  wrap below zero, and \<open>window_wf\<close> is the invariant that keeps it equal to the number of
  failed samples.

  The interface the breaker relies on is the locale \<open>sample_window\<close>, over the abstraction
  of a window to its list of samples; it is interpreted on the operations of this theory.
\<close>

type_synonym instant = nat
type_synonym duration = nat
type_synonym sample = "instant \<times> bool"

section \<open>Operations\<close>

definition MAX_WINDOW_ENTRIES :: nat where
  "MAX_WINDOW_ENTRIES = 10000"

record sliding_window =
  entries :: "sample list"
  failures :: u64

definition new_window :: sliding_window where
  "new_window = \<lparr>entries = [], failures = 0\<rparr>"

definition instant_checked_sub :: "instant \<Rightarrow> duration \<Rightarrow> instant option" where
  "instant_checked_sub t d = (if d \<le> t then Some (t - d) else None)"

text \<open>\<open>entries.pop_front()\<close> with the decrement that follows it in \<open>push\<close> and \<open>evict\<close>.\<close>

fun pop_sample :: "sample list \<Rightarrow> u64 \<Rightarrow> sample list \<times> u64" where
  "pop_sample [] n = ([], n)"
| "pop_sample ((ts, was_failure) # es) n = (es, if was_failure then n - 1 else n)"

definition push_sample :: "sliding_window \<Rightarrow> bool \<Rightarrow> instant \<Rightarrow> sliding_window" where
  "push_sample w is_failure t =
     (let (es, n) = (if MAX_WINDOW_ENTRIES \<le> length (entries w)
                     then pop_sample (entries w) (failures w)
                     else (entries w, failures w))
      in \<lparr>entries = es @ [(t, is_failure)], failures = (if is_failure then n + 1 else n)\<rparr>)"

fun evict_loop :: "instant \<Rightarrow> sample list \<Rightarrow> u64 \<Rightarrow> sample list \<times> u64" where
  "evict_loop cutoff [] n = ([], n)"
| "evict_loop cutoff ((ts, was_failure) # es) n =
     (if ts < cutoff then evict_loop cutoff es (if was_failure then n - 1 else n)
      else ((ts, was_failure) # es, n))"

definition evict :: "sliding_window \<Rightarrow> duration \<Rightarrow> instant \<Rightarrow> sliding_window" where
  "evict w window now =
     (case instant_checked_sub now window of
        None \<Rightarrow> w
      | Some cutoff \<Rightarrow>
          (let (es, n) = evict_loop cutoff (entries w) (failures w)
           in \<lparr>entries = es, failures = n\<rparr>))"

definition error_rate :: "sliding_window \<Rightarrow> rat" where
  "error_rate w =
     (if entries w = [] then 0
      else f64_div (f64_of_nat (unat (failures w))) (f64_of_nat (length (entries w))))"

definition sample_count :: "sliding_window \<Rightarrow> nat" where
  "sample_count w = length (entries w)"

definition clear_window :: "sliding_window \<Rightarrow> sliding_window" where
  "clear_window w = \<lparr>entries = [], failures = 0\<rparr>"

section \<open>The interface\<close>

definition failure_count :: "sample list \<Rightarrow> nat" where
  "failure_count es = length (filter snd es)"

text \<open>The newest \<open>n\<close> elements, and the samples not older than a cutoff.\<close>

definition newest :: "nat \<Rightarrow> 'a list \<Rightarrow> 'a list" where
  "newest n xs = drop (length xs - n) xs"

definition live :: "instant \<Rightarrow> duration \<Rightarrow> sample list \<Rightarrow> sample list" where
  "live now window es = dropWhile (\<lambda>(ts, _). ts + window < now) es"

locale sample_window =
  fixes samples :: "'w \<Rightarrow> sample list"
    and wf :: "'w \<Rightarrow> bool"
    and cap :: nat
    and empty :: 'w
    and push :: "'w \<Rightarrow> bool \<Rightarrow> instant \<Rightarrow> 'w"
    and expire :: "'w \<Rightarrow> duration \<Rightarrow> instant \<Rightarrow> 'w"
    and size_of :: "'w \<Rightarrow> nat"
    and rate :: "'w \<Rightarrow> rat"
  assumes cap_pos: "0 < cap"
    and wf_empty: "wf empty"
    and wf_push: "wf w \<Longrightarrow> wf (push w f t)"
    and wf_expire: "wf w \<Longrightarrow> wf (expire w d t)"
    and samples_empty: "samples empty = []"
    and samples_push: "wf w \<Longrightarrow> samples (push w f t) = newest cap (samples w @ [(t, f)])"
    and samples_expire: "wf w \<Longrightarrow> samples (expire w d t) = live t d (samples w)"
    and size_of_samples: "wf w \<Longrightarrow> size_of w = length (samples w)"
    and bounded: "wf w \<Longrightarrow> length (samples w) \<le> cap"
    and rate_samples: "wf w \<Longrightarrow> samples w \<noteq> [] \<Longrightarrow>
      rate w = f64_round (of_nat (failure_count (samples w)) / of_nat (length (samples w)))"
    and rate_empty: "wf w \<Longrightarrow> samples w = [] \<Longrightarrow> rate w = 0"
begin

text \<open>One \<open>record\<close> of the breaker: push, then evict.\<close>

definition observe :: "duration \<Rightarrow> 'w \<Rightarrow> sample \<Rightarrow> 'w" where
  "observe d w s = expire (push w (snd s) (fst s)) d (fst s)"

lemma wf_observe: "wf w \<Longrightarrow> wf (observe d w s)"
  by (simp add: observe_def wf_push wf_expire)

lemma samples_observe:
  "wf w \<Longrightarrow> samples (observe d w s) = live (fst s) d (newest cap (samples w @ [s]))"
  by (simp add: observe_def wf_push samples_push samples_expire)

text \<open>The newest sample survives its own eviction.\<close>

lemma dropWhile_snoc_keep: "\<not> P x \<Longrightarrow> dropWhile P (xs @ [x]) = dropWhile P xs @ [x]"
  by (induction xs) auto

lemma observe_keeps_newest:
  assumes "wf w"
  shows "\<exists>es. samples (observe d w s) = es @ [s]"
proof -
  have "newest cap (samples w @ [s]) = drop (Suc (length (samples w)) - cap) (samples w) @ [s]"
    using cap_pos by (simp add: newest_def)
  moreover have "\<not> fst s + d < fst s" by simp
  ultimately show ?thesis
    using assms by (cases s) (simp add: samples_observe live_def dropWhile_snoc_keep)
qed

lemma size_of_observe:
  assumes "wf w" shows "0 < size_of (observe d w s)" and "size_of (observe d w s) \<le> cap"
proof -
  have "wf (observe d w s)" using assms by (rule wf_observe)
  then show "size_of (observe d w s) \<le> cap" by (simp add: size_of_samples bounded)
  obtain es where "samples (observe d w s) = es @ [s]"
    using observe_keeps_newest [OF assms] by blast
  with \<open>wf (observe d w s)\<close> show "0 < size_of (observe d w s)" by (simp add: size_of_samples)
qed

text \<open>
  The binary64 comparison of the rate with a rounded threshold \<open>p / q\<close> is the exact
  comparison \<open>p * size \<le> q * failures\<close>.
\<close>

lemma failure_count_le: "failure_count es \<le> length es"
  by (simp add: failure_count_def)

lemma rate_compare:
  assumes "wf w" and "samples w \<noteq> []" and "p \<le> q" and "0 < q" and "cap * q \<le> 2 ^ 51"
  shows "f64_round (of_nat p / of_nat q) \<le> rate w \<longleftrightarrow>
         p * length (samples w) \<le> q * failure_count (samples w)"
proof -
  let ?n = "length (samples w)" and ?f = "failure_count (samples w)"
  have n: "0 < ?n" using assms(2) by simp
  have "?n * q \<le> 2 ^ 51"
    using bounded [OF assms(1)] assms(5) by (meson le_trans mult_le_mono1)
  then have "f64_round (of_nat p / of_nat q) \<le> f64_round (of_nat ?f / of_nat ?n) \<longleftrightarrow>
        (of_nat p / of_nat q :: rat) \<le> of_nat ?f / of_nat ?n"
    by (intro f64_round_compare n assms(3,4) failure_count_le)
  also have "\<dots> \<longleftrightarrow> (of_nat (p * ?n) :: rat) \<le> of_nat (q * ?f)"
    using n assms(4) by (simp add: field_simps)
  finally show ?thesis by (simp only: rate_samples [OF assms(1,2)] of_nat_le_iff)
qed

end

section \<open>The model provides the interface\<close>

definition window_wf :: "sliding_window \<Rightarrow> bool" where
  "window_wf w \<longleftrightarrow>
     length (entries w) \<le> MAX_WINDOW_ENTRIES \<and> failures w = of_nat (failure_count (entries w))"

lemma failure_count_simps [simp]:
  "failure_count [] = 0"
  "failure_count ((t, f) # es) = (if f then Suc (failure_count es) else failure_count es)"
  "failure_count (es @ es') = failure_count es + failure_count es'"
  by (simp_all add: failure_count_def)

lemma pop_sample_spec:
  "pop_sample es (of_nat (failure_count es)) = (tl es, of_nat (failure_count (tl es)))"
  by (cases es) auto

lemma evict_loop_spec:
  "evict_loop c es (of_nat (failure_count es)) =
     (dropWhile (\<lambda>(ts, _). ts < c) es,
      of_nat (failure_count (dropWhile (\<lambda>(ts, _). ts < c) es)))"
  by (induction es) auto

lemma window_wf_failures:
  assumes "window_wf w"
  shows "unat (failures w) = failure_count (entries w)"
proof -
  have "failure_count (entries w) < 2 ^ 64"
    using assms by (auto simp: window_wf_def failure_count_def MAX_WINDOW_ENTRIES_def
        intro: le_less_trans [OF length_filter_le])
  then show ?thesis using assms by (simp add: window_wf_def unat_of_nat)
qed

lemma newest_snoc_full: "length xs = n \<Longrightarrow> xs \<noteq> [] \<Longrightarrow> newest n (xs @ [x]) = tl xs @ [x]"
  by (cases xs) (auto simp: newest_def)

lemma newest_snoc_room: "length xs < n \<Longrightarrow> newest n (xs @ [x]) = xs @ [x]"
  by (simp add: newest_def)

lemma entries_push_sample:
  assumes "window_wf w"
  shows "entries (push_sample w f t) = newest MAX_WINDOW_ENTRIES (entries w @ [(t, f)])"
proof (cases "MAX_WINDOW_ENTRIES \<le> length (entries w)")
  case True
  with assms have "length (entries w) = MAX_WINDOW_ENTRIES" by (simp add: window_wf_def)
  moreover from this have "entries w \<noteq> []" by (auto simp: MAX_WINDOW_ENTRIES_def)
  ultimately show ?thesis
    using assms by (simp add: push_sample_def window_wf_def pop_sample_spec newest_snoc_full)
next
  case False
  then show ?thesis by (simp add: push_sample_def newest_snoc_room)
qed

lemma window_wf_push: "window_wf w \<Longrightarrow> window_wf (push_sample w f t)"
  by (cases "entries w")
    (auto simp: push_sample_def window_wf_def pop_sample_spec MAX_WINDOW_ENTRIES_def)

lemma entries_evict: "window_wf w \<Longrightarrow> entries (evict w d t) = live t d (entries w)"
proof (cases "d \<le> t")
  case True
  then have "(\<lambda>(ts :: nat, _ :: bool). ts < t - d) = (\<lambda>(ts, _). ts + d < t)"
    by (auto simp: fun_eq_iff)
  moreover assume "window_wf w"
  ultimately show ?thesis
    using True by (simp add: evict_def instant_checked_sub_def window_wf_def evict_loop_spec live_def)
next
  case False
  then have "dropWhile (\<lambda>(ts :: nat, _ :: bool). ts + d < t) (entries w) = entries w"
    by (cases "entries w") auto
  with False show ?thesis by (simp add: evict_def instant_checked_sub_def live_def)
qed

lemma window_wf_evict: "window_wf w \<Longrightarrow> window_wf (evict w d t)"
  by (auto simp: evict_def instant_checked_sub_def window_wf_def evict_loop_spec
      intro: le_trans [OF length_dropWhile_le])

lemma error_rate_entries:
  assumes "window_wf w" and "entries w \<noteq> []"
  shows "error_rate w =
    f64_round (of_nat (failure_count (entries w)) / of_nat (length (entries w)))"
proof -
  have "length (entries w) < 2 ^ 53" "failure_count (entries w) < 2 ^ 53"
    using assms(1) by (auto simp: window_wf_def failure_count_def MAX_WINDOW_ENTRIES_def
        intro: le_less_trans [OF length_filter_le])
  then show ?thesis
    using assms by (simp add: error_rate_def window_wf_failures f64_of_nat_exact f64_div_def)
qed

lemma error_rate_Nil: "entries w = [] \<Longrightarrow> error_rate w = 0"
  by (simp add: error_rate_def)

lemma window_wf_bounded: "window_wf w \<Longrightarrow> length (entries w) \<le> MAX_WINDOW_ENTRIES"
  by (simp add: window_wf_def)

interpretation win: sample_window entries window_wf MAX_WINDOW_ENTRIES new_window
  push_sample evict sample_count error_rate
proof
  show "0 < MAX_WINDOW_ENTRIES" by (simp add: MAX_WINDOW_ENTRIES_def)
  show "window_wf new_window" by (simp add: window_wf_def new_window_def)
  show "entries new_window = []" by (simp add: new_window_def)
qed (simp_all add: window_wf_push window_wf_evict entries_push_sample entries_evict
      sample_count_def error_rate_entries error_rate_Nil window_wf_bounded)

lemma clear_window_eq: "clear_window w = new_window"
  by (simp add: clear_window_def new_window_def)

end
