(* ===== verification/RustStr.thy ===== *)
theory RustStr
  imports Prelude
begin

text \<open>
  Rust strings. A \<open>String\<close> or \<open>&str\<close> is the list of its Unicode scalar values (its
  \<open>chars()\<close>), each a natural number; \<open>byte_len\<close> is \<open>str::len\<close>, the length of the UTF-8
  encoding. The standard-library functions the program uses on strings are defined here,
  each under its Rust name: \<open>trim\<close>, \<open>trim_end\<close>, \<open>split\<close> on a character, \<open>lines\<close>,
  \<open>strip_prefix\<close>, \<open>starts_with\<close>, \<open>ends_with\<close>, \<open>find\<close> and \<open>join\<close>.
\<close>

type_synonym rchar = nat
type_synonym rstr = "rchar list"

section \<open>Characters\<close>

definition lit :: "string \<Rightarrow> rstr" where
  "lit s = map of_char s"

abbreviation newline :: rchar where "newline \<equiv> 10"
abbreviation carriage_return :: rchar where "carriage_return \<equiv> 13"

text \<open>The Unicode \<open>White_Space\<close> property, which \<open>char::is_whitespace\<close> tests.\<close>

definition is_whitespace :: "rchar \<Rightarrow> bool" where
  "is_whitespace c \<longleftrightarrow>
     (9 \<le> c \<and> c \<le> 13) \<or> c = 0x20 \<or> c = 0x85 \<or> c = 0xA0 \<or> c = 0x1680 \<or>
     (0x2000 \<le> c \<and> c \<le> 0x200A) \<or> c = 0x2028 \<or> c = 0x2029 \<or> c = 0x202F \<or>
     c = 0x205F \<or> c = 0x3000"

lemma is_whitespace_code [code]:
  "is_whitespace c \<longleftrightarrow>
     (if c < 0x80 then 9 \<le> c \<and> c \<le> 13 \<or> c = 0x20
      else c \<in> {0x85, 0xA0, 0x1680, 0x2028, 0x2029, 0x202F, 0x205F, 0x3000} \<or> 0x2000 \<le> c \<and> c \<le> 0x200A)"
  by (auto simp: is_whitespace_def)

text \<open>\<open>char::len_utf8\<close>, and \<open>str::len\<close> in bytes.\<close>

definition len_utf8 :: "rchar \<Rightarrow> nat" where
  "len_utf8 c = (if c < 0x80 then 1 else if c < 0x800 then 2 else if c < 0x10000 then 3 else 4)"

definition byte_len :: "rstr \<Rightarrow> nat" where
  "byte_len s = sum_list (map len_utf8 s)"

section \<open>Operations\<close>

definition trim_start :: "rstr \<Rightarrow> rstr" where
  "trim_start s = dropWhile is_whitespace s"

definition trim_end :: "rstr \<Rightarrow> rstr" where
  "trim_end s = rev (dropWhile is_whitespace (rev s))"

definition trim :: "rstr \<Rightarrow> rstr" where
  "trim s = trim_end (trim_start s)"

definition starts_with :: "rstr \<Rightarrow> rstr \<Rightarrow> bool" where
  "starts_with p s \<longleftrightarrow> take (length p) s = p"

definition ends_with :: "rstr \<Rightarrow> rstr \<Rightarrow> bool" where
  "ends_with p s \<longleftrightarrow> starts_with (rev p) (rev s)"

definition strip_prefix :: "rstr \<Rightarrow> rstr \<Rightarrow> rstr option" where
  "strip_prefix p s = (if starts_with p s then Some (drop (length p) s) else None)"

text \<open>\<open>s.split(d)\<close> for a single character: always at least one piece.\<close>

fun split_char :: "rchar \<Rightarrow> rstr \<Rightarrow> rstr list" where
  "split_char d [] = [[]]"
| "split_char d (c # s) =
     (if c = d then [] # split_char d s
      else (case split_char d s of [] \<Rightarrow> [[c]] | w # ws \<Rightarrow> (c # w) # ws))"

text \<open>
  \<open>s.lines()\<close>: the pieces between line feeds; a carriage return right before a line feed
  belongs to the line ending, and a final piece that is empty is not a line.
\<close>

definition strip_cr :: "rstr \<Rightarrow> rstr" where
  "strip_cr l = (if l \<noteq> [] \<and> last l = carriage_return then butlast l else l)"

definition lines :: "rstr \<Rightarrow> rstr list" where
  "lines s =
     (let ps = split_char newline s
      in map strip_cr (butlast ps) @ (if last ps = [] then [] else [last ps]))"

text \<open>\<open>parts.join(sep)\<close>.\<close>

fun join :: "rstr \<Rightarrow> rstr list \<Rightarrow> rstr" where
  "join sep [] = []"
| "join sep [x] = x"
| "join sep (x # y # zs) = x @ sep @ join sep (y # zs)"

text \<open>\<open>s.find(pat)\<close>: the position of the first occurrence, counted in characters.\<close>

fun find_str :: "rstr \<Rightarrow> rstr \<Rightarrow> nat option" where
  "find_str p [] = (if p = [] then Some 0 else None)"
| "find_str p (c # s) =
     (if starts_with p (c # s) then Some 0 else map_option Suc (find_str p s))"

text \<open>\<open>FromStr\<close> of the unsigned integers.\<close>

definition digit_value :: "rchar \<Rightarrow> nat option" where
  "digit_value c = (if 48 \<le> c \<and> c \<le> 57 then Some (c - 48) else None)"

fun digits_value :: "nat \<Rightarrow> rstr \<Rightarrow> nat option" where
  "digits_value acc [] = Some acc"
| "digits_value acc (c # s) =
     (case digit_value c of None \<Rightarrow> None | Some v \<Rightarrow> digits_value (10 * acc + v) s)"

text \<open>An unsigned integer: an optional plus sign, at least one digit, no overflow.\<close>

definition parse_uint :: "nat \<Rightarrow> rstr \<Rightarrow> nat option" where
  "parse_uint bits s =
     (let ds = (case s of c # r \<Rightarrow> if c = 43 then r else s | [] \<Rightarrow> [])
      in if ds = [] then None
         else case digits_value 0 ds of
                None \<Rightarrow> None
              | Some v \<Rightarrow> if v < 2 ^ bits then Some v else None)"

definition lower_ascii :: "rchar \<Rightarrow> rchar" where
  "lower_ascii c = (if 65 \<le> c \<and> c \<le> 90 then c + 32 else c)"

definition to_ascii_lowercase :: "rstr \<Rightarrow> rstr" where
  "to_ascii_lowercase s = map lower_ascii s"

text \<open>The decimal digits that \<open>{}\<close> prints for an unsigned integer.\<close>

fun decimal :: "nat \<Rightarrow> rstr" where
  "decimal n = (if n < 10 then [48 + n] else decimal (n div 10) @ [48 + n mod 10])"

declare decimal.simps [simp del]

section \<open>Lemmas\<close>

lemma lit_Nil [simp]: "lit [] = []"
  by (simp add: lit_def)

lemma lit_Cons [str_simps]: "lit (c # s) = of_char c # lit s"
  by (simp add: lit_def)

lemma lit_append [simp]: "lit (s @ t) = lit s @ lit t"
  by (simp add: lit_def)

lemma length_lit [simp]: "length (lit s) = length s"
  by (simp add: lit_def)

lemma byte_len_Nil [simp]: "byte_len [] = 0"
  by (simp add: byte_len_def)

lemma byte_len_Cons [simp]: "byte_len (c # s) = len_utf8 c + byte_len s"
  by (simp add: byte_len_def)

lemma byte_len_append [simp]: "byte_len (s @ t) = byte_len s + byte_len t"
  by (simp add: byte_len_def)

lemma len_utf8_pos [simp]: "0 < len_utf8 c"
  by (simp add: len_utf8_def)

lemma len_utf8_le: "len_utf8 c \<le> 4"
  by (simp add: len_utf8_def)

lemma length_le_byte_len: "length s \<le> byte_len s"
proof (induction s)
  case (Cons c s)
  then show ?case by (auto simp: len_utf8_def)
qed simp

lemma byte_len_le: "byte_len s \<le> 4 * length s"
proof (induction s)
  case (Cons c s)
  then show ?case using len_utf8_le [of c] by simp
qed simp

lemma byte_len_0_iff [simp]: "byte_len s = 0 \<longleftrightarrow> s = []"
  by (cases s) auto

lemma starts_with_Nil [simp]: "starts_with [] s"
  by (simp add: starts_with_def)

lemma starts_with_iff: "starts_with p s \<longleftrightarrow> (\<exists>r. s = p @ r)"
proof
  assume "starts_with p s"
  then have "s = p @ drop (length p) s"
    unfolding starts_with_def by (metis append_take_drop_id)
  then show "\<exists>r. s = p @ r" ..
qed (auto simp: starts_with_def)

lemma starts_with_append [simp]: "starts_with p (p @ r)"
  by (auto simp: starts_with_iff)

lemma starts_with_length: "starts_with p s \<Longrightarrow> length p \<le> length s"
  by (simp add: starts_with_def) (metis length_take min.cobounded1)

lemma ends_with_iff: "ends_with p s \<longleftrightarrow> (\<exists>r. s = r @ p)"
proof -
  have "(\<exists>r. rev s = rev p @ r) \<longleftrightarrow> (\<exists>r. s = r @ p)"
    by (metis rev_append rev_rev_ident)
  then show ?thesis by (simp add: ends_with_def starts_with_iff)
qed

lemma strip_prefix_Some_iff: "strip_prefix p s = Some r \<longleftrightarrow> s = p @ r"
  by (auto simp: strip_prefix_def starts_with_iff)

lemma strip_prefix_append [simp]: "strip_prefix p (p @ r) = Some r"
  by (simp add: strip_prefix_Some_iff)

lemma strip_prefix_None_iff: "strip_prefix p s = None \<longleftrightarrow> \<not> starts_with p s"
  by (simp add: strip_prefix_def)

lemma dropWhile_idem' [simp]: "dropWhile P (dropWhile P xs) = dropWhile P xs"
  by (induction xs) auto

lemma trim_end_idem [simp]: "trim_end (trim_end s) = trim_end s"
  by (simp add: trim_end_def)

lemma trim_end_Nil [simp]: "trim_end [] = []"
  by (simp add: trim_end_def)

lemma trim_Nil [simp]: "trim [] = []"
  by (simp add: trim_def trim_start_def)

lemma trim_end_snoc: "trim_end (s @ [c]) = (if is_whitespace c then trim_end s else s @ [c])"
  by (simp add: trim_end_def)

lemma trim_end_Cons:
  "trim_end (c # s) = (if trim_end s = [] \<and> is_whitespace c then [] else c # trim_end s)"
proof (induction s rule: rev_induct)
  case Nil
  show ?case by (simp add: trim_end_def)
next
  case (snoc x xs)
  show ?case
  proof (cases "is_whitespace x")
    case True
    have "trim_end (c # xs @ [x]) = trim_end (c # xs)"
      using trim_end_snoc [of "c # xs" x] True by simp
    then show ?thesis using snoc.IH True by (simp add: trim_end_snoc)
  next
    case False
    have "trim_end (c # xs @ [x]) = c # xs @ [x]"
      using trim_end_snoc [of "c # xs" x] False by simp
    then show ?thesis using False by (simp add: trim_end_snoc)
  qed
qed

lemma trim_start_trim_end: "trim_start (trim_end s) = trim_end (trim_start s)"
  by (induction s) (auto simp: trim_start_def trim_end_Cons)

lemma trim_alt: "trim s = trim_start (trim_end s)"
  by (simp add: trim_def trim_start_trim_end)

lemma trim_trim_end [simp]: "trim (trim_end s) = trim s"
  by (simp add: trim_alt)

lemma trim_start_idem [simp]: "trim_start (trim_start s) = trim_start s"
  by (simp add: trim_start_def)

lemma trim_idem [simp]: "trim (trim s) = trim s"
  by (simp add: trim_def trim_start_trim_end)

lemma trim_eq_if_trim_end_eq: "trim_end s = trim_end t \<Longrightarrow> trim s = trim t"
  by (simp add: trim_alt)

lemma split_char_nonempty [simp]: "split_char d s \<noteq> []"
  by (induction s) (auto split: list.splits)

lemma join_Cons: "zs \<noteq> [] \<Longrightarrow> join sep (x # zs) = x @ sep @ join sep zs"
  by (cases zs) auto

lemma join_split_char: "join [d] (split_char d s) = s"
proof (induction s)
  case (Cons c s)
  obtain w ws where w: "split_char d s = w # ws"
    using split_char_nonempty [of d s] by (cases "split_char d s") auto
  show ?case using Cons w by (cases ws) auto
qed simp

lemma split_char_no_sep: "d \<notin> set s \<Longrightarrow> split_char d s = [s]"
  by (induction s) auto

lemma split_char_append_sep:
  "d \<notin> set s \<Longrightarrow> split_char d (s @ d # t) = s # split_char d t"
  by (induction s) auto

lemma split_char_join:
  "xs \<noteq> [] \<Longrightarrow> \<forall>x \<in> set xs. d \<notin> set x \<Longrightarrow> split_char d (join [d] xs) = xs"
proof (induction xs)
  case (Cons x xs)
  show ?case
  proof (cases "xs = []")
    case True
    with Cons.prems show ?thesis by (simp add: split_char_no_sep)
  next
    case False
    with Cons.prems Cons.IH have "split_char d (join [d] xs) = xs" by simp
    with False Cons.prems show ?thesis by (simp add: join_Cons split_char_append_sep)
  qed
qed simp

lemma split_char_pieces: "x \<in> set (split_char d s) \<Longrightarrow> d \<notin> set x"
proof (induction s arbitrary: x)
  case (Cons c s)
  then show ?case by (cases "split_char d s") (auto split: if_splits)
qed simp

lemma trim_eq_Nil_iff: "trim s = [] \<longleftrightarrow> list_all is_whitespace s"
proof -
  have "trim_end t = [] \<longleftrightarrow> list_all is_whitespace t" for t
    by (induction t) (auto simp: trim_end_Cons)
  then show ?thesis
    by (induction s) (auto simp: trim_def trim_start_def trim_end_Cons)
qed

lemma trim_end_last: "s \<noteq> [] \<Longrightarrow> trim_end s = s \<longleftrightarrow> \<not> is_whitespace (last s)"
proof (induction s rule: rev_induct)
  case (snoc c s)
  show ?case
  proof (cases "is_whitespace c")
    case True
    have "length (trim_end s) \<le> length s"
      by (simp add: trim_end_def length_dropWhile_le le_trans [OF length_dropWhile_le])
    then have "trim_end s \<noteq> s @ [c]" by auto
    with True show ?thesis by (simp add: trim_end_snoc)
  qed (simp add: trim_end_snoc)
qed simp

lemma trim_noop: "s \<noteq> [] \<Longrightarrow> \<not> is_whitespace (hd s) \<Longrightarrow> \<not> is_whitespace (last s) \<Longrightarrow> trim s = s"
  by (cases s) (simp_all add: trim_def trim_start_def trim_end_last del: last.simps)

lemma last_join: "xs \<noteq> [] \<Longrightarrow> last xs \<noteq> [] \<Longrightarrow> last (join sep xs) = last (last xs) \<and> join sep xs \<noteq> []"
proof (induction xs)
  case (Cons x xs)
  then show ?case by (cases "xs = []") (auto simp: join_Cons)
qed simp

lemma hd_join: "xs \<noteq> [] \<Longrightarrow> hd xs \<noteq> [] \<Longrightarrow> hd (join sep xs) = hd (hd xs)"
  by (cases xs; cases "tl xs = []") (auto simp: join_Cons)

lemma join_snoc: "xs \<noteq> [] \<Longrightarrow> join sep (xs @ [y]) = join sep xs @ sep @ y"
proof (induction xs)
  case (Cons x xs)
  then show ?case by (cases "xs = []") (simp_all add: join_Cons)
qed simp

lemma join_append: "xs \<noteq> [] \<Longrightarrow> ys \<noteq> [] \<Longrightarrow> join sep (xs @ ys) = join sep xs @ sep @ join sep ys"
  by (induction sep xs rule: join.induct) (auto simp: join_Cons)

lemma join_snoc_Nil: "join [d] (xs @ [[]]) = concat (map (\<lambda>l. l @ [d]) xs)"
  by (induction xs) (auto simp: join_Cons)

lemma lines_join:
  assumes "xs \<noteq> []" and "last xs \<noteq> []" and "\<forall>x \<in> set xs. newline \<notin> set x \<and> strip_cr x = x"
  shows "lines (join [newline] xs) = xs"
proof -
  have "split_char newline (join [newline] xs) = xs"
    using assms by (intro split_char_join) auto
  moreover have "map strip_cr (butlast xs) = butlast xs"
    using assms(3) by (intro map_idI) (auto dest: in_set_butlastD)
  ultimately show ?thesis using assms(1,2) by (simp add: lines_def Let_def)
qed

lemma digits_value_append:
  "digits_value acc (s @ t) = (case digits_value acc s of None \<Rightarrow> None | Some v \<Rightarrow> digits_value v t)"
  by (induction s arbitrary: acc) (auto split: option.splits)

lemma digits_value_decimal: "digits_value 0 (decimal n) = Some n"
proof (induction n rule: decimal.induct)
  case (1 n)
  show ?case
  proof (cases "n < 10")
    case True
    then show ?thesis by (simp add: decimal.simps [of n] digit_value_def)
  next
    case False
    then have "digits_value 0 (decimal (n div 10)) = Some (n div 10)" using 1 by simp
    with False show ?thesis
      by (simp add: decimal.simps [of n] digits_value_append digit_value_def)
  qed
qed

lemma decimal_first: "decimal n \<noteq> [] \<and> 48 \<le> hd (decimal n)"
proof (induction n rule: decimal.induct)
  case (1 n)
  then show ?case by (cases "n < 10") (simp_all add: decimal.simps [of n])
qed

lemma parse_uint_decimal:
  assumes "n < 2 ^ bits"
  shows "parse_uint bits (decimal n) = Some n"
proof -
  obtain c s where cs: "decimal n = c # s" "48 \<le> c" using decimal_first [of n] by (cases "decimal n") auto
  then have e: "(case decimal n of c # r \<Rightarrow> if c = 43 then r else decimal n | [] \<Rightarrow> []) = decimal n" by auto
  have "decimal n \<noteq> []" using cs by simp
  with assms show ?thesis unfolding parse_uint_def Let_def e digits_value_decimal by simp
qed

end
