(* ===== verification/BreakerConfig.thy ===== *)
theory BreakerConfig
  imports Float64 RustStr
begin

text \<open>
  Configuration of the circuit breaker (\<open>xai-circuit-breaker/src/config.rs\<close>) and the
  HTTP retry policy (\<open>src/retry_policy.rs\<close>), with the gRPC one (\<open>src/grpc.rs\<close>).
  Durations are nanoseconds. The environment is a lookup function
  from keys to values, as in \<open>from_lookup_with_prefix\<close>; the values are parsed with the
  \<open>FromStr\<close> implementations of \<open>u16\<close>, \<open>u64\<close>/\<open>usize\<close>, \<open>bool\<close> and \<open>f64\<close>, modelled below.
\<close>

section \<open>FromStr of the standard library\<close>

definition parse_bool :: "rstr \<Rightarrow> bool option" where
  "parse_bool s = (if s = lit ''true'' then Some True else if s = lit ''false'' then Some False else None)"

text \<open>
  A decimal: optional sign, digits with an optional point (at least one digit), optional
  exponent; or \<open>inf\<close>, \<open>infinity\<close>, \<open>nan\<close> in any case. The value is rounded to binary64:
  above the largest finite value to an infinity, below the normal range to a multiple of
  \<open>2 powi (-1074)\<close>.
\<close>

definition is_digit :: "rchar \<Rightarrow> bool" where
  "is_digit c \<longleftrightarrow> 48 \<le> c \<and> c \<le> 57"

definition digits_nat :: "rstr \<Rightarrow> nat" where
  "digits_nat s = foldl (\<lambda>a c. 10 * a + (c - 48)) 0 s"

definition parse_exponent :: "rstr \<Rightarrow> int option" where
  "parse_exponent s =
     (case s of
        [] \<Rightarrow> Some 0
      | c # r \<Rightarrow>
          if c = 101 \<or> c = 69 then
            (let neg = (r \<noteq> [] \<and> hd r = 45);
                 ds = (if r \<noteq> [] \<and> (hd r = 45 \<or> hd r = 43) then tl r else r)
             in if ds \<noteq> [] \<and> list_all is_digit ds
                then Some (if neg then - int (digits_nat ds) else int (digits_nat ds))
                else None)
          else None)"

definition f64_of_rat :: "rat \<Rightarrow> f64" where
  "f64_of_rat x =
     (if 2 ^ 1024 - 2 ^ 970 \<le> x then PosInf
      else if 0 < x \<and> x < 2 powi (-1022)
           then Finite (of_int (round_half_even (x * 2 ^ 1074)) / 2 ^ 1074)
           else Finite (f64_round x))"

fun f64_neg :: "f64 \<Rightarrow> f64" where
  "f64_neg (Finite x) = Finite (- x)"
| "f64_neg PosInf = NegInf"
| "f64_neg NegInf = PosInf"
| "f64_neg NaN = NaN"

definition parse_f64_unsigned :: "rstr \<Rightarrow> f64 option" where
  "parse_f64_unsigned s =
     (let low = map lower_ascii s
      in if low = lit ''inf'' \<or> low = lit ''infinity'' then Some PosInf
         else if low = lit ''nan'' then Some NaN
         else
           (let ip = takeWhile is_digit s;
                r1 = dropWhile is_digit s;
                (fp, r2) = (case r1 of
                    c # r \<Rightarrow> if c = 46 then (takeWhile is_digit r, dropWhile is_digit r) else ([], r1)
                  | [] \<Rightarrow> ([], []))
            in if ip = [] \<and> fp = [] then None
               else case parse_exponent r2 of
                      None \<Rightarrow> None
                    | Some e \<Rightarrow>
                        Some (f64_of_rat (of_nat (digits_nat (ip @ fp)) * 10 powi (e - int (length fp))))))"

definition parse_f64 :: "rstr \<Rightarrow> f64 option" where
  "parse_f64 s =
     (case s of
        [] \<Rightarrow> None
      | c # r \<Rightarrow>
          if c = 45 then map_option f64_neg (parse_f64_unsigned r)
          else if c = 43 then parse_f64_unsigned r
          else parse_f64_unsigned s)"

section \<open>BreakerConfig\<close>

abbreviation secs :: "nat \<Rightarrow> nat" where "secs n \<equiv> n * 1000000000"
abbreviation millis :: "nat \<Rightarrow> nat" where "millis n \<equiv> n * 1000000"

definition DEFAULT_FAILURE_CODES :: "u16 list" where
  "DEFAULT_FAILURE_CODES = [429, 500, 502, 503, 504]"

record breaker_config =
  window_duration :: nat
  min_samples :: nat
  error_rate_threshold :: f64
  open_duration :: nat
  half_open_max_probes :: u64
  failure_codes :: "u16 set"
  enabled :: bool

definition default_failure_codes :: "u16 set" where
  "default_failure_codes = set DEFAULT_FAILURE_CODES"

definition server_config :: breaker_config where
  "server_config =
     \<lparr>window_duration = secs 60, min_samples = 10, error_rate_threshold = Finite (1 / 2),
      open_duration = secs 10, half_open_max_probes = 1,
      failure_codes = default_failure_codes, enabled = True\<rparr>"

definition client_config :: breaker_config where
  "client_config =
     \<lparr>window_duration = secs 60, min_samples = 5, error_rate_threshold = Finite (1 / 2),
      open_duration = secs 60, half_open_max_probes = 1,
      failure_codes = {401}, enabled = True\<rparr>"

definition parse_failure_codes :: "rstr \<Rightarrow> u16 set" where
  "parse_failure_codes s =
     set (List.map_filter (\<lambda>c. map_option of_nat (parse_uint 16 (trim c))) (split_char 44 s))"

definition lookup_or ::
  "(rstr \<Rightarrow> rstr option) \<Rightarrow> (rstr \<Rightarrow> 'a option) \<Rightarrow> rstr \<Rightarrow> 'a \<Rightarrow> 'a" where
  "lookup_or get parse key dflt =
     (case get key of
        Some v \<Rightarrow> (case parse v of Some parsed \<Rightarrow> parsed | None \<Rightarrow> dflt)
      | None \<Rightarrow> dflt)"

definition from_lookup_with_prefix :: "rstr \<Rightarrow> (rstr \<Rightarrow> rstr option) \<Rightarrow> breaker_config" where
  "from_lookup_with_prefix prefix get =
     (let key = (\<lambda>k. prefix @ lit k);
          codes = (case get (key ''FAILURE_CODES'') of
                     Some raw \<Rightarrow> (let codes = parse_failure_codes raw
                                  in if codes = {} then default_failure_codes else codes)
                   | None \<Rightarrow> default_failure_codes)
      in \<lparr>window_duration = secs (lookup_or get (parse_uint 64) (key ''WINDOW_SECS'') 60),
          min_samples = lookup_or get (parse_uint 64) (key ''MIN_SAMPLES'') 10,
          error_rate_threshold = lookup_or get parse_f64 (key ''ERROR_RATE_THRESHOLD'') (Finite (1 / 2)),
          open_duration = secs (lookup_or get (parse_uint 64) (key ''OPEN_DURATION_SECS'') 10),
          half_open_max_probes =
            max (of_nat (lookup_or get (parse_uint 64) (key ''HALF_OPEN_MAX_PROBES'') 1)) 1,
          failure_codes = codes,
          enabled = lookup_or get parse_bool (key ''ENABLED'') True\<rparr>)"

definition is_failure_status :: "breaker_config \<Rightarrow> u16 \<Rightarrow> bool" where
  "is_failure_status c status \<longleftrightarrow> status \<in> failure_codes c"

section \<open>RetryPolicy\<close>

datatype disposition = Retryable | AuthRefresh | Terminal

record retry_policy =
  retryable :: "u16 list"
  auth_refresh :: "u16 list"
  terminal :: "u16 list"
  default_disposition :: disposition

definition classify :: "retry_policy \<Rightarrow> u16 \<Rightarrow> disposition option" where
  "classify p status =
     (if 200 \<le> status \<and> status < 300 then None
      else if status \<in> set (auth_refresh p) then Some AuthRefresh
      else if status \<in> set (terminal p) then Some Terminal
      else if status \<in> set (retryable p) \<or> (500 \<le> status \<and> status < 600) then Some Retryable
      else Some (default_disposition p))"

definition should_retry :: "retry_policy \<Rightarrow> u16 \<Rightarrow> bool" where
  "should_retry p status \<longleftrightarrow> classify p status = Some Retryable"

definition server_policy :: retry_policy where
  "server_policy =
     \<lparr>retryable = [429], auth_refresh = [], terminal = [], default_disposition = Terminal\<rparr>"

definition client_storage_policy :: retry_policy where
  "client_storage_policy =
     \<lparr>retryable = [], auth_refresh = [401], terminal = [400, 403, 404],
      default_disposition = Retryable\<rparr>"

text \<open>The status codes of gRPC, which \<open>tonic::Code\<close> enumerates.\<close>

datatype grpc_code =
  Ok | Cancelled | Unknown | InvalidArgument | DeadlineExceeded | NotFound | AlreadyExists
| PermissionDenied | ResourceExhausted | FailedPrecondition | Aborted | OutOfRange
| Unimplemented | Internal | Unavailable | DataLoss | Unauthenticated

definition grpc_default :: "grpc_code list" where
  "grpc_default = [Unavailable, Unknown]"

definition grpc_permissive :: "grpc_code list" where
  "grpc_permissive = [Unavailable, Unknown, Internal, DeadlineExceeded]"

definition grpc_is_retryable :: "grpc_code list \<Rightarrow> grpc_code \<Rightarrow> bool" where
  "grpc_is_retryable p c \<longleftrightarrow> c \<in> set p"

definition grpc_classify :: "grpc_code list \<Rightarrow> grpc_code \<Rightarrow> disposition option" where
  "grpc_classify p c =
     (if c = Ok then None
      else if grpc_is_retryable p c then Some Retryable
      else Some Terminal)"

section \<open>Lemmas\<close>

lemma lookup_or_None [simp]: "get key = None \<Longrightarrow> lookup_or get parse key dflt = dflt"
  by (simp add: lookup_or_def)

lemma default_failure_codes_nonempty [simp]: "default_failure_codes \<noteq> {}"
  by (simp add: default_failure_codes_def DEFAULT_FAILURE_CODES_def)

section \<open>Properties\<close>

text \<open>Whatever the environment holds, the loaded configuration is usable: at least one
  half-open probe slot and a non-empty set of failure codes; each invalid or missing value
  falls back to its default, so that an environment without any of the keys gives the
  server preset.\<close>

theorem from_lookup_usable:
  "1 \<le> half_open_max_probes (from_lookup_with_prefix prefix get) \<and>
   failure_codes (from_lookup_with_prefix prefix get) \<noteq> {} \<and>
   from_lookup_with_prefix prefix (\<lambda>_. None) = server_config"
  by (simp add: from_lookup_with_prefix_def Let_def server_config_def split: option.split)

text \<open>The retry presets classify every status as documented: the server preset retries
  exactly 429 and 5xx; the client storage preset refreshes credentials exactly on 401,
  drops exactly 400, 403 and 404, and retries every other status outside 2xx; a status is
  left unclassified exactly when it is 2xx.\<close>

theorem retry_presets:
  "(should_retry server_policy status \<longleftrightarrow> status = 429 \<or> (500 \<le> status \<and> status < 600)) \<and>
   (classify client_storage_policy status = Some AuthRefresh \<longleftrightarrow> status = 401) \<and>
   (classify client_storage_policy status = Some Terminal \<longleftrightarrow> status \<in> {400, 403, 404}) \<and>
   (should_retry client_storage_policy status \<longleftrightarrow>
      \<not> (200 \<le> status \<and> status < 300) \<and> status \<notin> {400, 401, 403, 404}) \<and>
   (classify p status = None \<longleftrightarrow> 200 \<le> status \<and> status < 300)"
  by (auto simp: should_retry_def classify_def server_policy_def client_storage_policy_def
      word_le_nat_alt word_less_nat_alt split: if_splits)

end
