(* ===== verification/Breaker.thy ===== *)
theory Breaker
  imports Window BreakerConfig
begin

text \<open>
  The circuit breaker of \<open>xai-circuit-breaker/src/breaker.rs\<close> as a sequential state
  machine: the record \<open>breaker\<close> holds the fields of \<open>CircuitBreakerInner\<close>, and each
  method is a function on it. A method that reads the clock takes the readings as
  arguments, one per call of \<open>clock.now()\<close> on its longest path. The atomic cells have the
  width of the source (\<open>u8\<close> state cell, \<open>u64\<close> milliseconds, 64-bit \<open>usize\<close> probe
  counter, which wraps). The calls to the \<open>Observer\<close> are the list \<open>observed\<close>, oldest
  first. Interleavings of the same operations at the grain of single atomic accesses are
  the subject of theory \<open>BreakerConc\<close>.
\<close>

section \<open>State\<close>

datatype breaker_state = Closed | Open | HalfOpen

definition to_u8 :: "breaker_state \<Rightarrow> u8" where
  "to_u8 s = (case s of Closed \<Rightarrow> 0 | Open \<Rightarrow> 1 | HalfOpen \<Rightarrow> 2)"

definition from_u8 :: "u8 \<Rightarrow> breaker_state" where
  "from_u8 v = (if v = 0 then Closed else if v = 1 then Open else if v = 2 then HalfOpen else Closed)"

datatype outcome = Success | Failure

datatype obs_event =
  StateChange breaker_state breaker_state string
| ProbeAdmission bool
| OutcomeSeen outcome breaker_state

record breaker =
  config :: breaker_config
  state_cell :: u8
  baseline :: instant
  opened_at_millis :: u64
  half_open_probes :: u64
  probe_claimed_at_millis :: u64
  is_open_fast :: bool
  window :: sliding_window
  observed :: "obs_event list"

text \<open>\<open>BreakerOpen { retry_after }\<close>\<close>

type_synonym breaker_open = duration

definition with_clock :: "breaker_config \<Rightarrow> instant \<Rightarrow> breaker" where
  "with_clock c now =
     \<lparr>config = c\<lparr>half_open_max_probes := max (half_open_max_probes c) 1\<rparr>,
      state_cell = to_u8 Closed, baseline = now, opened_at_millis = 0, half_open_probes = 0,
      probe_claimed_at_millis = 0, is_open_fast = False, window = new_window, observed = []\<rparr>"

definition state :: "breaker \<Rightarrow> breaker_state" where
  "state b = from_u8 (state_cell b)"

definition is_open :: "breaker \<Rightarrow> bool" where
  "is_open b = is_open_fast b"

definition notify :: "obs_event \<Rightarrow> breaker \<Rightarrow> breaker" where
  "notify e b = b\<lparr>observed := observed b @ [e]\<rparr>"

definition elapsed_millis :: "breaker \<Rightarrow> instant \<Rightarrow> u64" where
  "elapsed_millis b now = of_nat ((now - baseline b) div 1000000)"

section \<open>Transitions\<close>

definition trip :: "breaker_state \<Rightarrow> string \<Rightarrow> instant \<Rightarrow> breaker \<Rightarrow> breaker" where
  "trip prev reason now b =
     (let b1 = b\<lparr>state_cell := to_u8 Open\<rparr>;
          b2 = b1\<lparr>opened_at_millis := elapsed_millis b1 now\<rparr>;
          b3 = b2\<lparr>half_open_probes := 0\<rparr>;
          b4 = b3\<lparr>is_open_fast := True\<rparr>
      in if prev \<noteq> Open then notify (StateChange prev Open reason) b4 else b4)"

definition close_breaker :: "breaker_state \<Rightarrow> string \<Rightarrow> breaker \<Rightarrow> breaker" where
  "close_breaker prev reason b =
     (let b1 = b\<lparr>state_cell := to_u8 Closed\<rparr>;
          b2 = b1\<lparr>window := clear_window (window b1)\<rparr>;
          b3 = b2\<lparr>half_open_probes := 0\<rparr>;
          b4 = b3\<lparr>is_open_fast := False\<rparr>
      in if prev \<noteq> Closed then notify (StateChange prev Closed reason) b4 else b4)"

definition HALF_OPEN_PROBE_BACKOFF :: duration where
  "HALF_OPEN_PROBE_BACKOFF = millis 50"

definition try_half_open_probe :: "instant \<Rightarrow> breaker \<Rightarrow> (breaker_open + unit) \<times> breaker" where
  "try_half_open_probe t b =
     (let now = elapsed_millis b t;
          prev = half_open_probes b;
          b1 = b\<lparr>half_open_probes := prev + 1\<rparr>
      in if prev < half_open_max_probes (config b) then
           (Inr (), notify (ProbeAdmission True) (b1\<lparr>probe_claimed_at_millis := now\<rparr>))
         else
           (let b2 = b1\<lparr>half_open_probes := half_open_probes b1 - 1\<rparr>;
                lease_millis = of_nat (open_duration (config b) div 1000000);
                claimed = probe_claimed_at_millis b2
            in if lease_millis \<le> sat_sub now claimed then
                 (Inr (), notify (ProbeAdmission True) (b2\<lparr>probe_claimed_at_millis := now\<rparr>))
               else
                 (Inl (min HALF_OPEN_PROBE_BACKOFF (open_duration (config b))),
                  notify (ProbeAdmission False) b2)))"

text \<open>\<open>cas_state\<close>: whether the exchange succeeded, and the breaker after it.\<close>

definition cas_state :: "breaker_state \<Rightarrow> breaker_state \<Rightarrow> breaker \<Rightarrow> bool \<times> breaker" where
  "cas_state from to b =
     (if state_cell b = to_u8 from then (True, b\<lparr>state_cell := to_u8 to\<rparr>) else (False, b))"

definition check_open :: "instant \<Rightarrow> instant \<Rightarrow> breaker \<Rightarrow> (breaker_open + unit) \<times> breaker" where
  "check_open t1 t2 b =
     (let opened = opened_at_millis b;
          now = elapsed_millis b t1;
          elapsed = millis (unat (sat_sub now opened))
      in if open_duration (config b) \<le> elapsed then
           (let (swapped, b1) = cas_state Open HalfOpen b
            in if swapped then
                 try_half_open_probe t2
                   (notify (StateChange Open HalfOpen ''open_elapsed'') (b1\<lparr>is_open_fast := False\<rparr>))
               else
                 (case state b1 of
                    Closed \<Rightarrow> (Inr (), b1)
                  | HalfOpen \<Rightarrow> try_half_open_probe t2 b1
                  | Open \<Rightarrow>
                      (let elapsed = millis (unat (sat_sub (elapsed_millis b1 t2) (opened_at_millis b1)))
                       in (Inl (open_duration (config b1) - elapsed), b1))))
         else (Inl (open_duration (config b) - elapsed), b))"

section \<open>The public operations\<close>

definition check :: "instant \<Rightarrow> instant \<Rightarrow> breaker \<Rightarrow> (breaker_open + unit) \<times> breaker" where
  "check t1 t2 b =
     (if \<not> enabled (config b) then (Inr (), b)
      else case state b of
             Closed \<Rightarrow> (Inr (), b)
           | Open \<Rightarrow> check_open t1 t2 b
           | HalfOpen \<Rightarrow> try_half_open_probe t1 b)"

definition should_trip :: "breaker_config \<Rightarrow> sliding_window \<Rightarrow> bool" where
  "should_trip c w \<longleftrightarrow>
     min_samples c \<le> sample_count w \<and> f64_le (error_rate_threshold c) (Finite (error_rate w))"

definition record_outcome :: "outcome \<Rightarrow> instant \<Rightarrow> instant \<Rightarrow> breaker \<Rightarrow> breaker" where
  "record_outcome oc now t2 b =
     (if \<not> enabled (config b) then b
      else
        (let is_failure = (oc = Failure);
             prev_state = state b;
             b1 = (case prev_state of
                     Closed \<Rightarrow>
                       (let w = evict (push_sample (window b) is_failure now)
                                  (window_duration (config b)) now;
                            bw = b\<lparr>window := w\<rparr>
                        in if should_trip (config b) w then trip prev_state ''trip'' t2 bw else bw)
                   | HalfOpen \<Rightarrow>
                       (if is_failure then trip prev_state ''probe_failure'' t2 b
                        else close_breaker prev_state ''probe_success'' b)
                   | Open \<Rightarrow>
                       b\<lparr>window := evict (push_sample (window b) is_failure now)
                                     (window_duration (config b)) now\<rparr>)
         in notify (OutcomeSeen oc (state b1)) b1))"

definition breaker_error_rate :: "instant \<Rightarrow> breaker \<Rightarrow> rat \<times> breaker" where
  "breaker_error_rate now b =
     (let w = evict (window b) (window_duration (config b)) now
      in (error_rate w, b\<lparr>window := w\<rparr>))"

definition breaker_is_failure_status :: "breaker \<Rightarrow> u16 \<Rightarrow> bool" where
  "breaker_is_failure_status b status = is_failure_status (config b) status"

definition force_half_open :: "breaker \<Rightarrow> breaker" where
  "force_half_open b =
     (let prev = state b;
          b1 = b\<lparr>state_cell := to_u8 HalfOpen, is_open_fast := False, half_open_probes := 0\<rparr>
      in if prev \<noteq> HalfOpen then notify (StateChange prev HalfOpen ''force_half_open'') b1 else b1)"

section \<open>Basic facts\<close>

named_theorems breaker_defs "definitions of the breaker's operations"

lemmas breaker_op_defs [breaker_defs] =
  trip_def close_breaker_def try_half_open_probe_def cas_state_def check_open_def check_def
  record_outcome_def breaker_error_rate_def notify_def state_def is_open_def

lemma from_to_u8 [simp]: "from_u8 (to_u8 s) = s"
  by (cases s) (simp_all add: to_u8_def from_u8_def)

lemma to_u8_inject [simp]: "to_u8 s = to_u8 s' \<longleftrightarrow> s = s'"
  by (metis from_to_u8)

lemma state_update_cell [simp]: "state (b\<lparr>state_cell := to_u8 s\<rparr>) = s"
  by (simp add: state_def)

lemma state_updates [simp]:
  "state (b\<lparr>window := w\<rparr>) = state b"
  "state (b\<lparr>half_open_probes := n\<rparr>) = state b"
  "state (b\<lparr>probe_claimed_at_millis := u\<rparr>) = state b"
  "state (b\<lparr>is_open_fast := x\<rparr>) = state b"
  "state (b\<lparr>opened_at_millis := u\<rparr>) = state b"
  "state (b\<lparr>observed := es\<rparr>) = state b"
  by (simp_all add: state_def)

lemma state_notify [simp]: "state (notify e b) = state b"
  by (simp add: notify_def)

lemma notify_fields [simp]:
  "config (notify e b) = config b" "state_cell (notify e b) = state_cell b"
  "baseline (notify e b) = baseline b" "opened_at_millis (notify e b) = opened_at_millis b"
  "half_open_probes (notify e b) = half_open_probes b"
  "probe_claimed_at_millis (notify e b) = probe_claimed_at_millis b"
  "is_open_fast (notify e b) = is_open_fast b" "window (notify e b) = window b"
  "observed (notify e b) = observed b @ [e]"
  by (simp_all add: notify_def)

lemma trip_fields [simp]:
  "state (trip prev r t b) = Open" "config (trip prev r t b) = config b"
  "baseline (trip prev r t b) = baseline b"
  "is_open_fast (trip prev r t b)" "half_open_probes (trip prev r t b) = 0"
  "window (trip prev r t b) = window b"
  "opened_at_millis (trip prev r t b) = elapsed_millis b t"
  "state_cell (trip prev r t b) = to_u8 Open"
  by (simp_all add: trip_def elapsed_millis_def state_def Let_def)

lemma close_fields [simp]:
  "state (close_breaker prev r b) = Closed" "config (close_breaker prev r b) = config b"
  "baseline (close_breaker prev r b) = baseline b"
  "is_open_fast (close_breaker prev r b) = False" "half_open_probes (close_breaker prev r b) = 0"
  "window (close_breaker prev r b) = new_window"
  "state_cell (close_breaker prev r b) = to_u8 Closed"
  by (simp_all add: close_breaker_def clear_window_eq state_def Let_def)

lemma with_clock_fields [simp]:
  "state (with_clock c t) = Closed" "baseline (with_clock c t) = t"
  "config (with_clock c t) = c\<lparr>half_open_max_probes := max (half_open_max_probes c) 1\<rparr>"
  "window (with_clock c t) = new_window" "half_open_probes (with_clock c t) = 0"
  "opened_at_millis (with_clock c t) = 0" "probe_claimed_at_millis (with_clock c t) = 0"
  "is_open_fast (with_clock c t) = False" "observed (with_clock c t) = []"
  by (simp_all add: with_clock_def state_def)

lemma force_half_open_fields [simp]:
  "state (force_half_open b) = HalfOpen" "baseline (force_half_open b) = baseline b"
  "config (force_half_open b) = config b" "window (force_half_open b) = window b"
  "half_open_probes (force_half_open b) = 0" "is_open_fast (force_half_open b) = False"
  "state_cell (force_half_open b) = to_u8 HalfOpen"
  "probe_claimed_at_millis (force_half_open b) = probe_claimed_at_millis b"
  by (simp_all add: force_half_open_def state_def Let_def)

text \<open>Outcome of one probe attempt, on each of its three branches.\<close>

lemma probe_cases:
  obtains (slot) "half_open_probes b < half_open_max_probes (config b)"
      and "try_half_open_probe t b =
        (Inr (), notify (ProbeAdmission True)
           (b\<lparr>half_open_probes := half_open_probes b + 1,
              probe_claimed_at_millis := elapsed_millis b t\<rparr>))"
  | (lease) "\<not> half_open_probes b < half_open_max_probes (config b)"
      and "of_nat (open_duration (config b) div 1000000)
             \<le> sat_sub (elapsed_millis b t) (probe_claimed_at_millis b)"
      and "try_half_open_probe t b =
        (Inr (), notify (ProbeAdmission True) (b\<lparr>probe_claimed_at_millis := elapsed_millis b t\<rparr>))"
  | (reject) "\<not> half_open_probes b < half_open_max_probes (config b)"
      and "\<not> of_nat (open_duration (config b) div 1000000)
             \<le> sat_sub (elapsed_millis b t) (probe_claimed_at_millis b)"
      and "try_half_open_probe t b =
        (Inl (min HALF_OPEN_PROBE_BACKOFF (open_duration (config b))),
         notify (ProbeAdmission False) b)"
  by (cases "half_open_probes b < half_open_max_probes (config b)";
      cases "of_nat (open_duration (config b) div 1000000)
             \<le> sat_sub (elapsed_millis b t) (probe_claimed_at_millis b)")
    (simp_all add: try_half_open_probe_def Let_def)

section \<open>Invariant\<close>

text \<open>
  What the fields promise each other: the lock-free mirror agrees with the state cell, the
  probe counter stays within the configured number of slots and is zero outside
  \<open>HalfOpen\<close>, and the window's counter is exact.
\<close>

definition breaker_inv :: "breaker \<Rightarrow> bool" where
  "breaker_inv b \<longleftrightarrow>
     state_cell b = to_u8 (state b) \<and> is_open_fast b = (state b = Open) \<and>
     1 \<le> half_open_max_probes (config b) \<and>
     half_open_probes b \<le> half_open_max_probes (config b) \<and>
     (state b \<noteq> HalfOpen \<longrightarrow> half_open_probes b = 0) \<and> window_wf (window b)"

lemma breaker_inv_with_clock: "breaker_inv (with_clock c t)"
  by (simp add: breaker_inv_def with_clock_def state_def win.wf_empty)

lemma breaker_inv_notify [simp]: "breaker_inv (notify e b) = breaker_inv b"
  by (simp add: breaker_inv_def)

lemma probe_inv:
  assumes "breaker_inv b" and "state b = HalfOpen"
  shows "breaker_inv (snd (try_half_open_probe t b))"
    and "state (snd (try_half_open_probe t b)) = HalfOpen"
    and "config (snd (try_half_open_probe t b)) = config b"
  by (cases rule: probe_cases [of b t]; use assms in \<open>auto simp: breaker_inv_def inc_le\<close>)+

lemma half_open_inv:
  assumes "breaker_inv b" and "state b = Open"
  shows "breaker_inv (b\<lparr>state_cell := to_u8 HalfOpen, is_open_fast := False\<rparr>)"
  using assms by (simp add: breaker_inv_def state_def)

lemma check_open_cases:
  assumes "breaker_inv b" and "state b = Open"
  shows "check_open t1 t2 b =
    (let elapsed = millis (unat (sat_sub (elapsed_millis b t1) (opened_at_millis b)))
     in if open_duration (config b) \<le> elapsed
        then try_half_open_probe t2
               (notify (StateChange Open HalfOpen ''open_elapsed'')
                 (b\<lparr>state_cell := to_u8 HalfOpen, is_open_fast := False\<rparr>))
        else (Inl (open_duration (config b) - elapsed), b))"
  using assms by (simp add: check_open_def cas_state_def breaker_inv_def Let_def)

lemma state_half_opened [simp]:
  "state (b\<lparr>state_cell := to_u8 HalfOpen, is_open_fast := False\<rparr>) = HalfOpen"
  by (simp add: state_def)

lemma check_inv:
  assumes "breaker_inv b"
  shows "breaker_inv (snd (check t1 t2 b))"
proof (cases "state b")
  case Open
  with assms half_open_inv [OF assms Open] show ?thesis
    by (simp add: check_def check_open_cases Let_def probe_inv)
next
  case HalfOpen
  with assms show ?thesis by (simp add: check_def probe_inv)
qed (use assms in \<open>simp_all add: check_def\<close>)

lemma record_inv:
  assumes "breaker_inv b"
  shows "breaker_inv (record_outcome oc t1 t2 b)"
proof -
  have "window_wf (evict (push_sample (window b) f t) d t)" for f t d
    using assms by (simp add: breaker_inv_def win.wf_push win.wf_expire)
  with assms show ?thesis
    by (cases "state b")
      (auto simp: record_outcome_def Let_def breaker_inv_def win.wf_empty)
qed

lemma error_rate_inv: "breaker_inv b \<Longrightarrow> breaker_inv (snd (breaker_error_rate t b))"
  by (simp add: breaker_error_rate_def breaker_inv_def Let_def win.wf_expire)

section \<open>Runs\<close>

text \<open>The operations production code applies to a breaker, with any clock readings.\<close>

inductive breaker_step :: "breaker \<Rightarrow> breaker \<Rightarrow> bool" where
  step_check: "breaker_step b (snd (check t1 t2 b))"
| step_record: "breaker_step b (record_outcome oc t1 t2 b)"
| step_error_rate: "breaker_step b (snd (breaker_error_rate t b))"

inductive breaker_reachable :: "breaker_config \<Rightarrow> breaker \<Rightarrow> bool" for c where
  reach_init: "breaker_reachable c (with_clock c t)"
| reach_step: "breaker_reachable c b \<Longrightarrow> breaker_step b b' \<Longrightarrow> breaker_reachable c b'"

lemma breaker_step_inv: "breaker_step b b' \<Longrightarrow> breaker_inv b \<Longrightarrow> breaker_inv b'"
  by (induction rule: breaker_step.induct) (simp_all add: check_inv record_inv error_rate_inv)

lemma reachable_inv: "breaker_reachable c b \<Longrightarrow> breaker_inv b"
  by (induction rule: breaker_reachable.induct) (auto simp: breaker_inv_with_clock breaker_step_inv)

section \<open>The observer's view\<close>

text \<open>
  The contract of the breaker towards its observer: a three-state automaton whose edges are
  the four documented transitions with their reasons. \<open>follow s es\<close> runs the automaton over
  the callbacks and gives the state it ends in, or \<open>None\<close> at a callback it does not allow.
\<close>

fun edge :: "breaker_state \<Rightarrow> breaker_state \<Rightarrow> string \<Rightarrow> bool" where
  "edge Closed Open r = (r = ''trip'')"
| "edge Open HalfOpen r = (r = ''open_elapsed'')"
| "edge HalfOpen Open r = (r = ''probe_failure'')"
| "edge HalfOpen Closed r = (r = ''probe_success'')"
| "edge _ _ r = False"

fun accept :: "breaker_state \<Rightarrow> obs_event \<Rightarrow> breaker_state option" where
  "accept s (StateChange a b r) = (if s = a \<and> edge a b r then Some b else None)"
| "accept s (ProbeAdmission _) = (if s = HalfOpen then Some s else None)"
| "accept s (OutcomeSeen _ s') = (if s = s' then Some s else None)"

fun follow :: "breaker_state \<Rightarrow> obs_event list \<Rightarrow> breaker_state option" where
  "follow s [] = Some s"
| "follow s (e # es) = (case accept s e of None \<Rightarrow> None | Some s' \<Rightarrow> follow s' es)"

definition observed_ok :: "breaker \<Rightarrow> bool" where
  "observed_ok b \<longleftrightarrow> follow Closed (observed b) = Some (state b)"

lemma follow_append:
  "follow s (es @ es') = (case follow s es of None \<Rightarrow> None | Some s' \<Rightarrow> follow s' es')"
  by (induction es arbitrary: s) (auto split: option.splits)

lemma probe_observed:
  "state b = HalfOpen \<Longrightarrow> observed_ok b \<Longrightarrow> observed_ok (snd (try_half_open_probe t b))"
  by (cases rule: probe_cases [of b t]) (simp_all add: observed_ok_def follow_append)

lemma check_observed:
  assumes "breaker_inv b" and "observed_ok b"
  shows "observed_ok (snd (check t1 t2 b))"
proof (cases "state b")
  case Open
  have "observed_ok (notify (StateChange Open HalfOpen ''open_elapsed'')
          (b\<lparr>state_cell := to_u8 HalfOpen, is_open_fast := False\<rparr>))"
    using assms Open by (simp add: observed_ok_def follow_append)
  with assms Open show ?thesis by (simp add: check_def check_open_cases Let_def probe_observed)
qed (use assms in \<open>simp_all add: check_def probe_observed\<close>)

lemma record_observed: "observed_ok b \<Longrightarrow> observed_ok (record_outcome oc t1 t2 b)"
  by (cases "state b")
    (simp_all add: record_outcome_def Let_def observed_ok_def follow_append trip_def close_breaker_def)

lemma error_rate_observed: "observed_ok b \<Longrightarrow> observed_ok (snd (breaker_error_rate t b))"
  by (simp add: breaker_error_rate_def Let_def observed_ok_def)

lemma step_observed: "breaker_step b b' \<Longrightarrow> breaker_inv b \<Longrightarrow> observed_ok b \<Longrightarrow> observed_ok b'"
  by (induction rule: breaker_step.induct)
    (simp_all add: check_observed record_observed error_rate_observed)

lemma reachable_observed: "breaker_reachable c b \<Longrightarrow> observed_ok b"
proof (induction rule: breaker_reachable.induct)
  case (reach_init t)
  show ?case by (simp add: observed_ok_def with_clock_def state_def)
next
  case (reach_step b b')
  then show ?case by (blast intro: step_observed reachable_inv)
qed

section \<open>Probe slots\<close>

text \<open>A series of \<open>check\<close> calls on a half-open breaker: how many were admitted.\<close>

fun probe_run :: "instant list \<Rightarrow> breaker \<Rightarrow> nat \<times> breaker" where
  "probe_run [] b = (0, b)"
| "probe_run (t # ts) b =
     (let (r, b1) = check t t b; (n, b2) = probe_run ts b1
      in ((case r of Inr _ \<Rightarrow> Suc n | Inl _ \<Rightarrow> n), b2))"

abbreviation lease_of :: "breaker \<Rightarrow> u64" where
  "lease_of b \<equiv> of_nat (open_duration (config b) div 1000000)"

lemma elapsed_millis_cong: "baseline b' = baseline b \<Longrightarrow> elapsed_millis b' t = elapsed_millis b t"
  by (simp add: elapsed_millis_def)

lemma probe_run_admits:
  assumes "breaker_inv b" and "state b = HalfOpen" and "enabled (config b)"
    and "\<forall>x \<in> T. \<forall>y \<in> T. sat_sub x y < lease_of b"
    and "\<forall>t \<in> set ts. elapsed_millis b t \<in> T"
    and "half_open_probes b = 0 \<or> probe_claimed_at_millis b \<in> T"
  shows "fst (probe_run ts b) =
    min (length ts) (unat (half_open_max_probes (config b)) - unat (half_open_probes b))"
  using assms
proof (induction ts arbitrary: b)
  case (Cons t ts)
  let ?b1 = "snd (try_half_open_probe t b)"
  have chk: "check t t b = try_half_open_probe t b" using Cons.prems by (simp add: check_def)
  have inv1: "breaker_inv ?b1" "state ?b1 = HalfOpen" "config ?b1 = config b"
    using Cons.prems(1,2) by (simp_all add: probe_inv)
  have base: "baseline ?b1 = baseline b" by (cases rule: probe_cases [of b t]) simp_all
  have IH: "half_open_probes ?b1 = 0 \<or> probe_claimed_at_millis ?b1 \<in> T \<Longrightarrow>
    fst (probe_run ts ?b1) =
      min (length ts) (unat (half_open_max_probes (config b)) - unat (half_open_probes ?b1))"
    using Cons.prems inv1 by (subst Cons.IH) (auto simp: elapsed_millis_cong [OF base])
  have le: "half_open_probes b \<le> half_open_max_probes (config b)"
    using Cons.prems(1) by (simp add: breaker_inv_def)
  show ?case
  proof (cases rule: probe_cases [of b t])
    case slot
    have "unat (half_open_probes b + 1) = Suc (unat (half_open_probes b))"
      using slot(1) by (rule unat_plus_1)
    then show ?thesis
      using slot IH Cons.prems(5) chk by (simp add: Let_def split_beta word_less_nat_alt min_def) arith
  next
    case lease
    then have "half_open_probes b \<noteq> 0"
      using Cons.prems(1) by (auto simp: breaker_inv_def word_gt_0)
    with Cons.prems have "probe_claimed_at_millis b \<in> T" by simp
    with Cons.prems(4,5) lease(2) show ?thesis by (auto simp: not_le [symmetric])
  next
    case reject
    then have "half_open_probes b \<noteq> 0"
      using Cons.prems(1) by (auto simp: breaker_inv_def word_gt_0)
    with Cons.prems have "probe_claimed_at_millis b \<in> T" by simp
    with reject IH chk le show ?thesis by (simp add: Let_def split_beta not_less)
  qed
qed simp

section \<open>Properties\<close>

text \<open>C9: When calls are made one after another, in every state they reach the lock-free mirror read by \<open>is_open\<close> agrees with the
  authoritative state, the number of claimed probe slots never exceeds the configured
  maximum and is zero outside \<open>HalfOpen\<close>, the window holds at most \<open>MAX_WINDOW_ENTRIES\<close>
  samples, and the incrementally maintained failure counter is exact (it never wraps). Calls that
  overlap are the subject of \<open>BreakerConc\<close>, where the counter of probes can be left at its maximum.\<close>

theorem breaker_invariant:
  assumes "breaker_reachable c b"
  shows "(is_open b \<longleftrightarrow> state b = Open) \<and>
    half_open_probes b \<le> half_open_max_probes (config b) \<and>
    (state b \<noteq> HalfOpen \<longrightarrow> half_open_probes b = 0) \<and>
    length (entries (window b)) \<le> MAX_WINDOW_ENTRIES \<and>
    unat (failures (window b)) = failure_count (entries (window b))"
proof -
  have "breaker_inv b" using assms by (rule reachable_inv)
  then show ?thesis by (simp add: breaker_inv_def is_open_def window_wf_bounded window_wf_failures)
qed

theorem breaker_invariant_witness:
  "unat (failures (window (record_outcome Failure 5 6 (with_clock server_config 0)))) =
   failure_count (entries (window (record_outcome Failure 5 6 (with_clock server_config 0))))"
  using breaker_invariant [OF reach_step [OF reach_init step_record]] by blast

text \<open>C28: When calls are made one after another, the breaker refines the observer's three-state
  automaton: in every state they reach the callbacks issued so far form a legal run of the automaton (\<open>Closed\<close> to \<open>Open\<close> only
  with reason trip, \<open>Open\<close> to \<open>HalfOpen\<close> only with open_elapsed, \<open>HalfOpen\<close> to \<open>Open\<close> or
  \<open>Closed\<close> only with probe_failure or probe_success, probe admissions only in \<open>HalfOpen\<close>,
  each outcome reported with the state after it), and the run ends in the breaker's state. Two calls
  that overlap can both find the breaker \<open>Closed\<close> and both report that it opens.\<close>

theorem observer_trace_refines:
  assumes "breaker_reachable c b"
  shows "follow Closed (observed b) = Some (state b)"
  using reachable_observed [OF assms] by (simp add: observed_ok_def)

theorem observer_trace_refines_witness:
  "follow Closed (observed (record_outcome Failure 5 6 (with_clock (server_config\<lparr>min_samples := 1\<rparr>) 0))) =
   Some (state (record_outcome Failure 5 6 (with_clock (server_config\<lparr>min_samples := 1\<rparr>) 0)))"
  by (rule observer_trace_refines [OF reach_step [OF reach_init step_record]])

text \<open>C29: The trip decision is exact. In the \<open>Closed\<close> state, with the threshold the
  binary64 value of a fraction \<open>p / q\<close> (\<open>q\<close> at most \<open>2 ^ 37\<close>), recording an outcome opens
  the breaker precisely when the live window, the new sample included, holds at least
  \<open>min_samples\<close> samples and the exact failure ratio is at least \<open>p / q\<close>: rounding in the
  division never changes the decision.\<close>

theorem record_trips_exactly:
  fixes p q :: nat
  assumes inv: "breaker_inv b" and en: "enabled (config b)" and st: "state b = Closed"
    and thr: "error_rate_threshold (config b) = Finite (f64_round (of_nat p / of_nat q))"
    and pq: "p \<le> q" "0 < q" "q \<le> 2 ^ 37"
  shows "state (record_outcome oc now t2 b) =
    (let es = live now (window_duration (config b))
                (newest MAX_WINDOW_ENTRIES (entries (window b) @ [(now, oc = Failure)]))
     in if min_samples (config b) \<le> length es \<and> p * length es \<le> q * failure_count es
        then Open else Closed)"
proof -
  let ?w = "win.observe (window_duration (config b)) (window b) (now, oc = Failure)"
  have wf: "window_wf (window b)" using inv by (simp add: breaker_inv_def)
  then have wf': "window_wf ?w" by (rule win.wf_observe)
  have ne: "entries ?w \<noteq> []" using win.observe_keeps_newest [OF wf] by (metis snoc_eq_iff_butlast)
  have "should_trip (config b) ?w \<longleftrightarrow> min_samples (config b) \<le> length (entries ?w) \<and>
      p * length (entries ?w) \<le> q * failure_count (entries ?w)"
    using win.rate_compare [OF wf' ne pq(1,2)] pq(3) thr
    by (simp add: should_trip_def win.size_of_samples [OF wf'] MAX_WINDOW_ENTRIES_def)
  moreover have "state (record_outcome oc now t2 b) = (if should_trip (config b) ?w then Open else Closed)"
    using en st by (simp add: record_outcome_def Let_def win.observe_def)
  ultimately show ?thesis by (simp add: win.samples_observe [OF wf] Let_def)
qed

lemma f64_round_half: "f64_round (1 / 2) = 1 / 2"
  by code_simp

theorem record_trips_exactly_witness:
  "state (record_outcome Failure 5 6 (with_clock (server_config\<lparr>min_samples := 1\<rparr>) 0)) = Open"
  using record_trips_exactly [of "with_clock (server_config\<lparr>min_samples := 1\<rparr>) 0" 1 2 Failure 5 6]
  by (simp add: breaker_inv_with_clock server_config_def f64_round_half
      new_window_def newest_def live_def MAX_WINDOW_ENTRIES_def)

text \<open>While \<open>Open\<close>, a \<open>check\<close> before the cool-down has elapsed is refused with exactly
  the remaining time as \<open>retry_after\<close> and changes nothing; the first \<open>check\<close> once it has
  elapsed is admitted as the first probe of \<open>HalfOpen\<close>.\<close>

theorem open_check:
  assumes "breaker_inv b" and "enabled (config b)" and "state b = Open"
  shows "let elapsed = millis (unat (sat_sub (elapsed_millis b t1) (opened_at_millis b)))
    in if elapsed < open_duration (config b)
       then check t1 t2 b = (Inl (open_duration (config b) - elapsed), b)
       else fst (check t1 t2 b) = Inr () \<and> state (snd (check t1 t2 b)) = HalfOpen \<and>
            \<not> is_open (snd (check t1 t2 b)) \<and> half_open_probes (snd (check t1 t2 b)) = 1"
proof -
  have p: "half_open_probes b < half_open_max_probes (config b)"
    using assms(1,3) by (auto simp: breaker_inv_def word_le_nat_alt word_less_nat_alt)
  show ?thesis
    using assms p
    by (simp add: check_def check_open_cases Let_def try_half_open_probe_def is_open_def)
      (simp add: breaker_inv_def)
qed

theorem open_check_witness:
  "check 5000000 5000000 (trip Closed ''trip'' 0 (with_clock server_config 0)) =
     (Inl (secs 10 - millis 5), trip Closed ''trip'' 0 (with_clock server_config 0))"
proof -
  let ?b = "trip Closed ''trip'' 0 (with_clock server_config 0)"
  have "breaker_inv ?b"
    using breaker_inv_with_clock [of server_config 0] by (simp add: breaker_inv_def)
  from open_check [OF this, of 5000000 5000000] show ?thesis
    by (simp add: Let_def elapsed_millis_def server_config_def sat_sub_def)
qed

text \<open>C30: Recovery. Once the cool-down has elapsed, one admitted probe that succeeds closes
  the breaker with an empty window, and every later \<open>check\<close> is admitted; a probe that fails
  re-opens it, with the cool-down starting again at the time of the failure.\<close>

theorem probe_decides_recovery:
  assumes "breaker_inv b" and "enabled (config b)" and "state b = Open"
    and "open_duration (config b) \<le> millis (unat (sat_sub (elapsed_millis b t1) (opened_at_millis b)))"
  shows "fst (check t1 t2 b) = Inr () \<and>
    (let b' = record_outcome Success t3 t4 (snd (check t1 t2 b))
     in state b' = Closed \<and> entries (window b') = [] \<and> check t5 t6 b' = (Inr (), b')) \<and>
    (let b' = record_outcome Failure t3 t4 (snd (check t1 t2 b))
     in state b' = Open \<and> is_open b' \<and> opened_at_millis b' = elapsed_millis b t4)"
proof -
  let ?b1 = "snd (check t1 t2 b)"
  have p: "half_open_probes b < half_open_max_probes (config b)"
    using assms(1,3) by (auto simp: breaker_inv_def word_le_nat_alt word_less_nat_alt)
  have adm: "fst (check t1 t2 b) = Inr ()" and st: "state ?b1 = HalfOpen"
    and cfg: "config ?b1 = config b" and bl: "baseline ?b1 = baseline b"
    using assms p by (simp_all add: check_def check_open_cases Let_def try_half_open_probe_def)
  define b1 where "b1 = ?b1"
  have "state b1 = HalfOpen" "config b1 = config b" "elapsed_millis b1 t4 = elapsed_millis b t4"
    using st cfg elapsed_millis_cong [OF bl] by (simp_all add: b1_def)
  then show ?thesis
    using adm assms(2) unfolding b1_def [symmetric]
    by (simp add: record_outcome_def Let_def check_def [where b = "notify _ _"] is_open_def new_window_def)
qed

theorem probe_decides_recovery_witness:
  "let b = trip Closed ''trip'' 0 (with_clock server_config 0)
   in state (record_outcome Success (secs 10) (secs 10) (snd (check (secs 10) (secs 10) b))) = Closed"
proof -
  let ?b = "trip Closed ''trip'' 0 (with_clock server_config 0)"
  have "breaker_inv ?b"
    using breaker_inv_with_clock [of server_config 0] by (simp add: breaker_inv_def)
  moreover have "open_duration (config ?b) \<le>
      millis (unat (sat_sub (elapsed_millis ?b (secs 10)) (opened_at_millis ?b)))"
    by (simp add: elapsed_millis_def server_config_def sat_sub_def)
  ultimately show ?thesis
    using probe_decides_recovery [of ?b "secs 10" "secs 10" "secs 10" "secs 10"]
    by (simp add: Let_def server_config_def)
qed

text \<open>Probe budget. While \<open>HalfOpen\<close>, as long as all readings (and the last claim) lie
  within one lease of each other, a series of \<open>check\<close> calls admits exactly as many callers
  as there are free probe slots, and refuses all the others.\<close>

theorem half_open_probe_budget:
  assumes "breaker_inv b" and "state b = HalfOpen" and "enabled (config b)"
    and "\<forall>x \<in> T. \<forall>y \<in> T. sat_sub x y < lease_of b"
    and "\<forall>t \<in> set ts. elapsed_millis b t \<in> T"
    and "half_open_probes b = 0 \<or> probe_claimed_at_millis b \<in> T"
  shows "fst (probe_run ts b) =
    min (length ts) (unat (half_open_max_probes (config b)) - unat (half_open_probes b))"
  using assms by (rule probe_run_admits)

theorem half_open_probe_budget_witness:
  "fst (probe_run [millis 1, millis 2, millis 3] (force_half_open (with_clock server_config 0))) = 1"
proof -
  let ?b = "force_half_open (with_clock server_config 0)"
  have b: "breaker_inv ?b"
    using breaker_inv_with_clock [of server_config 0] by (simp add: breaker_inv_def)
  have T: "\<forall>x \<in> {1, 2, 3}. \<forall>y \<in> {1, 2, 3}. sat_sub x y < lease_of ?b"
    by (simp add: server_config_def sat_sub_def word_le_nat_alt)
  show ?thesis
    by (subst half_open_probe_budget [OF b _ _ T])
      (simp_all add: elapsed_millis_def server_config_def)
qed

text \<open>No stranding. A probe whose owner never records holds its slot for at most one
  cool-down: with all slots claimed, a \<open>check\<close> at least \<open>open_duration\<close> after the last claim
  is admitted, takes the claim over, and leaves the breaker \<open>HalfOpen\<close>.\<close>

theorem abandoned_probe_reclaimed:
  assumes "breaker_inv b" and "state b = HalfOpen" and "enabled (config b)"
    and "half_open_probes b = half_open_max_probes (config b)"
    and "lease_of b \<le> sat_sub (elapsed_millis b t1) (probe_claimed_at_millis b)"
  shows "fst (check t1 t2 b) = Inr () \<and> state (snd (check t1 t2 b)) = HalfOpen \<and>
    probe_claimed_at_millis (snd (check t1 t2 b)) = elapsed_millis b t1 \<and>
    half_open_probes (snd (check t1 t2 b)) = half_open_probes b"
  using assms by (simp add: check_def try_half_open_probe_def Let_def)

theorem abandoned_probe_reclaimed_witness:
  "let b = (force_half_open (with_clock server_config 0))\<lparr>half_open_probes := 1\<rparr>
   in fst (check (secs 10) 0 b) = Inr ()"
proof -
  let ?b = "(force_half_open (with_clock server_config 0))\<lparr>half_open_probes := 1\<rparr>"
  have b: "breaker_inv ?b"
    using breaker_inv_with_clock [of server_config 0] by (simp add: breaker_inv_def server_config_def)
  show ?thesis
    using abandoned_probe_reclaimed [OF b, of "secs 10" 0]
    by (simp add: server_config_def Let_def elapsed_millis_def sat_sub_def)
qed

end
