(* ===== verification/BreakerConc.thy ===== *)
theory BreakerConc
  imports Breaker
begin

text \<open>
  The circuit breaker under concurrent callers. \<open>CircuitBreaker\<close> is a cheaply clonable
  handle: many tasks run \<open>check\<close> and \<open>record\<close> on one set of atomic cells. Here every task
  is a program counter \<open>pc\<close> with its local variables, one step is one access to a shared
  cell (or one critical section of the window's mutex), and a run interleaves the steps of
  the tasks in any order, with any clock readings. Memory is sequentially consistent: the
  source orders its accesses with acquire and release on single cells, and the properties
  below concern single cells.

  A task is one request: it calls \<open>check\<close>; an admitted probe (\<open>Probing\<close>) later calls
  \<open>record\<close>, or is dropped without recording (\<open>Cancel\<close>). A task that is not a probe may
  call \<open>record\<close> too, for a request admitted while \<open>Closed\<close>.

  The solo lemmas tie this theory to \<open>Breaker\<close>: the steps of one task, run without
  interference, compute what the sequential functions compute.
\<close>

section \<open>Tasks and steps\<close>

text \<open>Where a task stands inside \<open>check_open\<close>, \<open>try_half_open_probe\<close> and \<open>record\<close>.\<close>

datatype check_pc = LoadOpened | Elapsed u64 | Cas | Won | Lost

datatype probe_pc = ReadClock | Add u64 | Claim u64 | Sub u64 | LoadClaim u64 | CasClaim u64 u64

datatype record_pc =
  InWindow outcome instant | InWindowOpen outcome instant
| Trip1 | Trip2 | Trip3 | Trip4
| Close1 | Close2 | Close3 | Close4

datatype pc = Idle | Checking check_pc | ProbingFor probe_pc | Probing | Recording record_pc

datatype call = CallCheck | CallRecord outcome | Cancel

datatype act = Internal | LeaseTaken | RecordStep | Dropped

fun step_check :: "instant \<Rightarrow> breaker \<Rightarrow> check_pc \<Rightarrow> breaker \<times> pc" where
  "step_check t b LoadOpened = (b, Checking (Elapsed (opened_at_millis b)))"
| "step_check t b (Elapsed opened) =
     (b, if open_duration (config b) \<le> millis (unat (sat_sub (elapsed_millis b t) opened))
         then Checking Cas else Idle)"
| "step_check t b Cas =
     (let (swapped, b') = cas_state Open HalfOpen b
      in (b', if swapped then Checking Won else Checking Lost))"
| "step_check t b Won = (b\<lparr>is_open_fast := False\<rparr>, ProbingFor ReadClock)"
| "step_check t b Lost = (b, if state b = HalfOpen then ProbingFor ReadClock else Idle)"

fun step_probe :: "instant \<Rightarrow> breaker \<Rightarrow> probe_pc \<Rightarrow> breaker \<times> pc" where
  "step_probe t b ReadClock = (b, ProbingFor (Add (elapsed_millis b t)))"
| "step_probe t b (Add now) =
     (b\<lparr>half_open_probes := half_open_probes b + 1\<rparr>,
      ProbingFor (if half_open_probes b < half_open_max_probes (config b) then Claim now else Sub now))"
| "step_probe t b (Claim now) = (b\<lparr>probe_claimed_at_millis := now\<rparr>, Probing)"
| "step_probe t b (Sub now) =
     (b\<lparr>half_open_probes := half_open_probes b - 1\<rparr>, ProbingFor (LoadClaim now))"
| "step_probe t b (LoadClaim now) =
     (b, if of_nat (open_duration (config b) div 1000000) \<le> sat_sub now (probe_claimed_at_millis b)
         then ProbingFor (CasClaim now (probe_claimed_at_millis b)) else Idle)"
| "step_probe t b (CasClaim now claimed) =
     (if probe_claimed_at_millis b = claimed
      then (b\<lparr>probe_claimed_at_millis := now\<rparr>, Probing) else (b, Idle))"

fun step_record :: "instant \<Rightarrow> breaker \<Rightarrow> record_pc \<Rightarrow> breaker \<times> pc" where
  "step_record t b (InWindow oc now) =
     (let w = evict (push_sample (window b) (oc = Failure) now) (window_duration (config b)) now
      in (b\<lparr>window := w\<rparr>, if should_trip (config b) w then Recording Trip1 else Idle))"
| "step_record t b (InWindowOpen oc now) =
     (b\<lparr>window := evict (push_sample (window b) (oc = Failure) now) (window_duration (config b)) now\<rparr>,
      Idle)"
| "step_record t b Trip1 = (b\<lparr>state_cell := to_u8 Open\<rparr>, Recording Trip2)"
| "step_record t b Trip2 = (b\<lparr>opened_at_millis := elapsed_millis b t\<rparr>, Recording Trip3)"
| "step_record t b Trip3 = (b\<lparr>half_open_probes := 0\<rparr>, Recording Trip4)"
| "step_record t b Trip4 = (b\<lparr>is_open_fast := True\<rparr>, Idle)"
| "step_record t b Close1 = (b\<lparr>state_cell := to_u8 Closed\<rparr>, Recording Close2)"
| "step_record t b Close2 = (b\<lparr>window := clear_window (window b)\<rparr>, Recording Close3)"
| "step_record t b Close3 = (b\<lparr>half_open_probes := 0\<rparr>, Recording Close4)"
| "step_record t b Close4 = (b\<lparr>is_open_fast := False\<rparr>, Idle)"

text \<open>The first access of a call: the load of the state cell.\<close>

definition start_check :: "breaker \<Rightarrow> pc" where
  "start_check b =
     (if \<not> enabled (config b) then Idle
      else case state b of
             Closed \<Rightarrow> Idle
           | Open \<Rightarrow> Checking LoadOpened
           | HalfOpen \<Rightarrow> ProbingFor ReadClock)"

definition start_record :: "outcome \<Rightarrow> instant \<Rightarrow> breaker \<Rightarrow> pc" where
  "start_record oc t b =
     (if \<not> enabled (config b) then Idle
      else case state b of
             Closed \<Rightarrow> Recording (InWindow oc t)
           | HalfOpen \<Rightarrow> Recording (if oc = Failure then Trip1 else Close1)
           | Open \<Rightarrow> Recording (InWindowOpen oc t))"

text \<open>One step of a task: the shared cells, the program counter and what kind of step it was.\<close>

fun step_task :: "call \<Rightarrow> instant \<Rightarrow> breaker \<Rightarrow> pc \<Rightarrow> breaker \<times> pc \<times> act" where
  "step_task CallCheck t b Idle = (b, start_check b, Internal)"
| "step_task (CallRecord oc) t b Idle = (b, start_record oc t b, RecordStep)"
| "step_task Cancel t b Idle = (b, Idle, Internal)"
| "step_task CallCheck t b Probing = (b, Probing, Internal)"
| "step_task (CallRecord oc) t b Probing = (b, start_record oc t b, RecordStep)"
| "step_task Cancel t b Probing = (b, Idle, Dropped)"
| "step_task c t b (Checking p) = (let (b', pc') = step_check t b p in (b', pc', Internal))"
| "step_task c t b (ProbingFor p) =
     (let (b', pc') = step_probe t b p
      in (b', pc', case p of CasClaim _ _ \<Rightarrow> (if pc' = Probing then LeaseTaken else Internal)
                           | _ \<Rightarrow> Internal))"
| "step_task c t b (Recording p) = (let (b', pc') = step_record t b p in (b', pc', RecordStep))"

record system =
  cells :: breaker
  tasks :: "pc list"

inductive sys_step :: "system \<Rightarrow> act \<Rightarrow> system \<Rightarrow> bool" where
  task_moves: "i < length (tasks s) \<Longrightarrow> step_task c t (cells s) (tasks s ! i) = (b', pc', a) \<Longrightarrow>
     sys_step s a \<lparr>cells = b', tasks = (tasks s)[i := pc']\<rparr>"

inductive sys_run :: "system \<Rightarrow> act list \<Rightarrow> system \<Rightarrow> bool" where
  run_done: "sys_run s [] s"
| run_step: "sys_step s a s' \<Longrightarrow> sys_run s' as s'' \<Longrightarrow> sys_run s (a # as) s''"

definition start_system :: "breaker \<Rightarrow> nat \<Rightarrow> system" where
  "start_system b n = \<lparr>cells = b, tasks = replicate n Idle\<rparr>"

section \<open>One task alone\<close>

text \<open>Let one task run, all its clock readings \<open>t\<close>, for at most \<open>n\<close> steps.\<close>

fun solo :: "nat \<Rightarrow> instant \<Rightarrow> breaker \<Rightarrow> pc \<Rightarrow> breaker \<times> pc" where
  "solo 0 t b pc = (b, pc)"
| "solo (Suc n) t b pc =
     (case pc of
        Checking p \<Rightarrow> (let (b', pc') = step_check t b p in solo n t b' pc')
      | ProbingFor p \<Rightarrow> (let (b', pc') = step_probe t b p in solo n t b' pc')
      | Recording p \<Rightarrow> (let (b', pc') = step_record t b p in solo n t b' pc')
      | _ \<Rightarrow> (b, pc))"

lemma solo_stops [simp]: "solo n t b Idle = (b, Idle)" "solo n t b Probing = (b, Probing)"
  by (cases n; simp)+

text \<open>The calls to the observer touch no cell; they are left out of this theory.\<close>

definition unobserved :: "breaker \<Rightarrow> breaker" where
  "unobserved b = b\<lparr>observed := []\<rparr>"

lemma unobserved_notify [simp]: "unobserved (notify e b) = unobserved b"
  by (simp add: unobserved_def notify_def)

lemma elapsed_updates [simp]:
  "elapsed_millis (b\<lparr>state_cell := x\<rparr>) t = elapsed_millis b t"
  "elapsed_millis (b\<lparr>half_open_probes := n\<rparr>) t = elapsed_millis b t"
  "elapsed_millis (b\<lparr>is_open_fast := f\<rparr>) t = elapsed_millis b t"
  "elapsed_millis (b\<lparr>observed := es\<rparr>) t = elapsed_millis b t"
  "elapsed_millis (notify e b) t = elapsed_millis b t"
  by (simp_all add: elapsed_millis_def)

text \<open>\<open>plus5\<close> leaves room for the five steps of a probe attempt.\<close>

abbreviation plus5 :: "nat \<Rightarrow> nat" where
  "plus5 n \<equiv> Suc (Suc (Suc (Suc (Suc n))))"

lemma solo_probe:
  "solo (plus5 n) t b (ProbingFor ReadClock) =
     (let (r, b') = try_half_open_probe t b
      in (b'\<lparr>observed := observed b\<rparr>, case r of Inr _ \<Rightarrow> Probing | Inl _ \<Rightarrow> Idle))"
  by (cases rule: probe_cases [of b t]) (simp_all add: Let_def notify_def)

lemma solo_check:
  assumes "breaker_inv b" and "enabled (config b)"
  shows "solo (Suc (Suc (Suc (Suc (plus5 n))))) t b (start_check b) =
     (let (r, b') = check t t b
      in (b'\<lparr>observed := observed b\<rparr>,
          if state b' = HalfOpen \<and> r = Inr () then Probing else Idle))"
proof (cases "state b")
  case Open
  have "state_cell b = to_u8 Open" using assms Open by (simp add: breaker_inv_def)
  moreover have "half_open_probes b < half_open_max_probes (config b)"
    using assms Open by (auto simp: breaker_inv_def word_le_nat_alt word_less_nat_alt)
  ultimately show ?thesis
    using assms Open
    by (simp add: start_check_def check_def check_open_cases Let_def cas_state_def
        try_half_open_probe_def notify_def)
next
  case HalfOpen
  with assms probe_inv(2) [OF assms(1) HalfOpen, of t] show ?thesis
    by (cases rule: probe_cases [of b t])
      (simp_all add: start_check_def check_def Let_def notify_def)
qed (use assms in \<open>simp_all add: start_check_def check_def\<close>)

lemma solo_record:
  assumes "breaker_inv b" and "enabled (config b)"
  shows "solo (plus5 n) t b (start_record oc t b) =
     ((record_outcome oc t t b)\<lparr>observed := observed b\<rparr>, Idle)"
  using assms
  by (cases "state b")
    (simp_all add: start_record_def record_outcome_def Let_def trip_def close_breaker_def notify_def
      elapsed_millis_def)

section \<open>The probe budget under interleaving\<close>

text \<open>
  \<open>holds_slot\<close>: the task won a slot with its \<open>fetch_add\<close>; \<open>in_flight\<close>: it lost, and has
  not yet undone its increment. The counter is the number of tasks of either kind, less the \<open>l\<close> claims
  that were taken over, for which no increment was made.
\<close>

fun holds_slot :: "pc \<Rightarrow> bool" where
  "holds_slot Probing = True"
| "holds_slot (ProbingFor (Claim _)) = True"
| "holds_slot _ = False"

fun in_flight :: "pc \<Rightarrow> bool" where
  "in_flight (ProbingFor (Sub _)) = True"
| "in_flight _ = False"

definition budget_inv :: "nat \<Rightarrow> system \<Rightarrow> bool" where
  "budget_inv l s \<longleftrightarrow>
     unat (half_open_probes (cells s)) + l = count_if holds_slot (tasks s) + count_if in_flight (tasks s) \<and>
     l \<le> count_if holds_slot (tasks s) \<and>
     count_if holds_slot (tasks s) \<le> unat (half_open_max_probes (config (cells s))) + l"

lemma start_check_counts [simp]: "\<not> holds_slot (start_check b)" "\<not> in_flight (start_check b)"
  by (simp_all add: start_check_def split: breaker_state.split)

lemma step_task_counts:
  assumes "step_task c t b pc = (b', pc', Internal)"
    and "unat (half_open_probes b) + 1 < 2 ^ 64"
    and "in_flight pc \<Longrightarrow> 0 < unat (half_open_probes b)"
  shows "config b' = config b"
    and "unat (half_open_probes b') + of_bool (holds_slot pc) + of_bool (in_flight pc) =
         unat (half_open_probes b) + of_bool (holds_slot pc') + of_bool (in_flight pc')"
    and "holds_slot pc' \<Longrightarrow> holds_slot pc \<or>
         half_open_probes b < half_open_max_probes (config b)"
    and "holds_slot pc \<Longrightarrow> holds_slot pc'"
proof -
  have inc: "unat (half_open_probes b + 1) = Suc (unat (half_open_probes b))"
    using assms(2) by (simp add: unat_word_ariths)
  have dec: "unat (half_open_probes b - 1) = unat (half_open_probes b) - 1"
    if "0 < unat (half_open_probes b)" using that by (simp add: unat_minus_one unat_gt_0)
  have "config b' = config b \<and>
      unat (half_open_probes b') + of_bool (holds_slot pc) + of_bool (in_flight pc) =
      unat (half_open_probes b) + of_bool (holds_slot pc') + of_bool (in_flight pc') \<and>
      (holds_slot pc' \<longrightarrow> holds_slot pc \<or> half_open_probes b < half_open_max_probes (config b)) \<and>
      (holds_slot pc \<longrightarrow> holds_slot pc')"
  proof (cases pc)
    case Idle
    then show ?thesis
      using assms(1) by (cases c) auto
  next
    case Probing
    then show ?thesis using assms(1) by (cases c) auto
  next
    case (Checking p)
    then show ?thesis
      using assms(1) by (cases p) (auto simp: cas_state_def Let_def split: if_splits)
  next
    case (ProbingFor p)
    then show ?thesis
      using assms inc dec by (cases p) (auto simp: Let_def split: if_splits)
  next
    case (Recording p)
    then show ?thesis using assms(1) by (simp split: prod.splits)
  qed
  then show "config b' = config b"
    and "unat (half_open_probes b') + of_bool (holds_slot pc) + of_bool (in_flight pc) =
         unat (half_open_probes b) + of_bool (holds_slot pc') + of_bool (in_flight pc')"
    and "holds_slot pc' \<Longrightarrow> holds_slot pc \<or> half_open_probes b < half_open_max_probes (config b)"
    and "holds_slot pc \<Longrightarrow> holds_slot pc'"
    by blast+
qed

text \<open>The take-over of a claim: one more task holds a slot, and the counter stays.\<close>

lemma lease_step_counts:
  assumes "step_task c t b pc = (b', pc', LeaseTaken)"
  shows "config b' = config b" "half_open_probes b' = half_open_probes b" "\<not> holds_slot pc" "\<not> in_flight pc" "pc' = Probing"
proof -
  obtain now claimed where pc: "pc = ProbingFor (CasClaim now claimed)"
  proof (cases pc)
    case (ProbingFor p)
    with assms that show thesis by (cases p) (auto simp: Let_def split: if_splits)
  next
    case Idle
    with assms show thesis by (cases c) auto
  next
    case Probing
    with assms show thesis by (cases c) auto
  qed (use assms in \<open>auto simp: Let_def split: prod.splits\<close>)
  with assms show "config b' = config b" "half_open_probes b' = half_open_probes b" "\<not> holds_slot pc" "\<not> in_flight pc" "pc' = Probing"
    by (auto split: if_splits)
qed

lemma budget_step:
  assumes "sys_step s Internal s'" and "budget_inv l s" and "length (tasks s) < 2 ^ 63"
  shows "budget_inv l s' \<and> length (tasks s') = length (tasks s) \<and> config (cells s') = config (cells s)"
proof -
  obtain i c t b' pc' where i: "i < length (tasks s)"
    and st: "step_task c t (cells s) (tasks s ! i) = (b', pc', Internal)"
    and s': "s' = \<lparr>cells = b', tasks = (tasks s)[i := pc']\<rparr>"
    using assms(1) by (auto elim: sys_step.cases)
  let ?b = "cells s" and ?h = "count_if holds_slot" and ?f = "count_if in_flight"
  have cnt: "unat (half_open_probes ?b) + l = ?h (tasks s) + ?f (tasks s)" "l \<le> ?h (tasks s)"
    and max: "?h (tasks s) \<le> unat (half_open_max_probes (config ?b)) + l"
    using assms(2) by (simp_all add: budget_inv_def)
  have "?h (tasks s) \<le> length (tasks s)" "?f (tasks s) \<le> length (tasks s)"
    by (simp_all add: count_if_le)
  with cnt assms(3) have small: "unat (half_open_probes ?b) + 1 < 2 ^ 64" by simp
  have pos: "in_flight (tasks s ! i) \<Longrightarrow> 0 < unat (half_open_probes ?b)"
    using count_if_pos [OF i, of in_flight] cnt by simp
  note eff = step_task_counts [OF st small pos]
  note new = count_if_update [OF i, of holds_slot pc'] count_if_update [OF i, of in_flight pc']
  have "?h ((tasks s)[i := pc']) \<le> unat (half_open_max_probes (config ?b)) + l"
  proof (cases "holds_slot pc' \<and> \<not> holds_slot (tasks s ! i)")
    case True
    then have "unat (half_open_probes ?b) < unat (half_open_max_probes (config ?b))"
      using eff(3) by (simp add: word_less_nat_alt)
    with True cnt new(1) show ?thesis by simp
  next
    case False
    with max new(1) show ?thesis
      by (cases "holds_slot pc'"; cases "holds_slot (tasks s ! i)") simp_all
  qed
  moreover have "unat (half_open_probes b') + l = ?h ((tasks s)[i := pc']) + ?f ((tasks s)[i := pc'])"
    using eff(2) cnt(1) new by linarith
  moreover have "l \<le> ?h ((tasks s)[i := pc'])"
    using eff(4) cnt(2) new(1) by (cases "holds_slot pc'"; cases "holds_slot (tasks s ! i)") simp_all
  ultimately show ?thesis using eff(1) s' by (simp add: budget_inv_def)
qed

lemma lease_step:
  assumes "sys_step s LeaseTaken s'" and "budget_inv l s"
  shows "budget_inv (Suc l) s' \<and> length (tasks s') = length (tasks s) \<and> config (cells s') = config (cells s)"
proof -
  obtain i c t b' pc' where i: "i < length (tasks s)"
    and st: "step_task c t (cells s) (tasks s ! i) = (b', pc', LeaseTaken)"
    and s': "s' = \<lparr>cells = b', tasks = (tasks s)[i := pc']\<rparr>"
    using assms(1) by (auto elim: sys_step.cases)
  note eff = lease_step_counts [OF st]
  from eff count_if_update [OF i, of holds_slot pc'] count_if_update [OF i, of in_flight pc'] assms(2) s' show ?thesis
    by (simp add: budget_inv_def)
qed

lemma budget_run:
  "sys_run s as s' \<Longrightarrow> set as \<subseteq> {Internal, LeaseTaken} \<Longrightarrow> budget_inv l s \<Longrightarrow> length (tasks s) < 2 ^ 63 \<Longrightarrow>
   budget_inv (l + count_list as LeaseTaken) s' \<and> config (cells s') = config (cells s)"
proof (induction arbitrary: l rule: sys_run.induct)
  case (run_step s a s' as s'')
  from run_step.prems(1) consider "a = Internal" | "a = LeaseTaken" by auto
  then show ?case
  proof cases
    case 1
    with run_step budget_step [of s s' l] show ?thesis by auto
  next
    case 2
    with run_step.hyps(1) run_step.prems(2) lease_step [of s s' l]
    have "budget_inv (Suc l) s'" "length (tasks s') = length (tasks s)" "config (cells s') = config (cells s)" by auto
    with run_step.IH [of "Suc l"] run_step.prems(1,3) 2 show ?thesis by simp
  qed
qed simp

section \<open>Executable schedules\<close>

text \<open>A schedule names, step by step, the task that moves, its call and its clock reading.\<close>

fun run_schedule :: "(nat \<times> call \<times> instant) list \<Rightarrow> system \<Rightarrow> system \<times> act list" where
  "run_schedule [] s = (s, [])"
| "run_schedule ((i, c, t) # sch) s =
     (let (b', pc', a) = step_task c t (cells s) (tasks s ! i);
          (s', as) = run_schedule sch \<lparr>cells = b', tasks = (tasks s)[i := pc']\<rparr>
      in (s', a # as))"

lemma run_schedule_run:
  "\<forall>(i, c, t) \<in> set sch. i < length (tasks s) \<Longrightarrow>
     sys_run s (snd (run_schedule sch s)) (fst (run_schedule sch s))"
proof (induction sch s rule: run_schedule.induct)
  case (2 i c t sch s)
  obtain b' pc' a where st: "step_task c t (cells s) (tasks s ! i) = (b', pc', a)"
    by (metis prod_cases3)
  let ?s1 = "\<lparr>cells = b', tasks = (tasks s)[i := pc']\<rparr>"
  have "sys_run ?s1 (snd (run_schedule sch ?s1)) (fst (run_schedule sch ?s1))"
    using 2 st by (simp add: Let_def)
  moreover have "sys_step s a ?s1" using "2.prems" st by (auto intro: task_moves)
  ultimately show ?case using st by (auto simp: Let_def split: prod.split intro: run_step)
qed (simp add: run_done)

text \<open>Runs compose, and a task that moves alone is a run of the system.\<close>

definition reaches :: "system \<Rightarrow> system \<Rightarrow> bool" where
  "reaches s s' \<longleftrightarrow> (\<exists>as. sys_run s as s')"

lemma sys_run_append: "sys_run s as s' \<Longrightarrow> sys_run s' bs s'' \<Longrightarrow> sys_run s (as @ bs) s''"
  by (induction rule: sys_run.induct) (auto intro: run_step)

lemma reaches_refl [intro]: "reaches s s"
  by (auto simp: reaches_def intro: run_done)

lemma reaches_trans [trans]: "reaches s s' \<Longrightarrow> reaches s' s'' \<Longrightarrow> reaches s s''"
  by (auto simp: reaches_def intro: sys_run_append)

lemma reaches_step: "sys_step s a s' \<Longrightarrow> reaches s s'"
  by (auto simp: reaches_def intro: run_step run_done)

lemma call_check_lifts:
  "i < length ts \<Longrightarrow> ts ! i = Idle \<Longrightarrow>
     reaches \<lparr>cells = b, tasks = ts\<rparr> \<lparr>cells = b, tasks = ts[i := start_check b]\<rparr>"
  using task_moves [of i "\<lparr>cells = b, tasks = ts\<rparr>" CallCheck] by (auto intro: reaches_step)

lemma call_record_lifts:
  "i < length ts \<Longrightarrow> ts ! i = Probing \<Longrightarrow>
     reaches \<lparr>cells = b, tasks = ts\<rparr> \<lparr>cells = b, tasks = ts[i := start_record oc t b]\<rparr>"
  using task_moves [of i "\<lparr>cells = b, tasks = ts\<rparr>" "CallRecord oc" t] by (auto intro: reaches_step)

lemma solo_lifts:
  "i < length ts \<Longrightarrow> ts ! i = pc \<Longrightarrow>
     reaches \<lparr>cells = b, tasks = ts\<rparr>
       \<lparr>cells = fst (solo n t b pc), tasks = ts[i := snd (solo n t b pc)]\<rparr>"
proof (induction n arbitrary: b pc ts)
  case (Suc n)
  have go: "reaches \<lparr>cells = b, tasks = ts\<rparr>
      \<lparr>cells = fst (solo n t b' pc'), tasks = ts[i := snd (solo n t b' pc')]\<rparr>"
    if "step_task CallCheck t b pc = (b', pc', a)" for b' pc' a
  proof -
    have "reaches \<lparr>cells = b, tasks = ts\<rparr> \<lparr>cells = b', tasks = ts[i := pc']\<rparr>"
      using task_moves [of i "\<lparr>cells = b, tasks = ts\<rparr>" CallCheck t] that Suc.prems
      by (auto intro: reaches_step)
    also have "reaches \<lparr>cells = b', tasks = ts[i := pc']\<rparr>
        \<lparr>cells = fst (solo n t b' pc'), tasks = ts[i := snd (solo n t b' pc')]\<rparr>"
      using Suc.IH [of "ts[i := pc']" pc' b'] Suc.prems by simp
    finally show ?thesis .
  qed
  show ?case
  proof (cases pc)
    case (Checking p)
    then show ?thesis using go by (simp add: Let_def split: prod.split)
  next
    case (ProbingFor p)
    then show ?thesis using go by (simp add: Let_def split: prod.split)
  next
    case (Recording p)
    then show ?thesis using go by (simp add: Let_def split: prod.split)
  qed (use Suc.prems list_update_id [of ts i] in auto)
qed (use list_update_id in auto)

section \<open>Properties\<close>

text \<open>The atomic steps implement the sequential operations: a task that runs \<open>check\<close>
  alone leaves the cells as \<open>check\<close> does and ends as a probe exactly when \<open>check\<close> admits it
  in \<open>HalfOpen\<close>; a task that runs \<open>record\<close> alone leaves them as \<open>record\<close> does (the calls to
  the observer apart).\<close>

theorem solo_refines_sequential:
  assumes "breaker_inv b" and "enabled (config b)"
  shows "solo 9 t b (start_check b) =
      ((snd (check t t b))\<lparr>observed := observed b\<rparr>,
       if state (snd (check t t b)) = HalfOpen \<and> fst (check t t b) = Inr () then Probing else Idle) \<and>
    solo 5 t b (start_record oc t b) = ((record_outcome oc t t b)\<lparr>observed := observed b\<rparr>, Idle)"
proof -
  have nine: "(9::nat) = Suc (Suc (Suc (Suc (plus5 0))))" and five: "(5::nat) = plus5 0" by simp_all
  show ?thesis
    using solo_check [OF assms, of 0 t] solo_record [OF assms, of 0 t oc]
    unfolding nine five by (simp add: Let_def split_beta)
qed

theorem solo_refines_sequential_witness:
  "solo 5 7 (with_clock server_config 0) (start_record Failure 7 (with_clock server_config 0)) =
     ((record_outcome Failure 7 7 (with_clock server_config 0))\<lparr>observed := []\<rparr>, Idle)"
  using solo_refines_sequential [OF breaker_inv_with_clock, of server_config 0 7 Failure]
  by (simp add: server_config_def)

text \<open>C31: Probes stay within their budget under interleaving of \<open>check\<close> calls. From cells with a zero probe counter and
  all tasks idle, however any number of tasks interleave their \<open>check\<close> calls step by step, the take-over of an abandoned
  claim included, the tasks holding a probe slot never outnumber \<open>half_open_max_probes\<close> by more than the take-overs so far:
  the transient increments of losing tasks never let an extra probe in, and a slow probe may run beside the one that took
  its claim over. Interleavings in which an outcome is recorded or a probe is dropped are not covered.\<close>

theorem concurrent_probe_budget:
  assumes "half_open_probes b = 0" and "n < 2 ^ 63"
    and "sys_run (start_system b n) as s" and "set as \<subseteq> {Internal, LeaseTaken}"
  shows "count_if holds_slot (tasks s) \<le> unat (half_open_max_probes (config b)) + count_list as LeaseTaken"
proof -
  have "budget_inv 0 (start_system b n)"
    using assms(1) by (simp add: budget_inv_def start_system_def count_if_replicate)
  then have "budget_inv (count_list as LeaseTaken) s \<and> config (cells s) = config b"
    using budget_run [OF assms(3,4), of 0] assms(2) by (simp add: start_system_def)
  then show ?thesis by (auto simp: budget_inv_def)
qed

theorem concurrent_probe_budget_witness:
  "let b = force_half_open (with_clock server_config 0);
       sch = [(0, CallCheck, 0), (1, CallCheck, 0), (0, CallCheck, 0), (1, CallCheck, 0),
              (0, CallCheck, 0), (1, CallCheck, 0), (0, CallCheck, 0)]
   in count_if holds_slot (tasks (fst (run_schedule sch (start_system b 2)))) \<le> 1"
proof -
  let ?b = "force_half_open (with_clock server_config 0)"
  let ?sch = "[(0, CallCheck, 0), (1, CallCheck, 0), (0, CallCheck, 0), (1, CallCheck, 0),
              (0, CallCheck, 0), (1, CallCheck, 0), (0, CallCheck, 0)]"
  have run: "sys_run (start_system ?b 2) (snd (run_schedule ?sch (start_system ?b 2)))
      (fst (run_schedule ?sch (start_system ?b 2)))"
    by (rule run_schedule_run) (simp add: start_system_def)
  have internal: "set (snd (run_schedule ?sch (start_system ?b 2))) \<subseteq> {Internal}"
    by (simp add: start_system_def start_check_def server_config_def numeral_2_eq_2)
  then have "set (snd (run_schedule ?sch (start_system ?b 2))) \<subseteq> {Internal, LeaseTaken}"
    "count_list (snd (run_schedule ?sch (start_system ?b 2))) LeaseTaken = 0" by (auto simp: count_list_0_iff)
  with concurrent_probe_budget [OF _ _ run this(1)] show ?thesis
    by (simp add: server_config_def)
qed

text \<open>A lost update. Two tasks can interleave so that the breaker is \<open>Open\<close> while the
  probe counter has wrapped to its maximum: a losing task undoes its \<open>fetch_add\<close> after
  \<open>trip\<close> has reset the counter to zero. The comment in \<open>check_open\<close> that the counter is
  already zero whenever the breaker is \<open>Open\<close> therefore fails under concurrency, and the
  next half-open phase finds no free slot.\<close>

theorem probe_counter_can_wrap:
  assumes "breaker_inv b" and "enabled (config b)" and "state b = Open"
    and "half_open_max_probes (config b) = 1"
    and "open_duration (config b) \<le> millis (unat (sat_sub (elapsed_millis b t) (opened_at_millis b)))"
  shows "\<exists>as s. sys_run (start_system b 2) as s \<and> state (cells s) = Open \<and>
    half_open_probes (cells s) = - 1"
proof -
  let ?b1 = "b\<lparr>state_cell := to_u8 HalfOpen, is_open_fast := False, half_open_probes := 1,
               probe_claimed_at_millis := elapsed_millis b t\<rparr>"
  let ?b2 = "?b1\<lparr>half_open_probes := 2\<rparr>"
  let ?b3 = "?b2\<lparr>state_cell := to_u8 Open, opened_at_millis := elapsed_millis b t,
                half_open_probes := 0, is_open_fast := True\<rparr>"
  let ?lost = "ProbingFor (Sub (elapsed_millis b t))"
  let ?final = "\<lparr>cells = ?b3\<lparr>half_open_probes := - 1\<rparr>,
      tasks = [Idle, ProbingFor (LoadClaim (elapsed_millis b t))]\<rparr>"
  have cell: "state_cell b = to_u8 Open" "half_open_probes b = 0"
    using assms(1,3) by (simp_all add: breaker_inv_def)
  have "reaches (start_system b 2) \<lparr>cells = b, tasks = [Checking LoadOpened, Idle]\<rparr>"
    using call_check_lifts [of 0 "[Idle, Idle]" b] assms(2,3)
    by (simp add: start_system_def start_check_def numeral_2_eq_2)
  also have "reaches \<dots> \<lparr>cells = ?b1, tasks = [Probing, Idle]\<rparr>"
    using solo_lifts [of 0 "[Checking LoadOpened, Idle]" "Checking LoadOpened" b
        "Suc (Suc (plus5 0))" t] assms cell by (simp add: cas_state_def Let_def)
  also have "reaches \<dots> \<lparr>cells = ?b1, tasks = [Probing, ProbingFor ReadClock]\<rparr>"
    using call_check_lifts [of 1 "[Probing, Idle]" ?b1] assms(2)
    by (simp add: start_check_def state_def)
  also have "reaches \<dots> \<lparr>cells = ?b2, tasks = [Probing, ?lost]\<rparr>"
    using solo_lifts [of 1 "[Probing, ProbingFor ReadClock]" "ProbingFor ReadClock" ?b1
        "Suc (Suc 0)" t] assms(4) by (simp add: elapsed_millis_def)
  also have "reaches \<dots> \<lparr>cells = ?b2, tasks = [Recording Trip1, ?lost]\<rparr>"
    using call_record_lifts [of 0 "[Probing, ?lost]" ?b2 Failure t] assms(2)
    by (simp add: start_record_def state_def)
  also have "reaches \<dots> \<lparr>cells = ?b3, tasks = [Idle, ?lost]\<rparr>"
    using solo_lifts [of 0 "[Recording Trip1, ?lost]" "Recording Trip1" ?b2 "Suc (Suc (Suc (Suc 0)))" t]
    by (simp add: elapsed_millis_def)
  also have "reaches \<dots> ?final"
    using solo_lifts [of 1 "[Idle, ?lost]" ?lost ?b3 "Suc 0" t] by simp
  finally obtain as where "sys_run (start_system b 2) as ?final" by (auto simp: reaches_def)
  then show ?thesis by (intro exI [of _ as] exI [of _ ?final]) (simp add: state_def)
qed

theorem probe_counter_can_wrap_witness:
  "\<exists>as s. sys_run (start_system (trip Closed ''trip'' 0 (with_clock server_config 0)) 2) as s \<and>
     state (cells s) = Open \<and> half_open_probes (cells s) = - 1"
proof (rule probe_counter_can_wrap [of _ "secs 10"])
  show "breaker_inv (trip Closed ''trip'' 0 (with_clock server_config 0))"
    using breaker_inv_with_clock [of server_config 0] by (simp add: breaker_inv_def)
qed (simp_all add: server_config_def elapsed_millis_def sat_sub_def)

end
