(* ===== verification/BreakerRegistry.thy ===== *)
theory BreakerRegistry
  imports Breaker
begin

text \<open>
  The per-key registry of breakers (\<open>xai-circuit-breaker/src/registry.rs\<close>). Callers hold
  shared handles (\<open>Arc<CircuitBreaker>\<close>), so identity matters: the breakers live in a heap,
  an address is a position in it, and the table maps a key to an address. \<open>use_breaker\<close> is
  a caller applying operations through a handle.
\<close>

section \<open>State and operations\<close>

record registry =
  reg_config :: breaker_config
  breakers :: "rstr \<rightharpoonup> nat"
  heap :: "breaker list"

definition new_registry :: "breaker_config \<Rightarrow> registry" where
  "new_registry c = \<lparr>reg_config = c, breakers = Map.empty, heap = []\<rparr>"

text \<open>\<open>now\<close> is the clock reading that becomes the baseline of a newly created breaker.\<close>

definition get_breaker :: "rstr \<Rightarrow> instant \<Rightarrow> registry \<Rightarrow> nat option \<times> registry" where
  "get_breaker key now r =
     (if \<not> enabled (reg_config r) then (None, r)
      else case breakers r key of
             Some a \<Rightarrow> (Some a, r)
           | None \<Rightarrow>
               (let a = length (heap r)
                in (Some a, r\<lparr>breakers := (breakers r)(key \<mapsto> a),
                              heap := heap r @ [with_clock (reg_config r) now]\<rparr>)))"

definition use_breaker :: "nat \<Rightarrow> (breaker \<Rightarrow> breaker) \<Rightarrow> registry \<Rightarrow> registry" where
  "use_breaker a f r = r\<lparr>heap := (heap r)[a := f (heap r ! a)]\<rparr>"

inductive registry_reachable :: "breaker_config \<Rightarrow> registry \<Rightarrow> bool" for c where
  registry_new: "registry_reachable c (new_registry c)"
| registry_get: "registry_reachable c r \<Longrightarrow> registry_reachable c (snd (get_breaker key t r))"
| registry_use: "registry_reachable c r \<Longrightarrow> a < length (heap r) \<Longrightarrow> breaker_step (heap r ! a) b' \<Longrightarrow>
     registry_reachable c (use_breaker a (\<lambda>_. b') r)"

section \<open>Invariant\<close>

definition registry_inv :: "registry \<Rightarrow> bool" where
  "registry_inv r \<longleftrightarrow>
     (\<forall>k k' a. breakers r k = Some a \<longrightarrow> breakers r k' = Some a \<longrightarrow> k = k') \<and>
     (\<forall>k a. breakers r k = Some a \<longrightarrow> a < length (heap r)) \<and>
     (\<forall>b \<in> set (heap r). breaker_inv b)"

lemma registry_inv_get: "registry_inv r \<Longrightarrow> registry_inv (snd (get_breaker key t r))"
  unfolding registry_inv_def get_breaker_def
  by (auto simp: Let_def breaker_inv_with_clock less_SucI split: option.split)

lemma registry_inv_use:
  "registry_inv r \<Longrightarrow> a < length (heap r) \<Longrightarrow> breaker_step (heap r ! a) b' \<Longrightarrow>
     registry_inv (use_breaker a (\<lambda>_. b') r)"
  by (auto simp: use_breaker_def registry_inv_def breaker_step_inv dest!: set_update_subset_insert [THEN subsetD])

lemma registry_reachable_inv: "registry_reachable c r \<Longrightarrow> registry_inv r"
  by (induction rule: registry_reachable.induct)
    (auto simp: registry_inv_get registry_inv_use, simp add: registry_inv_def new_registry_def)

section \<open>Properties\<close>

text \<open>Isolation. In an enabled registry, looking a key up gives its handle, and every
  later lookup of that key gives the same handle, whatever is done through other handles in
  between; two keys never share a breaker, and operations through the handle of one key
  leave the breaker of the other unchanged.\<close>

theorem registry_isolation:
  assumes "registry_reachable c r" and "enabled (reg_config r)" and "k \<noteq> k'"
  shows "\<exists>a a' r2. get_breaker k t r = (Some a, snd (get_breaker k t r)) \<and>
    get_breaker k' t' (snd (get_breaker k t r)) = (Some a', r2) \<and> a \<noteq> a' \<and>
    get_breaker k t'' (use_breaker a' f r2) = (Some a, use_breaker a' f r2) \<and>
    heap (use_breaker a' f r2) ! a = heap (snd (get_breaker k t r)) ! a"
proof -
  define r1 where "r1 = snd (get_breaker k t r)"
  define r2 where "r2 = snd (get_breaker k' t' r1)"
  have inv1: "registry_inv r1" and inv2: "registry_inv r2"
    using registry_reachable_inv [OF assms(1)] by (simp_all add: r1_def r2_def registry_inv_get)
  obtain a where a: "get_breaker k t r = (Some a, r1)" "breakers r1 k = Some a"
      and e1: "enabled (reg_config r1)"
    using assms(2) unfolding r1_def
    by (cases "breakers r k") (auto simp: get_breaker_def Let_def)
  obtain a' where a': "get_breaker k' t' r1 = (Some a', r2)" "breakers r2 k' = Some a'"
      and e2: "enabled (reg_config r2)" and keep: "breakers r2 k = Some a"
      and old: "heap r2 ! a = heap r1 ! a"
  proof (cases "breakers r1 k'")
    case None
    have "a < length (heap r1)" using inv1 a(2) by (simp add: registry_inv_def)
    with None e1 a(2) assms(3) that show thesis
      unfolding r2_def by (auto simp: get_breaker_def Let_def nth_append)
  next
    case (Some x)
    with e1 a(2) that show thesis unfolding r2_def by (auto simp: get_breaker_def)
  qed
  have ne: "a \<noteq> a'"
    using inv2 a'(2) keep assms(3) by (auto simp: registry_inv_def)
  have "get_breaker k t'' (use_breaker a' f r2) = (Some a, use_breaker a' f r2)"
    using e2 keep by (simp add: get_breaker_def use_breaker_def)
  moreover have "heap (use_breaker a' f r2) ! a = heap r1 ! a"
    using ne old by (simp add: use_breaker_def)
  ultimately show ?thesis using a(1) a'(1) ne by (auto simp: r1_def [symmetric])
qed

theorem registry_isolation_witness:
  "\<exists>a a' r2. get_breaker (lit ''a'') 0 (new_registry server_config) =
      (Some a, snd (get_breaker (lit ''a'') 0 (new_registry server_config))) \<and>
    get_breaker (lit ''b'') 1 (snd (get_breaker (lit ''a'') 0 (new_registry server_config))) = (Some a', r2) \<and>
    a \<noteq> a'"
proof -
  have "lit ''a'' \<noteq> lit ''b''" and "enabled (reg_config (new_registry server_config))"
    by (simp_all add: new_registry_def server_config_def str_simps)
  from registry_isolation [OF registry_new this(2,1), of 0 1 2 id] show ?thesis by blast
qed

end
