(* ===== verification/SeekSequence.thy ===== *)
theory SeekSequence
  imports RustStr
begin

text \<open>
  The fuzzy line matcher of the patch engine
  (\<open>xai-grok-tools/src/implementations/codex/apply_patch/seek_sequence.rs\<close>): four passes
  over the candidate positions, each comparing lines after a coarser normalisation (none,
  \<open>trim_end\<close>, \<open>trim\<close>, trim plus Unicode punctuation). The locale \<open>line_match\<close> is the
  interface of one pass; it is interpreted for all four normal forms.
\<close>

section \<open>Operations\<close>

text \<open>The characters that \<open>normalise\<close> folds to ASCII.\<close>

definition normalise_char :: "rchar \<Rightarrow> rchar" where
  "normalise_char c =
     (if c \<in> {0x2010, 0x2011, 0x2012, 0x2013, 0x2014, 0x2015, 0x2212} then 0x2D
      else if c \<in> {0x2018, 0x2019, 0x201A, 0x201B} then 0x27
      else if c \<in> {0x201C, 0x201D, 0x201E, 0x201F} then 0x22
      else if c \<in> {0x00A0, 0x2002, 0x2003, 0x2004, 0x2005, 0x2006, 0x2007, 0x2008, 0x2009,
                   0x200A, 0x202F, 0x205F, 0x3000} then 0x20
      else c)"

definition normalise :: "rstr \<Rightarrow> rstr" where
  "normalise s = map normalise_char (trim s)"

text \<open>
  One pass: the first \<open>i\<close> from \<open>i\<close> up to \<open>last\<close> (inclusive) at which every pattern line has
  the normal form of the text line it meets. \<open>match_at\<close> is the inner loop.
\<close>

fun match_at :: "(rstr \<Rightarrow> rstr) \<Rightarrow> rstr list \<Rightarrow> rstr list \<Rightarrow> nat \<Rightarrow> bool" where
  "match_at nf ls [] i = True"
| "match_at nf ls (p # ps) i = (i < length ls \<and> nf (ls ! i) = nf p \<and> match_at nf ls ps (Suc i))"

function seek_pass :: "(rstr \<Rightarrow> rstr) \<Rightarrow> rstr list \<Rightarrow> rstr list \<Rightarrow> nat \<Rightarrow> nat \<Rightarrow> nat option" where
  "seek_pass nf ls pat i lst =
     (if i \<le> lst then (if match_at nf ls pat i then Some i else seek_pass nf ls pat (Suc i) lst)
      else None)"
  by pat_completeness auto
termination
  by (relation "measure (\<lambda>(nf, ls, pat, i, lst). Suc lst - i)") auto

declare seek_pass.simps [simp del]

text \<open>\<open>Option::or_else\<close>: the passes in sequence.\<close>

definition or_else :: "'a option \<Rightarrow> 'a option \<Rightarrow> 'a option" where
  "or_else a b = (case a of Some x \<Rightarrow> Some x | None \<Rightarrow> b)"

definition seek_sequence :: "rstr list \<Rightarrow> rstr list \<Rightarrow> nat \<Rightarrow> bool \<Rightarrow> nat option" where
  "seek_sequence ls pattern start eof =
     (if pattern = [] then Some start
      else if length ls < length pattern then None
      else
        (let search_start = (if eof \<and> length pattern \<le> length ls
                             then length ls - length pattern else start);
             lst = length ls - length pattern
         in or_else (seek_pass id ls pattern search_start lst)
            (or_else (seek_pass trim_end ls pattern search_start lst)
            (or_else (seek_pass trim ls pattern search_start lst)
                     (seek_pass normalise ls pattern search_start lst)))))"

section \<open>One pass\<close>

lemma match_at_iff:
  "match_at nf ls pat i \<longleftrightarrow> i + length pat \<le> length ls \<and> map nf (take (length pat) (drop i ls)) = map nf pat
   \<or> pat = []"
proof (induction pat arbitrary: i)
  case (Cons p ps)
  show ?case
  proof (cases "i < length ls")
    case True
    then have "drop i ls = ls ! i # drop (Suc i) ls" by (rule Cons_nth_drop_Suc [symmetric])
    with True Cons show ?thesis by (cases "ps = []") auto
  qed auto
qed simp

lemma seek_pass_Some:
  "seek_pass nf ls pat i lst = Some k \<longleftrightarrow>
     i \<le> k \<and> k \<le> lst \<and> match_at nf ls pat k \<and> (\<forall>j. i \<le> j \<and> j < k \<longrightarrow> \<not> match_at nf ls pat j)"
proof (induction nf ls pat i lst rule: seek_pass.induct)
  case (1 nf ls pat i lst)
  show ?case
  proof (cases "i \<le> lst \<and> \<not> match_at nf ls pat i")
    case True
    have "(\<forall>j. Suc i \<le> j \<and> j < k \<longrightarrow> \<not> match_at nf ls pat j) \<longleftrightarrow>
        (\<forall>j. i \<le> j \<and> j < k \<longrightarrow> \<not> match_at nf ls pat j)"
      using True by (metis Suc_leI le_eq_less_or_eq Suc_leD)
    moreover have "seek_pass nf ls pat i lst = seek_pass nf ls pat (Suc i) lst"
      using True by (simp add: seek_pass.simps [of nf ls pat i])
    moreover have "match_at nf ls pat k \<Longrightarrow> k \<noteq> i" using True by auto
    ultimately show ?thesis using 1 True by (metis Suc_leI le_eq_less_or_eq Suc_leD)
  next
    case False
    then show ?thesis by (auto simp: seek_pass.simps [of nf ls pat i] le_less)
  qed
qed

lemma seek_pass_None:
  "seek_pass nf ls pat i lst = None \<longleftrightarrow> (\<forall>j. i \<le> j \<and> j \<le> lst \<longrightarrow> \<not> match_at nf ls pat j)"
proof
  assume none: "seek_pass nf ls pat i lst = None"
  show "\<forall>j. i \<le> j \<and> j \<le> lst \<longrightarrow> \<not> match_at nf ls pat j"
  proof (rule ccontr)
    assume "\<not> ?thesis"
    then have ex: "\<exists>j. i \<le> j \<and> j \<le> lst \<and> match_at nf ls pat j" by auto
    define k where "k = (LEAST j. i \<le> j \<and> j \<le> lst \<and> match_at nf ls pat j)"
    have "i \<le> k \<and> k \<le> lst \<and> match_at nf ls pat k"
      unfolding k_def using ex by (rule LeastI_ex)
    moreover have "\<forall>j. i \<le> j \<and> j < k \<longrightarrow> \<not> match_at nf ls pat j"
      using not_less_Least [of _ "\<lambda>j. i \<le> j \<and> j \<le> lst \<and> match_at nf ls pat j"] calculation
      unfolding k_def by (meson less_le_trans less_imp_le)
    ultimately have "seek_pass nf ls pat i lst = Some k" by (simp add: seek_pass_Some)
    with none show False by simp
  qed
next
  assume "\<forall>j. i \<le> j \<and> j \<le> lst \<longrightarrow> \<not> match_at nf ls pat j"
  then show "seek_pass nf ls pat i lst = None"
    by (cases "seek_pass nf ls pat i lst") (auto simp: seek_pass_Some)
qed

section \<open>The interface of a pass\<close>

locale line_match =
  fixes nf :: "rstr \<Rightarrow> rstr" and coarse :: "rstr \<Rightarrow> rstr"
  assumes coarser: "nf s = nf t \<Longrightarrow> coarse s = coarse t"
begin

text \<open>Lines that match under the finer normal form match under the coarser one.\<close>

lemma match_coarser: "match_at nf ls pat i \<Longrightarrow> match_at coarse ls pat i"
  by (induction pat arbitrary: i) (auto intro: coarser)

lemma miss_finer:
  "seek_pass coarse ls pat i lst = None \<Longrightarrow> seek_pass nf ls pat i lst = None"
  by (auto simp: seek_pass_None dest: match_coarser)

end

lemma normalise_eq_if_trim_eq: "trim s = trim t \<Longrightarrow> normalise s = normalise t"
  by (simp add: normalise_def)

interpretation exact: line_match id normalise
  by unfold_locales simp

interpretation rstrip: line_match trim_end normalise
  by unfold_locales (blast intro: normalise_eq_if_trim_eq trim_eq_if_trim_end_eq)

interpretation stripped: line_match trim normalise
  by unfold_locales (rule normalise_eq_if_trim_eq)

lemma or_else_Some [simp]: "or_else (Some x) b = Some x"
  by (simp add: or_else_def)

lemma or_else_None [simp]: "or_else None b = b"
  by (simp add: or_else_def)

lemma or_else_None_iff: "or_else a b = None \<longleftrightarrow> a = None \<and> b = None"
  by (simp add: or_else_def split: option.split)

section \<open>The whole search\<close>

abbreviation search_start :: "rstr list \<Rightarrow> rstr list \<Rightarrow> nat \<Rightarrow> bool \<Rightarrow> nat" where
  "search_start ls pat start eof \<equiv> if eof then length ls - length pat else start"

lemma seek_sequence_cases:
  assumes "pat \<noteq> []"
  shows "seek_sequence ls pat start eof =
    (if length ls < length pat then None
     else or_else (seek_pass id ls pat (search_start ls pat start eof) (length ls - length pat))
            (or_else (seek_pass trim_end ls pat (search_start ls pat start eof) (length ls - length pat))
            (or_else (seek_pass trim ls pat (search_start ls pat start eof) (length ls - length pat))
                     (seek_pass normalise ls pat (search_start ls pat start eof) (length ls - length pat)))))"
  using assms by (simp add: seek_sequence_def Let_def)

lemma seek_sequence_Some_pass:
  assumes "seek_sequence ls pat start eof = Some i" and "pat \<noteq> []"
  obtains nf where "nf \<in> {id, trim_end, trim, normalise}"
    and "seek_pass nf ls pat (search_start ls pat start eof) (length ls - length pat) = Some i"
    and "length pat \<le> length ls"
  using assms
  by (auto simp: seek_sequence_cases or_else_def not_less split: if_splits option.splits)

lemma seek_sequence_bounds:
  assumes "seek_sequence ls pat start eof = Some i" and "pat \<noteq> []"
  shows "search_start ls pat start eof \<le> i" and "i + length pat \<le> length ls"
proof -
  obtain nf where "seek_pass nf ls pat (search_start ls pat start eof) (length ls - length pat) = Some i"
    and "length pat \<le> length ls"
    using assms by (rule seek_sequence_Some_pass)
  then show "search_start ls pat start eof \<le> i" "i + length pat \<le> length ls"
    by (auto simp: seek_pass_Some)
qed

lemma seek_sequence_match:
  assumes "seek_sequence ls pat start eof = Some i"
  shows "match_at normalise ls pat i"
proof (cases "pat = []")
  case False
  with assms obtain nf where nf: "nf \<in> {id, trim_end, trim, normalise}"
    and "seek_pass nf ls pat (search_start ls pat start eof) (length ls - length pat) = Some i"
    by (rule seek_sequence_Some_pass)
  then have "match_at nf ls pat i" by (simp add: seek_pass_Some)
  with nf show ?thesis
    using exact.match_coarser rstrip.match_coarser stripped.match_coarser by auto
qed simp

lemma seek_sequence_None_iff:
  assumes "pat \<noteq> []"
  shows "seek_sequence ls pat start eof = None \<longleftrightarrow>
    (\<forall>j. search_start ls pat start eof \<le> j \<and> j + length pat \<le> length ls \<longrightarrow>
         \<not> match_at normalise ls pat j)"
proof (cases "length ls < length pat")
  case False
  let ?s = "search_start ls pat start eof" and ?l = "length ls - length pat"
  have "seek_sequence ls pat start eof = None \<longleftrightarrow> seek_pass normalise ls pat ?s ?l = None"
    unfolding seek_sequence_cases [OF assms] if_not_P [OF False] or_else_None_iff
    using exact.miss_finer rstrip.miss_finer stripped.miss_finer by blast
  also have "\<dots> \<longleftrightarrow> (\<forall>j. ?s \<le> j \<and> j + length pat \<le> length ls \<longrightarrow> \<not> match_at normalise ls pat j)"
    using False by (auto simp: seek_pass_None not_less)
  finally show ?thesis .
qed (use assms in \<open>auto simp: seek_sequence_def\<close>)

lemma match_at_id: "match_at id ls pat i \<longleftrightarrow> pat = [] \<or> i + length pat \<le> length ls \<and> take (length pat) (drop i ls) = pat"
  by (auto simp: match_at_iff)

section \<open>Properties\<close>

text \<open>The search finds what it promises. For a non-empty pattern: a returned position
  lies at or after the search start, leaves room for the whole pattern, and every pattern
  line equals the line it meets up to surrounding white space and typographic punctuation;
  if some position matches exactly, the first such position is returned, before any fuzzy
  match; and \<open>None\<close> is returned exactly when no position matches even in the loosest sense.\<close>

theorem seek_sequence_spec:
  assumes "pat \<noteq> []"
  shows "(seek_sequence ls pat start eof = Some i \<longrightarrow>
      search_start ls pat start eof \<le> i \<and> i + length pat \<le> length ls \<and>
      map normalise (take (length pat) (drop i ls)) = map normalise pat) \<and>
    (search_start ls pat start eof \<le> j \<and> j + length pat \<le> length ls \<and>
     take (length pat) (drop j ls) = pat \<and>
     (\<forall>k. search_start ls pat start eof \<le> k \<and> k < j \<longrightarrow> take (length pat) (drop k ls) \<noteq> pat) \<longrightarrow>
      seek_sequence ls pat start eof = Some j) \<and>
    (seek_sequence ls pat start eof = None \<longleftrightarrow>
      (\<forall>k. search_start ls pat start eof \<le> k \<and> k + length pat \<le> length ls \<longrightarrow>
           map normalise (take (length pat) (drop k ls)) \<noteq> map normalise pat))"
proof (intro conjI impI)
  assume some: "seek_sequence ls pat start eof = Some i"
  show "search_start ls pat start eof \<le> i" "i + length pat \<le> length ls"
    using seek_sequence_bounds [OF some assms] by blast+
  show "map normalise (take (length pat) (drop i ls)) = map normalise pat"
    using seek_sequence_match [OF some] assms by (simp add: match_at_iff)
next
  assume first: "search_start ls pat start eof \<le> j \<and> j + length pat \<le> length ls \<and>
     take (length pat) (drop j ls) = pat \<and>
     (\<forall>k. search_start ls pat start eof \<le> k \<and> k < j \<longrightarrow> take (length pat) (drop k ls) \<noteq> pat)"
  then have "seek_pass id ls pat (search_start ls pat start eof) (length ls - length pat) = Some j"
    using assms by (auto simp: seek_pass_Some match_at_id)
  then show "seek_sequence ls pat start eof = Some j"
    using first assms by (simp add: seek_sequence_cases del: split_paired_All)
next
  show "seek_sequence ls pat start eof = None \<longleftrightarrow>
      (\<forall>k. search_start ls pat start eof \<le> k \<and> k + length pat \<le> length ls \<longrightarrow>
           map normalise (take (length pat) (drop k ls)) \<noteq> map normalise pat)"
    using assms by (auto simp: seek_sequence_None_iff match_at_iff)
qed

theorem seek_sequence_spec_witness:
  "seek_sequence [lit ''a'', lit ''b '', lit ''b''] [lit ''b''] 0 False = Some 2"
proof -
  have "(2::nat) + length [lit ''b''] \<le> length [lit ''a'', lit ''b '', lit ''b'']" by simp
  moreover have "\<forall>k. 0 \<le> k \<and> k < (2::nat) \<longrightarrow>
      take (length [lit ''b'']) (drop k [lit ''a'', lit ''b '', lit ''b'']) \<noteq> [lit ''b'']"
    by (auto simp: less_Suc_eq numeral_2_eq_2 str_simps)
  ultimately show ?thesis
    using seek_sequence_spec [of "[lit ''b'']" "[lit ''a'', lit ''b '', lit ''b'']" 0 False _ 2]
    by simp
qed

end
