(* ===== verification/PatchParser.thy ===== *)
theory PatchParser
  imports RustStr
begin

text \<open>
  The parser of the apply-patch format
  (\<open>xai-grok-tools/src/implementations/codex/apply_patch/parser.rs\<close>). Line slices are
  lists of lines; every \<open>Err\<close> of the source is an \<open>Inl\<close> with its message and line number.
  The loops of \<open>parse_patch_text\<close> and of the \<open>Update File\<close> branch recurse on the remaining
  lines; that each round consumes at least one of them is proved below, so both terminate.

  \<open>render_patch\<close> is the printer that the grammar in the module comment describes; the
  round trip \<open>parse_patch (render_patch hs)\<close> is the main property.
\<close>

section \<open>Markers and types\<close>

definition BEGIN_PATCH_MARKER :: rstr where "BEGIN_PATCH_MARKER = lit ''*** Begin Patch''"
definition END_PATCH_MARKER :: rstr where "END_PATCH_MARKER = lit ''*** End Patch''"
definition ADD_FILE_MARKER :: rstr where "ADD_FILE_MARKER = lit ''*** Add File: ''"
definition DELETE_FILE_MARKER :: rstr where "DELETE_FILE_MARKER = lit ''*** Delete File: ''"
definition UPDATE_FILE_MARKER :: rstr where "UPDATE_FILE_MARKER = lit ''*** Update File: ''"
definition MOVE_TO_MARKER :: rstr where "MOVE_TO_MARKER = lit ''*** Move to: ''"
definition EOF_MARKER :: rstr where "EOF_MARKER = lit ''*** End of File''"
definition CHANGE_CONTEXT_MARKER :: rstr where "CHANGE_CONTEXT_MARKER = lit ''@@ ''"
definition EMPTY_CHANGE_CONTEXT_MARKER :: rstr where "EMPTY_CHANGE_CONTEXT_MARKER = lit ''@@''"

record update_file_chunk =
  change_context :: "rstr option"
  old_lines :: "rstr list"
  new_lines :: "rstr list"
  is_end_of_file :: bool

datatype hunk =
  AddFile (hunk_path: rstr) (hunk_contents: rstr)
| DeleteFile (hunk_path: rstr)
| UpdateFile (hunk_path: rstr) (hunk_move_path: "rstr option") (hunk_chunks: "update_file_chunk list")

record parsed_patch =
  hunks :: "hunk list"
  patch :: rstr

datatype parse_error =
  InvalidPatchError rstr
| InvalidHunkError rstr nat

datatype parse_mode = Strict | Lenient

text \<open>A quoted name inside a message.\<close>

definition quoted :: "rstr \<Rightarrow> rstr" where
  "quoted s = 0x27 # s @ [0x27]"

definition no_lines_error :: "nat \<Rightarrow> parse_error" where
  "no_lines_error n = InvalidHunkError (lit ''Update hunk does not contain any lines'') n"

section \<open>One chunk of an update\<close>

text \<open>
  The loop over the lines of a chunk: \<open>ln\<close> is the line number of the chunk, \<open>parsed\<close> the
  number of lines taken so far. The result is the old lines, the new lines, whether the end
  of file marker was met, and the number of lines taken.
\<close>

fun chunk_loop ::
  "nat \<Rightarrow> rstr list \<Rightarrow> nat \<Rightarrow> rstr list \<Rightarrow> rstr list \<Rightarrow>
   parse_error + (rstr list \<times> rstr list \<times> bool \<times> nat)" where
  "chunk_loop ln [] parsed old new = Inr (old, new, False, parsed)"
| "chunk_loop ln (l # ls) parsed old new =
     (if l = EOF_MARKER then
        (if parsed = 0 then Inl (no_lines_error (ln + 1)) else Inr (old, new, True, parsed + 1))
      else
        (case l of
           [] \<Rightarrow> chunk_loop ln ls (parsed + 1) (old @ [[]]) (new @ [[]])
         | c # r \<Rightarrow>
             if c = 0x20 then chunk_loop ln ls (parsed + 1) (old @ [r]) (new @ [r])
             else if c = 0x2B then chunk_loop ln ls (parsed + 1) old (new @ [r])
             else if c = 0x2D then chunk_loop ln ls (parsed + 1) (old @ [r]) new
             else if parsed = 0 then
               Inl (InvalidHunkError
                     (lit ''Unexpected line found in update hunk: '' @ quoted l @
                      lit ''. Every line should start with '' @ quoted (lit '' '') @
                      lit '' (context line), '' @ quoted (lit ''+'') @
                      lit '' (added line), or '' @ quoted (lit ''-'') @ lit '' (removed line)'')
                     (ln + 1))
             else Inr (old, new, False, parsed)))"

definition parse_update_file_chunk ::
  "rstr list \<Rightarrow> nat \<Rightarrow> bool \<Rightarrow> parse_error + (update_file_chunk \<times> nat)" where
  "parse_update_file_chunk ls line_number allow_missing_context =
     (case ls of
        [] \<Rightarrow> Inl (no_lines_error line_number)
      | first # _ \<Rightarrow>
          (let header =
             (if first = EMPTY_CHANGE_CONTEXT_MARKER then Inr (None, 1)
              else case strip_prefix CHANGE_CONTEXT_MARKER first of
                     Some ctx \<Rightarrow> Inr (Some ctx, 1)
                   | None \<Rightarrow>
                       if \<not> allow_missing_context then
                         Inl (InvalidHunkError
                               (lit ''Expected update hunk to start with a @@ context marker, got: ''
                                @ quoted first) line_number)
                       else Inr (None, 0))
           in case header of
                Inl e \<Rightarrow> Inl e
              | Inr (ctx, start_index) \<Rightarrow>
                  if length ls \<le> start_index then Inl (no_lines_error (line_number + 1))
                  else case chunk_loop line_number (drop start_index ls) 0 [] [] of
                         Inl e \<Rightarrow> Inl e
                       | Inr (old, new, eof, parsed) \<Rightarrow>
                           Inr (\<lparr>change_context = ctx, old_lines = old, new_lines = new,
                                 is_end_of_file = eof\<rparr>, parsed + start_index)))"

lemma chunk_loop_consumed:
  "chunk_loop ln ls parsed old new = Inr (old', new', eof, k) \<Longrightarrow>
     parsed \<le> k \<and> k \<le> parsed + length ls \<and> (ls \<noteq> [] \<and> parsed = 0 \<longrightarrow> 0 < k)"
proof (induction ln ls parsed old new rule: chunk_loop.induct)
  case (2 ln l ls parsed old new)
  show ?case
  proof (cases l)
    case Nil
    with 2 show ?thesis by (force split: if_splits)
  next
    case (Cons c r)
    with 2 show ?thesis by (force split: if_splits)
  qed
qed auto

lemma parse_chunk_consumed:
  assumes "parse_update_file_chunk ls n b = Inr (c, k)"
  shows "0 < k" and "k \<le> length ls"
  using assms
  by (auto simp: parse_update_file_chunk_def Let_def not_le
      split: list.splits if_splits option.splits sum.splits prod.splits
      dest!: chunk_loop_consumed)

section \<open>One hunk\<close>

text \<open>The lines of an \<open>Add File\<close> hunk: the contents, and the number of lines taken.\<close>

fun add_lines :: "rstr list \<Rightarrow> rstr \<Rightarrow> nat \<Rightarrow> rstr \<times> nat" where
  "add_lines [] contents parsed = (contents, parsed)"
| "add_lines (l # ls) contents parsed =
     (case strip_prefix (lit ''+'') l of
        Some line_to_add \<Rightarrow> add_lines ls (contents @ line_to_add @ [newline]) (parsed + 1)
      | None \<Rightarrow> (contents, parsed))"

function update_loop ::
  "rstr list \<Rightarrow> nat \<Rightarrow> nat \<Rightarrow> update_file_chunk list \<Rightarrow>
   parse_error + (update_file_chunk list \<times> nat)" where
  "update_loop remaining line_number parsed chunks =
     (case remaining of
        [] \<Rightarrow> Inr (chunks, parsed)
      | l # ls \<Rightarrow>
          if trim l = [] then update_loop ls line_number (parsed + 1) chunks
          else if starts_with (lit ''***'') l then Inr (chunks, parsed)
          else case parse_update_file_chunk remaining (line_number + parsed) (chunks = []) of
                 Inl e \<Rightarrow> Inl e
               | Inr (chunk, chunk_lines) \<Rightarrow>
                   update_loop (drop chunk_lines remaining) line_number (parsed + chunk_lines)
                     (chunks @ [chunk]))"
  by pat_completeness auto
termination
  by (relation "measure (\<lambda>(remaining, _). length remaining)")
    (auto dest: parse_chunk_consumed)

declare update_loop.simps [simp del]

lemma update_loop_Nil [simp]: "update_loop [] ln p cs = Inr (cs, p)"
  by (simp add: update_loop.simps)

lemma update_loop_blank:
  "trim l = [] \<Longrightarrow> update_loop (l # ls) ln p cs = update_loop ls ln (p + 1) cs"
  by (simp add: update_loop.simps [of "l # ls"])

lemma update_loop_header:
  "trim l \<noteq> [] \<Longrightarrow> starts_with (lit ''***'') l \<Longrightarrow> update_loop (l # ls) ln p cs = Inr (cs, p)"
  by (simp add: update_loop.simps [of "l # ls"])

lemma update_loop_chunk:
  "trim l \<noteq> [] \<Longrightarrow> \<not> starts_with (lit ''***'') l \<Longrightarrow>
   update_loop (l # ls) ln p cs =
     (case parse_update_file_chunk (l # ls) (ln + p) (cs = []) of
        Inl e \<Rightarrow> Inl e
      | Inr (c, m) \<Rightarrow> update_loop (drop m (l # ls)) ln (p + m) (cs @ [c]))"
  by (simp add: update_loop.simps [of "l # ls"])

definition parse_one_hunk :: "rstr list \<Rightarrow> nat \<Rightarrow> parse_error + (hunk \<times> nat)" where
  "parse_one_hunk ls line_number =
     (let first_line = trim (hd ls) in
      case strip_prefix ADD_FILE_MARKER first_line of
        Some path \<Rightarrow>
          (let (contents, parsed_lines) = add_lines (tl ls) [] 1
           in Inr (AddFile path contents, parsed_lines))
      | None \<Rightarrow>
      (case strip_prefix DELETE_FILE_MARKER first_line of
        Some path \<Rightarrow> Inr (DeleteFile path, 1)
      | None \<Rightarrow>
      (case strip_prefix UPDATE_FILE_MARKER first_line of
        Some path \<Rightarrow>
          (let move_path = (case tl ls of [] \<Rightarrow> None | x # _ \<Rightarrow> strip_prefix MOVE_TO_MARKER x);
               remaining = (if move_path \<noteq> None then tl (tl ls) else tl ls);
               parsed = (if move_path \<noteq> None then 2 else 1)
           in case update_loop remaining line_number parsed [] of
                Inl e \<Rightarrow> Inl e
              | Inr (chunks, parsed_lines) \<Rightarrow>
                  if chunks = [] then
                    Inl (InvalidHunkError
                          (lit ''Update file hunk for path '' @ quoted path @ lit '' is empty'')
                          line_number)
                  else Inr (UpdateFile path move_path chunks, parsed_lines))
      | None \<Rightarrow>
          Inl (InvalidHunkError
                (quoted first_line @ lit '' is not a valid hunk header. Valid hunk headers: '' @
                 quoted (lit ''*** Add File: {path}'') @ lit '', '' @
                 quoted (lit ''*** Delete File: {path}'') @ lit '', '' @
                 quoted (lit ''*** Update File: {path}'')) line_number))))"

lemma add_lines_consumed: "add_lines ls c p = (c', k) \<Longrightarrow> p \<le> k \<and> k \<le> p + length ls"
  by (induction ls c p rule: add_lines.induct) (fastforce split: option.splits)+

lemma update_loop_consumed:
  "update_loop rem ln p cs = Inr (cs', k) \<Longrightarrow> p \<le> k \<and> k \<le> p + length rem"
proof (induction rem ln p cs rule: update_loop.induct)
  case (1 rem ln p cs)
  show ?case
  proof (cases rem)
    case Nil
    with "1.prems" show ?thesis by (simp add: update_loop.simps)
  next
    case (Cons l ls)
    show ?thesis
    proof (cases "trim l = []")
      case True
      with Cons "1.prems" have "update_loop ls ln (p + 1) cs = Inr (cs', k)"
        by (simp add: update_loop_blank)
      with "1.IH"(1) [OF Cons True] Cons show ?thesis by auto
    next
      case blank: False
      show ?thesis
      proof (cases "starts_with (lit ''***'') l")
        case True
        with Cons blank "1.prems" show ?thesis by (simp add: update_loop_header)
      next
        case False
        with Cons blank "1.prems" obtain c m
          where m: "parse_update_file_chunk rem (ln + p) (cs = []) = Inr (c, m)"
            and rec: "update_loop (drop m rem) ln (p + m) (cs @ [c]) = Inr (cs', k)"
          by (auto simp: update_loop_chunk split: sum.splits)
        from "1.IH"(2) [OF Cons blank False m refl rec] parse_chunk_consumed [OF m]
        show ?thesis by auto
      qed
    qed
  qed
qed

lemma parse_one_hunk_consumed:
  assumes "parse_one_hunk ls n = Inr (h, k)" and "ls \<noteq> []"
  shows "0 < k" and "k \<le> length ls"
proof -
  obtain l r where ls: "ls = l # r" using assms(2) by (cases ls) auto
  have upd: "0 < k \<and> k \<le> length ls"
    if "update_loop (if mp \<noteq> None then tl r else r) n (if mp \<noteq> None then 2 else 1) [] = Inr (cs, k)"
      and "mp = (case r of [] \<Rightarrow> None | x # _ \<Rightarrow> strip_prefix MOVE_TO_MARKER x)" for mp cs
    using update_loop_consumed [OF that(1)] that(2) ls
    by (cases r) (auto split: if_splits)
  show "0 < k" "k \<le> length ls"
    using assms(1) ls upd
    by (auto simp: parse_one_hunk_def Let_def
        split: option.splits prod.splits sum.splits if_splits dest!: add_lines_consumed)
qed

section \<open>A whole patch\<close>

function parse_hunks :: "rstr list \<Rightarrow> nat \<Rightarrow> hunk list \<Rightarrow> parse_error + hunk list" where
  "parse_hunks remaining line_number hs =
     (if remaining = [] then Inr hs
      else case parse_one_hunk remaining line_number of
             Inl e \<Rightarrow> Inl e
           | Inr (h, hunk_lines) \<Rightarrow>
               parse_hunks (drop hunk_lines remaining) (line_number + hunk_lines) (hs @ [h]))"
  by pat_completeness auto
termination
  by (relation "measure (\<lambda>(remaining, _). length remaining)")
    (auto dest: parse_one_hunk_consumed)

declare parse_hunks.simps [simp del]

definition check_start_and_end_lines_strict :: "rstr option \<Rightarrow> rstr option \<Rightarrow> parse_error + unit" where
  "check_start_and_end_lines_strict first_line last_line =
     (case (map_option trim first_line, map_option trim last_line) of
        (Some f, Some l) \<Rightarrow>
          if f = BEGIN_PATCH_MARKER \<and> l = END_PATCH_MARKER then Inr ()
          else if f \<noteq> BEGIN_PATCH_MARKER then
            Inl (InvalidPatchError
                  (lit ''The first line of the patch must be '' @ quoted (lit ''*** Begin Patch'')))
          else
            Inl (InvalidPatchError
                  (lit ''The last line of the patch must be '' @ quoted (lit ''*** End Patch'')))
      | (Some f, None) \<Rightarrow>
          if f \<noteq> BEGIN_PATCH_MARKER then
            Inl (InvalidPatchError
                  (lit ''The first line of the patch must be '' @ quoted (lit ''*** Begin Patch'')))
          else
            Inl (InvalidPatchError
                  (lit ''The last line of the patch must be '' @ quoted (lit ''*** End Patch'')))
      | (None, _) \<Rightarrow>
          Inl (InvalidPatchError
                (lit ''The last line of the patch must be '' @ quoted (lit ''*** End Patch''))))"

definition check_patch_boundaries_strict :: "rstr list \<Rightarrow> parse_error + unit" where
  "check_patch_boundaries_strict ls =
     (case ls of
        [] \<Rightarrow> check_start_and_end_lines_strict None None
      | first # _ \<Rightarrow> check_start_and_end_lines_strict (Some first) (Some (last ls)))"

definition check_patch_boundaries_lenient ::
  "rstr list \<Rightarrow> parse_error \<Rightarrow> parse_error + rstr list" where
  "check_patch_boundaries_lenient original_lines original_parse_error =
     (if 2 \<le> length original_lines then
        (let first = hd original_lines; lst = last original_lines
         in if (first = lit ''<<EOF'' \<or> first = lit ''<<'' @ quoted (lit ''EOF'') \<or>
                first = lit ''<<'' @ 0x22 # lit ''EOF'' @ [0x22]) \<and>
               ends_with (lit ''EOF'') lst \<and> 4 \<le> length original_lines
            then (let inner_lines = butlast (tl original_lines)
                  in case check_patch_boundaries_strict inner_lines of
                       Inr _ \<Rightarrow> Inr inner_lines
                     | Inl e \<Rightarrow> Inl e)
            else Inl original_parse_error)
      else Inl original_parse_error)"

definition parse_patch_text :: "rstr \<Rightarrow> parse_mode \<Rightarrow> parse_error + parsed_patch" where
  "parse_patch_text p mode =
     (let all = lines (trim p);
          bounded = (case check_patch_boundaries_strict all of
                       Inr _ \<Rightarrow> Inr all
                     | Inl e \<Rightarrow> (case mode of
                                  Strict \<Rightarrow> Inl e
                                | Lenient \<Rightarrow> check_patch_boundaries_lenient all e))
      in case bounded of
           Inl e \<Rightarrow> Inl e
         | Inr ls \<Rightarrow>
             (case parse_hunks (take (length ls - 1 - 1) (drop 1 ls)) 2 [] of
                Inl e \<Rightarrow> Inl e
              | Inr hs \<Rightarrow> Inr \<lparr>hunks = hs, patch = join [newline] ls\<rparr>))"

definition parse_patch :: "rstr \<Rightarrow> parse_error + parsed_patch" where
  "parse_patch p = parse_patch_text p Lenient"

section \<open>The grammar as a printer\<close>

definition render_chunk :: "update_file_chunk \<Rightarrow> rstr list" where
  "render_chunk c =
     (case change_context c of
        None \<Rightarrow> EMPTY_CHANGE_CONTEXT_MARKER | Some ctx \<Rightarrow> CHANGE_CONTEXT_MARKER @ ctx) #
     map (\<lambda>l. lit ''-'' @ l) (old_lines c) @ map (\<lambda>l. lit ''+'' @ l) (new_lines c) @
     (if is_end_of_file c then [EOF_MARKER] else [])"

fun render_hunk :: "hunk \<Rightarrow> rstr list" where
  "render_hunk (AddFile path contents) =
     (ADD_FILE_MARKER @ path) # map (\<lambda>l. lit ''+'' @ l) (butlast (split_char newline contents))"
| "render_hunk (DeleteFile path) = [DELETE_FILE_MARKER @ path]"
| "render_hunk (UpdateFile path move_path chunks) =
     (UPDATE_FILE_MARKER @ path) #
     (case move_path of None \<Rightarrow> [] | Some q \<Rightarrow> [MOVE_TO_MARKER @ q]) @
     concat (map render_chunk chunks)"

definition render_lines :: "hunk list \<Rightarrow> rstr list" where
  "render_lines hs = BEGIN_PATCH_MARKER # concat (map render_hunk hs) @ [END_PATCH_MARKER]"

definition render_patch :: "hunk list \<Rightarrow> rstr" where
  "render_patch hs = join [newline] (render_lines hs)"

text \<open>
  What the format can carry: lines without line breaks and without a trailing carriage
  return, paths that survive trimming, contents that end with a line feed (or are empty),
  and chunks with at least one line.
\<close>

definition plain_line :: "rstr \<Rightarrow> bool" where
  "plain_line l \<longleftrightarrow> newline \<notin> set l \<and> (l = [] \<or> last l \<noteq> carriage_return)"

definition chunk_ok :: "update_file_chunk \<Rightarrow> bool" where
  "chunk_ok c \<longleftrightarrow>
     old_lines c @ new_lines c \<noteq> [] \<and>
     list_all plain_line (old_lines c @ new_lines c) \<and>
     (case change_context c of None \<Rightarrow> True | Some ctx \<Rightarrow> plain_line ctx)"

definition path_ok :: "rstr \<Rightarrow> bool" where
  "path_ok p \<longleftrightarrow> p \<noteq> [] \<and> plain_line p \<and> trim_end p = p"

fun hunk_ok :: "hunk \<Rightarrow> bool" where
  "hunk_ok (AddFile path contents) =
     (path_ok path \<and> last (split_char newline contents) = [] \<and>
      list_all plain_line (split_char newline contents))"
| "hunk_ok (DeleteFile path) = path_ok path"
| "hunk_ok (UpdateFile path move_path chunks) =
     (path_ok path \<and> (case move_path of None \<Rightarrow> True | Some q \<Rightarrow> plain_line q) \<and>
      chunks \<noteq> [] \<and> list_all chunk_ok chunks)"

section \<open>Round trip\<close>

lemmas marker_defs =
  BEGIN_PATCH_MARKER_def END_PATCH_MARKER_def ADD_FILE_MARKER_def DELETE_FILE_MARKER_def
  UPDATE_FILE_MARKER_def MOVE_TO_MARKER_def EOF_MARKER_def CHANGE_CONTEXT_MARKER_def
  EMPTY_CHANGE_CONTEXT_MARKER_def

lemma header_distinct:
  "strip_prefix ADD_FILE_MARKER (DELETE_FILE_MARKER @ p) = None"
  "strip_prefix ADD_FILE_MARKER (UPDATE_FILE_MARKER @ p) = None"
  "strip_prefix DELETE_FILE_MARKER (UPDATE_FILE_MARKER @ p) = None"
  by (simp_all add: strip_prefix_None_iff starts_with_def marker_defs str_simps)

lemma header_trim:
  assumes "path_ok p" and "m \<in> {ADD_FILE_MARKER, DELETE_FILE_MARKER, UPDATE_FILE_MARKER}"
  shows "trim (m @ p) = m @ p"
proof (rule trim_noop)
  show "m @ p \<noteq> []" "\<not> is_whitespace (hd (m @ p))"
    using assms(2) by (auto simp: marker_defs str_simps is_whitespace_def)
  show "\<not> is_whitespace (last (m @ p))"
    using assms(1) trim_end_last [of p] by (simp add: path_ok_def)
qed

text \<open>The lines that may follow a hunk or a chunk.\<close>

definition hunk_start :: "rstr list \<Rightarrow> bool" where
  "hunk_start rest \<longleftrightarrow> rest = [] \<or>
     (\<exists>p. hd rest = ADD_FILE_MARKER @ p \<or> hd rest = DELETE_FILE_MARKER @ p \<or> hd rest = UPDATE_FILE_MARKER @ p)"

definition chunk_stop :: "rstr list \<Rightarrow> bool" where
  "chunk_stop rest \<longleftrightarrow> rest = [] \<or>
     (hd rest \<noteq> [] \<and> hd (hd rest) \<notin> {0x20, 0x2B, 0x2D} \<and> hd rest \<noteq> EOF_MARKER)"

lemma hunk_start_stop: "hunk_start rest \<Longrightarrow> chunk_stop rest"
  by (auto simp: hunk_start_def chunk_stop_def marker_defs str_simps)

lemma hunk_start_head:
  assumes "hunk_start (l # ls)"
  shows "trim l \<noteq> []" and "starts_with (lit ''***'') l" and "strip_prefix (lit ''+'') l = None"
    and "strip_prefix MOVE_TO_MARKER l = None"
  using assms
  by (auto simp: hunk_start_def marker_defs str_simps trim_eq_Nil_iff is_whitespace_def
      starts_with_def strip_prefix_None_iff)

lemma hunk_start_render: "hunk_start (concat (map render_hunk hs))"
proof (cases hs)
  case (Cons h t)
  then show ?thesis by (cases h) (auto simp: hunk_start_def)
qed (simp add: hunk_start_def)

lemma chunk_stop_render: "hunk_start rest \<Longrightarrow> chunk_stop (concat (map render_chunk cs) @ rest)"
  by (cases cs)
    (auto simp: hunk_start_stop, auto simp: chunk_stop_def render_chunk_def marker_defs str_simps split: option.split)

lemma chunk_loop_minus:
  "chunk_loop ln (map (\<lambda>l. lit ''-'' @ l) os @ ls) p old new =
     chunk_loop ln ls (p + length os) (old @ os) new"
  by (induction os arbitrary: p old) (simp_all add: EOF_MARKER_def str_simps)

lemma chunk_loop_plus:
  "chunk_loop ln (map (\<lambda>l. lit ''+'' @ l) ns @ ls) p old new =
     chunk_loop ln ls (p + length ns) old (new @ ns)"
  by (induction ns arbitrary: p new) (simp_all add: EOF_MARKER_def str_simps)

lemma chunk_loop_stop:
  "chunk_stop rest \<Longrightarrow> 0 < p \<Longrightarrow> chunk_loop ln rest p old new = Inr (old, new, False, p)"
  by (cases rest; cases "hd rest") (auto simp: chunk_stop_def)

lemma parse_chunk_render:
  assumes "chunk_ok c" and "chunk_stop rest"
  shows "parse_update_file_chunk (render_chunk c @ rest) n allow = Inr (c, length (render_chunk c))"
proof -
  let ?body = "map (\<lambda>l. lit ''-'' @ l) (old_lines c) @ map (\<lambda>l. lit ''+'' @ l) (new_lines c) @
     (if is_end_of_file c then [EOF_MARKER] else [])"
  have ne: "0 < length (old_lines c) + length (new_lines c)" using assms(1) by (auto simp: chunk_ok_def)
  have loop: "chunk_loop n (?body @ rest) 0 [] [] =
      Inr (old_lines c, new_lines c, is_end_of_file c, length ?body)"
    using ne assms(2) by (cases "is_end_of_file c") (simp_all add: chunk_loop_minus chunk_loop_plus chunk_loop_stop)
  have len: "\<not> length (l # ?body @ rest) \<le> 1" for l :: rstr using ne by auto
  show ?thesis
  proof (cases "change_context c")
    case None
    then show ?thesis
      using loop len by (simp add: render_chunk_def parse_update_file_chunk_def del: append_assoc)
  next
    case (Some ctx)
    have "CHANGE_CONTEXT_MARKER @ ctx \<noteq> EMPTY_CHANGE_CONTEXT_MARKER"
      by (simp add: marker_defs str_simps)
    with Some show ?thesis
      using loop len by (simp add: render_chunk_def parse_update_file_chunk_def del: append_assoc)
  qed
qed

lemma render_chunk_head:
  obtains l ls where "render_chunk c = l # ls" and "trim l \<noteq> []" and "\<not> starts_with (lit ''***'') l"
    and "strip_prefix MOVE_TO_MARKER l = None"
proof -
  obtain l ls where l: "render_chunk c = l # ls" by (simp add: render_chunk_def)
  then obtain r where "l = 0x40 # 0x40 # r"
    by (auto simp: render_chunk_def marker_defs str_simps split: option.splits)
  then show thesis
    using l by (intro that [of l ls])
      (auto simp: trim_eq_Nil_iff is_whitespace_def starts_with_def strip_prefix_None_iff marker_defs str_simps)
qed

lemma update_loop_render:
  assumes "list_all chunk_ok cs" and "hunk_start rest"
  shows "update_loop (concat (map render_chunk cs) @ rest) ln p acc =
    Inr (acc @ cs, p + length (concat (map render_chunk cs)))"
  using assms(1)
proof (induction cs arbitrary: p acc)
  case Nil
  show ?case
    by (cases rest) (use assms(2) hunk_start_head in \<open>auto simp: update_loop_header\<close>)
next
  case (Cons c cs)
  let ?rest = "concat (map render_chunk cs) @ rest"
  have stop: "chunk_stop ?rest" by (rule chunk_stop_render [OF assms(2)])
  obtain l ls where l: "render_chunk c = l # ls" and ok: "trim l \<noteq> []" "\<not> starts_with (lit ''***'') l"
    by (rule render_chunk_head)
  have "parse_update_file_chunk (render_chunk c @ ?rest) (ln + p) (acc = []) =
      Inr (c, length (render_chunk c))"
    using Cons.prems stop by (intro parse_chunk_render) auto
  then have "update_loop (render_chunk c @ ?rest) ln p acc =
      update_loop ?rest ln (p + length (render_chunk c)) (acc @ [c])"
    by (simp add: l update_loop_chunk [OF ok])
  also have "\<dots> = Inr ((acc @ [c]) @ cs,
      p + length (render_chunk c) + length (concat (map render_chunk cs)))"
    using Cons.prems by (intro Cons.IH) auto
  finally show ?case by simp
qed

lemma add_lines_render:
  assumes "rest = [] \<or> strip_prefix (lit ''+'') (hd rest) = None"
  shows "add_lines (map (\<lambda>l. lit ''+'' @ l) ls @ rest) c p =
    (c @ concat (map (\<lambda>l. l @ [newline]) ls), p + length ls)"
proof (induction ls arbitrary: c p)
  case Nil
  show ?case using assms by (cases rest) auto
qed simp

lemma contents_split:
  assumes "last (split_char d s) = []"
  shows "concat (map (\<lambda>l. l @ [d]) (butlast (split_char d s))) = s"
proof -
  have "split_char d s = butlast (split_char d s) @ [[]]"
    using assms by (metis append_butlast_last_id split_char_nonempty)
  then show ?thesis by (metis join_snoc_Nil join_split_char)
qed

lemma parse_one_hunk_render:
  assumes "hunk_ok h" and "hunk_start rest"
  shows "parse_one_hunk (render_hunk h @ rest) n = Inr (h, length (render_hunk h))"
proof (cases h)
  case (AddFile path contents)
  have "rest = [] \<or> strip_prefix (lit ''+'') (hd rest) = None"
    using assms(2) hunk_start_head(3) by (cases rest) auto
  with AddFile assms(1) show ?thesis
    by (simp add: parse_one_hunk_def header_trim add_lines_render contents_split)
next
  case (DeleteFile path)
  with assms(1) show ?thesis
    by (simp add: parse_one_hunk_def header_trim header_distinct)
next
  case (UpdateFile path mp cs)
  note loop = update_loop_render [of cs rest, OF _ assms(2)]
  show ?thesis
  proof (cases mp)
    case None
    obtain c cs' where cs: "cs = c # cs'" using assms(1) UpdateFile by (cases cs) auto
    obtain l ls where l: "render_chunk c = l # ls" "strip_prefix MOVE_TO_MARKER l = None"
      by (rule render_chunk_head)
    have "(case concat (map render_chunk cs) @ rest of [] \<Rightarrow> None | x # _ \<Rightarrow> strip_prefix MOVE_TO_MARKER x) = None"
      using l by (simp add: cs)
    with UpdateFile None assms(1) show ?thesis
      by (simp add: parse_one_hunk_def header_trim header_distinct loop)
  next
    case (Some q)
    with UpdateFile assms(1) show ?thesis
      by (simp add: parse_one_hunk_def header_trim header_distinct loop)
  qed
qed

lemma render_hunk_nonempty [simp]: "render_hunk h \<noteq> []"
  by (cases h) auto

lemma parse_hunks_render:
  "list_all hunk_ok hs \<Longrightarrow> parse_hunks (concat (map render_hunk hs)) n acc = Inr (acc @ hs)"
proof (induction hs arbitrary: n acc)
  case Nil
  show ?case by (simp add: parse_hunks.simps)
next
  case (Cons h hs)
  have "parse_one_hunk (render_hunk h @ concat (map render_hunk hs)) n = Inr (h, length (render_hunk h))"
    using Cons.prems hunk_start_render by (intro parse_one_hunk_render) auto
  then have "parse_hunks (render_hunk h @ concat (map render_hunk hs)) n acc =
      parse_hunks (concat (map render_hunk hs)) (n + length (render_hunk h)) (acc @ [h])"
    by (subst parse_hunks.simps) simp
  with Cons show ?case by simp
qed

lemma plain_line_markers:
  "plain_line (lit ''-'' @ l) = plain_line l" "plain_line (lit ''+'' @ l) = plain_line l"
  "plain_line l \<Longrightarrow> plain_line (ADD_FILE_MARKER @ l)" "plain_line l \<Longrightarrow> plain_line (DELETE_FILE_MARKER @ l)"
  "plain_line l \<Longrightarrow> plain_line (UPDATE_FILE_MARKER @ l)" "plain_line l \<Longrightarrow> plain_line (MOVE_TO_MARKER @ l)"
  "plain_line l \<Longrightarrow> plain_line (CHANGE_CONTEXT_MARKER @ l)" "plain_line EMPTY_CHANGE_CONTEXT_MARKER"
  "plain_line EOF_MARKER" "plain_line BEGIN_PATCH_MARKER" "plain_line END_PATCH_MARKER"
  by (auto simp: plain_line_def marker_defs str_simps)

lemma plain_chunk: "chunk_ok c \<Longrightarrow> list_all plain_line (render_chunk c)"
  by (auto simp: chunk_ok_def render_chunk_def list_all_iff plain_line_markers split: option.splits)

lemma plain_hunk: "hunk_ok h \<Longrightarrow> list_all plain_line (render_hunk h)"
  by (cases h)
    (auto simp: path_ok_def list_all_iff plain_line_markers dest: in_set_butlastD
      split: option.splits dest!: plain_chunk [unfolded list_all_iff, rule_format])

lemma plain_render: "list_all hunk_ok hs \<Longrightarrow> list_all plain_line (render_lines hs)"
  using plain_hunk by (fastforce simp: render_lines_def list_all_iff plain_line_markers)

lemma lines_render_patch:
  assumes "list_all hunk_ok hs"
  shows "lines (trim (render_patch hs)) = render_lines hs"
proof -
  have ne: "render_lines hs \<noteq> []" "hd (render_lines hs) \<noteq> []" "last (render_lines hs) \<noteq> []"
    by (simp_all add: render_lines_def marker_defs str_simps)
  have "trim (render_patch hs) = render_patch hs"
    using last_join [OF ne(1,3), of "[newline]"] hd_join [OF ne(1,2), of "[newline]"]
    by (intro trim_noop)
      (simp_all add: render_patch_def, simp_all add: render_lines_def marker_defs str_simps is_whitespace_def)
  moreover have "lines (render_patch hs) = render_lines hs"
    unfolding render_patch_def using plain_render [OF assms] ne
    by (intro lines_join) (auto simp: list_all_iff plain_line_def strip_cr_def)
  ultimately show ?thesis by simp
qed

lemma boundaries_render: "check_patch_boundaries_strict (render_lines hs) = Inr ()"
proof -
  have "trim BEGIN_PATCH_MARKER = BEGIN_PATCH_MARKER" "trim END_PATCH_MARKER = END_PATCH_MARKER"
    by (rule trim_noop; simp add: marker_defs str_simps is_whitespace_def)+
  then show ?thesis
    by (simp add: render_lines_def check_patch_boundaries_strict_def check_start_and_end_lines_strict_def)
qed

lemma parse_text_render:
  assumes "list_all hunk_ok hs"
    and "case check_patch_boundaries_strict (lines (trim t)) of
        Inr _ \<Rightarrow> lines (trim t) = render_lines hs
      | Inl e \<Rightarrow> check_patch_boundaries_lenient (lines (trim t)) e = Inr (render_lines hs)"
  shows "parse_patch t = Inr \<lparr>hunks = hs, patch = render_patch hs\<rparr>"
proof -
  have "take (length (render_lines hs) - 1 - 1) (drop 1 (render_lines hs)) = concat (map render_hunk hs)"
    by (simp add: render_lines_def)
  then have "parse_hunks (take (length (render_lines hs) - 1 - 1) (drop 1 (render_lines hs))) 2 [] = Inr hs"
    using parse_hunks_render [OF assms(1)] by simp
  with assms(2) show ?thesis
    by (auto simp: parse_patch_def parse_patch_text_def render_patch_def Let_def split: sum.splits)
qed

lemma parse_patch_render:
  "list_all hunk_ok hs \<Longrightarrow> parse_patch (render_patch hs) = Inr \<lparr>hunks = hs, patch = render_patch hs\<rparr>"
  by (rule parse_text_render) (simp_all add: lines_render_patch boundaries_render)

text \<open>The same text inside a shell here-document, which the lenient mode accepts.\<close>

definition heredoc_openers :: "rstr list" where
  "heredoc_openers =
     [lit ''<<EOF'', lit ''<<'' @ quoted (lit ''EOF''), lit ''<<'' @ 0x22 # lit ''EOF'' @ [0x22]]"

definition heredoc :: "rstr \<Rightarrow> rstr \<Rightarrow> rstr" where
  "heredoc opener t = join [newline] [opener, t, lit ''EOF'']"

lemma heredoc_opener_plain:
  assumes "opener \<in> set heredoc_openers"
  shows "plain_line opener" and "opener \<noteq> []" and "\<not> is_whitespace (hd opener)"
    and "\<not> is_whitespace (last opener)" and "opener \<noteq> BEGIN_PATCH_MARKER"
  using assms
  by (auto simp: heredoc_openers_def quoted_def plain_line_def is_whitespace_def marker_defs str_simps)

lemma lines_heredoc:
  assumes "list_all hunk_ok hs" and "opener \<in> set heredoc_openers"
  shows "lines (trim (heredoc opener (render_patch hs))) = opener # render_lines hs @ [lit ''EOF'']"
proof -
  let ?ls = "opener # render_lines hs @ [lit ''EOF'']"
  have whole: "heredoc opener (render_patch hs) = join [newline] ?ls"
    using join_snoc [of "opener # render_lines hs" "[newline]" "lit ''EOF''"]
    by (simp add: heredoc_def render_patch_def join_Cons render_lines_def)
  have ne: "last ?ls \<noteq> []" by (simp add: str_simps)
  note op = heredoc_opener_plain [OF assms(2)]
  have "trim (join [newline] ?ls) = join [newline] ?ls"
    using op(2,3) last_join [OF _ ne, of "[newline]"] hd_join [of ?ls "[newline]"]
    by (intro trim_noop) (simp_all, simp add: is_whitespace_def str_simps)
  moreover have "lines (join [newline] ?ls) = ?ls"
    using plain_render [OF assms(1)] op(1)
    by (intro lines_join [OF _ ne])
      (auto simp: list_all_iff plain_line_def strip_cr_def str_simps)
  ultimately show ?thesis by (simp add: whole)
qed

text \<open>C33: \<open>parse_patch\<close> reads back every patch the grammar can carry: for a list of well-formed
  hunks (added files with contents that end with a line feed, deletions, updates with or
  without a move and with one or more chunks, with or without context, with or without the
  end-of-file mark), parsing the rendered text returns the same hunks, and the text itself
  as the normalised patch. Wrapping the text in one of the three here-document forms
  changes nothing.\<close>

theorem parse_render_roundtrip:
  assumes "list_all hunk_ok hs" and "opener \<in> set heredoc_openers"
  shows "parse_patch (render_patch hs) = Inr \<lparr>hunks = hs, patch = render_patch hs\<rparr> \<and>
    parse_patch (heredoc opener (render_patch hs)) = Inr \<lparr>hunks = hs, patch = render_patch hs\<rparr>"
proof (intro conjI parse_patch_render [OF assms(1)] parse_text_render [OF assms(1)])
  let ?ls = "opener # render_lines hs @ [lit ''EOF'']"
  note op = heredoc_opener_plain [OF assms(2)]
  have "trim opener \<noteq> BEGIN_PATCH_MARKER" using op trim_noop by auto
  then obtain e where strict: "check_patch_boundaries_strict ?ls = Inl e"
    by (auto simp: check_patch_boundaries_strict_def check_start_and_end_lines_strict_def split: if_splits)
  have "4 \<le> length ?ls" by (simp add: render_lines_def)
  moreover have "ends_with (lit ''EOF'') (last ?ls)" by (simp add: ends_with_def starts_with_def)
  ultimately have "check_patch_boundaries_lenient ?ls e = Inr (render_lines hs)"
    using assms(2)
    by (auto simp: check_patch_boundaries_lenient_def heredoc_openers_def boundaries_render Let_def)
  then show "case check_patch_boundaries_strict (lines (trim (heredoc opener (render_patch hs)))) of
        Inr _ \<Rightarrow> lines (trim (heredoc opener (render_patch hs))) = render_lines hs
      | Inl e \<Rightarrow> check_patch_boundaries_lenient (lines (trim (heredoc opener (render_patch hs)))) e =
          Inr (render_lines hs)"
    by (simp add: lines_heredoc [OF assms] strict)
qed

text \<open>A patch with one hunk of every kind.\<close>

definition sample_hunks :: "hunk list" where
  "sample_hunks =
     [AddFile (lit ''a.txt'') (lit ''x'' @ [newline] @ lit ''+y'' @ [newline]),
      DeleteFile (lit ''b c''),
      UpdateFile (lit ''d.rs'') (Some (lit ''e.rs''))
        [\<lparr>change_context = Some (lit ''fn f()''), old_lines = [lit ''p'', []], new_lines = [lit ''q''],
          is_end_of_file = False\<rparr>,
         \<lparr>change_context = None, old_lines = [], new_lines = [lit ''*** r''], is_end_of_file = True\<rparr>]]"

lemma sample_hunks_ok: "list_all hunk_ok sample_hunks"
  by (simp add: sample_hunks_def path_ok_def plain_line_def chunk_ok_def trim_end_last is_whitespace_def str_simps)

theorem parse_render_roundtrip_witness:
  "list_all hunk_ok sample_hunks \<and> lit ''<<EOF'' \<in> set heredoc_openers \<and>
   parse_patch (heredoc (lit ''<<EOF'') (render_patch sample_hunks)) =
     Inr \<lparr>hunks = sample_hunks, patch = render_patch sample_hunks\<rparr>"
  using parse_render_roundtrip [OF sample_hunks_ok, of "lit ''<<EOF''"] sample_hunks_ok
  by (simp add: heredoc_openers_def)

end
