(* ===== verification/PatchApply.thy ===== *)
theory PatchApply
  imports SeekSequence PatchParser
begin

text \<open>
  The pure half of the patch engine
  (\<open>xai-grok-tools/src/implementations/codex/apply_patch/apply.rs\<close>, \<open>errors.rs\<close>): from the
  chunks of an update to replacements, and from the replacements to the new contents. A
  panic (\<open>Vec::insert\<close> past the end) is the outer \<open>None\<close> of \<open>apply_replacements\<close> and
  \<open>derive_new_contents\<close>; it is proved never to happen. The abstract specification is
  \<open>splice\<close>, one left-to-right pass that copies the text between the replaced regions.
\<close>

section \<open>Operations\<close>

datatype apply_patch_error =
  ParseErr parse_error
| ComputeReplacements rstr
| IoErr rstr rstr "rstr option"

type_synonym replacement = "nat \<times> nat \<times> rstr list"

definition last_is_empty :: "rstr list \<Rightarrow> bool" where
  "last_is_empty ls \<longleftrightarrow> ls \<noteq> [] \<and> last ls = []"

text \<open>The search of a chunk's old lines, with the retry without a trailing empty line.\<close>

definition find_chunk :: "rstr list \<Rightarrow> nat \<Rightarrow> update_file_chunk \<Rightarrow> replacement option" where
  "find_chunk original_lines line_index c =
     (case seek_sequence original_lines (old_lines c) line_index (is_end_of_file c) of
        Some start_idx \<Rightarrow> Some (start_idx, length (old_lines c), new_lines c)
      | None \<Rightarrow>
          if last_is_empty (old_lines c) then
            (let pattern = butlast (old_lines c);
                 new_slice = (if last_is_empty (new_lines c) then butlast (new_lines c) else new_lines c)
             in map_option (\<lambda>start_idx. (start_idx, length pattern, new_slice))
                  (seek_sequence original_lines pattern line_index (is_end_of_file c)))
          else None)"

definition seek_context :: "rstr list \<Rightarrow> rstr \<Rightarrow> nat \<Rightarrow> update_file_chunk \<Rightarrow> apply_patch_error + nat" where
  "seek_context original_lines path line_index c =
     (case change_context c of
        None \<Rightarrow> Inr line_index
      | Some ctx_line \<Rightarrow>
          (case seek_sequence original_lines [ctx_line] line_index False of
             Some idx \<Rightarrow> Inr (idx + 1)
           | None \<Rightarrow> Inl (ComputeReplacements
                 (lit ''Failed to find context '' @ quoted ctx_line @ lit '' in '' @ path))))"

definition insertion_idx :: "rstr list \<Rightarrow> nat" where
  "insertion_idx ls = (if last_is_empty ls then length ls - 1 else length ls)"

fun replacements_loop ::
  "rstr list \<Rightarrow> rstr \<Rightarrow> update_file_chunk list \<Rightarrow> nat \<Rightarrow> replacement list \<Rightarrow>
   apply_patch_error + replacement list" where
  "replacements_loop original_lines path [] line_index replacements = Inr replacements"
| "replacements_loop original_lines path (c # chunks) line_index replacements =
     (case seek_context original_lines path line_index c of
        Inl e \<Rightarrow> Inl e
      | Inr line_index \<Rightarrow>
          if old_lines c = [] then
            replacements_loop original_lines path chunks line_index
              (replacements @ [(insertion_idx original_lines, 0, new_lines c)])
          else
            (case find_chunk original_lines line_index c of
               Some (start_idx, n, new_slice) \<Rightarrow>
                 replacements_loop original_lines path chunks (start_idx + n)
                   (replacements @ [(start_idx, n, new_slice)])
             | None \<Rightarrow> Inl (ComputeReplacements
                   (lit ''Failed to find expected lines in '' @ path @ lit '':'' @ [newline] @
                    join [newline] (old_lines c)))))"

definition compute_replacements ::
  "rstr list \<Rightarrow> rstr \<Rightarrow> update_file_chunk list \<Rightarrow> apply_patch_error + replacement list" where
  "compute_replacements original_lines path chunks =
     map_sum id (sort_key fst) (replacements_loop original_lines path chunks 0 [])"

text \<open>The loops of \<open>apply_replacements\<close>: \<open>Vec::remove\<close> under its guard, and \<open>Vec::insert\<close>.\<close>

fun remove_lines :: "nat \<Rightarrow> nat \<Rightarrow> rstr list \<Rightarrow> rstr list" where
  "remove_lines 0 start_idx ls = ls"
| "remove_lines (Suc k) start_idx ls =
     remove_lines k start_idx
       (if start_idx < length ls then take start_idx ls @ drop (Suc start_idx) ls else ls)"

definition vec_insert :: "nat \<Rightarrow> 'a \<Rightarrow> 'a list \<Rightarrow> 'a list option" where
  "vec_insert i x xs = (if i \<le> length xs then Some (take i xs @ x # drop i xs) else None)"

fun insert_lines :: "nat \<Rightarrow> rstr list \<Rightarrow> rstr list \<Rightarrow> rstr list option" where
  "insert_lines i [] ls = Some ls"
| "insert_lines i (x # xs) ls =
     (case vec_insert i x ls of None \<Rightarrow> None | Some ls' \<Rightarrow> insert_lines (i + 1) xs ls')"

definition apply_one :: "replacement \<Rightarrow> rstr list \<Rightarrow> rstr list option" where
  "apply_one r ls =
     (case r of (start_idx, old_len, new_segment) \<Rightarrow>
        insert_lines start_idx new_segment (remove_lines old_len start_idx ls))"

definition apply_replacements :: "rstr list \<Rightarrow> replacement list \<Rightarrow> rstr list option" where
  "apply_replacements ls replacements =
     foldl (\<lambda>acc r. Option.bind acc (apply_one r)) (Some ls) (rev replacements)"

definition file_lines :: "rstr \<Rightarrow> rstr list" where
  "file_lines content =
     (let ls = split_char newline content in if last_is_empty ls then butlast ls else ls)"

definition ensure_trailing :: "rstr list \<Rightarrow> rstr list" where
  "ensure_trailing ls = (if last_is_empty ls then ls else ls @ [[]])"

definition derive_new_contents ::
  "rstr \<Rightarrow> rstr \<Rightarrow> update_file_chunk list \<Rightarrow> (apply_patch_error + rstr) option" where
  "derive_new_contents original_content path chunks =
     (let original_lines = file_lines original_content
      in case compute_replacements original_lines path chunks of
           Inl e \<Rightarrow> Some (Inl e)
         | Inr replacements \<Rightarrow>
             map_option (\<lambda>ls. Inr (join [newline] (ensure_trailing ls)))
               (apply_replacements original_lines replacements))"

section \<open>Specification\<close>

text \<open>
  One pass from left to right: \<open>pos\<close> is the number of lines already consumed, \<open>ls\<close> the
  lines that remain.
\<close>

fun splice :: "nat \<Rightarrow> replacement list \<Rightarrow> rstr list \<Rightarrow> rstr list" where
  "splice pos [] ls = ls"
| "splice pos ((s, n, new) # rs) ls =
     take (s - pos) ls @ new @ splice (s + n) rs (drop (s - pos + n) ls)"

abbreviation before :: "replacement \<Rightarrow> replacement \<Rightarrow> bool" where
  "before r r' \<equiv> fst r + fst (snd r) \<le> fst r'"

definition rep_within :: "rstr list \<Rightarrow> replacement \<Rightarrow> bool" where
  "rep_within ls r \<longleftrightarrow> fst r + fst (snd r) \<le> length ls"

text \<open>What a replacement computed for a chunk may be.\<close>

definition chunk_rep :: "rstr list \<Rightarrow> update_file_chunk \<Rightarrow> replacement \<Rightarrow> bool" where
  "chunk_rep ls c r \<longleftrightarrow>
     (case r of (s, n, new) \<Rightarrow>
        (if old_lines c = [] then s = insertion_idx ls \<and> n = 0 \<and> new = new_lines c
         else map normalise (take n (drop s ls)) = map normalise (take n (old_lines c)) \<and>
              ((n = length (old_lines c) \<and> new = new_lines c) \<or>
               (last_is_empty (old_lines c) \<and> n = length (old_lines c) - 1 \<and>
                new = (if last_is_empty (new_lines c) then butlast (new_lines c) else new_lines c)))))"

section \<open>Applying replacements\<close>

lemma remove_lines_eq: "start \<le> length ls \<Longrightarrow> remove_lines k start ls = take start ls @ drop (start + k) ls"
proof (induction k arbitrary: ls)
  case (Suc k)
  show ?case
  proof (cases "start < length ls")
    case True
    with Suc.IH [of "take start ls @ drop (Suc start) ls"] show ?thesis
      by (simp add: min_def add.commute)
  next
    case False
    with Suc show ?thesis by simp
  qed
qed simp

lemma insert_lines_eq:
  "i \<le> length ls \<Longrightarrow> insert_lines i new ls = Some (take i ls @ new @ drop i ls)"
proof (induction new arbitrary: i ls)
  case (Cons x new)
  then have "insert_lines (i + 1) new (take i ls @ x # drop i ls) =
      Some (take i ls @ x # new @ drop i ls)"
    by (simp add: min_def)
  with Cons.prems show ?case by (simp add: vec_insert_def)
qed simp

lemma apply_one_eq:
  "s \<le> length ls \<Longrightarrow> apply_one (s, n, new) ls = Some (take s ls @ new @ drop (s + n) ls)"
  by (simp add: apply_one_def remove_lines_eq insert_lines_eq min_def)

lemma apply_replacements_Nil [simp]: "apply_replacements ls [] = Some ls"
  by (simp add: apply_replacements_def)

lemma apply_replacements_Cons:
  "apply_replacements ls (r # rs) = Option.bind (apply_replacements ls rs) (apply_one r)"
  by (simp add: apply_replacements_def)

text \<open>Sorted replacements that start inside the file never panic.\<close>

lemma apply_replacements_total:
  assumes "sorted (map fst rs)" and "\<forall>r \<in> set rs. fst r \<le> length ls"
  shows "\<exists>ls'. apply_replacements ls rs = Some ls' \<and>
    (rs \<noteq> [] \<longrightarrow> fst (hd rs) \<le> length ls') \<and> (rs = [] \<longrightarrow> ls' = ls)"
  using assms
proof (induction rs)
  case (Cons r rs)
  then obtain ls' where ls': "apply_replacements ls rs = Some ls'"
    and hd: "rs \<noteq> [] \<longrightarrow> fst (hd rs) \<le> length ls'" "rs = [] \<longrightarrow> ls' = ls" by auto
  obtain s n new where r: "r = (s, n, new)" by (cases r)
  have "s \<le> length ls'"
    using Cons.prems hd r by (cases rs) (auto intro: le_trans)
  then show ?case using ls' r by (simp add: apply_replacements_Cons apply_one_eq)
qed simp

text \<open>Replacements that do not overlap are a splice.\<close>

lemma splice_prefix:
  assumes "\<forall>r \<in> set rs. p \<le> fst r"
  shows "splice 0 rs ls = take p ls @ splice p rs (drop p ls)"
proof (cases rs)
  case (Cons r rs')
  obtain s n new where r: "r = (s, n, new)" by (cases r)
  with Cons assms have "p \<le> s" by auto
  then have "take s ls = take p ls @ take (s - p) (drop p ls)"
    using take_add [of p "s - p" ls] by simp
  with Cons r \<open>p \<le> s\<close> show ?thesis by (simp add: add.commute)
qed simp

lemma apply_replacements_splice:
  assumes "sorted_wrt before rs" and "list_all (rep_within ls) rs"
  shows "apply_replacements ls rs = Some (splice 0 rs ls)"
  using assms
proof (induction rs)
  case (Cons r rs)
  obtain s n new where r: "r = (s, n, new)" by (cases r)
  have later: "\<forall>r' \<in> set rs. s + n \<le> fst r' \<and> rep_within ls r'"
    and within: "s + n \<le> length ls"
    using Cons.prems r by (auto simp: rep_within_def list_all_iff)
  have split: "splice 0 rs ls = take (s + n) ls @ splice (s + n) rs (drop (s + n) ls)"
    using later by (intro splice_prefix) auto
  have "apply_replacements ls (r # rs) = apply_one (s, n, new) (splice 0 rs ls)"
    using Cons r by (simp add: apply_replacements_Cons)
  also have "\<dots> = Some (take s (splice 0 rs ls) @ new @ drop (s + n) (splice 0 rs ls))"
    using within by (intro apply_one_eq) (simp add: split)
  also have "\<dots> = Some (take s ls @ new @ splice (s + n) rs (drop (s + n) ls))"
    using within by (simp add: split min_def)
  finally show ?case by (simp add: r)
qed simp

text \<open>Sorting by start keeps compatible replacements apart.\<close>

abbreviation sortable :: "replacement \<Rightarrow> replacement \<Rightarrow> bool" where
  "sortable r r' \<equiv> before r r' \<or> (fst (snd r) = 0 \<and> before r' r)"

lemma insort_before:
  "sorted_wrt before rs \<Longrightarrow> \<forall>r' \<in> set rs. sortable r r' \<Longrightarrow> sorted_wrt before (insort_key fst r rs)"
proof (induction rs)
  case (Cons x rs)
  show ?case
  proof (cases "fst r \<le> fst x")
    case True
    then have "before r x" using Cons.prems by auto
    moreover have "before r y" if "y \<in> set rs" for y
    proof -
      have "fst x \<le> fst y" using Cons.prems that by auto
      with True Cons.prems that show ?thesis by fastforce
    qed
    ultimately show ?thesis using True Cons.prems by simp
  next
    case False
    then have "before x r" using Cons.prems by auto
    with False Cons show ?thesis by (auto simp: set_insort_key)
  qed
qed simp

lemma sort_before: "sorted_wrt sortable rs \<Longrightarrow> sorted_wrt before (sort_key fst rs)"
  by (induction rs) (auto intro!: insort_before)

section \<open>Computing replacements\<close>

lemma seek_context_le:
  "seek_context ls path li c = Inr li' \<Longrightarrow> li \<le> length ls \<Longrightarrow> li \<le> li' \<and> li' \<le> length ls"
  by (auto simp: seek_context_def split: option.splits dest: seek_sequence_bounds)

lemma seek_sequence_region:
  assumes "seek_sequence ls pat li eof = Some s" and "li \<le> length ls"
  shows "s + length pat \<le> length ls" and "\<not> eof \<Longrightarrow> li \<le> s"
    and "map normalise (take (length pat) (drop s ls)) = map normalise pat"
proof -
  show "s + length pat \<le> length ls" "\<not> eof \<Longrightarrow> li \<le> s"
    using assms seek_sequence_bounds [OF assms(1)] by (cases "pat = []"; force simp: seek_sequence_def)+
  show "map normalise (take (length pat) (drop s ls)) = map normalise pat"
    using seek_sequence_match [OF assms(1)] by (cases "pat = []") (simp_all add: match_at_iff)
qed

lemma find_chunk_spec:
  assumes "find_chunk ls li c = Some (s, n, new)" and "li \<le> length ls" and "old_lines c \<noteq> []"
  shows "s + n \<le> length ls" and "\<not> is_end_of_file c \<Longrightarrow> li \<le> s" and "chunk_rep ls c (s, n, new)"
proof -
  consider (whole) "seek_sequence ls (old_lines c) li (is_end_of_file c) = Some s"
      "n = length (old_lines c)" "new = new_lines c"
    | (retry) "seek_sequence ls (butlast (old_lines c)) li (is_end_of_file c) = Some s"
      "n = length (old_lines c) - 1" "last_is_empty (old_lines c)"
      "new = (if last_is_empty (new_lines c) then butlast (new_lines c) else new_lines c)"
    using assms(1) by (fastforce simp: find_chunk_def Let_def split: option.splits if_splits)
  then have "s + n \<le> length ls \<and> (\<not> is_end_of_file c \<longrightarrow> li \<le> s) \<and> chunk_rep ls c (s, n, new)"
  proof cases
    case whole
    with assms seek_sequence_region [OF whole(1) assms(2)] show ?thesis by (simp add: chunk_rep_def)
  next
    case retry
    have "butlast (old_lines c) = take n (old_lines c)"
      using retry(2) by (simp add: butlast_conv_take)
    with retry assms seek_sequence_region [OF retry(1) assms(2)] show ?thesis
      by (simp add: chunk_rep_def)
  qed
  then show "s + n \<le> length ls" "\<not> is_end_of_file c \<Longrightarrow> li \<le> s" "chunk_rep ls c (s, n, new)"
    by blast+
qed

lemma insertion_idx_le: "insertion_idx ls \<le> length ls"
  by (simp add: insertion_idx_def)

text \<open>
  Chunks that cannot reach back over an earlier one: no end-of-file search, and no pure
  addition in front of a final empty line.
\<close>

definition forward_chunk :: "rstr list \<Rightarrow> update_file_chunk \<Rightarrow> bool" where
  "forward_chunk ls c \<longleftrightarrow>
     (if old_lines c = [] then \<not> last_is_empty ls else \<not> is_end_of_file c)"

text \<open>One round of the loop.\<close>

lemma replacements_loop_step:
  assumes "replacements_loop ls path (c # cs) li acc = Inr reps" and "li \<le> length ls"
  obtains li' r where "replacements_loop ls path cs li' (acc @ [r]) = Inr reps"
    and "li' \<le> length ls" and "chunk_rep ls c r" and "rep_within ls r"
    and "forward_chunk ls c \<longrightarrow> li \<le> fst r \<and> li \<le> li' \<and>
      (fst r + fst (snd r) \<le> li' \<or> fst (snd r) = 0 \<and> fst r = length ls)"
proof -
  obtain l1 where l1: "seek_context ls path li c = Inr l1"
    using assms(1) by (auto split: sum.splits)
  then have le: "li \<le> l1" "l1 \<le> length ls" using seek_context_le assms(2) by blast+
  show thesis
  proof (cases "old_lines c = []")
    case True
    with assms(1) l1 le show thesis
      by (intro that [of l1 "(insertion_idx ls, 0, new_lines c)"])
        (auto simp: chunk_rep_def rep_within_def insertion_idx_le forward_chunk_def insertion_idx_def)
  next
    case False
    then obtain s n new where f: "find_chunk ls l1 c = Some (s, n, new)"
      and "replacements_loop ls path cs (s + n) (acc @ [(s, n, new)]) = Inr reps"
      using assms(1) l1 by (auto split: option.splits)
    with find_chunk_spec [OF f le(2) False] False le show thesis
      by (intro that [of "s + n" "(s, n, new)"]) (auto simp: rep_within_def forward_chunk_def)
  qed
qed

lemma replacements_loop_spec:
  "replacements_loop ls path cs li acc = Inr reps \<Longrightarrow> li \<le> length ls \<Longrightarrow>
   \<exists>new. reps = acc @ new \<and> list_all2 (chunk_rep ls) cs new \<and> list_all (rep_within ls) new \<and>
     (list_all (forward_chunk ls) cs \<longrightarrow> sorted_wrt sortable new \<and> (\<forall>r \<in> set new. li \<le> fst r))"
proof (induction cs arbitrary: li acc)
  case (Cons c cs)
  obtain li' r where step: "replacements_loop ls path cs li' (acc @ [r]) = Inr reps"
    and li': "li' \<le> length ls" and r: "chunk_rep ls c r" "rep_within ls r"
    and fwd: "forward_chunk ls c \<longrightarrow> li \<le> fst r \<and> li \<le> li' \<and>
      (fst r + fst (snd r) \<le> li' \<or> fst (snd r) = 0 \<and> fst r = length ls)"
    using Cons.prems by (rule replacements_loop_step)
  obtain new where new: "reps = (acc @ [r]) @ new" "list_all2 (chunk_rep ls) cs new"
    "list_all (rep_within ls) new"
    "list_all (forward_chunk ls) cs \<longrightarrow> sorted_wrt sortable new \<and> (\<forall>r \<in> set new. li' \<le> fst r)"
    using Cons.IH [OF step li'] by blast
  have "sortable r r'" if "list_all (forward_chunk ls) (c # cs)" "r' \<in> set new" for r'
    using that fwd new(3,4) by (fastforce simp: list_all_iff rep_within_def)
  with new r fwd show ?case
    by (intro exI [of _ "r # new"]) (auto intro: le_trans)
qed simp

lemma compute_replacements_spec:
  assumes "compute_replacements ls path cs = Inr reps"
  obtains new where "reps = sort_key fst new" and "list_all2 (chunk_rep ls) cs new"
    and "list_all (rep_within ls) reps"
    and "list_all (forward_chunk ls) cs \<longrightarrow> sorted_wrt before reps"
proof -
  obtain new where loop: "replacements_loop ls path cs 0 [] = Inr new" and reps: "reps = sort_key fst new"
    using assms by (cases "replacements_loop ls path cs 0 []") (auto simp: compute_replacements_def)
  with replacements_loop_spec [OF loop] show thesis
    by (intro that [of new]) (auto simp: list_all_iff sort_before)
qed

lemma apply_computed_total:
  assumes "compute_replacements ls path cs = Inr reps"
  shows "\<exists>ls'. apply_replacements ls reps = Some ls'"
proof -
  obtain new where "reps = sort_key fst new" and "list_all (rep_within ls) reps"
    using assms by (rule compute_replacements_spec)
  then have "sorted (map fst reps)" "\<forall>r \<in> set reps. fst r \<le> length ls"
    by (auto simp: list_all_iff rep_within_def)
  then show ?thesis using apply_replacements_total by blast
qed

section \<open>Properties\<close>

text \<open>Deriving the new contents of a file never panics: for every file and every list of
  chunks, also those with overlapping or out-of-order regions, the result is an error or
  new contents.\<close>

theorem derive_new_contents_total:
  "\<exists>r. derive_new_contents content path chunks = Some r"
  using apply_computed_total
  by (auto simp: derive_new_contents_def Let_def split: sum.split)

text \<open>C34: Applying an update refines the left-to-right splice. When no chunk searches from the
  end of the file and no pure addition meets a final empty line, the computed replacements
  correspond one to one to the chunks (each region equals the chunk's old lines up to white
  space and typographic punctuation, and receives its new lines), they lie inside the file,
  do not overlap, and the result is exactly the file with those regions replaced and
  everything between them unchanged.\<close>

theorem apply_replacements_refines_splice:
  assumes "compute_replacements ls path chunks = Inr reps"
    and "list_all (forward_chunk ls) chunks"
  shows "(\<exists>rs. reps = sort_key fst rs \<and> list_all2 (chunk_rep ls) chunks rs) \<and>
    list_all (rep_within ls) reps \<and> sorted_wrt before reps \<and>
    apply_replacements ls reps = Some (splice 0 reps ls)"
proof -
  obtain rs where "reps = sort_key fst rs" "list_all2 (chunk_rep ls) chunks rs"
    and within: "list_all (rep_within ls) reps"
    and "list_all (forward_chunk ls) chunks \<longrightarrow> sorted_wrt before reps"
    using assms(1) by (rule compute_replacements_spec)
  with assms(2) apply_replacements_splice [OF _ within] show ?thesis by blast
qed

text \<open>A file and two chunks, the first a pure addition.\<close>

definition sample_file :: "rstr list" where
  "sample_file = [lit ''a'', lit ''b'', lit ''c'']"

definition sample_chunks :: "update_file_chunk list" where
  "sample_chunks =
     [\<lparr>change_context = None, old_lines = [], new_lines = [lit ''z''], is_end_of_file = False\<rparr>,
      \<lparr>change_context = Some (lit ''a''), old_lines = [lit ''b''], new_lines = [lit ''x'', lit ''y''],
        is_end_of_file = False\<rparr>]"

lemma sample_replacements:
  "compute_replacements sample_file [] sample_chunks =
     Inr [(1, 1, [lit ''x'', lit ''y'']), (3, 0, [lit ''z''])]"
  by (simp add: compute_replacements_def sample_file_def sample_chunks_def seek_context_def
      find_chunk_def insertion_idx_def last_is_empty_def seek_sequence_def Let_def
      seek_pass.simps str_simps)

theorem apply_replacements_refines_splice_witness:
  "apply_replacements sample_file [(1, 1, [lit ''x'', lit ''y'']), (3, 0, [lit ''z''])] =
     Some [lit ''a'', lit ''x'', lit ''y'', lit ''c'', lit ''z'']"
proof -
  have "list_all (forward_chunk sample_file) sample_chunks"
    by (simp add: sample_file_def sample_chunks_def forward_chunk_def last_is_empty_def str_simps)
  with apply_replacements_refines_splice [OF sample_replacements] show ?thesis
    by (simp add: sample_file_def)
qed

text \<open>A single edit does what a diff says. If the file is \<open>pre @ old @ post\<close> and this is
  the first exact occurrence of \<open>old\<close>, a chunk without context replaces exactly that
  occurrence, and the new contents end with a line feed.\<close>

theorem derive_single_edit:
  assumes "old \<noteq> []"
    and "file_lines content = pre @ old @ post"
    and "\<forall>k < length pre. take (length old) (drop k (pre @ old @ post)) \<noteq> old"
  shows "derive_new_contents content path
      [\<lparr>change_context = None, old_lines = old, new_lines = new, is_end_of_file = False\<rparr>] =
    Some (Inr (join [newline] (ensure_trailing (pre @ new @ post))))"
proof -
  have "seek_pass id (pre @ old @ post) old 0 (length (pre @ old @ post) - length old) = Some (length pre)"
    using assms(3) by (auto simp: seek_pass_Some match_at_id assms(1))
  then have "seek_sequence (pre @ old @ post) old 0 False = Some (length pre)"
    using assms(1) by (simp add: seek_sequence_def Let_def)
  then have "compute_replacements (pre @ old @ post) path
      [\<lparr>change_context = None, old_lines = old, new_lines = new, is_end_of_file = False\<rparr>] =
      Inr [(length pre, length old, new)]"
    using assms(1) by (simp add: compute_replacements_def seek_context_def find_chunk_def)
  moreover have "apply_replacements (pre @ old @ post) [(length pre, length old, new)] =
      Some (pre @ new @ post)"
    by (simp add: apply_replacements_Cons apply_one_eq)
  ultimately show ?thesis
    by (simp add: derive_new_contents_def assms(2))
qed

theorem derive_single_edit_witness:
  "derive_new_contents (lit ''a'' @ [newline] @ lit ''b'' @ [newline]) []
     [\<lparr>change_context = None, old_lines = [lit ''b''], new_lines = [lit ''c'', lit ''d''],
       is_end_of_file = False\<rparr>] =
   Some (Inr (lit ''a'' @ [newline] @ lit ''c'' @ [newline] @ lit ''d'' @ [newline]))"
proof -
  have "file_lines (lit ''a'' @ [newline] @ lit ''b'' @ [newline]) = [lit ''a''] @ [lit ''b''] @ []"
    by (simp add: file_lines_def last_is_empty_def str_simps Let_def)
  from derive_single_edit [OF _ this, of "[]" "[lit ''c'', lit ''d'']"] show ?thesis
    by (simp add: ensure_trailing_def last_is_empty_def str_simps)
qed

text \<open>An end-of-file chunk can lose its edit. A file ends with two different lines; a
  first chunk replaces both by as many lines, a second chunk, marked as end of file,
  replaces the last of them. The second search starts at the end of the original file,
  regardless of the line the first chunk has reached; its region overlaps the first, and
  the new text of the second chunk does not occur in the result.\<close>

theorem eof_chunk_can_be_lost:
  assumes "a \<noteq> b"
  shows "compute_replacements [a, b] path
      [\<lparr>change_context = None, old_lines = [a, b], new_lines = [x, y], is_end_of_file = False\<rparr>,
       \<lparr>change_context = None, old_lines = [b], new_lines = [z], is_end_of_file = True\<rparr>] =
      Inr [(0, 2, [x, y]), (1, 1, [z])] \<and>
    apply_replacements [a, b] [(0, 2, [x, y]), (1, 1, [z])] = Some [x, y]"
proof -
  have "seek_sequence [a, b] [a, b] 0 False = Some 0"
    by (simp add: seek_sequence_def Let_def seek_pass.simps)
  moreover have "seek_sequence [a, b] [b] 2 True = Some 1"
    by (simp add: seek_sequence_def Let_def seek_pass.simps)
  ultimately show ?thesis
    by (simp add: compute_replacements_def seek_context_def find_chunk_def
        apply_replacements_Cons apply_one_eq numeral_2_eq_2)
qed

theorem eof_chunk_can_be_lost_witness:
  "lit ''a'' \<noteq> lit ''b'' \<and>
   apply_replacements [lit ''a'', lit ''b''] [(0, 2, [lit ''x'', lit ''y'']), (1, 1, [lit ''z''])] =
     Some [lit ''x'', lit ''y'']"
  using eof_chunk_can_be_lost [of "lit ''a''" "lit ''b''" "[]" "lit ''x''" "lit ''y''" "lit ''z''"]
  by (simp add: str_simps)

end
