(* ===== verification/Utf8.thy ===== *)
theory Utf8
  imports RustStr
begin

text \<open>
  The UTF-8 encoding of strings: \<open>str::as_bytes\<close> and \<open>String::from_utf8_lossy\<close>, which reads
  one scalar value at a time and replaces every maximal ill-formed prefix by U+FFFD. Bytes
  are natural numbers below 256.
\<close>

type_synonym bytes = "nat list"

definition is_scalar :: "rchar \<Rightarrow> bool" where
  "is_scalar c \<longleftrightarrow> c < 0xD800 \<or> (0xE000 \<le> c \<and> c < 0x110000)"

definition encode_char :: "rchar \<Rightarrow> bytes" where
  "encode_char c =
     (if c < 0x80 then [c]
      else if c < 0x800 then [0xC0 + c div 64, 0x80 + c mod 64]
      else if c < 0x10000 then [0xE0 + c div 4096, 0x80 + c div 64 mod 64, 0x80 + c mod 64]
      else [0xF0 + c div 262144, 0x80 + c div 4096 mod 64, 0x80 + c div 64 mod 64, 0x80 + c mod 64])"

definition as_bytes :: "rstr \<Rightarrow> bytes" where
  "as_bytes s = concat (map encode_char s)"

definition is_cont :: "nat \<Rightarrow> bool" where
  "is_cont b \<longleftrightarrow> 0x80 \<le> b \<and> b < 0xC0"

definition replacement_char :: rchar where "replacement_char = 0xFFFD"

text \<open>Whether the second byte may follow the first one of a three- or four-byte sequence.\<close>

definition second_ok :: "nat \<Rightarrow> nat \<Rightarrow> bool" where
  "second_ok b0 b1 \<longleftrightarrow>
     is_cont b1 \<and> (b0 = 0xE0 \<longrightarrow> 0xA0 \<le> b1) \<and> (b0 = 0xED \<longrightarrow> b1 < 0xA0) \<and>
     (b0 = 0xF0 \<longrightarrow> 0x90 \<le> b1) \<and> (b0 = 0xF4 \<longrightarrow> b1 < 0x90)"

text \<open>One scalar value and the number of bytes it takes; an ill-formed prefix gives U+FFFD.\<close>

fun decode_tail :: "nat \<Rightarrow> nat \<Rightarrow> nat \<Rightarrow> bytes \<Rightarrow> rchar \<times> nat" where
  "decode_tail 0 acc taken bs = (acc, taken)"
| "decode_tail (Suc k) acc taken [] = (replacement_char, taken)"
| "decode_tail (Suc k) acc taken (b # bs) =
     (if is_cont b then decode_tail k (acc * 64 + (b - 0x80)) (taken + 1) bs
      else (replacement_char, taken))"

definition decode_step :: "nat \<Rightarrow> bytes \<Rightarrow> rchar \<times> nat" where
  "decode_step b0 bs =
     (if b0 < 0x80 then (b0, 1)
      else if 0xC2 \<le> b0 \<and> b0 < 0xE0 then decode_tail 1 (b0 - 0xC0) 1 bs
      else if 0xE0 \<le> b0 \<and> b0 < 0xF0 then
        (if bs \<noteq> [] \<and> second_ok b0 (hd bs) then decode_tail 2 (b0 - 0xE0) 1 bs else (replacement_char, 1))
      else if 0xF0 \<le> b0 \<and> b0 < 0xF5 then
        (if bs \<noteq> [] \<and> second_ok b0 (hd bs) then decode_tail 3 (b0 - 0xF0) 1 bs else (replacement_char, 1))
      else (replacement_char, 1))"

function from_utf8_lossy :: "bytes \<Rightarrow> rstr" where
  "from_utf8_lossy [] = []"
| "from_utf8_lossy (b # bs) =
     (let (c, n) = decode_step b bs in c # from_utf8_lossy (drop (n - 1) bs))"
  by pat_completeness auto
termination
  by (relation "measure length") auto

section \<open>Lemmas\<close>

lemma length_encode_char: "length (encode_char c) = len_utf8 c"
  by (simp add: encode_char_def len_utf8_def)

lemma length_as_bytes: "length (as_bytes s) = byte_len s"
  by (induction s) (simp_all add: as_bytes_def length_encode_char)

lemma decode_tail_1:
  "y < 64 \<Longrightarrow> decode_tail (Suc 0) a t ((0x80 + y) # r) = (a * 64 + y, t + 1)"
  by (simp add: is_cont_def)

lemma decode_tail_step:
  "x < 64 \<Longrightarrow> decode_tail (Suc k) a t ((0x80 + x) # r) = decode_tail k (a * 64 + x) (t + 1) r"
  by (simp add: is_cont_def)

lemma decode_encode_2:
  assumes "0x80 \<le> c" "c < 0x800"
  shows "decode_step (0xC0 + c div 64) ((0x80 + c mod 64) # r) = (c, 2)"
proof -
  have "2 \<le> c div 64" "c div 64 < 32" using assms by auto
  then show ?thesis by (simp add: decode_step_def is_cont_def)
qed

lemma decode_encode_3:
  assumes "0x800 \<le> c" "c < 0x10000" "is_scalar c"
  shows "decode_step (0xE0 + c div 4096) ((0x80 + c div 64 mod 64) # (0x80 + c mod 64) # r) = (c, 3)"
proof -
  define a b d where "a = c div 4096" and "b = c div 64 mod 64" and "d = c mod 64"
  have c: "c = (a * 64 + b) * 64 + d"
    unfolding a_def b_def d_def using div_mult_mod_eq [of c 64] div_mult_mod_eq [of "c div 64" 64]
    by (simp add: div_mult2_eq [symmetric])
  have lt: "b < 64" "d < 64" "a < 16" using assms(2) by (auto simp: b_def d_def a_def)
  have "a = 0 \<Longrightarrow> 32 \<le> b" "a = 13 \<Longrightarrow> b < 32" using assms(1,3) lt by (auto simp: c is_scalar_def)
  then have ok: "second_ok (0xE0 + a) (0x80 + b)" using lt by (auto simp: second_ok_def is_cont_def)
  then have "decode_step (0xE0 + a) ((0x80 + b) # (0x80 + d) # r) = decode_tail (Suc (Suc 0)) a 1 ((0x80 + b) # (0x80 + d) # r)"
    using lt by (simp add: decode_step_def numeral_2_eq_2)
  also have "\<dots> = ((a * 64 + b) * 64 + d, 3)"
    using lt by (simp only: decode_tail_step decode_tail_1) simp
  finally show ?thesis unfolding c [symmetric] unfolding a_def b_def d_def .
qed

lemma decode_encode_4:
  assumes "0x10000 \<le> c" "c < 0x110000"
  shows "decode_step (0xF0 + c div 262144)
    ((0x80 + c div 4096 mod 64) # (0x80 + c div 64 mod 64) # (0x80 + c mod 64) # r) = (c, 4)"
proof -
  define a b d e where "a = c div 262144" and "b = c div 4096 mod 64"
    and "d = c div 64 mod 64" and "e = c mod 64"
  have c: "c = ((a * 64 + b) * 64 + d) * 64 + e"
    unfolding a_def b_def d_def e_def using div_mult_mod_eq [of c 64]
      div_mult_mod_eq [of "c div 64" 64] div_mult_mod_eq [of "c div 4096" 64]
    by (simp add: div_mult2_eq [symmetric])
  have lt: "b < 64" "d < 64" "e < 64" "a < 5" using assms(2) by (auto simp: b_def d_def a_def e_def)
  have "a = 0 \<Longrightarrow> 16 \<le> b" "a = 4 \<Longrightarrow> b < 16" using assms lt by (auto simp: c)
  then have ok: "second_ok (0xF0 + a) (0x80 + b)" using lt by (auto simp: second_ok_def is_cont_def)
  then have "decode_step (0xF0 + a) ((0x80 + b) # (0x80 + d) # (0x80 + e) # r) =
      decode_tail (Suc (Suc (Suc 0))) a 1 ((0x80 + b) # (0x80 + d) # (0x80 + e) # r)"
    using lt by (simp add: decode_step_def numeral_3_eq_3)
  also have "\<dots> = (((a * 64 + b) * 64 + d) * 64 + e, 4)"
    using lt by (simp only: decode_tail_step decode_tail_1) simp
  finally show ?thesis unfolding c [symmetric] unfolding a_def b_def d_def e_def .
qed

lemma from_utf8_lossy_as_bytes: "list_all is_scalar s \<Longrightarrow> from_utf8_lossy (as_bytes s) = s"
proof (induction s)
  case Nil
  show ?case by (simp add: as_bytes_def)
next
  case (Cons c s)
  let ?r = "as_bytes s"
  have r: "as_bytes (c # s) = encode_char c @ ?r" by (simp add: as_bytes_def)
  consider "c < 0x80" | "0x80 \<le> c" "c < 0x800" | "0x800 \<le> c" "c < 0x10000" | "0x10000 \<le> c"
    by linarith
  then show ?case
  proof cases
    case 1
    with r Cons show ?thesis by (simp add: encode_char_def decode_step_def)
  next
    case 2
    with r Cons show ?thesis by (simp add: encode_char_def decode_encode_2)
  next
    case 3
    with r Cons show ?thesis by (simp add: encode_char_def decode_encode_3 numeral_2_eq_2)
  next
    case 4
    moreover have "c < 0x110000" using Cons.prems by (auto simp: is_scalar_def)
    ultimately show ?thesis
      using r Cons by (simp add: encode_char_def decode_encode_4 numeral_3_eq_3)
  qed
qed

end
