(* ===== verification/RustStrSearch.thy ===== *)
theory RustStrSearch
  imports RustStr
begin

text \<open>
  Searching and replacing in strings (\<open>str::find\<close>, \<open>rfind\<close>, \<open>contains\<close>, \<open>replace\<close>,
  \<open>strip_suffix\<close>), with the lemmas the components share.
\<close>

section \<open>Functions\<close>

text \<open>\<open>s.rfind(p)\<close> and \<open>s.replace(p, q)\<close> (non-overlapping, from the left, \<open>p\<close> not empty).\<close>

fun rfind_str :: "rstr \<Rightarrow> rstr \<Rightarrow> nat option" where
  "rfind_str p [] = (if p = [] then Some 0 else None)"
| "rfind_str p (c # s) =
     (case rfind_str p s of
        Some n \<Rightarrow> Some (Suc n)
      | None \<Rightarrow> if starts_with p (c # s) then Some 0 else None)"

function replace_str :: "rstr \<Rightarrow> rstr \<Rightarrow> rstr \<Rightarrow> rstr" where
  "replace_str p q [] = []"
| "replace_str p q (c # s) =
     (if starts_with p (c # s) \<and> p \<noteq> [] then q @ replace_str p q (drop (length p) (c # s))
      else c # replace_str p q s)"
  by pat_completeness auto
termination
  by (relation "measure (\<lambda>(_, _, s). length s)") (auto simp: Suc_le_eq)

definition contains_str :: "rstr \<Rightarrow> rstr \<Rightarrow> bool" where
  "contains_str p s \<longleftrightarrow> find_str p s \<noteq> None"

definition strip_suffix :: "rstr \<Rightarrow> rstr \<Rightarrow> rstr option" where
  "strip_suffix p s = (if ends_with p s then Some (take (length s - length p) s) else None)"

type_synonym path = rstr

abbreviation slash :: rchar where "slash \<equiv> 0x2F"

text \<open>\<open>Path::join\<close> (on Unix): an absolute path replaces the base.\<close>

definition path_join :: "path \<Rightarrow> path \<Rightarrow> path" where
  "path_join base p =
     (if starts_with [slash] p then p
      else if base = [] \<or> last base = slash then base @ p
      else base @ [slash] @ p)"

section \<open>Lemmas\<close>

lemma find_str_Some:
  "find_str p s = Some n \<Longrightarrow>
     n \<le> length s \<and> starts_with p (drop n s) \<and> (\<forall>m < n. \<not> starts_with p (drop m s))"
proof (induction s arbitrary: n)
  case Nil
  then show ?case by (auto simp: starts_with_def split: if_splits)
next
  case (Cons c s)
  show ?case
  proof (cases "starts_with p (c # s)")
    case True
    with Cons.prems show ?thesis by simp
  next
    case False
    with Cons.prems obtain k where "n = Suc k" "find_str p s = Some k" by auto
    with Cons.IH [of k] False show ?thesis by (auto simp: less_Suc_eq_0_disj)
  qed
qed

lemma find_str_None: "find_str p s = None \<longleftrightarrow> (\<forall>m. \<not> starts_with p (drop m s) \<or> length s < m)"
proof (induction s)
  case Nil
  show ?case by (auto simp: starts_with_def)
next
  case (Cons c s)
  have "(\<forall>m. \<not> starts_with p (drop m (c # s)) \<or> length (c # s) < m) \<longleftrightarrow>
      \<not> starts_with p (c # s) \<and> (\<forall>m. \<not> starts_with p (drop m s) \<or> length s < m)"
    by (metis Suc_less_eq drop0 drop_Suc_Cons length_Cons not0_implies_Suc not_less0 zero_less_Suc)
  then show ?case using Cons by simp
qed

lemma replace_str_no_longer:
  "length q \<le> length p \<Longrightarrow> length (replace_str p q s) \<le> length s"
proof (induction p q s rule: replace_str.induct)
  case (2 p q c s)
  show ?case
  proof (cases "starts_with p (c # s) \<and> p \<noteq> []")
    case True
    then have "length p \<le> length (c # s)" by (blast dest: starts_with_length)
    with 2 True show ?thesis by simp
  qed (use 2 in auto)
qed simp

lemma replace_str_shorter:
  "length q < length p \<Longrightarrow> contains_str p s \<Longrightarrow> length (replace_str p q s) < length s"
proof (induction p q s rule: replace_str.induct)
  case (1 p q)
  then show ?case by (auto simp: contains_str_def split: if_splits)
next
  case (2 p q c s)
  show ?case
  proof (cases "starts_with p (c # s) \<and> p \<noteq> []")
    case True
    then have "length p \<le> length (c # s)" by (blast dest: starts_with_length)
    moreover have "length (replace_str p q (drop (length p) (c # s))) \<le> length (drop (length p) (c # s))"
      using "2.prems" by (intro replace_str_no_longer) simp
    ultimately show ?thesis using True "2.prems"(1) by simp
  next
    case False
    then have "contains_str p s" using "2.prems" by (auto simp: contains_str_def)
    with 2 False show ?thesis by auto
  qed
qed

end
