(* ===== verification/PatchTool.thy ===== *)
theory PatchTool
  imports PatchApply Utf8 RustStrSearch
begin

text \<open>
  The \<open>apply_patch\<close> tool
  (\<open>xai-grok-tools/src/implementations/codex/apply_patch/tool.rs\<close>): parse, compute every
  change in memory, then write. The \<open>AsyncFileSystem\<close> trait and \<open>tokio::fs::create_dir_all\<close>
  are a record of functions over an arbitrary file-system state; the properties that speak
  about file contents assume of them only \<open>fs_contract\<close>. The result of \<open>run\<close> is an outcome,
  the new file-system state and the \<open>FileWritten\<close> notifications in order; \<open>None\<close> is a panic.
  The look-ups of the working directory, the file system and the notification handle in the
  tool context happen before and are arguments here.
\<close>

section \<open>Paths\<close>

text \<open>\<open>Path::parent\<close>: empty components and inner dots do not count.\<close>

definition skipped_component :: "rstr \<Rightarrow> bool" where
  "skipped_component c \<longleftrightarrow> c = [] \<or> c = lit ''.''"

definition drop_skipped :: "rstr list \<Rightarrow> rstr list" where
  "drop_skipped ps = rev (dropWhile skipped_component (rev ps))"

definition path_parent :: "path \<Rightarrow> path option" where
  "path_parent p =
     (let ps = split_char slash p; rest = drop_skipped (tl ps)
      in if rest = [] then (if hd ps = [] then None else Some [])
         else let up = drop_skipped (butlast rest)
              in if up = [] \<and> hd ps = [] then Some [slash] else Some (join [slash] (hd ps # up)))"

section \<open>Types\<close>

record 'fs file_system =
  read_file :: "'fs \<Rightarrow> path \<Rightarrow> rstr + bytes"
  write_file :: "'fs \<Rightarrow> path \<Rightarrow> bytes \<Rightarrow> (rstr + unit) \<times> 'fs"
  delete_file :: "'fs \<Rightarrow> path \<Rightarrow> (rstr + unit) \<times> 'fs"
  create_dir_all :: "'fs \<Rightarrow> path \<Rightarrow> (rstr + unit) \<times> 'fs"

datatype file_change =
  Add path rstr
| Delete path rstr
| Update path rstr rstr
| Move path path rstr rstr

record file_written =
  tool_call_id :: rstr
  absolute_path :: path
  content :: rstr
  previous_content :: "rstr option"
  is_new_file :: bool

record apply_patch_file_result =
  result_path :: path
  action :: rstr
  old_text :: "rstr option"
  new_text :: rstr
  move_to :: "path option"

datatype apply_patch_output =
  Success "apply_patch_file_result list" rstr
| ParseError rstr
| ApplicationError rstr
| EmptyPatch rstr

datatype tool_outcome = ToolError rstr | Output apply_patch_output

section \<open>Operations\<close>

text \<open>The \<open>?\<close> operator on an operation that changes the file system.\<close>

definition and_then :: "(rstr + unit) \<times> 'fs \<Rightarrow> ('fs \<Rightarrow> (rstr + 'a) \<times> 'fs) \<Rightarrow> (rstr + 'a) \<times> 'fs" where
  "and_then r k = (case r of (Inl e, fs) \<Rightarrow> (Inl e, fs) | (Inr _, fs) \<Rightarrow> k fs)"

definition ensure_parent_dirs :: "'fs file_system \<Rightarrow> path \<Rightarrow> 'fs \<Rightarrow> (rstr + unit) \<times> 'fs" where
  "ensure_parent_dirs ops p fs =
     (case path_parent p of
        None \<Rightarrow> (Inr (), fs)
      | Some parent \<Rightarrow> if parent = [] then (Inr (), fs) else create_dir_all ops fs parent)"

definition read_file_as_string :: "'fs file_system \<Rightarrow> 'fs \<Rightarrow> path \<Rightarrow> rstr + rstr" where
  "read_file_as_string ops fs p = map_sum id from_utf8_lossy (read_file ops fs p)"

fun parse_error_display :: "parse_error \<Rightarrow> rstr" where
  "parse_error_display (InvalidPatchError m) = lit ''invalid patch: '' @ m"
| "parse_error_display (InvalidHunkError m n) =
     lit ''invalid hunk at line '' @ decimal n @ lit '', '' @ m"

fun apply_error_message :: "apply_patch_error \<Rightarrow> rstr" where
  "apply_error_message (ComputeReplacements m) = m"
| "apply_error_message (ParseErr e) = parse_error_display e"
| "apply_error_message (IoErr ctx m p) = ctx @ lit '': '' @ m"

fun compute_change :: "path \<Rightarrow> 'fs file_system \<Rightarrow> 'fs \<Rightarrow> hunk \<Rightarrow> (rstr + file_change) option" where
  "compute_change cwd ops fs (AddFile p contents) = Some (Inr (Add (path_join cwd p) contents))"
| "compute_change cwd ops fs (DeleteFile p) =
     (let resolved = path_join cwd p
      in case read_file_as_string ops fs resolved of
           Inl e \<Rightarrow> Some (Inl (lit ''Failed to read file: '' @ resolved @ lit '', '' @ e))
         | Inr original_content \<Rightarrow> Some (Inr (Delete resolved original_content)))"
| "compute_change cwd ops fs (UpdateFile p move_path chunks) =
     (let resolved = path_join cwd p
      in case read_file_as_string ops fs resolved of
           Inl e \<Rightarrow> Some (Inl (lit ''Failed to read file to update: '' @ resolved @ lit '', '' @ e))
         | Inr original_content \<Rightarrow>
             (case derive_new_contents original_content resolved chunks of
                None \<Rightarrow> None
              | Some (Inl e) \<Rightarrow> Some (Inl (apply_error_message e))
              | Some (Inr new_content) \<Rightarrow>
                  Some (Inr (case move_path of
                       Some dest \<Rightarrow> Move resolved (path_join cwd dest) original_content new_content
                     | None \<Rightarrow> Update resolved original_content new_content))))"

fun compute_all_changes ::
  "path \<Rightarrow> 'fs file_system \<Rightarrow> 'fs \<Rightarrow> hunk list \<Rightarrow> file_change list \<Rightarrow>
   (rstr + file_change list) option" where
  "compute_all_changes cwd ops fs [] changes = Some (Inr changes)"
| "compute_all_changes cwd ops fs (h # hs) changes =
     (case compute_change cwd ops fs h of
        None \<Rightarrow> None
      | Some (Inl e) \<Rightarrow> Some (Inl e)
      | Some (Inr c) \<Rightarrow> compute_all_changes cwd ops fs hs (changes @ [c]))"

text \<open>What one change reports: the notifications and the entry of the result.\<close>

fun notifications_of :: "rstr \<Rightarrow> file_change \<Rightarrow> file_written list" where
  "notifications_of i (Add p c) =
     [\<lparr>tool_call_id = i, absolute_path = p, content = c, previous_content = None, is_new_file = True\<rparr>]"
| "notifications_of i (Delete p old) =
     [\<lparr>tool_call_id = i, absolute_path = p, content = [], previous_content = Some old, is_new_file = False\<rparr>]"
| "notifications_of i (Update p old new) =
     [\<lparr>tool_call_id = i, absolute_path = p, content = new, previous_content = Some old, is_new_file = False\<rparr>]"
| "notifications_of i (Move src dest old new) =
     [\<lparr>tool_call_id = i, absolute_path = dest, content = new, previous_content = None, is_new_file = True\<rparr>,
      \<lparr>tool_call_id = i, absolute_path = src, content = [], previous_content = Some old, is_new_file = False\<rparr>]"

fun file_result_of :: "file_change \<Rightarrow> apply_patch_file_result" where
  "file_result_of (Add p c) =
     \<lparr>result_path = p, action = lit ''added'', old_text = None, new_text = c, move_to = None\<rparr>"
| "file_result_of (Delete p old) =
     \<lparr>result_path = p, action = lit ''deleted'', old_text = Some old, new_text = [], move_to = None\<rparr>"
| "file_result_of (Update p old new) =
     \<lparr>result_path = p, action = lit ''modified'', old_text = Some old, new_text = new, move_to = None\<rparr>"
| "file_result_of (Move src dest old new) =
     \<lparr>result_path = src, action = lit ''moved'', old_text = Some old, new_text = new, move_to = Some dest\<rparr>"

text \<open>The writes of one change, stopped by the first error.\<close>

fun write_change :: "'fs file_system \<Rightarrow> file_change \<Rightarrow> 'fs \<Rightarrow> (rstr + unit) \<times> 'fs" where
  "write_change ops (Add p c) fs =
     and_then (ensure_parent_dirs ops p fs) (\<lambda>fs. write_file ops fs p (as_bytes c))"
| "write_change ops (Delete p old) fs = delete_file ops fs p"
| "write_change ops (Update p old new) fs = write_file ops fs p (as_bytes new)"
| "write_change ops (Move src dest old new) fs =
     and_then (ensure_parent_dirs ops dest fs) (\<lambda>fs.
     and_then (write_file ops fs dest (as_bytes new)) (\<lambda>fs. delete_file ops fs src))"

fun apply_changes ::
  "'fs file_system \<Rightarrow> rstr \<Rightarrow> file_change list \<Rightarrow> 'fs \<Rightarrow> file_written list \<Rightarrow>
   apply_patch_file_result list \<Rightarrow>
   (rstr + apply_patch_file_result list) \<times> 'fs \<times> file_written list" where
  "apply_changes ops i [] fs sent results = (Inr results, fs, sent)"
| "apply_changes ops i (c # cs) fs sent results =
     (case write_change ops c fs of
        (Inl e, fs') \<Rightarrow> (Inl e, fs', sent)
      | (Inr _, fs') \<Rightarrow>
          apply_changes ops i cs fs' (sent @ notifications_of i c) (results @ [file_result_of c]))"

definition summary_line :: "apply_patch_file_result \<Rightarrow> rstr" where
  "summary_line r =
     (if action r = lit ''added'' then lit ''A'' else if action r = lit ''deleted'' then lit ''D''
      else lit ''M'') @ lit '' '' @ result_path r @ [newline]"

definition build_summary :: "apply_patch_file_result list \<Rightarrow> rstr" where
  "build_summary results =
     lit ''Success. Updated the following files:'' @ [newline] @ concat (map summary_line results)"

fun parse_error_message :: "parse_error \<Rightarrow> rstr" where
  "parse_error_message (InvalidPatchError m) = lit ''Invalid patch: '' @ m"
| "parse_error_message (InvalidHunkError m n) =
     lit ''Invalid patch hunk on line '' @ decimal n @ lit '': '' @ m"

definition run ::
  "'fs file_system \<Rightarrow> path \<Rightarrow> rstr \<Rightarrow> 'fs \<Rightarrow> rstr \<Rightarrow> (tool_outcome \<times> 'fs \<times> file_written list) option" where
  "run ops cwd call_id fs input =
     (case parse_patch input of
        Inl e \<Rightarrow> Some (Output (ParseError (parse_error_message e)), fs, [])
      | Inr parsed \<Rightarrow>
          if hunks parsed = [] then
            Some (Output (EmptyPatch (lit ''No files were modified.'')), fs, [])
          else
            (case compute_all_changes cwd ops fs (hunks parsed) [] of
               None \<Rightarrow> None
             | Some (Inl msg) \<Rightarrow> Some (Output (ApplicationError msg), fs, [])
             | Some (Inr changes) \<Rightarrow>
                 (case apply_changes ops call_id changes fs [] [] of
                    (Inl e, fs', sent) \<Rightarrow> Some (ToolError e, fs', sent)
                  | (Inr results, fs', sent) \<Rightarrow>
                      Some (Output (Success results (build_summary results)), fs', sent))))"

section \<open>Specification\<close>

text \<open>
  The contents of the files, as far as they can be read; \<open>same\<close> says which paths name the
  same file.
\<close>

definition contents :: "'fs file_system \<Rightarrow> 'fs \<Rightarrow> path \<Rightarrow> bytes option" where
  "contents ops fs p = (case read_file ops fs p of Inl _ \<Rightarrow> None | Inr d \<Rightarrow> Some d)"

definition put :: "(path \<Rightarrow> path \<Rightarrow> bool) \<Rightarrow> path \<Rightarrow> bytes option \<Rightarrow> (path \<Rightarrow> bytes option) \<Rightarrow> path \<Rightarrow> bytes option" where
  "put same p d m = (\<lambda>q. if same p q then d else m q)"

definition fs_contract :: "'fs file_system \<Rightarrow> (path \<Rightarrow> path \<Rightarrow> bool) \<Rightarrow> bool" where
  "fs_contract ops same \<longleftrightarrow>
     (\<forall>fs p d fs'. write_file ops fs p d = (Inr (), fs') \<longrightarrow>
        contents ops fs' = put same p (Some d) (contents ops fs)) \<and>
     (\<forall>fs p fs'. delete_file ops fs p = (Inr (), fs') \<longrightarrow>
        contents ops fs' = put same p None (contents ops fs)) \<and>
     (\<forall>fs p fs'. create_dir_all ops fs p = (Inr (), fs') \<longrightarrow> contents ops fs' = contents ops fs)"

fun change_effect ::
  "(path \<Rightarrow> path \<Rightarrow> bool) \<Rightarrow> file_change \<Rightarrow> (path \<Rightarrow> bytes option) \<Rightarrow> path \<Rightarrow> bytes option" where
  "change_effect same (Add p c) m = put same p (Some (as_bytes c)) m"
| "change_effect same (Delete p old) m = put same p None m"
| "change_effect same (Update p old new) m = put same p (Some (as_bytes new)) m"
| "change_effect same (Move src dest old new) m =
     put same src None (put same dest (Some (as_bytes new)) m)"

section \<open>Lemmas\<close>

lemma and_then_Inr:
  "and_then r k = (Inr x, fs') \<longleftrightarrow> (\<exists>fs. r = (Inr (), fs) \<and> k fs = (Inr x, fs'))"
  by (auto simp: and_then_def split: sum.splits prod.splits)

lemma ensure_parent_dirs_contents:
  "fs_contract ops same \<Longrightarrow> ensure_parent_dirs ops p fs = (Inr (), fs') \<Longrightarrow>
   contents ops fs' = contents ops fs"
  by (auto simp: ensure_parent_dirs_def fs_contract_def split: option.splits if_splits)

lemma write_change_effect:
  assumes "fs_contract ops same" and "write_change ops c fs = (Inr (), fs')"
  shows "contents ops fs' = change_effect same c (contents ops fs)"
proof -
  have w: "contents ops b = put same p (Some d) (contents ops a)" if "write_file ops a p d = (Inr (), b)" for a b p d
    using assms(1) that by (simp add: fs_contract_def)
  have d: "contents ops b = put same p None (contents ops a)" if "delete_file ops a p = (Inr (), b)" for a b p
    using assms(1) that by (simp add: fs_contract_def)
  show ?thesis
    using assms(2)
    by (cases c)
      (auto simp: and_then_Inr dest!: w d ensure_parent_dirs_contents [OF assms(1)])
qed

lemma apply_changes_effect:
  assumes "fs_contract ops same"
  shows "apply_changes ops i cs fs sent results = (Inr results', fs', sent') \<Longrightarrow>
    contents ops fs' = fold (change_effect same) cs (contents ops fs) \<and>
    results' = results @ map file_result_of cs \<and>
    sent' = sent @ concat (map (notifications_of i) cs)"
proof (induction cs arbitrary: fs sent results)
  case (Cons c cs)
  obtain fs1 where w: "write_change ops c fs = (Inr (), fs1)"
    and rest: "apply_changes ops i cs fs1 (sent @ notifications_of i c) (results @ [file_result_of c]) =
      (Inr results', fs', sent')"
    using Cons.prems by (auto split: prod.splits sum.splits)
  from Cons.IH [OF rest] write_change_effect [OF assms w] show ?case by simp
qed simp

text \<open>An error between the writes: some first changes are written and announced, and the next one failed.\<close>

lemma apply_changes_error:
  "apply_changes ops i cs fs sent results = (Inl e, fs', sent') \<Longrightarrow>
   \<exists>k < length cs. \<exists>fs1 rs. apply_changes ops i (take k cs) fs sent results = (Inr rs, fs1, sent') \<and>
     write_change ops (cs ! k) fs1 = (Inl e, fs')"
proof (induction cs arbitrary: fs sent results)
  case (Cons c cs)
  show ?case
  proof (cases "write_change ops c fs")
    case (Pair r fs1)
    show ?thesis
    proof (cases r)
      case (Inl e')
      with Pair Cons.prems show ?thesis by (intro exI [of _ 0]) simp
    next
      case (Inr u)
      with Pair Cons.prems have
        "apply_changes ops i cs fs1 (sent @ notifications_of i c) (results @ [file_result_of c]) = (Inl e, fs', sent')" by simp
      from Cons.IH [OF this] obtain k fs2 rs where "k < length cs"
        "apply_changes ops i (take k cs) fs1 (sent @ notifications_of i c) (results @ [file_result_of c]) = (Inr rs, fs2, sent')"
        "write_change ops (cs ! k) fs2 = (Inl e, fs')" by blast
      with Pair Inr show ?thesis by (intro exI [of _ "Suc k"]) simp
    qed
  qed
qed simp

lemma run_tool_error:
  assumes "run ops cwd i fs input = Some (ToolError e, fs', sent)"
  obtains parsed changes where "parse_patch input = Inr parsed"
    and "compute_all_changes cwd ops fs (hunks parsed) [] = Some (Inr changes)"
    and "apply_changes ops i changes fs [] [] = (Inl e, fs', sent)"
  using assms by (fastforce simp: run_def split: sum.splits option.splits prod.splits if_splits)

lemma compute_change_total: "compute_change cwd ops fs h \<noteq> None"
proof (cases h)
  case (UpdateFile p mp cs)
  then show ?thesis
    using apply_computed_total
    by (auto simp: Let_def derive_new_contents_def split: sum.splits option.splits)
       (metis option.distinct(1))
qed (simp_all add: Let_def split: sum.splits)

lemma compute_all_changes_total: "\<exists>r. compute_all_changes cwd ops fs hs acc = Some r"
  by (induction hs arbitrary: acc)
    (auto simp: compute_change_total split: option.split sum.split dest: compute_change_total [THEN notE])

lemma run_total: "\<exists>r. run ops cwd i fs input = Some r"
proof (cases "parse_patch input")
  case (Inr parsed)
  obtain r where "compute_all_changes cwd ops fs (hunks parsed) [] = Some r"
    using compute_all_changes_total [of cwd ops fs "hunks parsed" "[]"] by auto
  with Inr show ?thesis by (auto simp: run_def split: sum.split prod.split)
qed (simp add: run_def)

lemma run_success:
  assumes "run ops cwd i fs input = Some (Output (Success files summary), fs', sent)"
  obtains parsed changes where "parse_patch input = Inr parsed"
    and "compute_all_changes cwd ops fs (hunks parsed) [] = Some (Inr changes)"
    and "apply_changes ops i changes fs [] [] = (Inr files, fs', sent)"
    and "summary = build_summary files"
  using assms by (fastforce simp: run_def split: sum.splits option.splits prod.splits if_splits)

section \<open>Properties\<close>

text \<open>C32: All or nothing before the first write. A call never panics, and whenever the tool
  answers that the patch could not be parsed, is empty or could not be applied (some file
  could not be read, some context was not found), the file system is untouched and no
  notification has been sent: no hunk is written unless every hunk has been computed. When instead the call fails as
  a tool error, every hunk had been computed, and a write failed: the changes before it, and no others, have been written
  and announced, and the failing one is left as far as it came.\<close>

theorem no_partial_application:
  "(\<exists>r. run ops cwd i fs input = Some r) \<and>
   (run ops cwd i fs input = Some (Output out, fs', sent) \<and>
    (\<nexists>files summary. out = Success files summary) \<longrightarrow> fs' = fs \<and> sent = []) \<and>
   (run ops cwd i fs input = Some (ToolError e, fs', sent) \<longrightarrow>
    (\<exists>parsed changes k fs1 written. parse_patch input = Inr parsed \<and>
       compute_all_changes cwd ops fs (hunks parsed) [] = Some (Inr changes) \<and> k < length changes \<and>
       apply_changes ops i (take k changes) fs [] [] = (Inr written, fs1, sent) \<and>
       write_change ops (changes ! k) fs1 = (Inl e, fs')))"
proof (intro conjI impI run_total)
  assume a: "run ops cwd i fs input = Some (Output out, fs', sent) \<and>
    (\<nexists>files summary. out = Success files summary)"
  then have "(fs', sent) = (fs, [])"
    by (auto simp: run_def split: sum.splits option.splits prod.splits if_splits)
  then show "fs' = fs" "sent = []" by simp_all
next
  assume "run ops cwd i fs input = Some (ToolError e, fs', sent)"
  then obtain parsed changes where "parse_patch input = Inr parsed"
    "compute_all_changes cwd ops fs (hunks parsed) [] = Some (Inr changes)"
    "apply_changes ops i changes fs [] [] = (Inl e, fs', sent)" by (rule run_tool_error)
  with apply_changes_error [OF this(3)] show "\<exists>parsed changes k fs1 written. parse_patch input = Inr parsed \<and>
       compute_all_changes cwd ops fs (hunks parsed) [] = Some (Inr changes) \<and> k < length changes \<and>
       apply_changes ops i (take k changes) fs [] [] = (Inr written, fs1, sent) \<and>
       write_change ops (changes ! k) fs1 = (Inl e, fs')" by blast
qed

text \<open>C13: A successful call refines the change list. Assuming the file-system contract, the
  readable files afterwards are those before with the effect of each change, in order; the
  result entries and the notifications are those of the changes, in order; and the changes
  were all computed from the files as they were before the call.\<close>

theorem run_refines_changes:
  assumes "fs_contract ops same"
    and "run ops cwd i fs input = Some (Output (Success files summary), fs', sent)"
  shows "\<exists>parsed changes. parse_patch input = Inr parsed \<and>
    compute_all_changes cwd ops fs (hunks parsed) [] = Some (Inr changes) \<and>
    contents ops fs' = fold (change_effect same) changes (contents ops fs) \<and>
    files = map file_result_of changes \<and>
    sent = concat (map (notifications_of i) changes)"
proof -
  obtain parsed changes where "parse_patch input = Inr parsed"
    and "compute_all_changes cwd ops fs (hunks parsed) [] = Some (Inr changes)"
    and "apply_changes ops i changes fs [] [] = (Inr files, fs', sent)"
    using assms(2) by (rule run_success)
  with apply_changes_effect [OF assms(1), of i changes fs "[]" "[]"] show ?thesis by auto
qed

text \<open>A move onto the same file deletes it. If the destination of a \<open>Move to\<close> names the
  same file as the source, a successful call leaves no readable file under either name:
  the new contents are written first and the source is deleted afterwards.\<close>

theorem self_move_loses_file:
  assumes "fs_contract ops same"
    and "parse_patch input = Inr \<lparr>hunks = [UpdateFile p (Some q) chunks], patch = text\<rparr>"
    and "same (path_join cwd p) (path_join cwd q)"
    and "run ops cwd i fs input = Some (Output (Success files summary), fs', sent)"
  shows "contents ops fs' (path_join cwd q) = None"
proof -
  obtain parsed changes where "parse_patch input = Inr parsed"
    and c: "compute_all_changes cwd ops fs (hunks parsed) [] = Some (Inr changes)"
    and a: "apply_changes ops i changes fs [] [] = (Inr files, fs', sent)"
    using assms(4) by (rule run_success)
  with assms(2) obtain old new where "changes = [Move (path_join cwd p) (path_join cwd q) old new]"
    by (auto simp: Let_def split: sum.splits option.splits)
  with apply_changes_effect [OF assms(1) a] assms(3) show ?thesis by (simp add: put_def)
qed

text \<open>Two updates of one file do not compose. Both are computed from the file as it was
  before the call, so after a successful call the file holds the second one applied to the
  original contents: the first is lost.\<close>

theorem second_update_wins:
  assumes "fs_contract ops same"
    and "same (path_join cwd p) (path_join cwd p)"
    and "parse_patch input =
      Inr \<lparr>hunks = [UpdateFile p None chunks1, UpdateFile p None chunks2], patch = text\<rparr>"
    and "run ops cwd i fs input = Some (Output (Success files summary), fs', sent)"
  shows "\<exists>old new. read_file_as_string ops fs (path_join cwd p) = Inr old \<and>
    derive_new_contents old (path_join cwd p) chunks2 = Some (Inr new) \<and>
    contents ops fs' (path_join cwd p) = Some (as_bytes new)"
proof -
  obtain parsed changes where "parse_patch input = Inr parsed"
    and c: "compute_all_changes cwd ops fs (hunks parsed) [] = Some (Inr changes)"
    and a: "apply_changes ops i changes fs [] [] = (Inr files, fs', sent)"
    using assms(4) by (rule run_success)
  with assms(3) obtain old new1 new
    where "read_file_as_string ops fs (path_join cwd p) = Inr old"
      and "derive_new_contents old (path_join cwd p) chunks2 = Some (Inr new)"
      and "changes = [Update (path_join cwd p) old new1, Update (path_join cwd p) old new]"
    by (auto simp: Let_def split: sum.splits option.splits)
  with apply_changes_effect [OF assms(1) a] assms(2) show ?thesis by (auto simp: put_def)
qed

section \<open>A file system in memory\<close>

text \<open>A map from paths to bytes: the contract can hold, with path equality as \<open>same\<close>.\<close>

definition map_fs :: "(path \<Rightarrow> bytes option) file_system" where
  "map_fs =
     \<lparr>read_file = (\<lambda>m p. case m p of None \<Rightarrow> Inl (lit ''not found'') | Some d \<Rightarrow> Inr d),
      write_file = (\<lambda>m p d. (Inr (), m(p \<mapsto> d))),
      delete_file = (\<lambda>m p. if m p = None then (Inl (lit ''not found''), m) else (Inr (), m(p := None))),
      create_dir_all = (\<lambda>m p. (Inr (), m))\<rparr>"

lemma map_fs_simps [simp]:
  "read_file map_fs m p = (case m p of None \<Rightarrow> Inl (lit ''not found'') | Some d \<Rightarrow> Inr d)"
  "write_file map_fs m p d = (Inr (), m(p \<mapsto> d))"
  "delete_file map_fs m p =
     (if m p = None then (Inl (lit ''not found''), m) else (Inr (), m(p := None)))"
  "create_dir_all map_fs m p = (Inr (), m)"
  by (simp_all add: map_fs_def)

lemma ensure_parent_dirs_map_fs [simp]: "ensure_parent_dirs map_fs p m = (Inr (), m)"
  by (simp add: ensure_parent_dirs_def split: option.split)

lemma contents_map_fs [simp]: "contents map_fs m = m"
  by (rule ext) (simp add: contents_def split: option.split)

lemma map_fs_contract: "fs_contract map_fs (=)"
  by (auto simp: fs_contract_def put_def fun_eq_iff split: if_splits)

section \<open>Sample calls\<close>

text \<open>A directory \<open>/w\<close> with the file \<open>f\<close>, which holds the lines \<open>a\<close> and \<open>b\<close>, and two edits.\<close>

definition replace_chunk :: "string \<Rightarrow> string \<Rightarrow> update_file_chunk" where
  "replace_chunk old new =
     \<lparr>change_context = None, old_lines = [lit old], new_lines = [lit new], is_end_of_file = False\<rparr>"

definition sample_text :: rstr where
  "sample_text = lit ''a'' @ [newline] @ lit ''b'' @ [newline]"

definition sample_fs :: "path \<Rightarrow> bytes option" where
  "sample_fs = [lit ''/w/f'' \<mapsto> as_bytes sample_text]"

lemma sample_join: "path_join (lit ''/w'') (lit ''f'') = lit ''/w/f''"
  by (simp add: path_join_def starts_with_def str_simps)

lemma sample_read: "read_file_as_string map_fs sample_fs (lit ''/w/f'') = Inr sample_text"
proof -
  have "list_all is_scalar sample_text" by (simp add: sample_text_def is_scalar_def str_simps)
  then show ?thesis by (simp add: read_file_as_string_def sample_fs_def from_utf8_lossy_as_bytes)
qed

lemma sample_derive:
  "derive_new_contents sample_text p [replace_chunk ''a'' ''x''] =
     Some (Inr (lit ''x'' @ [newline] @ lit ''b'' @ [newline]))"
  "derive_new_contents sample_text p [replace_chunk ''b'' ''y''] =
     Some (Inr (lit ''a'' @ [newline] @ lit ''y'' @ [newline]))"
  by (simp_all add: derive_new_contents_def Let_def sample_text_def replace_chunk_def file_lines_def
      last_is_empty_def compute_replacements_def seek_context_def find_chunk_def seek_sequence_def
      seek_pass.simps apply_replacements_Cons apply_one_eq ensure_trailing_def str_simps)

lemma replace_chunk_ok: "chunk_ok (replace_chunk [CHR ''a''] [CHR ''x''])" "chunk_ok (replace_chunk ''b'' ''y'')"
  by (simp_all add: chunk_ok_def replace_chunk_def plain_line_def str_simps)

lemma sample_path_ok: "path_ok (lit ''f'')" "plain_line (lit ''f'')"
  by (simp_all add: path_ok_def plain_line_def trim_end_last is_whitespace_def str_simps)

definition sample_move :: "hunk list" where
  "sample_move = [UpdateFile (lit ''f'') (Some (lit ''f'')) [replace_chunk ''a'' ''x'']]"

definition sample_twice :: "hunk list" where
  "sample_twice =
     [UpdateFile (lit ''f'') None [replace_chunk ''a'' ''x''],
      UpdateFile (lit ''f'') None [replace_chunk ''b'' ''y'']]"

lemma sample_parse:
  "parse_patch (render_patch sample_move) = Inr \<lparr>hunks = sample_move, patch = render_patch sample_move\<rparr>"
  "parse_patch (render_patch sample_twice) = Inr \<lparr>hunks = sample_twice, patch = render_patch sample_twice\<rparr>"
  by (rule parse_patch_render;
      simp add: sample_move_def sample_twice_def replace_chunk_ok sample_path_ok)+

lemma run_sample_move:
  "\<exists>files summary fs' sent. run map_fs (lit ''/w'') [] sample_fs (render_patch sample_move) =
     Some (Output (Success files summary), fs', sent)"
proof -
  have "sample_fs (lit ''/w/f'') \<noteq> None" by (simp add: sample_fs_def)
  then show ?thesis
    by (simp add: run_def sample_parse, simp add: sample_move_def sample_join sample_read sample_derive
        and_then_def Let_def)
qed

lemma run_sample_twice:
  "\<exists>files summary fs' sent. run map_fs (lit ''/w'') [] sample_fs (render_patch sample_twice) =
     Some (Output (Success files summary), fs', sent)"
  by (simp add: run_def sample_parse, simp add: sample_twice_def sample_join sample_read sample_derive)

theorem self_move_loses_file_witness:
  "\<exists>files summary fs' sent.
     run map_fs (lit ''/w'') [] sample_fs (render_patch sample_move) =
       Some (Output (Success files summary), fs', sent) \<and>
     contents map_fs fs' (lit ''/w/f'') = None"
proof -
  obtain files summary fs' sent where r:
    "run map_fs (lit ''/w'') [] sample_fs (render_patch sample_move) =
       Some (Output (Success files summary), fs', sent)"
    using run_sample_move by blast
  have "contents map_fs fs' (path_join (lit ''/w'') (lit ''f'')) = None"
    using self_move_loses_file [OF map_fs_contract sample_parse(1) [unfolded sample_move_def] refl
        r [unfolded sample_move_def]] .
  with r show ?thesis by (auto simp: sample_join)
qed

theorem second_update_wins_witness:
  "\<exists>files summary fs' sent.
     run map_fs (lit ''/w'') [] sample_fs (render_patch sample_twice) =
       Some (Output (Success files summary), fs', sent) \<and>
     contents map_fs fs' (lit ''/w/f'') = Some (as_bytes (lit ''a'' @ [newline] @ lit ''y'' @ [newline]))"
proof -
  obtain files summary fs' sent where r:
    "run map_fs (lit ''/w'') [] sample_fs (render_patch sample_twice) =
       Some (Output (Success files summary), fs', sent)"
    using run_sample_twice by blast
  have "\<exists>old new. read_file_as_string map_fs sample_fs (path_join (lit ''/w'') (lit ''f'')) = Inr old \<and>
      derive_new_contents old (path_join (lit ''/w'') (lit ''f'')) [replace_chunk ''b'' ''y''] = Some (Inr new) \<and>
      contents map_fs fs' (path_join (lit ''/w'') (lit ''f'')) = Some (as_bytes new)"
    using second_update_wins [OF map_fs_contract refl sample_parse(2) [unfolded sample_twice_def]
        r [unfolded sample_twice_def]] .
  with r show ?thesis by (auto simp: sample_join sample_read sample_derive)
qed

theorem run_refines_changes_witness:
  "\<exists>files summary fs' sent changes.
     run map_fs (lit ''/w'') [] sample_fs (render_patch sample_twice) =
       Some (Output (Success files summary), fs', sent) \<and>
     fs' = fold (change_effect (=)) changes sample_fs \<and> length changes = 2"
proof -
  obtain files summary fs' sent where r:
    "run map_fs (lit ''/w'') [] sample_fs (render_patch sample_twice) =
       Some (Output (Success files summary), fs', sent)"
    using run_sample_twice by blast
  from run_refines_changes [OF map_fs_contract r] obtain changes
    where "compute_all_changes (lit ''/w'') map_fs sample_fs sample_twice [] = Some (Inr changes)"
      and "fs' = fold (change_effect (=)) changes sample_fs"
    by (auto simp: sample_parse)
  moreover from this(1) have "length changes = 2"
    by (auto simp: sample_twice_def sample_join sample_read sample_derive)
  ultimately show ?thesis using r by blast
qed

theorem no_partial_application_witness:
  "\<exists>msg. run map_fs (lit ''/w'') [] Map.empty (render_patch sample_twice) =
     Some (Output (ApplicationError msg), Map.empty, [])"
proof -
  have "\<exists>msg fs' sent. run map_fs (lit ''/w'') [] Map.empty (render_patch sample_twice) =
      Some (Output (ApplicationError msg), fs', sent)"
    by (simp add: run_def sample_parse, simp add: sample_twice_def read_file_as_string_def)
  then obtain msg fs' sent where r: "run map_fs (lit ''/w'') [] Map.empty (render_patch sample_twice) =
      Some (Output (ApplicationError msg), fs', sent)" by blast
  then have "fs' = Map.empty \<and> sent = []"
    using no_partial_application [of map_fs "lit ''/w''" "[]" Map.empty "render_patch sample_twice"
        "ApplicationError msg" fs' sent] by simp
  with r show ?thesis by auto
qed

end
