(* ===== verification/TokenEstimation.thy ===== *)
theory TokenEstimation
  imports RustStr Float64
begin

text \<open>
  The token estimate and the context-window arithmetic
  (\<open>xai-token-estimation/src/lib.rs\<close>). All quantities are \<open>u64\<close> words with the saturating
  operations of the source; the percentage in \<open>f64\<close> is computed with every rounding.
\<close>

definition BYTES_PER_TOKEN :: u64 where "BYTES_PER_TOKEN = 4"
definition IMAGE_TOKEN_ESTIMATE :: u64 where "IMAGE_TOKEN_ESTIMATE = 765"

definition estimate_tokens :: "rstr \<Rightarrow> u64" where
  "estimate_tokens s = word_of_nat (byte_len s) div BYTES_PER_TOKEN"

definition estimate_chars :: "u64 \<Rightarrow> u64" where
  "estimate_chars tokens = sat_mul tokens BYTES_PER_TOKEN"

definition estimate_image_tokens :: "u64 \<Rightarrow> u64" where
  "estimate_image_tokens image_count = sat_mul image_count IMAGE_TOKEN_ESTIMATE"

definition usage_percentage :: "u64 \<Rightarrow> u64 \<Rightarrow> rat" where
  "usage_percentage used tot =
     (if tot = 0 then 0
      else min (f64_mul (f64_div (f64_of_nat (unat used)) (f64_of_nat (unat tot))) 100) 100)"

text \<open>\<open>f64::round\<close> rounds half away from zero; \<open>as u8\<close> saturates.\<close>

definition round_as_u8 :: "rat \<Rightarrow> u8" where
  "round_as_u8 x = word_of_nat (min (nat \<lfloor>x + 1 / 2\<rfloor>) 255)"

definition usage_percentage_u8 :: "u64 \<Rightarrow> u64 \<Rightarrow> u8" where
  "usage_percentage_u8 used tot = round_as_u8 (usage_percentage used tot)"

definition usage_percentage_truncated_u8 :: "u64 \<Rightarrow> u64 \<Rightarrow> u8" where
  "usage_percentage_truncated_u8 used tot =
     (if tot = 0 then 0 else ucast (min (sat_mul used 100 div tot) 100))"

definition free_tokens :: "u64 \<Rightarrow> u64 \<Rightarrow> u64" where
  "free_tokens tot used = sat_sub tot used"

definition exceeds_threshold :: "u64 \<Rightarrow> u64 \<Rightarrow> u8 \<Rightarrow> bool" where
  "exceeds_threshold used context_window threshold_percent =
     (if context_window = 0 then False
      else sat_mul context_window (ucast threshold_percent) \<le> sat_mul used 100)"

definition exceeds_threshold_with_headroom :: "u64 \<Rightarrow> u64 \<Rightarrow> u8 \<Rightarrow> u64 \<Rightarrow> bool" where
  "exceeds_threshold_with_headroom used context_window threshold_percent headroom =
     (if context_window = 0 then False
      else sat_sub (sat_mul context_window (ucast threshold_percent)) (sat_mul headroom 100)
             \<le> sat_mul used 100)"

section \<open>Percentages\<close>

lemma f64_round_bounds:
  assumes "0 \<le> x"
  shows "x * (1 - 1 / 2 ^ 53) \<le> f64_round x" and "f64_round x \<le> x * (1 + 1 / 2 ^ 53)"
proof -
  have "\<bar>f64_round x - x\<bar> \<le> x * (1 / 2 ^ 53)" using f64_round_error [OF assms] by simp
  then show "x * (1 - 1 / 2 ^ 53) \<le> f64_round x" "f64_round x \<le> x * (1 + 1 / 2 ^ 53)"
    unfolding right_diff_distrib distrib_left abs_le_iff by linarith+
qed

lemma f64_percentage_bounds:
  fixes t u :: nat
  assumes "0 < t"
  defines "x \<equiv> of_nat u / of_nat t * (100::rat)"
  defines "m \<equiv> f64_mul (f64_div (f64_of_nat u) (f64_of_nat t)) 100"
  shows "x * (1 - 1 / 2 ^ 50) \<le> m" and "m \<le> x * (1 + 1 / 2 ^ 50)"
proof -
  let ?d = "1 / 2 ^ 53 :: rat"
  define a b q where "a = f64_of_nat u" and "b = f64_of_nat t" and "q = f64_div a b"
  note a = f64_round_bounds [of "of_nat u", folded f64_of_nat_def, folded a_def]
  note b = f64_round_bounds [of "of_nat t", folded f64_of_nat_def, folded b_def]
  have "0 < of_nat t * (1 - ?d)" using assms(1) by simp
  also have "\<dots> \<le> b" using b by simp
  finally have bpos: "0 < b" .
  have apos: "0 \<le> a" using a(1) by (simp add: order_trans [rotated])
  have q: "a / b * (1 - ?d) \<le> q" "q \<le> a / b * (1 + ?d)"
    using f64_round_bounds [of "a / b"] apos bpos by (simp_all add: q_def f64_div_def)
  have "0 \<le> a / b * (1 - ?d)" using apos bpos by simp
  with q(1) have qpos: "0 \<le> q" by linarith
  have m: "q * 100 * (1 - ?d) \<le> m" "m \<le> q * 100 * (1 + ?d)"
    using f64_round_bounds [of "q * 100"] qpos
    by (simp_all add: m_def a_def b_def q_def f64_mul_def)
  have ub: "a / b \<le> of_nat u * (1 + ?d) / (of_nat t * (1 - ?d))"
    using a b apos bpos assms(1) by (intro frac_le) auto
  have lb: "of_nat u * (1 - ?d) / (of_nat t * (1 + ?d)) \<le> a / b"
    using a b apos bpos assms(1) by (intro frac_le) auto
  have "m \<le> q * 100 * (1 + ?d)" by (rule m)
  also have "\<dots> \<le> a / b * (1 + ?d) * 100 * (1 + ?d)" by (intro mult_right_mono q) auto
  also have "\<dots> \<le> of_nat u * (1 + ?d) / (of_nat t * (1 - ?d)) * (1 + ?d) * 100 * (1 + ?d)"
    by (intro mult_right_mono ub) auto
  also have "\<dots> = x * ((1 + ?d) ^ 3 / (1 - ?d))"
    by (simp add: x_def power3_eq_cube)
  also have "\<dots> \<le> x * (1 + 1 / 2 ^ 50)"
    by (intro mult_left_mono) (auto simp: x_def power3_eq_cube)
  finally show "m \<le> x * (1 + 1 / 2 ^ 50)" .
  have "x * (1 - 1 / 2 ^ 50) \<le> x * ((1 - ?d) ^ 3 / (1 + ?d))"
    by (intro mult_left_mono) (auto simp: x_def power3_eq_cube)
  also have "\<dots> = of_nat u * (1 - ?d) / (of_nat t * (1 + ?d)) * (1 - ?d) * 100 * (1 - ?d)"
    by (simp add: x_def power3_eq_cube)
  also have "\<dots> \<le> a / b * (1 - ?d) * 100 * (1 - ?d)"
    by (intro mult_right_mono lb) auto
  also have "\<dots> \<le> q * 100 * (1 - ?d)"
    by (intro mult_right_mono q) auto
  also have "\<dots> \<le> m" by (rule m)
  finally show "x * (1 - 1 / 2 ^ 50) \<le> m" .
qed

text \<open>The clamped percentage is within a half of the exact clamped percentage.\<close>

lemma usage_percentage_close:
  assumes "tot \<noteq> 0"
  shows "\<bar>usage_percentage used tot - min (of_nat (unat used) / of_nat (unat tot) * 100) 100\<bar> < 1 / 2"
proof -
  define x where "x = (of_nat (unat used) / of_nat (unat tot) * 100 :: rat)"
  define m where "m = f64_mul (f64_div (f64_of_nat (unat used)) (f64_of_nat (unat tot))) 100"
  have t: "0 < unat tot" using assms by (simp add: unat_gt_0)
  note b = f64_percentage_bounds [OF t, of "unat used", folded x_def m_def]
  have "0 \<le> x" unfolding x_def by (intro mult_nonneg_nonneg divide_nonneg_nonneg of_nat_0_le_iff) simp
  have "\<bar>min m 100 - min x 100\<bar> < 1 / 2"
  proof (cases "x \<le> 101")
    case True
    with \<open>0 \<le> x\<close> have "x * (1 / 2 ^ 50) < 1 / 2" by simp
    moreover have "\<bar>m - x\<bar> \<le> x * (1 / 2 ^ 50)"
      using b unfolding right_diff_distrib distrib_left abs_le_iff by linarith
    moreover have "\<bar>min m 100 - min x 100\<bar> \<le> \<bar>m - x\<bar>" by (simp add: min_def)
    ultimately show ?thesis by linarith
  next
    case False
    then have "101 * (1 - 1 / 2 ^ 50) \<le> x * (1 - 1 / 2 ^ 50)" by (intro mult_right_mono) auto
    with b have "100 < m" by simp
    with False show ?thesis by simp
  qed
  then show ?thesis using assms by (simp add: usage_percentage_def x_def m_def)
qed

lemma floor_percentage:
  assumes "0 < t"
  shows "\<lfloor>min (of_nat u / of_nat t * 100) (100 :: rat)\<rfloor> = int (min (u * 100 div t) 100)"
proof -
  have "\<lfloor>of_nat u / of_nat t * (100 :: rat)\<rfloor> = int (u * 100 div t)"
    using floor_divide_of_nat_eq [of "u * 100" t, where ?'a = rat] by simp
  moreover have "\<lfloor>min y (100 :: rat)\<rfloor> = min \<lfloor>y\<rfloor> 100" for y
    by (auto simp: min_def le_floor_iff) linarith
  ultimately show ?thesis by simp
qed

lemma truncated_eq:
  assumes "unat used * 100 < 2 ^ 64"
  shows "unat (usage_percentage_truncated_u8 used tot) =
    (if tot = 0 then 0 else min (unat used * 100 div unat tot) 100)"
proof (cases "tot = 0")
  case False
  have "unat (sat_mul used 100 div tot) = unat used * 100 div unat tot"
    using assms by (simp add: unat_div_distrib unat_sat_mul)
  then have "unat (min (sat_mul used 100 div tot) 100) = min (unat used * 100 div unat tot) 100"
    by (simp add: min_def word_le_nat_alt)
  with False show ?thesis
    by (simp add: usage_percentage_truncated_u8_def unsigned_ucast_eq take_bit_nat_eq_self)
qed (simp add: usage_percentage_truncated_u8_def)

lemma unat_round_as_u8:
  assumes "\<lfloor>x + 1 / 2\<rfloor> \<le> 255"
  shows "unat (round_as_u8 x) = nat \<lfloor>x + 1 / 2\<rfloor>"
proof -
  have "nat \<lfloor>x + 1 / 2\<rfloor> \<le> 255" using assms by linarith
  then show ?thesis by (simp add: round_as_u8_def unat_of_nat)
qed

lemma unat_u8_u64: "unat (ucast (p :: u8) :: u64) = unat p"
  using unat_less_exp [of p] by (simp add: unsigned_ucast_eq take_bit_nat_eq_self)

lemma gate_iff:
  "exceeds_threshold_with_headroom used window pct headroom \<longleftrightarrow>
     window \<noteq> 0 \<and>
     unat (sat_mul window (ucast pct)) \<le> unat (sat_mul used 100) + unat (sat_mul headroom 100)"
  by (simp add: exceeds_threshold_with_headroom_def word_le_nat_alt unat_sat_sub le_diff_conv)

section \<open>Properties\<close>

text \<open>The two percentages the clients display agree. As long as \<open>used * 100\<close> fits \<open>u64\<close>,
  the truncated percentage is the exact quotient clamped to 100 (0 for an unknown window),
  the rounded one is at most 100, and in spite of the four roundings of the \<open>f64\<close> computation
  it equals the truncated one or is larger by one.\<close>

theorem usage_percentages_agree:
  assumes "unat used * 100 < 2 ^ 64"
  shows "unat (usage_percentage_truncated_u8 used tot) =
      (if tot = 0 then 0 else min (unat used * 100 div unat tot) 100) \<and>
    unat (usage_percentage_u8 used tot) \<le> 100 \<and>
    unat (usage_percentage_u8 used tot) \<in>
      {unat (usage_percentage_truncated_u8 used tot), unat (usage_percentage_truncated_u8 used tot) + 1}"
proof (cases "tot = 0")
  case True
  then show ?thesis
    by (simp add: truncated_eq [OF assms] usage_percentage_u8_def usage_percentage_def round_as_u8_def)
next
  case False
  define y where "y = usage_percentage used tot"
  define x where "x = min (of_nat (unat used) / of_nat (unat tot) * 100) (100 :: rat)"
  define k where "k = min (unat used * 100 div unat tot) 100"
  have "0 < unat tot" using False by (simp add: unat_gt_0)
  then have k: "\<lfloor>x\<rfloor> = int k" unfolding x_def k_def by (rule floor_percentage)
  have "\<bar>y - x\<bar> < 1 / 2" unfolding y_def x_def by (rule usage_percentage_close [OF False])
  then have "x < y + 1 / 2" "y + 1 / 2 < x + 1" unfolding abs_less_iff by linarith+
  then have fl: "\<lfloor>x\<rfloor> \<le> \<lfloor>y + 1 / 2\<rfloor>" "\<lfloor>y + 1 / 2\<rfloor> \<le> \<lfloor>x\<rfloor> + 1"
    by (metis floor_mono less_imp_le, metis floor_mono floor_add_int less_imp_le of_int_1)
  have "y \<le> 100" by (simp add: y_def usage_percentage_def)
  then have "\<lfloor>y + 1 / 2\<rfloor> \<le> 100" by (simp add: floor_le_iff)
  then have "unat (usage_percentage_u8 used tot) = nat \<lfloor>y + 1 / 2\<rfloor>"
    unfolding usage_percentage_u8_def y_def by (intro unat_round_as_u8) simp
  moreover have "nat \<lfloor>y + 1 / 2\<rfloor> \<le> 100" "nat \<lfloor>y + 1 / 2\<rfloor> \<in> {k, k + 1}"
    using fl k \<open>\<lfloor>y + 1 / 2\<rfloor> \<le> 100\<close> by (linarith, auto)
  ultimately show ?thesis
    using False by (simp add: truncated_eq [OF assms] flip: k_def)
qed

theorem usage_percentages_agree_witness:
  "unat (usage_percentage_truncated_u8 29 100) = 29 \<and> unat (usage_percentage_u8 29 100) \<in> {29, 30}"
  using usage_percentages_agree [of 29 100] by auto

text \<open>The auto-compact gate decides exactly. While the products fit \<open>u64\<close>, the gate with
  headroom holds exactly when the used tokens plus the headroom reach the given percentage
  of a known window; without headroom it is the plain threshold, and more use or more
  headroom never closes an open gate.\<close>

theorem exceeds_threshold_exact:
  assumes "unat used * 100 < 2 ^ 64" and "unat window * unat pct < 2 ^ 64"
    and "unat headroom * 100 < 2 ^ 64"
  shows "(exceeds_threshold_with_headroom used window pct headroom \<longleftrightarrow>
      window \<noteq> 0 \<and> unat window * unat pct \<le> (unat used + unat headroom) * 100) \<and>
    (exceeds_threshold used window pct \<longleftrightarrow> exceeds_threshold_with_headroom used window pct 0) \<and>
    (exceeds_threshold_with_headroom used window pct headroom \<and> used \<le> used' \<and> headroom \<le> headroom' \<longrightarrow>
      exceeds_threshold_with_headroom used' window pct headroom')"
proof (intro conjI impI)
  show "exceeds_threshold_with_headroom used window pct headroom \<longleftrightarrow>
      window \<noteq> 0 \<and> unat window * unat pct \<le> (unat used + unat headroom) * 100"
    using assms
    by (simp add: gate_iff unat_sat_mul unat_u8_u64)
  show "exceeds_threshold used window pct \<longleftrightarrow> exceeds_threshold_with_headroom used window pct 0"
    by (simp add: exceeds_threshold_def exceeds_threshold_with_headroom_def)
  have mono: "unat (sat_mul a 100) \<le> unat (sat_mul b 100)" if "a \<le> b" for a b :: u64
    using that by (auto simp: unat_sat_mul word_le_nat_alt)
  assume gate: "exceeds_threshold_with_headroom used window pct headroom \<and> used \<le> used' \<and> headroom \<le> headroom'"
  then have "unat (sat_mul used 100) + unat (sat_mul headroom 100) \<le>
      unat (sat_mul used' 100) + unat (sat_mul headroom' 100)"
    by (intro add_mono mono) blast+
  with gate show "exceeds_threshold_with_headroom used' window pct headroom'"
    unfolding gate_iff by (blast intro: order_trans)
qed

theorem exceeds_threshold_exact_witness:
  "exceeds_threshold_with_headroom 84 100 85 1 \<and> \<not> exceeds_threshold_with_headroom 83 100 85 1"
proof
  show "exceeds_threshold_with_headroom 84 100 85 1"
    using exceeds_threshold_exact [of 84 100 85 1 84 1, THEN conjunct1] by simp
  show "\<not> exceeds_threshold_with_headroom 83 100 85 1"
    using exceeds_threshold_exact [of 83 100 85 1 83 1, THEN conjunct1] by simp
qed

end
