(* ===== verification/Interjection.thy ===== *)
theory Interjection
  imports RustStr "HOL-Library.Sublist" "HOL-Library.Multiset"
begin

text \<open>
  Mid-turn interjections (\<open>xai-interjection-core/src/events.rs\<close>, \<open>buffer.rs\<close>, \<open>format.rs\<close>).
  All clones of an \<open>EventQueue\<close> share one mutex-protected vector and every method holds the
  lock for its whole body, so a concurrent history is a sequence of these operations on one
  list. A poisoned lock is entered like any other (\<open>into_inner\<close>).
\<close>

section \<open>The event queue\<close>

type_synonym 'e event_queue = "'e list"

definition new_queue :: "'e event_queue" where
  "new_queue = []"

definition push :: "'e \<Rightarrow> 'e event_queue \<Rightarrow> 'e event_queue" where
  "push event q = q @ [event]"

definition push_capped :: "'e \<Rightarrow> nat \<Rightarrow> 'e event_queue \<Rightarrow> 'e event_queue" where
  "push_capped event mx q =
     (let q = q @ [event] in if mx < length q then drop (length q - mx) q else q)"

definition queue_len :: "'e event_queue \<Rightarrow> nat" where
  "queue_len q = length q"

definition queue_is_empty :: "'e event_queue \<Rightarrow> bool" where
  "queue_is_empty q \<longleftrightarrow> q = []"

definition drain_matching :: "('e \<Rightarrow> bool) \<Rightarrow> 'e event_queue \<Rightarrow> 'e list \<times> 'e event_queue" where
  "drain_matching tk q = partition tk q"

definition drain_all :: "'e event_queue \<Rightarrow> 'e list \<times> 'e event_queue" where
  "drain_all q = (q, [])"

definition clear_queue :: "'e event_queue \<Rightarrow> 'e event_queue" where
  "clear_queue q = []"

definition snapshot :: "'e event_queue \<Rightarrow> 'e list" where
  "snapshot q = q"

section \<open>Framing\<close>

definition LARGE_PROMPT_THRESHOLD :: nat where "LARGE_PROMPT_THRESHOLD = 25000"

definition user_query :: "rstr \<Rightarrow> rstr" where
  "user_query user_message =
     lit ''<user_query>'' @ [newline] @ user_message @ [newline] @ lit ''</user_query>''"

text \<open>
  The slice of \<open>format_interjection\<close>: the characters whose byte offset is below the
  threshold, up to the end of the last one. \<open>i\<close> is the offset of the first character.
\<close>

fun chars_before :: "nat \<Rightarrow> nat \<Rightarrow> rstr \<Rightarrow> rstr" where
  "chars_before limit i [] = []"
| "chars_before limit i (c # s) =
     (if i < limit then c # chars_before limit (i + len_utf8 c) s else [])"

definition truncate_interjection :: "rstr \<Rightarrow> rstr" where
  "truncate_interjection s =
     (if LARGE_PROMPT_THRESHOLD < byte_len s
      then chars_before LARGE_PROMPT_THRESHOLD 0 s @ lit ''... [truncated]'' else s)"

definition format_interjection :: "rstr \<Rightarrow> rstr" where
  "format_interjection s =
     lit ''The user sent a message while you were working:'' @ [newline] @
     user_query (truncate_interjection s)"

record 'a pending_interjection =
  pending_text :: rstr
  pending_attachments :: "'a list"

record 'a formatted_interjection =
  formatted_text :: rstr
  formatted_attachments :: "'a list"

definition drain_formatted ::
  "(rstr \<Rightarrow> rstr) \<Rightarrow> 'a pending_interjection event_queue \<Rightarrow>
   'a formatted_interjection list \<times> 'a pending_interjection event_queue" where
  "drain_formatted sanitize_text buffer =
     (let (entries, buffer') = drain_all buffer
      in (map (\<lambda>e. \<lparr>formatted_text = format_interjection (sanitize_text (pending_text e)),
                    formatted_attachments = pending_attachments e\<rparr>) entries, buffer'))"

section \<open>Histories\<close>

text \<open>Any sequence of calls, from any number of producers and readers.\<close>

datatype 'e queue_op =
  Push 'e
| PushCapped 'e nat
| DrainMatching "'e \<Rightarrow> bool"
| DrainAll
| Clear

text \<open>One call: the events it hands out, and the new queue.\<close>

fun queue_step :: "'e queue_op \<Rightarrow> 'e event_queue \<Rightarrow> 'e list \<times> 'e event_queue" where
  "queue_step (Push e) q = ([], push e q)"
| "queue_step (PushCapped e n) q = ([], push_capped e n q)"
| "queue_step (DrainMatching P) q = drain_matching P q"
| "queue_step DrainAll q = drain_all q"
| "queue_step Clear q = ([], clear_queue q)"

fun run_ops :: "'e queue_op list \<Rightarrow> 'e event_queue \<Rightarrow> 'e list \<times> 'e event_queue" where
  "run_ops [] q = ([], q)"
| "run_ops (x # xs) q =
     (let (out, q1) = queue_step x q; (outs, q2) = run_ops xs q1 in (out @ outs, q2))"

fun pushed :: "'e queue_op list \<Rightarrow> 'e list" where
  "pushed [] = []"
| "pushed (Push e # xs) = e # pushed xs"
| "pushed (PushCapped e n # xs) = e # pushed xs"
| "pushed (_ # xs) = pushed xs"

text \<open>A call that may discard events.\<close>

fun lossy :: "'e queue_op \<Rightarrow> bool" where
  "lossy (PushCapped e n) = True"
| "lossy Clear = True"
| "lossy _ = False"

text \<open>Calls that do not split the class \<open>P\<close>: they drain all of it or nothing of it.\<close>

fun keeps_class :: "('e \<Rightarrow> bool) \<Rightarrow> 'e queue_op \<Rightarrow> bool" where
  "keeps_class P (DrainMatching Q) = ((\<forall>e. P e \<longrightarrow> Q e) \<or> (\<forall>e. P e \<longrightarrow> \<not> Q e))"
| "keeps_class P _ = True"

lemma filter_class:
  assumes "(\<forall>e. P e \<longrightarrow> Q e) \<or> (\<forall>e. P e \<longrightarrow> \<not> Q e)"
  shows "filter P (filter Q q) @ filter P (filter (Not \<circ> Q) q) = filter P q"
  using assms
proof
  assume Q: "\<forall>e. P e \<longrightarrow> Q e"
  then have "filter P (filter Q q) = filter P q" "filter P (filter (Not \<circ> Q) q) = []"
    by (induction q) auto
  then show ?thesis by simp
next
  assume Q: "\<forall>e. P e \<longrightarrow> \<not> Q e"
  then have "filter P (filter Q q) = []" "filter P (filter (Not \<circ> Q) q) = filter P q"
    by (induction q) auto
  then show ?thesis by simp
qed

lemma push_capped_subseq: "subseq (push_capped e n q) (q @ [e])"
proof -
  have "subseq (drop k (q @ [e])) (q @ [e])" for k
    by (rule suffix_imp_subseq) (rule suffix_drop)
  then show ?thesis by (simp add: push_capped_def Let_def del: drop_append)
qed

lemma step_class:
  assumes "keeps_class P x" and "queue_step x q = (out, q')"
  shows "subseq (filter P out @ filter P q') (filter P q @ filter P (pushed [x]))"
    and "\<not> lossy x \<Longrightarrow> filter P out @ filter P q' = filter P q @ filter P (pushed [x])"
proof -
  show exact: "filter P out @ filter P q' = filter P q @ filter P (pushed [x])" if "\<not> lossy x"
  proof (cases x)
    case (DrainMatching Q)
    then have "(\<forall>e. P e \<longrightarrow> Q e) \<or> (\<forall>e. P e \<longrightarrow> \<not> Q e)"
      using assms(1) by (simp only: keeps_class.simps)
    note cls = filter_class [OF this, of q]
    have "out = filter Q q" "q' = filter (Not \<circ> Q) q"
      using assms(2) DrainMatching by (simp_all add: drain_matching_def)
    then show ?thesis
      unfolding DrainMatching using cls by (simp only: pushed.simps filter.simps append_Nil2)
  qed (use assms that in \<open>auto simp: push_def drain_all_def\<close>)
  show "subseq (filter P out @ filter P q') (filter P q @ filter P (pushed [x]))"
  proof (cases "lossy x")
    case True
    with assms(2) have "out = []" "subseq q' (q @ pushed [x])"
      by (cases x; auto simp: clear_queue_def push_capped_subseq)+
    then show ?thesis using subseq_filter [of q' "q @ pushed [x]" P] by simp
  qed (simp add: exact)
qed

lemma pushed_Cons: "pushed (x # xs) = pushed [x] @ pushed xs"
  by (cases x) auto

lemma run_class:
  assumes "run_ops xs q = (outs, q')" and "\<forall>x \<in> set xs. keeps_class P x"
  shows "subseq (filter P outs @ filter P q') (filter P q @ filter P (pushed xs)) \<and>
    ((\<forall>x \<in> set xs. \<not> lossy x) \<longrightarrow> filter P outs @ filter P q' = filter P q @ filter P (pushed xs))"
  using assms
proof (induction xs arbitrary: q outs)
    case (Cons x xs)
    obtain out q1 where s: "queue_step x q = (out, q1)" by (cases "queue_step x q")
    obtain outs' where r: "run_ops xs q1 = (outs', q')" and outs: "outs = out @ outs'"
      using Cons.prems s by (auto split: prod.splits)
    have rx: "keeps_class P x" using Cons.prems by simp
    have "subseq (filter P outs' @ filter P q') (filter P q1 @ filter P (pushed xs))"
      using Cons.IH [OF r] Cons.prems by simp
    then have "subseq (filter P out @ (filter P outs' @ filter P q'))
        (filter P out @ (filter P q1 @ filter P (pushed xs)))"
      by (simp only: subseq_append')
    also have "filter P out @ (filter P q1 @ filter P (pushed xs)) =
        (filter P out @ filter P q1) @ filter P (pushed xs)" by (simp only: append_assoc)
    also have "subseq \<dots> ((filter P q @ filter P (pushed [x])) @ filter P (pushed xs))"
      using step_class(1) [OF rx s] by (simp only: subseq_append)
    finally have sub: "subseq (filter P outs @ filter P q') (filter P q @ filter P (pushed (x # xs)))"
      unfolding outs pushed_Cons [of x xs] filter_append append_assoc .
    have "filter P outs @ filter P q' = filter P q @ filter P (pushed (x # xs))"
      if "\<forall>y \<in> set (x # xs). \<not> lossy y"
    proof -
      have "filter P outs @ filter P q' = filter P out @ filter P outs' @ filter P q'" by (simp add: outs)
      also have "\<dots> = (filter P out @ filter P q1) @ filter P (pushed xs)"
        using Cons.IH [OF r] Cons.prems that by simp
      also have "\<dots> = (filter P q @ filter P (pushed [x])) @ filter P (pushed xs)"
        using step_class(2) [OF rx s] that by simp
      finally show ?thesis unfolding pushed_Cons [of x xs] filter_append append_assoc .
    qed
    with sub show ?case by blast
qed simp

section \<open>Truncation\<close>

lemma chars_before_prefix: "\<exists>r. s = chars_before limit i s @ r \<and>
    (r \<noteq> [] \<longrightarrow> limit \<le> i + byte_len (chars_before limit i s)) \<and>
    (i < limit \<longrightarrow> i + byte_len (chars_before limit i s) < limit + 4)"
proof (induction s arbitrary: i)
  case (Cons c s)
  show ?case
  proof (cases "i < limit")
    case True
    obtain r where r: "s = chars_before limit (i + len_utf8 c) s @ r"
      "r \<noteq> [] \<longrightarrow> limit \<le> i + len_utf8 c + byte_len (chars_before limit (i + len_utf8 c) s)"
      "i + len_utf8 c < limit \<longrightarrow>
        i + len_utf8 c + byte_len (chars_before limit (i + len_utf8 c) s) < limit + 4"
      using Cons.IH by blast
    have "chars_before limit (i + len_utf8 c) s = []" if "\<not> i + len_utf8 c < limit"
      using that by (cases s) auto
    with r True len_utf8_le [of c] show ?thesis
      by (intro exI [of _ r]) (auto simp: add.assoc)
  qed auto
qed simp

section \<open>Properties\<close>

text \<open>C35: Every reader gets its events once and in order. Take any history of calls on a new
  queue in which no drain splits the class \<open>P\<close> of a reader: the events of the class handed
  out so far, followed by those still queued, are the pushed ones in push order, each
  exactly once; if some calls may discard (a capped push, a clear), they are a subsequence:
  events are dropped but never duplicated or reordered.\<close>

theorem reader_fifo:
  assumes "run_ops ops new_queue = (outs, q)" and "\<forall>x \<in> set ops. keeps_class P x"
  shows "subseq (filter P outs @ filter P q) (filter P (pushed ops)) \<and>
    ((\<forall>x \<in> set ops. \<not> lossy x) \<longrightarrow> filter P outs @ filter P q = filter P (pushed ops))"
  using run_class [OF assms] by (simp add: new_queue_def)

text \<open>Two readers, of the even and of the odd numbers.\<close>

definition sample_ops :: "nat queue_op list" where
  "sample_ops = [Push 1, Push 2, Push 3, DrainMatching even, Push 4, DrainMatching even]"

theorem reader_fifo_witness:
  "run_ops sample_ops new_queue = ([2, 4], [1, 3]) \<and> list_all (keeps_class even) sample_ops \<and>
   filter even [2, 4] @ filter even [1, 3] = filter even (pushed sample_ops)"
proof -
  have run: "run_ops sample_ops new_queue = ([2, 4], [1, 3])"
    by (simp add: sample_ops_def new_queue_def push_def drain_matching_def)
  have "\<forall>x \<in> set sample_ops. keeps_class even x" "\<forall>x \<in> set sample_ops. \<not> lossy x"
    by (simp_all add: sample_ops_def)
  with reader_fifo [OF run, of even] run show ?thesis unfolding list_all_iff by blast
qed

text \<open>An interjection is truncated between characters. The framed text contains the
  sanitised text whole if it has at most 25,000 bytes; otherwise it contains a prefix of it
  of at least 25,000 and at most 25,003 bytes, followed by the truncation note. Draining
  frames each entry separately, keeps the order and the attachments, and empties the buffer.\<close>

theorem interjection_framing:
  "(\<exists>shown rest note. s = shown @ rest \<and>
      format_interjection s =
        lit ''The user sent a message while you were working:'' @ [newline] @ user_query (shown @ note) \<and>
      (if byte_len s \<le> 25000 then rest = [] \<and> note = []
       else 25000 \<le> byte_len shown \<and> byte_len shown \<le> 25003 \<and> note = lit ''... [truncated]'')) \<and>
   map formatted_text (fst (drain_formatted f buffer)) =
     map (format_interjection \<circ> f \<circ> pending_text) buffer \<and>
   map formatted_attachments (fst (drain_formatted f buffer)) = map pending_attachments buffer \<and>
   snd (drain_formatted f buffer) = []"
proof -
  obtain r where r: "s = chars_before 25000 0 s @ r"
    "r \<noteq> [] \<longrightarrow> 25000 \<le> byte_len (chars_before 25000 0 s)"
    "byte_len (chars_before 25000 0 s) < 25004"
    using chars_before_prefix [of s 25000 0] by auto
  have long: "25000 \<le> byte_len (chars_before 25000 0 s)" if "25000 < byte_len s"
    using r that by (cases "r = []") auto
  have "\<exists>shown rest note. s = shown @ rest \<and>
      format_interjection s =
        lit ''The user sent a message while you were working:'' @ [newline] @ user_query (shown @ note) \<and>
      (if byte_len s \<le> 25000 then rest = [] \<and> note = []
       else 25000 \<le> byte_len shown \<and> byte_len shown \<le> 25003 \<and> note = lit ''... [truncated]'')"
  proof (cases "byte_len s \<le> 25000")
    case True
    then show ?thesis
      by (intro exI [of _ s] exI [of _ "[]"])
        (simp add: format_interjection_def truncate_interjection_def LARGE_PROMPT_THRESHOLD_def)
  next
    case False
    with r long show ?thesis
      by (intro exI [of _ "chars_before 25000 0 s"] exI [of _ r] exI [of _ "lit ''... [truncated]''"])
        (simp add: format_interjection_def truncate_interjection_def LARGE_PROMPT_THRESHOLD_def)
  qed
  then show ?thesis by (simp add: drain_formatted_def drain_all_def comp_def)
qed

end
