(* ===== verification/PromptQueue.thy ===== *)
theory PromptQueue
  imports RustStr
begin

text \<open>
  The merge rules of queued prompts (\<open>xai-prompt-queue/src/combine.rs\<close>, \<open>types.rs\<close>): which
  prefix of the queue is sent as one turn, its text, and the display metadata. JSON values
  are those of \<open>serde_json\<close>; a JSON map is a partial function on its keys.
\<close>

section \<open>Types\<close>

definition COMBINED_DISPLAY_TEXTS_META :: rstr where
  "COMBINED_DISPLAY_TEXTS_META = lit ''combinedDisplayTexts''"

definition TEXT_SEPARATOR :: rstr where
  "TEXT_SEPARATOR = [newline, newline]"

datatype json =
  JNull
| JBool bool
| JNumber rstr
| JString rstr
| JArray "json list"
| JObject "(rstr \<times> json) list"

record combine_gate =
  gate_id :: rstr
  is_plain_prompt :: bool
  is_synthetic :: bool
  is_expanded_skill :: bool
  is_bash :: bool
  has_images :: bool
  gate_text :: rstr

section \<open>Operations\<close>

definition can_merge_front :: "combine_gate \<Rightarrow> bool" where
  "can_merge_front g \<longleftrightarrow>
     is_plain_prompt g \<and> \<not> is_synthetic g \<and> \<not> is_expanded_skill g \<and> \<not> is_bash g \<and> gate_text g \<noteq> []"

definition can_merge_follower :: "combine_gate \<Rightarrow> rstr list \<Rightarrow> bool" where
  "can_merge_follower g skip_ids \<longleftrightarrow>
     can_merge_front g \<and> \<not> has_images g \<and> gate_id g \<notin> set skip_ids"

fun follower_run :: "combine_gate list \<Rightarrow> rstr list \<Rightarrow> nat \<Rightarrow> nat" where
  "follower_run [] skip_ids n = n"
| "follower_run (next # iter) skip_ids n =
     (if \<not> can_merge_follower next skip_ids then n else follower_run iter skip_ids (n + 1))"

definition combine_prefix_len :: "combine_gate list \<Rightarrow> rstr list \<Rightarrow> nat" where
  "combine_prefix_len items skip_ids =
     (case items of
        [] \<Rightarrow> 0
      | front # iter \<Rightarrow> if \<not> can_merge_front front then 1 else follower_run iter skip_ids 1)"

definition join_texts :: "rstr list \<Rightarrow> rstr" where
  "join_texts texts = join TEXT_SEPARATOR (filter (\<lambda>t. t \<noteq> []) texts)"

definition is_combined :: "rstr list \<Rightarrow> bool" where
  "is_combined segs \<longleftrightarrow> 2 \<le> length segs"

definition stamp_combined_display_texts :: "(rstr \<rightharpoonup> json) \<Rightarrow> rstr list \<Rightarrow> (rstr \<rightharpoonup> json)" where
  "stamp_combined_display_texts meta segs =
     (if \<not> is_combined segs then meta
      else meta(COMBINED_DISPLAY_TEXTS_META \<mapsto> JArray (map JString segs)))"

section \<open>Lemmas\<close>

lemma follower_run_eq:
  "follower_run iter skip n = n + length (takeWhile (\<lambda>g. can_merge_follower g skip) iter)"
  by (induction iter skip n rule: follower_run.induct) auto

lemma prefix_len_Cons:
  "combine_prefix_len (front # iter) skip =
     (if can_merge_front front then Suc (length (takeWhile (\<lambda>g. can_merge_follower g skip) iter)) else 1)"
  by (simp add: combine_prefix_len_def follower_run_eq)

lemma nth_takeWhile_holds: "i < length (takeWhile P xs) \<Longrightarrow> P (xs ! i)"
  by (metis nth_mem set_takeWhileD takeWhile_nth)

section \<open>Properties\<close>

text \<open>The combined prefix is the longest one allowed. For a non-empty queue the length is
  between 1 and the queue length; a length above 1 means that the front may lead a run and
  that every other row taken is a plain, image-free prompt that is not being edited; and
  the row after the prefix, if there is one and the front may lead a run, may not follow.
  The text of a combined turn is the texts of its rows, none of them empty, joined by a
  blank line, and exactly the combined turns are stamped with their display texts.\<close>

theorem combine_prefix_maximal:
  fixes items :: "combine_gate list" and skip :: "rstr list"
  assumes "items \<noteq> []"
  defines "n \<equiv> combine_prefix_len items skip"
  shows "1 \<le> n \<and> n \<le> length items \<and>
    (1 < n \<longrightarrow> can_merge_front (hd items) \<and> (\<forall>i. 0 < i \<and> i < n \<longrightarrow> can_merge_follower (items ! i) skip) \<and>
       join_texts (map gate_text (take n items)) = join TEXT_SEPARATOR (map gate_text (take n items))) \<and>
    (can_merge_front (hd items) \<and> n < length items \<longrightarrow> \<not> can_merge_follower (items ! n) skip) \<and>
    stamp_combined_display_texts meta (map gate_text (take n items)) =
      (if 1 < n then meta(COMBINED_DISPLAY_TEXTS_META \<mapsto> JArray (map (JString \<circ> gate_text) (take n items)))
       else meta)"
proof -
  obtain front iter where items: "items = front # iter" using assms(1) by (cases items) auto
  let ?P = "\<lambda>g. can_merge_follower g skip"
  let ?run = "takeWhile ?P iter"
  have n: "n = (if can_merge_front front then Suc (length ?run) else 1)"
    by (simp add: n_def items prefix_len_Cons)
  have le: "1 \<le> n" "n \<le> length items" by (auto simp: n items length_takeWhile_le)
  have fol: "?P (items ! i)" if "0 < i" "i < n" for i
    using that nth_takeWhile_holds [of "i - 1" ?P iter] by (auto simp: n items nth_Cons' split: if_splits)
  have stop: "\<not> ?P (items ! n)" if "can_merge_front (hd items)" "n < length items"
    using that nth_length_takeWhile [of ?P iter] by (simp add: n items)
  have front: "can_merge_front (hd items)" if "1 < n" using that by (auto simp: n items split: if_splits)
  have "gate_text g \<noteq> []" if "1 < n" and g: "g \<in> set (take n items)" for g
  proof -
    obtain i where "i < n" "g = items ! i" using g le(2) by (auto simp: in_set_conv_nth)
    then have "can_merge_front g"
      using fol [of i] front [OF \<open>1 < n\<close>] by (cases i) (auto simp: items can_merge_follower_def)
    then show ?thesis by (simp add: can_merge_front_def)
  qed
  then have "filter (\<lambda>t. t \<noteq> []) (map gate_text (take n items)) = map gate_text (take n items)" if "1 < n"
    using that by (auto simp: filter_id_conv)
  then have texts: "join_texts (map gate_text (take n items)) = join TEXT_SEPARATOR (map gate_text (take n items))"
    if "1 < n" using that by (simp add: join_texts_def)
  have "is_combined (map gate_text (take n items)) \<longleftrightarrow> 1 < n"
    using le by (auto simp: is_combined_def)
  then show ?thesis
    using le fol stop front texts by (simp add: stamp_combined_display_texts_def)
qed

definition sample_gate :: "string \<Rightarrow> bool \<Rightarrow> combine_gate" where
  "sample_gate i images =
     \<lparr>gate_id = lit i, is_plain_prompt = True, is_synthetic = False, is_expanded_skill = False,
      is_bash = False, has_images = images, gate_text = lit i\<rparr>"

theorem combine_prefix_maximal_witness:
  "combine_prefix_len [sample_gate ''a'' True, sample_gate ''b'' False, sample_gate ''c'' True] [] = 2 \<and>
   join_texts (map gate_text (take 2 [sample_gate ''a'' True, sample_gate ''b'' False, sample_gate ''c'' True])) =
     join TEXT_SEPARATOR [lit ''a'', lit ''b'']"
proof -
  let ?q = "[sample_gate ''a'' True, sample_gate ''b'' False, sample_gate ''c'' True]"
  have n: "combine_prefix_len ?q [] = 2"
    by (simp add: combine_prefix_len_def can_merge_front_def can_merge_follower_def sample_gate_def str_simps)
  with combine_prefix_maximal [of ?q "[]" Map.empty] show ?thesis
    by (simp add: sample_gate_def)
qed

end
