(* ===== verification/CompactionSelect.thy ===== *)
theory CompactionSelect
  imports RustStr
begin

text \<open>
  The item interface of the compaction engine (\<open>xai-grok-compaction/src/item.rs\<close>,
  \<open>token.rs\<close>) and the choice of the split point (\<open>select.rs\<close>). The traits
  \<open>CompactionItem\<close> and \<open>CompactionItemBuilder\<close> are records of functions on an arbitrary item
  type: their implementations belong to the harnesses. Token counts are \<open>u32\<close> words.
\<close>

section \<open>Items\<close>

datatype compaction_role = System | Developer | User | Assistant | Tool

record compaction_file_ref =
  file_ref_id :: rstr
  file_ref_name :: rstr

record 'a compaction_item =
  item_role :: "'a \<Rightarrow> compaction_role"
  item_text :: "'a \<Rightarrow> rstr option"
  has_tool_requests :: "'a \<Rightarrow> bool"
  is_compaction_summary :: "'a \<Rightarrow> bool"
  attachment_refs :: "'a \<Rightarrow> compaction_file_ref list"
  compaction_summary_item :: "rstr \<Rightarrow> 'a"
  strip_tool_content :: "'a \<Rightarrow> 'a option"
  truncate_payload_for_compaction :: "'a \<Rightarrow> u32 \<Rightarrow> 'a"

definition is_tool_result :: "'a compaction_item \<Rightarrow> 'a \<Rightarrow> bool" where
  "is_tool_result ops t \<longleftrightarrow> item_role ops t = Tool"

section \<open>Saturating sums\<close>

definition sum_counts :: "u32 list \<Rightarrow> u32" where
  "sum_counts counts = foldl sat_add 0 counts"

lemma unat_foldl_sat_add:
  "unat (foldl sat_add a cs) = min (unat a + sum_list (map unat cs)) (2 ^ 32 - 1)"
  for a :: u32
proof (induction cs arbitrary: a)
  case Nil
  show ?case using unat_le_max [of a] by simp
next
  case (Cons c cs)
  show ?case by (simp add: Cons unat_sat_add min_def)
qed

lemma unat_sum_counts: "unat (sum_counts cs) = min (sum_list (map unat cs)) (2 ^ 32 - 1)"
  unfolding sum_counts_def by (subst unat_foldl_sat_add) simp

lemma sum_counts_Nil [simp]: "sum_counts [] = 0"
  by (simp add: sum_counts_def)

lemma sum_counts_append: "sum_counts (xs @ ys) = sat_add (sum_counts xs) (sum_counts ys)"
  by (rule word_unat_eq_iff [THEN iffD2]) (simp add: unat_sum_counts unat_sat_add)

lemma sum_counts_mono: "sum_list (map unat xs) \<le> sum_list (map unat ys) \<Longrightarrow> sum_counts xs \<le> sum_counts ys"
  by (simp add: word_le_nat_alt unat_sum_counts)

lemma sum_counts_drop_mono: "i \<le> j \<Longrightarrow> sum_counts (drop j cs) \<le> sum_counts (drop i cs)"
proof (rule sum_counts_mono)
  assume "i \<le> j"
  then have "drop i cs = take (j - i) (drop i cs) @ drop j cs"
    by (metis append_take_drop_id drop_drop le_add_diff_inverse2)
  then show "sum_list (map unat (drop j cs)) \<le> sum_list (map unat (drop i cs))"
    by (metis le_add2 map_append sum_list_append)
qed

section \<open>The split\<close>

record split_plan =
  split_idx :: nat
  tokens_to_compact :: u32

text \<open>
  The walk from the newest item backwards, over the reversed counts: the index of the
  current item is the number of counts that remain behind it. Callers pass one count per
  item, as the \<open>debug_assert\<close> of the source demands.
\<close>

fun walk_back :: "u32 \<Rightarrow> u32 list \<Rightarrow> u32 \<Rightarrow> nat" where
  "walk_back target_tokens [] kept = 0"
| "walk_back target_tokens (c # older) kept =
     (if target_tokens < sat_add kept c then length older + 1
      else walk_back target_tokens older (sat_add kept c))"

fun tool_run :: "'a compaction_item \<Rightarrow> 'a list \<Rightarrow> nat" where
  "tool_run ops [] = 0"
| "tool_run ops (t # ts) = (if is_tool_result ops t then Suc (tool_run ops ts) else 0)"

definition snap_to_safe_boundary :: "'a compaction_item \<Rightarrow> 'a list \<Rightarrow> nat \<Rightarrow> nat" where
  "snap_to_safe_boundary ops items candidate =
     (if length items \<le> candidate then length items
      else if \<not> is_tool_result ops (items ! candidate) then candidate
      else candidate + tool_run ops (drop candidate items))"

definition select_turns_to_compact ::
  "'a compaction_item \<Rightarrow> u32 list \<Rightarrow> 'a list \<Rightarrow> u32 \<Rightarrow> u32 \<Rightarrow> split_plan option" where
  "select_turns_to_compact ops item_token_counts items target_tokens min_compactable =
     (if items = [] then None
      else
        (let split = walk_back target_tokens (rev item_token_counts) 0
         in if split = 0 then None
            else
              (let safe = snap_to_safe_boundary ops items split
               in if length items \<le> safe then None
                  else
                    (let toks = sum_counts (take safe item_token_counts)
                     in if toks < min_compactable then None
                        else Some \<lparr>split_idx = safe, tokens_to_compact = toks\<rparr>))))"

section \<open>Lemmas\<close>

text \<open>The walk stops at the smallest index whose suffix fits the target.\<close>

lemma sat_add_commute: "sat_add a b = sat_add b a"
  by (rule word_unat_eq_iff [THEN iffD2]) (simp add: unat_sat_add add.commute)

lemma sum_counts_Cons: "sum_counts (c # cs) = sat_add c (sum_counts cs)"
  using sum_counts_append [of "[c]" cs] by (simp add: sum_counts_def)

lemma walk_back_eq:
  assumes "sum_counts later \<le> target"
  shows "walk_back target (rev cs) (sum_counts later) =
    (LEAST k. k \<le> length cs \<and> sum_counts (drop k cs @ later) \<le> target)"
  using assms
proof (induction cs arbitrary: later rule: rev_induct)
  case Nil
  show ?case by (simp add: Least_equality Nil)
next
  case (snoc c cs)
  have step: "sat_add (sum_counts later) c = sum_counts (c # later)"
    by (simp add: sum_counts_Cons sat_add_commute)
  show ?case
  proof (cases "target < sum_counts (c # later)")
    case True
    have "(LEAST k. k \<le> length (cs @ [c]) \<and> sum_counts (drop k (cs @ [c]) @ later) \<le> target) =
        length cs + 1"
    proof (rule Least_equality)
      show "length cs + 1 \<le> length (cs @ [c]) \<and> sum_counts (drop (length cs + 1) (cs @ [c]) @ later) \<le> target"
        using snoc.prems by simp
      fix k assume k: "k \<le> length (cs @ [c]) \<and> sum_counts (drop k (cs @ [c]) @ later) \<le> target"
      show "length cs + 1 \<le> k"
      proof (rule ccontr)
        assume "\<not> length cs + 1 \<le> k"
        then have "sum_counts (c # later) \<le> sum_counts (drop k (cs @ [c]) @ later)"
          by (intro sum_counts_mono) simp
        with k True show False by (meson not_le order_trans)
      qed
    qed
    with True show ?thesis by (simp add: step)
  next
    case False
    then have "walk_back target (rev cs) (sum_counts (c # later)) =
        (LEAST k. k \<le> length cs \<and> sum_counts (drop k cs @ c # later) \<le> target)"
      using snoc.IH [of "c # later"] by simp
    also have "\<dots> = (LEAST k. k \<le> length (cs @ [c]) \<and> sum_counts (drop k (cs @ [c]) @ later) \<le> target)"
    proof (rule sym, rule Least_equality)
      let ?Q = "\<lambda>k. k \<le> length cs \<and> sum_counts (drop k cs @ c # later) \<le> target"
      have ex: "?Q (length cs)" using False by simp
      have L: "?Q (LEAST k. ?Q k)" by (rule LeastI [of ?Q, OF ex])
      then show "(LEAST k. ?Q k) \<le> length (cs @ [c]) \<and>
          sum_counts (drop (LEAST k. ?Q k) (cs @ [c]) @ later) \<le> target"
        by simp
      fix k assume k: "k \<le> length (cs @ [c]) \<and> sum_counts (drop k (cs @ [c]) @ later) \<le> target"
      show "(LEAST k. ?Q k) \<le> k"
      proof (cases "k \<le> length cs")
        case True
        with k show ?thesis by (intro Least_le) simp
      qed (use L in linarith)
    qed
    finally show ?thesis using False by (simp add: step)
  qed
qed

lemma walk_back_least:
  fixes target :: u32 and cs :: "u32 list"
  defines "k0 \<equiv> walk_back target (rev cs) 0"
  shows "k0 \<le> length cs" and "sum_counts (drop k0 cs) \<le> target"
    and "j < k0 \<Longrightarrow> target < sum_counts (drop j cs)"
proof -
  let ?Q = "\<lambda>k. k \<le> length cs \<and> sum_counts (drop k cs) \<le> target"
  have k0: "k0 = (LEAST k. ?Q k)"
    using walk_back_eq [of "[]" target cs] by (simp add: k0_def)
  have "?Q (length cs)" by simp
  then have Q: "?Q k0" unfolding k0 by (rule LeastI)
  then show "k0 \<le> length cs" "sum_counts (drop k0 cs) \<le> target" by auto
  show "target < sum_counts (drop j cs)" if "j < k0"
    using not_less_Least [of j ?Q] that Q by (simp add: k0 [symmetric] not_le)
qed

lemma tool_run_spec:
  "tool_run ops ts \<le> length ts \<and> (\<forall>i < tool_run ops ts. is_tool_result ops (ts ! i)) \<and>
   (tool_run ops ts < length ts \<longrightarrow> \<not> is_tool_result ops (ts ! tool_run ops ts))"
proof (induction ts)
  case (Cons t ts)
  then show ?case by (auto simp: nth_Cons' split: if_splits)
qed simp

lemma snap_spec:
  fixes items :: "'a list" and ops :: "'a compaction_item"
  assumes "c \<le> length items"
  defines "s \<equiv> snap_to_safe_boundary ops items c"
  shows "c \<le> s" and "s \<le> length items" and "\<And>i. c \<le> i \<Longrightarrow> i < s \<Longrightarrow> is_tool_result ops (items ! i)"
    and "s < length items \<Longrightarrow> \<not> is_tool_result ops (items ! s)"
proof -
  note run = tool_run_spec [of ops "drop c items"]
  have s: "s = (if length items \<le> c then length items else c + tool_run ops (drop c items))"
    by (auto simp: s_def snap_to_safe_boundary_def not_le Cons_nth_drop_Suc [symmetric])
  show "c \<le> s" using assms(1) by (simp add: s)
  show "s \<le> length items" using run assms(1) by (auto simp: s)
  show "is_tool_result ops (items ! i)" if "c \<le> i" "i < s" for i
  proof -
    have "i - c < tool_run ops (drop c items)" "c < length items" using that s assms(1) by (auto split: if_splits)
    then show ?thesis using run that(1) by (metis le_add_diff_inverse nth_drop less_or_eq_imp_le)
  qed
  show "\<not> is_tool_result ops (items ! s)" if "s < length items"
    using run that assms(1) by (auto simp: s split: if_splits)
qed

text \<open>A conversation in which every tool result follows its request or another result.\<close>

definition well_paired :: "'a compaction_item \<Rightarrow> 'a list \<Rightarrow> bool" where
  "well_paired ops items \<longleftrightarrow>
     (\<forall>i < length items. is_tool_result ops (items ! i) \<longrightarrow>
        0 < i \<and> (is_tool_result ops (items ! (i - 1)) \<or> has_tool_requests ops (items ! (i - 1))))"

lemma well_paired_take: "well_paired ops items \<Longrightarrow> well_paired ops (take k items)"
  by (simp add: well_paired_def) (metis less_imp_diff_less nth_take)

lemma well_paired_drop:
  assumes "well_paired ops items" and "k < length items" and "\<not> is_tool_result ops (items ! k)"
  shows "well_paired ops (drop k items)"
  unfolding well_paired_def
proof (intro allI impI)
  fix i assume i: "i < length (drop k items)" "is_tool_result ops (drop k items ! i)"
  have "i \<noteq> 0" using i(2) assms(2,3) by (cases i) auto
  moreover have "is_tool_result ops (items ! (k + i - 1)) \<or> has_tool_requests ops (items ! (k + i - 1))"
    using assms(1) i by (simp add: well_paired_def)
  ultimately show "0 < i \<and> (is_tool_result ops (drop k items ! (i - 1)) \<or>
      has_tool_requests ops (drop k items ! (i - 1)))"
    using i(1) by (cases i) auto
qed

text \<open>The plan exactly: the smallest split that fits and does not begin with a tool result.\<close>

lemma select_Some:
  assumes "length counts = length items"
    and "select_turns_to_compact ops counts items target min_compactable = Some p"
  shows "0 < split_idx p" and "split_idx p < length items" and "target < sum_counts counts"
    and "sum_counts (drop (split_idx p) counts) \<le> target"
    and "\<not> is_tool_result ops (items ! split_idx p)"
    and "\<And>j. j < split_idx p \<Longrightarrow> sum_counts (drop j counts) \<le> target \<Longrightarrow> is_tool_result ops (items ! j)"
    and "tokens_to_compact p = sum_counts (take (split_idx p) counts)"
    and "min_compactable \<le> tokens_to_compact p"
proof -
  define k where "k = walk_back target (rev counts) 0"
  define s where "s = snap_to_safe_boundary ops items k"
  note walk = walk_back_least [where target = target and cs = counts, folded k_def]
  have p: "k \<noteq> 0" "s < length items" "p = \<lparr>split_idx = s, tokens_to_compact = sum_counts (take s counts)\<rparr>"
    "min_compactable \<le> sum_counts (take s counts)"
    using assms(2)
    by (auto simp: select_turns_to_compact_def Let_def not_le not_less k_def [symmetric] s_def [symmetric]
        split: if_splits)
  have kl: "k \<le> length items" using walk(1) assms(1) by simp
  note snap = snap_spec [OF kl, where ops = ops, folded s_def]
  show "0 < split_idx p" "split_idx p < length items" using p snap(1) by auto
  show "target < sum_counts counts" using walk(3) [of 0] p(1) by simp
  show "sum_counts (drop (split_idx p) counts) \<le> target"
    using walk(2) sum_counts_drop_mono [OF snap(1), of counts] p(3) by auto
  show "\<not> is_tool_result ops (items ! split_idx p)" using snap(4) p by simp
  show "is_tool_result ops (items ! j)" if "j < split_idx p" "sum_counts (drop j counts) \<le> target" for j
    using that walk(3) [of j] snap(3) [of j] p(3) by (simp add: not_less) (meson not_le)
  show "tokens_to_compact p = sum_counts (take (split_idx p) counts)"
    "min_compactable \<le> tokens_to_compact p" using p by simp_all
qed

lemma select_complete:
  assumes "length counts = length items" and "target < sum_counts counts"
    and "k < length items" and "sum_counts (drop k counts) \<le> target" and "\<not> is_tool_result ops (items ! k)"
    and least: "\<And>j. j < k \<Longrightarrow> sum_counts (drop j counts) \<le> target \<Longrightarrow> is_tool_result ops (items ! j)"
    and "min_compactable \<le> sum_counts (take k counts)"
  shows "select_turns_to_compact ops counts items target min_compactable =
    Some \<lparr>split_idx = k, tokens_to_compact = sum_counts (take k counts)\<rparr>"
proof -
  define w where "w = walk_back target (rev counts) 0"
  define s where "s = snap_to_safe_boundary ops items w"
  note walk = walk_back_least [where target = target and cs = counts, folded w_def]
  have wl: "w \<le> length items" using walk(1) assms(1) by simp
  note snap = snap_spec [OF wl, where ops = ops, folded s_def]
  have w0: "w \<noteq> 0" using walk(2) assms(2) by (cases w) auto
  have "w \<le> k" using walk(3) [of k] assms(4) by (meson not_le)
  then have sk: "s \<le> k" using snap(3) [of k] assms(5) by (meson not_le)
  moreover have "\<not> s < k"
  proof
    assume "s < k"
    moreover have "sum_counts (drop s counts) \<le> target"
      using walk(2) sum_counts_drop_mono [OF snap(1), of counts] by (meson order_trans)
    ultimately show False using least [of s] snap(4) assms(3) by simp
  qed
  ultimately have "s = k" by simp
  with assms(3,7) w0 show ?thesis
    by (auto simp: select_turns_to_compact_def Let_def w_def [symmetric] s_def [symmetric])
qed

section \<open>Properties\<close>

text \<open>C36: The split point is exactly the best safe one. With one token count per item, a plan
  is returned if and only if the conversation exceeds the target, there is a position whose
  newer part fits the target and does not begin with a tool result, and the part older than
  the first such position has the minimum size; the plan is that first position with the
  (saturating) token sum of the older part. Hence in a conversation whose tool results
  follow their requests, both parts keep that property: no tool result is orphaned.\<close>

theorem select_turns_spec:
  assumes "length counts = length items"
  shows "(select_turns_to_compact ops counts items target min_compactable = Some p \<longleftrightarrow>
      target < sum_counts counts \<and> split_idx p < length items \<and>
      sum_counts (drop (split_idx p) counts) \<le> target \<and> \<not> is_tool_result ops (items ! split_idx p) \<and>
      (\<forall>j < split_idx p. sum_counts (drop j counts) \<le> target \<longrightarrow> is_tool_result ops (items ! j)) \<and>
      tokens_to_compact p = sum_counts (take (split_idx p) counts) \<and>
      min_compactable \<le> tokens_to_compact p) \<and>
    (select_turns_to_compact ops counts items target min_compactable = Some p \<and> well_paired ops items \<longrightarrow>
      well_paired ops (take (split_idx p) items) \<and> well_paired ops (drop (split_idx p) items))"
proof (intro conjI iffI impI)
  assume "select_turns_to_compact ops counts items target min_compactable = Some p"
  note f = select_Some [OF assms this]
  show "target < sum_counts counts" "split_idx p < length items"
    "sum_counts (drop (split_idx p) counts) \<le> target" "\<not> is_tool_result ops (items ! split_idx p)"
    "\<forall>j < split_idx p. sum_counts (drop j counts) \<le> target \<longrightarrow> is_tool_result ops (items ! j)"
    "tokens_to_compact p = sum_counts (take (split_idx p) counts)" "min_compactable \<le> tokens_to_compact p"
    using f by blast+
next
  assume "target < sum_counts counts \<and> split_idx p < length items \<and>
      sum_counts (drop (split_idx p) counts) \<le> target \<and> \<not> is_tool_result ops (items ! split_idx p) \<and>
      (\<forall>j < split_idx p. sum_counts (drop j counts) \<le> target \<longrightarrow> is_tool_result ops (items ! j)) \<and>
      tokens_to_compact p = sum_counts (take (split_idx p) counts) \<and>
      min_compactable \<le> tokens_to_compact p"
  then show "select_turns_to_compact ops counts items target min_compactable = Some p"
    using select_complete [OF assms, of target "split_idx p" ops min_compactable] by (cases p) simp
next
  assume a: "select_turns_to_compact ops counts items target min_compactable = Some p \<and> well_paired ops items"
  then show "well_paired ops (take (split_idx p) items)" by (blast intro: well_paired_take)
  from a show "well_paired ops (drop (split_idx p) items)"
    using select_Some(2,5) [OF assms] by (blast intro: well_paired_drop)
qed

text \<open>Items that are only a role and a text.\<close>

definition sample_item_ops :: "(compaction_role \<times> rstr) compaction_item" where
  "sample_item_ops =
     \<lparr>item_role = fst, item_text = (\<lambda>t. Some (snd t)), has_tool_requests = (\<lambda>t. fst t = Assistant),
      is_compaction_summary = (\<lambda>t. fst t = Developer), attachment_refs = (\<lambda>_. []),
      compaction_summary_item = (\<lambda>s. (Developer, s)), strip_tool_content = Some,
      truncate_payload_for_compaction = (\<lambda>t n. (fst t, take (unat n) (snd t)))\<rparr>"

theorem select_turns_spec_witness:
  "select_turns_to_compact sample_item_ops [10, 10, 10, 10]
     [(User, []), (Assistant, []), (Tool, []), (User, [])] 25 5 =
   Some \<lparr>split_idx = 3, tokens_to_compact = 30\<rparr>"
  using select_turns_spec [of "[10, 10, 10, 10]" "[(User, []), (Assistant, []), (Tool, []), (User, [])]"
      sample_item_ops 25 5 "\<lparr>split_idx = 3, tokens_to_compact = 30\<rparr>"]
  by (simp add: sum_counts_def sat_add_def is_tool_result_def sample_item_ops_def numeral_3_eq_3 less_Suc_eq)

end
