(* ===== verification/CompactionFit.thy ===== *)
theory CompactionFit
  imports CompactionSelect
begin

text \<open>
  The ladder that fits a conversation into the context of the summarizer
  (\<open>xai-grok-compaction/src/intra_compaction/fit.rs\<close>): drop old history, clip oversized tool
  results, drop old steps, and as a last resort keep only the newest item, clipped. The
  token counter is a function parameter. \<open>len as u32\<close> is \<open>word_of_nat\<close>: it wraps for more
  than \<open>2 ^ 32 - 1\<close> turns.
\<close>

section \<open>Types\<close>

datatype fit_rung = Verbatim | HistoryTurnSelected | ToolTruncated | StepTurnsSelected | Emergency

record 'a fit_plan =
  llm_turns :: "'a list"
  tokens_raw :: u32
  tokens_fit :: u32
  rung :: fit_rung
  items_truncated :: u32
  history_turns_omitted :: u32
  step_turns_omitted :: u32

section \<open>Operations\<close>

definition token_counts :: "('a \<Rightarrow> u32) \<Rightarrow> 'a list \<Rightarrow> u32 list" where
  "token_counts counter turns = map counter turns"

definition sum_tokens :: "('a \<Rightarrow> u32) \<Rightarrow> 'a list \<Rightarrow> u32" where
  "sum_tokens counter turns = foldl sat_add 0 (map counter turns)"

definition concat_turns :: "'a list \<Rightarrow> 'a list \<Rightarrow> 'a list" where
  "concat_turns history steps = history @ steps"

definition shrink_item_to_token_budget :: "'a compaction_item \<Rightarrow> 'a \<Rightarrow> u32 \<Rightarrow> 'a" where
  "shrink_item_to_token_budget ops item max_tokens = truncate_payload_for_compaction ops item max_tokens"

definition oversized_tool :: "'a compaction_item \<Rightarrow> ('a \<Rightarrow> u32) \<Rightarrow> u32 \<Rightarrow> 'a \<Rightarrow> bool" where
  "oversized_tool ops counter max_tokens t \<longleftrightarrow> is_tool_result ops t \<and> max_tokens < counter t"

definition shrink_oversized_tool_results ::
  "'a compaction_item \<Rightarrow> ('a \<Rightarrow> u32) \<Rightarrow> u32 \<Rightarrow> 'a list \<Rightarrow> 'a list \<times> u32" where
  "shrink_oversized_tool_results ops counter max_tokens turns =
     (map (\<lambda>t. if oversized_tool ops counter max_tokens t
               then shrink_item_to_token_budget ops t max_tokens else t) turns,
      word_of_nat (count_if (oversized_tool ops counter max_tokens) turns))"

definition keep_recent_under_budget ::
  "'a compaction_item \<Rightarrow> 'a list \<Rightarrow> u32 list \<Rightarrow> u32 \<Rightarrow> ('a list \<times> u32) option" where
  "keep_recent_under_budget ops turns counts budget =
     (if turns = [] then Some ([], 0)
      else if budget = 0 then Some ([], word_of_nat (length turns))
      else if sum_counts counts \<le> budget then Some (turns, 0)
      else map_option (\<lambda>plan. (drop (split_idx plan) turns, word_of_nat (split_idx plan)))
             (select_turns_to_compact ops counts turns budget 0))"

definition plan_ok ::
  "('a \<Rightarrow> u32) \<Rightarrow> 'a list \<Rightarrow> 'a list \<Rightarrow> u32 \<Rightarrow> fit_rung \<Rightarrow> u32 \<Rightarrow> u32 \<Rightarrow> u32 \<Rightarrow> 'a fit_plan" where
  "plan_ok counter history steps raw r truncated ho so =
     (let turns = concat_turns history steps
      in \<lparr>llm_turns = turns, tokens_raw = raw, tokens_fit = sum_tokens counter turns, rung = r,
          items_truncated = truncated, history_turns_omitted = ho, step_turns_omitted = so\<rparr>)"

text \<open>
  Stages 1 and 3: keep the newest turns of one side under what the other side leaves of the
  budget; the turns, their counts and the number of turns left out.
\<close>

definition drop_oldest ::
  "'a compaction_item \<Rightarrow> u32 \<Rightarrow> u32 \<Rightarrow> 'a list \<Rightarrow> u32 list \<Rightarrow> 'a list \<times> u32 list \<times> u32" where
  "drop_oldest ops budget other_tokens turns counts =
     (if other_tokens < budget then
        (let left = budget - other_tokens
         in if left < sum_counts counts then
              (case keep_recent_under_budget ops turns counts left of
                 Some (keep, omitted) \<Rightarrow> (keep, drop (unat omitted) counts, omitted)
               | None \<Rightarrow> ([], [], word_of_nat (length turns)))
            else (turns, counts, 0))
      else ([], [], word_of_nat (length turns)))"

text \<open>Stage 4, from the remaining and the original turns.\<close>

definition emergency ::
  "'a compaction_item \<Rightarrow> ('a \<Rightarrow> u32) \<Rightarrow> u32 \<Rightarrow> u32 \<Rightarrow> u32 \<Rightarrow> 'a list \<Rightarrow> 'a list \<Rightarrow>
   'a list \<Rightarrow> 'a list \<Rightarrow> u32 \<Rightarrow> u32 \<Rightarrow> 'a fit_plan" where
  "emergency ops counter budget raw truncated history steps hist step ho so =
     (let combined = concat_turns hist step;
          (source, ho', so') =
            (if combined = [] then
               (concat_turns history steps,
                if steps = [] then word_of_nat (length history - 1) else word_of_nat (length history),
                if steps = [] then 0 else word_of_nat (length steps - 1))
             else if step = [] then
               (combined, sat_add ho (word_of_nat (length hist - 1)), so)
             else
               (combined, sat_add ho (word_of_nat (length hist)),
                sat_add so (word_of_nat (length step - 1))))
      in if source = [] then
           \<lparr>llm_turns = [], tokens_raw = raw, tokens_fit = 0, rung = Emergency,
            items_truncated = truncated, history_turns_omitted = ho', step_turns_omitted = so'\<rparr>
         else
           (let lst = [shrink_item_to_token_budget ops (last source) budget]
            in \<lparr>llm_turns = lst, tokens_raw = raw, tokens_fit = sum_tokens counter lst, rung = Emergency,
                items_truncated = sat_add truncated 1, history_turns_omitted = ho',
                step_turns_omitted = so'\<rparr>))"

definition fit_turns_for_summarizer ::
  "'a compaction_item \<Rightarrow> ('a \<Rightarrow> u32) \<Rightarrow> 'a list \<Rightarrow> 'a list \<Rightarrow> u32 \<Rightarrow> 'a fit_plan" where
  "fit_turns_for_summarizer ops counter history steps budget =
     (let hist_counts = token_counts counter history;
          step_counts = token_counts counter steps;
          raw = sat_add (sum_counts hist_counts) (sum_counts step_counts)
      in if budget = 0 then
           \<lparr>llm_turns = [], tokens_raw = raw, tokens_fit = 0, rung = Emergency, items_truncated = 0,
            history_turns_omitted = word_of_nat (length history),
            step_turns_omitted = word_of_nat (length steps)\<rparr>
         else if raw \<le> budget then plan_ok counter history steps raw Verbatim 0 0 0
         else
           (let (hist, hist_counts, ho) =
                  drop_oldest ops budget (sum_counts step_counts) history hist_counts
            in if sat_add (sum_counts hist_counts) (sum_counts step_counts) \<le> budget
               then plan_ok counter hist steps raw HistoryTurnSelected 0 ho 0
               else
                 (let (hist, n1) = shrink_oversized_tool_results ops counter budget hist;
                      (step, n2) = shrink_oversized_tool_results ops counter budget steps;
                      truncated = sat_add n1 n2;
                      hist_counts = token_counts counter hist;
                      step_counts = token_counts counter step
                  in if sat_add (sum_counts hist_counts) (sum_counts step_counts) \<le> budget
                     then plan_ok counter hist step raw ToolTruncated truncated ho 0
                     else
                       (let (step, step_counts, so) =
                              drop_oldest ops budget (sum_counts hist_counts) step step_counts
                        in if sat_add (sum_counts hist_counts) (sum_counts step_counts) \<le> budget \<and>
                              (hist \<noteq> [] \<or> step \<noteq> [])
                           then plan_ok counter hist step raw StepTurnsSelected truncated ho so
                           else emergency ops counter budget raw truncated history steps hist step ho so))))"

text \<open>
  Prefix truncation of a text. \<open>is_char_boundary\<close> of the source walks a byte offset back to
  the start of a character; here the longest prefix of at most \<open>keep\<close> bytes.
\<close>

fun prefix_bytes :: "nat \<Rightarrow> rstr \<Rightarrow> rstr" where
  "prefix_bytes k [] = []"
| "prefix_bytes k (c # s) = (if len_utf8 c \<le> k then c # prefix_bytes (k - len_utf8 c) s else [])"

definition MARKER_RESERVE :: nat where "MARKER_RESERVE = 64"

definition truncate_text_to_token_budget :: "rstr \<Rightarrow> u32 \<Rightarrow> rstr" where
  "truncate_text_to_token_budget s max_tokens =
     (let max_bytes = unat max_tokens * 4
      in if byte_len s \<le> max_bytes then s
         else
           (let kept = prefix_bytes (max_bytes - MARKER_RESERVE) s;
                dropped = byte_len s - byte_len kept
            in kept @ [newline] @ lit ''[... truncated '' @ decimal dropped @
               lit '' bytes to fit the compaction window ...]''))"

definition truncate_text_for_compaction :: "rstr \<Rightarrow> u32 \<Rightarrow> rstr" where
  "truncate_text_for_compaction s max_tokens = truncate_text_to_token_budget s max_tokens"

section \<open>Lemmas\<close>

lemma sum_tokens_eq: "sum_tokens counter turns = sum_counts (token_counts counter turns)"
  by (simp add: sum_tokens_def sum_counts_def token_counts_def)

lemma token_counts_append: "token_counts counter (xs @ ys) = token_counts counter xs @ token_counts counter ys"
  by (simp add: token_counts_def)

lemma plan_ok_fields [simp]:
  "llm_turns (plan_ok c h s raw r t ho so) = h @ s" "rung (plan_ok c h s raw r t ho so) = r"
  "tokens_fit (plan_ok c h s raw r t ho so) =
     sat_add (sum_counts (token_counts c h)) (sum_counts (token_counts c s))"
  "tokens_raw (plan_ok c h s raw r t ho so) = raw"
  "history_turns_omitted (plan_ok c h s raw r t ho so) = ho"
  "step_turns_omitted (plan_ok c h s raw r t ho so) = so"
  by (simp_all add: plan_ok_def concat_turns_def sum_tokens_eq token_counts_append sum_counts_append)



lemma sat_add_ge: "a \<le> sat_add a b" for a b :: u32
  using unat_le_max [of a] by (simp add: word_le_nat_alt unat_sat_add)


text \<open>The steps after the second stage.\<close>

abbreviation shrunk :: "'a compaction_item \<Rightarrow> ('a \<Rightarrow> u32) \<Rightarrow> u32 \<Rightarrow> 'a list \<Rightarrow> 'a list" where
  "shrunk ops counter budget turns \<equiv> fst (shrink_oversized_tool_results ops counter budget turns)"

lemma length_shrunk [simp]: "length (shrunk ops counter budget turns) = length turns"
  by (simp add: shrink_oversized_tool_results_def)

lemma shrunk_Nil [simp]: "shrink_oversized_tool_results ops counter budget [] = ([], 0)"
  by (simp add: shrink_oversized_tool_results_def)

lemma token_counts_Nil [simp]: "token_counts counter [] = []"
  by (simp add: token_counts_def)



lemma prefix_bytes_spec:
  "\<exists>r. s = prefix_bytes k s @ r \<and> byte_len (prefix_bytes k s) \<le> k \<and> (r \<noteq> [] \<longrightarrow> k < byte_len (prefix_bytes k s) + 4)"
proof (induction k s rule: prefix_bytes.induct)
  case (2 k c s)
  show ?case
  proof (cases "len_utf8 c \<le> k")
    case True
    with 2 obtain r where "s = prefix_bytes (k - len_utf8 c) s @ r"
      "byte_len (prefix_bytes (k - len_utf8 c) s) \<le> k - len_utf8 c"
      "r \<noteq> [] \<longrightarrow> k - len_utf8 c < byte_len (prefix_bytes (k - len_utf8 c) s) + 4" by blast
    with True show ?thesis by (intro exI [of _ r]) auto
  next
    case False
    with len_utf8_le [of c] show ?thesis by auto
  qed
qed simp

section \<open>Properties\<close>



text \<open>The first rung can hand out an empty conversation. Without steps, if the newest
  history turn alone exceeds the budget, the ladder stops at its first rung with no turns
  at all and never reaches the last one, which would keep that turn clipped.\<close>

theorem fit_can_be_empty:
  assumes "history \<noteq> []" and "length history < 2 ^ 32" and "0 < budget" and "budget < counter (last history)"
  shows "llm_turns (fit_turns_for_summarizer ops counter history [] budget) = [] \<and>
    rung (fit_turns_for_summarizer ops counter history [] budget) = HistoryTurnSelected"
proof -
  let ?hc = "token_counts counter history"
  have last: "?hc = butlast ?hc @ [counter (last history)]"
    using assms(1) append_butlast_last_id [of ?hc] by (simp add: token_counts_def last_map)
  have "walk_back budget (rev ?hc) 0 = length history"
    using assms(1,4) by (subst last) (simp add: token_counts_def)
  then have none: "select_turns_to_compact ops ?hc history budget 0 = None"
    by (simp add: select_turns_to_compact_def snap_to_safe_boundary_def Let_def)
  have "sum_counts ?hc = sat_add (sum_counts (butlast ?hc)) (counter (last history))"
    by (subst last) (simp add: sum_counts_append, simp add: sum_counts_def)
  then have "budget < sum_counts ?hc"
    using assms(4) sat_add_ge [of "counter (last history)" "sum_counts (butlast ?hc)"]
    by (simp add: sat_add_commute)
  moreover have "budget \<noteq> 0" using assms(3) by auto
  moreover have "drop_oldest ops budget 0 history ?hc = ([], [], word_of_nat (length history))"
    using calculation assms(1,3) none by (simp add: drop_oldest_def keep_recent_under_budget_def)
  ultimately show ?thesis
    by (simp add: fit_turns_for_summarizer_def Let_def not_le)
qed

theorem fit_can_be_empty_witness:
  "llm_turns (fit_turns_for_summarizer sample_item_ops (\<lambda>_. 30) [(User, lit ''q'')] [] 25) = []"
  using fit_can_be_empty [of "[(User, lit ''q'')]" 25 "\<lambda>_. 30" sample_item_ops] by simp

text \<open>A clipped text keeps within its budget up to the marker. A text within four bytes
  per token is unchanged; otherwise a prefix of it remains, cut between characters, at most
  64 bytes less and up to three bytes shorter than the budget in bytes, followed by a note
  with the exact number of bytes left out.\<close>

theorem truncate_text_spec:
  "(byte_len s \<le> unat m * 4 \<longrightarrow> truncate_text_to_token_budget s m = s) \<and>
   (unat m * 4 < byte_len s \<longrightarrow>
     (\<exists>p r. s = p @ r \<and> byte_len p \<le> unat m * 4 - 64 \<and> unat m * 4 - 64 < byte_len p + 4 \<and>
        truncate_text_to_token_budget s m =
          p @ [newline] @ lit ''[... truncated '' @ decimal (byte_len r) @
          lit '' bytes to fit the compaction window ...]''))"
proof (intro conjI impI)
  assume "byte_len s \<le> unat m * 4"
  then show "truncate_text_to_token_budget s m = s" by (simp add: truncate_text_to_token_budget_def)
next
  assume long: "unat m * 4 < byte_len s"
  let ?k = "unat m * 4 - 64"
  obtain r where r: "s = prefix_bytes ?k s @ r" "byte_len (prefix_bytes ?k s) \<le> ?k"
    "r \<noteq> [] \<longrightarrow> ?k < byte_len (prefix_bytes ?k s) + 4"
    using prefix_bytes_spec by blast
  have "byte_len s = byte_len (prefix_bytes ?k s) + byte_len r" using r(1) by (metis byte_len_append)
  moreover from this have "r \<noteq> []" using long r(2) by auto
  ultimately show "\<exists>p r. s = p @ r \<and> byte_len p \<le> ?k \<and> ?k < byte_len p + 4 \<and>
        truncate_text_to_token_budget s m =
          p @ [newline] @ lit ''[... truncated '' @ decimal (byte_len r) @
          lit '' bytes to fit the compaction window ...]''"
    using r long
    by (intro exI [of _ "prefix_bytes ?k s"] exI [of _ r])
      (simp add: truncate_text_to_token_budget_def Let_def MARKER_RESERVE_def)
qed

theorem truncate_text_spec_witness:
  "truncate_text_to_token_budget (lit ''abcd'') 1 = lit ''abcd''"
  using truncate_text_spec [of "lit ''abcd''" 1] by (simp add: str_simps len_utf8_def)

end
