(* ===== verification/CompactionHistory.thy ===== *)
theory CompactionHistory
  imports CompactionSelect RustStrSearch
begin

text \<open>
  Preparing a history for compaction (\<open>xai-grok-compaction/src/history/filter.rs\<close>,
  \<open>validate.rs\<close>, \<open>types.rs\<close>): the role filters, the separation of the
  \<open>grok_user_queries\<close> blocks of earlier summaries, and the validation of a summary. String
  positions are counted in characters where the source counts bytes; the slices are the
  same.
\<close>

section \<open>Filters\<close>

fun keep_role :: "compaction_role \<Rightarrow> bool \<Rightarrow> bool" where
  "keep_role System summary = False"
| "keep_role Developer summary = summary"
| "keep_role _ summary = True"

definition keep_turn_for_basic_compaction :: "'a compaction_item \<Rightarrow> 'a \<Rightarrow> bool" where
  "keep_turn_for_basic_compaction ops t = keep_role (item_role ops t) (is_compaction_summary ops t)"

definition filter_turns_for_basic :: "'a compaction_item \<Rightarrow> 'a list \<Rightarrow> 'a list" where
  "filter_turns_for_basic ops turns = filter (keep_turn_for_basic_compaction ops) turns"

definition inter_turn :: "'a compaction_item \<Rightarrow> 'a \<Rightarrow> 'a option" where
  "inter_turn ops t =
     (case item_role ops t of
        Tool \<Rightarrow> None
      | System \<Rightarrow> None
      | Developer \<Rightarrow> if is_compaction_summary ops t then Some t else None
      | User \<Rightarrow> Some t
      | Assistant \<Rightarrow> strip_tool_content ops t)"

definition filter_turns_for_inter_compaction :: "'a compaction_item \<Rightarrow> 'a list \<Rightarrow> 'a list" where
  "filter_turns_for_inter_compaction ops turns = List.map_filter (inter_turn ops) turns"

section \<open>User queries of earlier summaries\<close>

definition start_tag :: rstr where "start_tag = lit ''<grok_user_queries>''"
definition end_tag :: rstr where "end_tag = lit ''</grok_user_queries>''"

definition push_rest :: "rstr \<Rightarrow> rstr \<Rightarrow> rstr" where
  "push_rest rest piece =
     (if piece = [] then rest else if rest = [] then piece else rest @ [newline] @ piece)"

lemma start_tag_nonempty: "start_tag \<noteq> []" "newline \<notin> set start_tag"
  by (simp_all add: start_tag_def str_simps)

lemma end_tag_nonempty: "end_tag \<noteq> []"
  by (simp add: end_tag_def str_simps)

text \<open>The loop; \<open>t\<close> is the text from the cursor on.\<close>

function split_loop :: "rstr \<Rightarrow> rstr list \<Rightarrow> rstr \<Rightarrow> rstr list \<times> rstr" where
  "split_loop t user_sections rest =
     (case find_str start_tag t of
        None \<Rightarrow> (user_sections, push_rest rest (trim t))
      | Some start \<Rightarrow>
          (case find_str end_tag (drop start t) of
             None \<Rightarrow> (user_sections, push_rest rest (trim t))
           | Some e \<Rightarrow>
               (let abs_end = start + e + length end_tag
                in split_loop (drop abs_end t)
                     (user_sections @ [take (abs_end - start) (drop start t)])
                     (push_rest rest (trim (take start t))))))"
  by pat_completeness auto
termination
proof (relation "measure (\<lambda>(t, _). length t)")
  fix t start e abs_end
  assume "find_str start_tag t = Some start" "abs_end = start + e + length end_tag"
  moreover from this(1) have "t \<noteq> []"
    using start_tag_nonempty by (auto simp: starts_with_def split: if_splits)
  ultimately show "((drop abs_end t, a, b), t, c, d) \<in> measure (\<lambda>(t, _). length t)" for a b c d
    using end_tag_nonempty by (cases end_tag) auto
qed auto

declare split_loop.simps [simp del]

definition split_prior_compaction_text :: "rstr \<Rightarrow> rstr option \<times> rstr" where
  "split_prior_compaction_text s =
     (let (user_sections, rest) = split_loop s [] []
      in if user_sections = [] then (None, s) else (Some (join [newline] user_sections), rest))"

definition truncate_middle :: "rstr \<Rightarrow> nat \<Rightarrow> rstr option" where
  "truncate_middle msg max_chars =
     (if length msg \<le> max_chars then None
      else
        (let front_len = max_chars div 2; back_len = max_chars - front_len
         in Some (take front_len msg @ lit ''...[truncated]...'' @ drop (length msg - back_len) msg)))"

definition file_line :: "compaction_file_ref \<Rightarrow> rstr" where
  "file_line r =
     lit ''<grok_file id='' @ [0x22] @ file_ref_id r @ [0x22] @ lit '' name='' @ [0x22] @
     file_ref_name r @ [0x22] @ lit '' />'' @ [newline]"

definition query_element :: "'a compaction_item \<Rightarrow> nat \<Rightarrow> 'a \<Rightarrow> rstr" where
  "query_element ops threshold t =
     (let s = (case item_text ops t of None \<Rightarrow> [] | Some s \<Rightarrow> s);
          attachments = attachment_refs ops t
      in lit ''<grok_query>'' @ (case truncate_middle s threshold of Some x \<Rightarrow> x | None \<Rightarrow> s) @
         (if attachments = [] then [] else [newline] @ concat (map file_line attachments)) @
         lit ''</grok_query>'' @ [newline])"

definition contributes :: "'a compaction_item \<Rightarrow> 'a \<Rightarrow> bool" where
  "contributes ops t \<longleftrightarrow>
     item_role ops t = User \<and>
     \<not> ((case item_text ops t of None \<Rightarrow> [] | Some s \<Rightarrow> s) = [] \<and> attachment_refs ops t = [])"

definition extract_user_queries_from_turns :: "'a compaction_item \<Rightarrow> 'a list \<Rightarrow> u32 \<Rightarrow> rstr option" where
  "extract_user_queries_from_turns ops turns user_truncate_chars =
     (let threshold = unat user_truncate_chars; users = filter (contributes ops) turns
      in if users = [] then None
         else Some (start_tag @ [newline] @ concat (map (query_element ops threshold) users) @ end_tag))"

record 'a separated_history_turns =
  turns_for_llm :: "'a list"
  prior_user_queries :: "rstr option"
  has_prior_compaction :: bool

fun separate_loop ::
  "'a compaction_item \<Rightarrow> 'a list \<Rightarrow> 'a separated_history_turns \<Rightarrow> 'a separated_history_turns" where
  "separate_loop ops [] acc = acc"
| "separate_loop ops (t # ts) acc =
     (if is_compaction_summary ops t then
        (let content = (case item_text ops t of None \<Rightarrow> [] | Some s \<Rightarrow> s);
             (user_section, rest) = split_prior_compaction_text content;
             prior = (case user_section of
                        None \<Rightarrow> prior_user_queries acc
                      | Some sec \<Rightarrow>
                          Some (case prior_user_queries acc of
                                  Some existing \<Rightarrow> existing @ [newline] @ sec
                                | None \<Rightarrow> sec))
         in separate_loop ops ts
              \<lparr>turns_for_llm = turns_for_llm acc @ (if rest = [] then [] else [compaction_summary_item ops rest]),
               prior_user_queries = prior, has_prior_compaction = True\<rparr>)
      else separate_loop ops ts (acc\<lparr>turns_for_llm := turns_for_llm acc @ [t]\<rparr>))"

definition separate_prior_user_queries :: "'a compaction_item \<Rightarrow> 'a list \<Rightarrow> 'a separated_history_turns" where
  "separate_prior_user_queries ops turns =
     separate_loop ops turns
       \<lparr>turns_for_llm = [], prior_user_queries = None, has_prior_compaction = False\<rparr>"

definition extract_prior_user_queries :: "'a compaction_item \<Rightarrow> 'a list \<Rightarrow> rstr option" where
  "extract_prior_user_queries ops turns = prior_user_queries (separate_prior_user_queries ops turns)"

definition preamble_part :: "rstr option \<Rightarrow> rstr" where
  "preamble_part p = (case p of None \<Rightarrow> [] | Some s \<Rightarrow> s @ [newline, newline])"

definition assemble_user_queries_preamble :: "rstr option \<Rightarrow> rstr option \<Rightarrow> rstr" where
  "assemble_user_queries_preamble prior current = preamble_part prior @ preamble_part current"

definition build_user_queries_preamble :: "'a compaction_item \<Rightarrow> 'a list \<Rightarrow> rstr option \<Rightarrow> rstr" where
  "build_user_queries_preamble ops turns current_user_queries =
     assemble_user_queries_preamble (extract_prior_user_queries ops turns) current_user_queries"

definition wrap_chunk_analysis :: "nat \<Rightarrow> rstr \<Rightarrow> rstr" where
  "wrap_chunk_analysis index thinking =
     (let trimmed = trim thinking
      in if trimmed = [] then []
         else lit ''<chunk_analysis index='' @ [0x22] @ decimal index @ [0x22] @ lit ''>'' @ [newline] @
              trimmed @ [newline] @ lit ''</chunk_analysis>'' @ [newline, newline])"

section \<open>Validation\<close>

datatype compaction_strategy = Basic | DivideAndConquer | FullReplaceStrategy

datatype compaction_validation_error = EmptyContent | UnbalancedChunkTags nat nat

text \<open>\<open>s.matches(pat).count()\<close>: occurrences from left to right that do not overlap.\<close>

function count_matches :: "rstr \<Rightarrow> rstr \<Rightarrow> nat" where
  "count_matches p s =
     (if p = [] then length s + 1
      else case find_str p s of
             None \<Rightarrow> 0
           | Some n \<Rightarrow> Suc (count_matches p (drop (n + length p) s)))"
  by pat_completeness auto
termination
proof (relation "measure (\<lambda>(_, s). length s)")
  fix p s n assume "p \<noteq> []" "find_str p s = Some n"
  moreover from this have "s \<noteq> []" by (auto split: if_splits)
  ultimately show "((p, drop (n + length p) s), p, s) \<in> measure (\<lambda>(_, s). length s)"
    by (cases p) auto
qed auto

declare count_matches.simps [simp del]

definition validate_compaction_text ::
  "rstr \<Rightarrow> compaction_strategy \<Rightarrow> compaction_validation_error + unit" where
  "validate_compaction_text text_content strategy =
     (if trim text_content = [] then Inl EmptyContent
      else if strategy = DivideAndConquer then
        (let open_count = count_matches (lit ''<chunk_summary'') text_content;
             close_count = count_matches (lit ''</chunk_summary>'') text_content
         in if open_count \<noteq> close_count then Inl (UnbalancedChunkTags open_count close_count)
            else Inr ())
      else Inr ())"

section \<open>Texts without a block\<close>

text \<open>\<open>clean\<close>: no opening tag; \<open>quiet\<close>: no opening tag that is closed later.\<close>

definition clean :: "rstr \<Rightarrow> bool" where
  "clean r \<longleftrightarrow> (\<forall>m. \<not> starts_with start_tag (drop m r))"

definition quiet :: "rstr \<Rightarrow> bool" where
  "quiet r \<longleftrightarrow> (\<forall>m. starts_with start_tag (drop m r) \<longrightarrow> find_str end_tag (drop m r) = None)"

lemma starts_with_take: "starts_with p (take k s) \<Longrightarrow> starts_with p s"
  by (auto simp: starts_with_iff) (metis append_assoc append_take_drop_id)

lemma starts_with_append_left: "starts_with p s \<Longrightarrow> starts_with p (s @ t)"
  by (auto simp: starts_with_iff)

lemma not_starts_with_Nil: "p \<noteq> [] \<Longrightarrow> \<not> starts_with p []"
  by (simp add: starts_with_def)

lemma find_None_iff: "p \<noteq> [] \<Longrightarrow> find_str p s = None \<longleftrightarrow> (\<forall>m. \<not> starts_with p (drop m s))"
  by (auto simp: find_str_None not_starts_with_Nil)

lemma clean_iff: "clean r \<longleftrightarrow> find_str start_tag r = None"
  by (simp add: clean_def find_None_iff start_tag_nonempty)

lemma clean_quiet: "clean r \<Longrightarrow> quiet r"
  by (simp add: clean_def quiet_def)

lemma clean_Nil [simp]: "clean []"
  by (simp add: clean_def not_starts_with_Nil start_tag_nonempty)

lemma find_end_drop: "find_str end_tag s = None \<Longrightarrow> find_str end_tag (drop m s) = None"
  by (simp add: find_None_iff end_tag_nonempty)

lemma find_end_take: "find_str end_tag s = None \<Longrightarrow> find_str end_tag (take k s) = None"
  by (auto simp: find_None_iff end_tag_nonempty drop_take dest: starts_with_take)

lemma quiet_drop: "quiet s \<Longrightarrow> quiet (drop j s)"
  by (simp add: quiet_def)

lemma quiet_take: "quiet s \<Longrightarrow> quiet (take k s)"
  by (auto simp: quiet_def drop_take intro: find_end_take dest: starts_with_take)

lemma clean_drop: "clean s \<Longrightarrow> clean (drop j s)"
  by (simp add: clean_def)

lemma clean_take: "clean s \<Longrightarrow> clean (take k s)"
  by (auto simp: clean_def drop_take dest: starts_with_take)

lemma trim_slice: "\<exists>j k. trim s = take k (drop j s)"
proof -
  have "\<exists>k. trim_end u = take k u" for u
    by (metis append_eq_conv_conj dropWhile_eq_drop rev_append rev_rev_ident trim_end_def takeWhile_dropWhile_id)
  moreover have "\<exists>j. trim_start s = drop j s" by (auto simp: trim_start_def dropWhile_eq_drop)
  ultimately show ?thesis by (metis trim_def)
qed

lemma quiet_trim: "quiet s \<Longrightarrow> quiet (trim s)"
  using trim_slice [of s] quiet_take quiet_drop by metis

lemma clean_trim: "clean s \<Longrightarrow> clean (trim s)"
  using trim_slice [of s] clean_take clean_drop by metis

text \<open>A tag has no line break, so it does not span one.\<close>

lemma tag_in_left:
  assumes "starts_with start_tag (drop m (r @ newline # p))" and "m \<le> length r"
  shows "starts_with start_tag (drop m r)"
proof -
  have d: "drop m (r @ newline # p) = drop m r @ newline # p" using assms(2) by simp
  show ?thesis
  proof (cases "length start_tag \<le> length (drop m r)")
    case True
    with assms(1) show ?thesis by (simp add: starts_with_def d)
  next
    case False
    then have "start_tag ! length (drop m r) = (drop m r @ newline # p) ! length (drop m r)"
      using assms(1) d by (metis linorder_not_le nth_take starts_with_def)
    then have "start_tag ! length (drop m r) = newline" by (simp only: nth_append_length)
    moreover have "start_tag ! length (drop m r) \<in> set start_tag" using False by (intro nth_mem) simp
    ultimately show ?thesis using start_tag_nonempty(2) by simp
  qed
qed

lemma quiet_push_rest:
  assumes "clean r" and "quiet p"
  shows "quiet (push_rest r p)"
proof (cases "r = [] \<or> p = []")
  case True
  with assms clean_quiet show ?thesis by (auto simp: push_rest_def)
next
  case False
  have "quiet (r @ newline # p)"
    unfolding quiet_def
  proof (intro allI impI)
    fix m assume m: "starts_with start_tag (drop m (r @ newline # p))"
    then have "\<not> m \<le> length r" using assms(1) tag_in_left unfolding clean_def by blast
    then have "drop m (r @ newline # p) = drop (m - length r - 1) p"
      by (simp add: drop_Cons')
    with m assms(2) show "find_str end_tag (drop m (r @ newline # p)) = None" by (simp add: quiet_def)
  qed
  with False show ?thesis by (simp add: push_rest_def)
qed

lemma clean_push_rest:
  assumes "clean r" and "clean p"
  shows "clean (push_rest r p)"
proof (cases "r = [] \<or> p = []")
  case True
  with assms show ?thesis by (auto simp: push_rest_def)
next
  case False
  have "\<not> starts_with start_tag (drop m (r @ newline # p))" for m
  proof (cases "m \<le> length r")
    case True
    then show ?thesis using assms(1) tag_in_left unfolding clean_def by blast
  next
    case gt: False
    then have "drop m (r @ newline # p) = drop (m - length r - 1) p" by (simp add: drop_Cons')
    with assms(2) show ?thesis by (simp add: clean_def)
  qed
  with False show ?thesis by (simp add: push_rest_def clean_def)
qed

text \<open>Before the first opening tag there is none.\<close>

lemma clean_before:
  assumes "find_str start_tag t = Some n"
  shows "clean (take n t)"
  unfolding clean_def
proof (intro allI notI)
  fix m assume m: "starts_with start_tag (drop m (take n t))"
  then have "starts_with start_tag (drop m t)" unfolding drop_take by (rule starts_with_take)
  then have "\<not> m < n" using find_str_Some [OF assms] by blast
  then have "n \<le> m" by simp
  with m show False using not_starts_with_Nil [OF start_tag_nonempty(1)] by simp
qed

lemma quiet_unclosed:
  assumes "find_str start_tag t = Some n" and "find_str end_tag (drop n t) = None"
  shows "quiet t"
  unfolding quiet_def
proof (intro allI impI)
  fix m assume "starts_with start_tag (drop m t)"
  then have "\<not> m < n" using find_str_Some [OF assms(1)] by blast
  then show "find_str end_tag (drop m t) = None"
    using find_end_drop [OF assms(2), of "m - n"] by simp
qed

lemma split_loop_quiet:
  "split_loop t secs rest = (secs', rest') \<Longrightarrow> clean rest \<Longrightarrow> quiet rest'"
proof (induction t secs rest rule: split_loop.induct)
  case (1 t secs rest)
  show ?case
  proof (cases "find_str start_tag t")
    case None
    with "1.prems" have "rest' = push_rest rest (trim t)" by (simp add: split_loop.simps [of t])
    moreover have "quiet (trim t)" using None by (intro quiet_trim clean_quiet) (simp add: clean_iff)
    ultimately show ?thesis using "1.prems"(2) by (simp add: quiet_push_rest)
  next
    case (Some n)
    show ?thesis
    proof (cases "find_str end_tag (drop n t)")
      case None
      with Some "1.prems" have "rest' = push_rest rest (trim t)" by (simp add: split_loop.simps [of t])
      with quiet_unclosed [OF Some None] "1.prems" show ?thesis
        by (auto intro!: quiet_push_rest quiet_trim)
    next
      case e: (Some e)
      have "clean (push_rest rest (trim (take n t)))"
        using "1.prems"(2) clean_before [OF Some] by (intro clean_push_rest clean_trim)
      moreover have "split_loop (drop (n + e + length end_tag) t)
          (secs @ [take (n + e + length end_tag - n) (drop n t)]) (push_rest rest (trim (take n t))) =
          (secs', rest')"
        using "1.prems"(1) Some e by (simp add: split_loop.simps [of t] Let_def)
      ultimately show ?thesis using "1.IH" [OF Some e refl] by blast
    qed
  qed
qed

lemma split_loop_of_quiet:
  assumes "quiet t"
  shows "fst (split_loop t [] []) = []"
proof (cases "find_str start_tag t")
  case (Some n)
  then have "find_str end_tag (drop n t) = None"
    using assms find_str_Some [OF Some] by (simp add: quiet_def)
  with Some show ?thesis by (simp add: split_loop.simps [of t])
qed (simp add: split_loop.simps [of t])

lemma split_quiet: "quiet t \<Longrightarrow> split_prior_compaction_text t = (None, t)"
  using split_loop_of_quiet [of t] by (auto simp: split_prior_compaction_text_def split: prod.split)

lemma split_rest_stable:
  assumes "split_prior_compaction_text t = (u, rest)"
  shows "split_prior_compaction_text rest = (None, rest)"
proof (cases u)
  case None
  with assms show ?thesis by (auto simp: split_prior_compaction_text_def split: prod.splits if_splits)
next
  case (Some v)
  with assms have "split_loop t [] [] = (fst (split_loop t [] []), rest)"
    by (auto simp: split_prior_compaction_text_def split: prod.splits if_splits)
  then have "quiet rest" using split_loop_quiet clean_Nil by blast
  then show ?thesis by (rule split_quiet)
qed

section \<open>Blocks in front of a summary\<close>

definition valid_block :: "rstr \<Rightarrow> bool" where
  "valid_block b \<longleftrightarrow>
     starts_with start_tag b \<and> length end_tag \<le> length b \<and>
     find_str end_tag b = Some (length b - length end_tag)"

lemma find_str_eq:
  assumes "n \<le> length s" and "starts_with p (drop n s)" and "\<And>m. m < n \<Longrightarrow> \<not> starts_with p (drop m s)"
  shows "find_str p s = Some n"
proof (cases "find_str p s")
  case None
  then show ?thesis using assms by (auto simp: find_str_None)
next
  case (Some k)
  note k = find_str_Some [OF this]
  have "\<not> k < n" using assms(3) k by blast
  moreover have "\<not> n < k" using k assms(2) by blast
  ultimately show ?thesis using Some by simp
qed

lemma find_end_valid:
  assumes "valid_block b"
  shows "find_str end_tag (b @ t) = Some (length b - length end_tag)"
proof (rule find_str_eq)
  let ?n = "length b - length end_tag"
  note b = find_str_Some [of end_tag b ?n]
  show "?n \<le> length (b @ t)" by simp
  show "starts_with end_tag (drop ?n (b @ t))"
    using b assms by (auto simp: valid_block_def intro: starts_with_append_left)
  fix m assume m: "m < ?n"
  show "\<not> starts_with end_tag (drop m (b @ t))"
  proof
    assume "starts_with end_tag (drop m (b @ t))"
    moreover have "length end_tag \<le> length (drop m b)" using m by simp
    ultimately have "starts_with end_tag (drop m b)" using m by (simp add: starts_with_def)
    with b m assms show False by (auto simp: valid_block_def)
  qed
qed

lemma whitespace_no_tag:
  assumes "list_all is_whitespace ws" and "m < length ws"
  shows "\<not> starts_with start_tag (drop m (ws @ t))"
proof
  assume "starts_with start_tag (drop m (ws @ t))"
  then have "hd start_tag = hd (drop m (ws @ t))"
    using start_tag_nonempty by (auto simp: starts_with_iff)
  also have "\<dots> = ws ! m" using assms(2) by (simp add: hd_drop_conv_nth hd_append)
  finally have "is_whitespace (hd start_tag)" using assms by (simp add: list_all_length)
  then show False by (simp add: start_tag_def str_simps is_whitespace_def)
qed

lemma trim_whitespace: "list_all is_whitespace ws \<Longrightarrow> trim ws = []"
  by (simp add: trim_eq_Nil_iff)

lemma split_loop_block:
  assumes "valid_block b" and "list_all is_whitespace ws"
  shows "split_loop (ws @ b @ t) secs rest = split_loop t (secs @ [b]) rest"
proof -
  have start: "find_str start_tag (ws @ b @ t) = Some (length ws)"
    using assms whitespace_no_tag
    by (intro find_str_eq) (auto simp: valid_block_def intro: starts_with_append_left)
  have "length end_tag \<le> length b" using assms(1) by (simp add: valid_block_def)
  then show ?thesis
    using find_end_valid [OF assms(1), of t] trim_whitespace [OF assms(2)]
    by (simp add: split_loop.simps [of "ws @ b @ t"] start Let_def push_rest_def)
qed

lemma split_loop_blocks:
  "bs \<noteq> [] \<Longrightarrow> list_all valid_block bs \<Longrightarrow> list_all is_whitespace ws \<Longrightarrow>
   split_loop (ws @ join [newline] bs @ t) secs rest = split_loop t (secs @ bs) rest"
proof (induction bs arbitrary: ws secs)
  case (Cons b bs)
  show ?case
  proof (cases "bs = []")
    case True
    with Cons.prems show ?thesis by (simp add: split_loop_block)
  next
    case False
    have "split_loop (ws @ b @ ([newline] @ join [newline] bs @ t)) secs rest =
        split_loop ([newline] @ join [newline] bs @ t) (secs @ [b]) rest"
      using Cons.prems by (intro split_loop_block) auto
    also have "\<dots> = split_loop t ((secs @ [b]) @ bs) rest"
      using Cons.prems False by (intro Cons.IH) (auto simp: is_whitespace_def)
    finally show ?thesis using False by (simp add: join_Cons)
  qed
qed simp

lemma split_loop_clean:
  assumes "clean t" and "list_all is_whitespace ws"
  shows "split_loop (ws @ t) secs [] = (secs, trim t)"
proof -
  have "\<not> starts_with start_tag (drop m (ws @ t))" for m
    using assms whitespace_no_tag by (cases "m < length ws") (auto simp: clean_def)
  then have "find_str start_tag (ws @ t) = None" by (simp add: find_None_iff start_tag_nonempty)
  moreover have "trim (ws @ t) = trim t"
    using assms(2) by (simp add: trim_def trim_start_def list_all_iff dropWhile_append2)
  ultimately show ?thesis by (simp add: split_loop.simps [of "ws @ t"] push_rest_def)
qed

section \<open>Separating twice\<close>

text \<open>What the builder of a harness promises about the item that carries a summary.\<close>

definition builder_contract :: "'a compaction_item \<Rightarrow> bool" where
  "builder_contract ops \<longleftrightarrow>
     (\<forall>s. is_compaction_summary ops (compaction_summary_item ops s) \<and>
          item_text ops (compaction_summary_item ops s) = Some s)"

abbreviation item_content :: "'a compaction_item \<Rightarrow> 'a \<Rightarrow> rstr" where
  "item_content ops t \<equiv> (case item_text ops t of None \<Rightarrow> [] | Some s \<Rightarrow> s)"

definition llm_piece :: "'a compaction_item \<Rightarrow> 'a \<Rightarrow> 'a list" where
  "llm_piece ops t =
     (if is_compaction_summary ops t then
        (let rest = snd (split_prior_compaction_text (item_content ops t))
         in if rest = [] then [] else [compaction_summary_item ops rest])
      else [t])"

lemma separate_loop_turns:
  "turns_for_llm (separate_loop ops ts acc) = turns_for_llm acc @ concat (map (llm_piece ops) ts)"
  by (induction ops ts acc rule: separate_loop.induct)
    (auto simp: llm_piece_def Let_def split: prod.splits)

lemma separate_loop_prior:
  "\<forall>t \<in> set ts. is_compaction_summary ops t \<longrightarrow> fst (split_prior_compaction_text (item_content ops t)) = None \<Longrightarrow>
   prior_user_queries (separate_loop ops ts acc) = prior_user_queries acc"
  by (induction ops ts acc rule: separate_loop.induct)
    (auto simp: Let_def split: prod.splits)

lemma llm_piece_stable:
  assumes "builder_contract ops" and "x \<in> set (llm_piece ops t)"
  shows "llm_piece ops x = [x]"
    and "is_compaction_summary ops x \<Longrightarrow> fst (split_prior_compaction_text (item_content ops x)) = None"
proof -
  have "llm_piece ops x = [x] \<and>
      (is_compaction_summary ops x \<longrightarrow> fst (split_prior_compaction_text (item_content ops x)) = None)"
  proof (cases "is_compaction_summary ops t")
    case True
    define rest where "rest = snd (split_prior_compaction_text (item_content ops t))"
    have x: "x = compaction_summary_item ops rest" "rest \<noteq> []"
      using assms(2) True by (auto simp: llm_piece_def rest_def Let_def split: if_splits)
    have "split_prior_compaction_text rest = (None, rest)"
      unfolding rest_def by (rule split_rest_stable [OF prod.collapse [symmetric]])
    with x assms(1) show ?thesis by (simp add: llm_piece_def builder_contract_def)
  next
    case False
    with assms(2) show ?thesis by (auto simp: llm_piece_def)
  qed
  then show "llm_piece ops x = [x]"
    "is_compaction_summary ops x \<Longrightarrow> fst (split_prior_compaction_text (item_content ops x)) = None" by blast+
qed

section \<open>Properties\<close>

text \<open>User queries do not snowball. The turns handed to the summarizer contain no closed
  \<open>grok_user_queries\<close> block in any earlier summary: separating them a second time finds no
  queries and changes nothing. This holds for every text, also for unclosed or nested
  tags, if the harness builds summary items that carry their text.\<close>

theorem separate_idempotent:
  fixes ops :: "'a compaction_item" and turns :: "'a list"
  assumes "builder_contract ops"
  defines "once \<equiv> separate_prior_user_queries ops turns"
  shows "turns_for_llm (separate_prior_user_queries ops (turns_for_llm once)) = turns_for_llm once \<and>
    prior_user_queries (separate_prior_user_queries ops (turns_for_llm once)) = None"
proof -
  have once: "turns_for_llm once = concat (map (llm_piece ops) turns)"
    by (simp add: once_def separate_prior_user_queries_def separate_loop_turns)
  have stable: "llm_piece ops x = [x]"
    "is_compaction_summary ops x \<Longrightarrow> fst (split_prior_compaction_text (item_content ops x)) = None"
    if "x \<in> set (turns_for_llm once)" for x
    using that llm_piece_stable [OF assms(1)] by (auto simp: once)
  have "concat (map (llm_piece ops) (turns_for_llm once)) = concat (map (\<lambda>x. [x]) (turns_for_llm once))"
    using stable(1) by (intro arg_cong [of _ _ concat] map_cong refl) auto
  then show ?thesis
    using stable(2) by (simp add: separate_prior_user_queries_def separate_loop_turns separate_loop_prior)
qed

lemma sample_builder: "builder_contract sample_item_ops"
  by (simp add: builder_contract_def sample_item_ops_def)

theorem separate_idempotent_witness:
  "prior_user_queries (separate_prior_user_queries sample_item_ops
     (turns_for_llm (separate_prior_user_queries sample_item_ops
        [(Developer, start_tag @ start_tag @ end_tag @ lit ''x''), (User, lit ''y'')]))) = None"
  using separate_idempotent [OF sample_builder] by blast

text \<open>User queries survive every compaction exactly once. A summary that carries the blocks
  of earlier rounds and the block of the current round, as the preamble is assembled, in
  front of a text without an opening tag is split into exactly those blocks, in order, and
  the text: what the next round prepends again.\<close>

theorem user_queries_survive:
  assumes "bs \<noteq> []" and "list_all valid_block bs" and "valid_block current" and "clean summary"
  shows "split_prior_compaction_text
      (assemble_user_queries_preamble (Some (join [newline] bs)) (Some current) @ summary) =
    (Some (join [newline] (bs @ [current])), trim summary)"
proof -
  let ?ws = "[newline, newline]"
  have ws: "list_all is_whitespace ?ws" by (simp add: is_whitespace_def)
  have "split_loop ([] @ join [newline] bs @ (?ws @ current @ (?ws @ summary))) [] [] =
      split_loop (?ws @ current @ (?ws @ summary)) ([] @ bs) []"
    using assms(1,2) by (intro split_loop_blocks) simp_all
  also have "\<dots> = split_loop (?ws @ summary) (([] @ bs) @ [current]) []"
    by (rule split_loop_block [OF assms(3) ws])
  also have "\<dots> = (bs @ [current], trim summary)"
    using split_loop_clean [OF assms(4) ws] by simp
  finally show ?thesis
    by (simp add: split_prior_compaction_text_def assemble_user_queries_preamble_def preamble_part_def)
qed

lemma sample_block: "valid_block (start_tag @ lit ''q'' @ end_tag)"
  by (simp add: valid_block_def start_tag_def end_tag_def starts_with_def str_simps)

theorem user_queries_survive_witness:
  "split_prior_compaction_text
     (assemble_user_queries_preamble (Some (join [newline] [start_tag @ lit ''q'' @ end_tag]))
        (Some (start_tag @ lit ''q'' @ end_tag)) @ lit '' done'') =
   (Some (join [newline] [start_tag @ lit ''q'' @ end_tag, start_tag @ lit ''q'' @ end_tag]), lit ''done'')"
proof -
  have "clean (lit '' done'')" by (simp add: clean_iff start_tag_def starts_with_def str_simps)
  moreover have "trim (lit '' done'') = lit ''done''"
    by (simp add: trim_def trim_start_def trim_end_last is_whitespace_def str_simps)
  ultimately show ?thesis
    using user_queries_survive [of "[start_tag @ lit ''q'' @ end_tag]"] sample_block by simp
qed

end
