(* ===== verification/CompactionSummary.thy ===== *)
theory CompactionSummary
  imports CompactionHistory
begin

text \<open>
  The shared summarization core
  (\<open>xai-grok-compaction/src/code_compaction/summary.rs\<close>, \<open>sample.rs\<close>, \<open>failure.rs\<close> and
  \<open>sampler.rs\<close>): cleaning the output of the model, classifying failures, and the bounded
  retry loop. The sampler is a parameter: its answer to each attempt.
\<close>

section \<open>Cleaning a summary\<close>

definition summary_open :: rstr where "summary_open = lit ''<summary>''"
definition summary_close :: rstr where "summary_close = lit ''</summary>''"
definition analysis_open :: rstr where "analysis_open = lit ''<analysis>''"
definition analysis_close :: rstr where "analysis_close = lit ''</analysis>''"
definition request_open :: rstr where "request_open = lit ''<summary_request>''"
definition request_close :: rstr where "request_close = lit ''</summary_request>''"

lemmas control_defs = summary_open_def summary_close_def analysis_open_def analysis_close_def
  request_open_def request_close_def

text \<open>Step 1: leading drafting blocks.\<close>

definition is_leading :: "rstr \<Rightarrow> nat \<Rightarrow> bool" where
  "is_leading result start =
     (case find_str summary_open result of
        Some sp \<Rightarrow>
          start < sp \<or>
          trim (take (start - (sp + length summary_open)) (drop (sp + length summary_open) result)) = []
      | None \<Rightarrow> trim (take start result) = [])"

function strip_analysis :: "rstr \<Rightarrow> rstr" where
  "strip_analysis result =
     (case find_str analysis_open result of
        None \<Rightarrow> result
      | Some start \<Rightarrow>
          if \<not> is_leading result start then result
          else
            (case find_str analysis_close (drop start result) of
               Some rl \<Rightarrow>
                 strip_analysis (take start result @ drop (start + rl + length analysis_close) result)
             | None \<Rightarrow>
                 take start result @
                 drop (case find_str summary_open (drop start result) of
                         None \<Rightarrow> length result | Some rl \<Rightarrow> start + rl) result))"
  by pat_completeness auto
termination
proof (relation "measure length")
  fix result start rl
  assume "find_str analysis_open result = Some start"
  from find_str_Some [OF this] have "start < length result"
    by (cases "start = length result") (auto simp: starts_with_def control_defs str_simps)
  then show "(take start result @ drop (start + rl + length analysis_close) result, result) \<in> measure length"
    by (simp add: control_defs min_def)
qed auto

declare strip_analysis.simps [simp del]

definition decoration :: "rchar \<Rightarrow> bool" where
  "decoration c \<longleftrightarrow> c \<in> set (lit ''#*-> '') \<or> c = 9"

definition starts_with_digit :: "rstr \<Rightarrow> bool" where
  "starts_with_digit s \<longleftrightarrow> s \<noteq> [] \<and> 48 \<le> hd s \<and> hd s \<le> 57"

definition strip_leading_scratchpad :: "rstr \<Rightarrow> rstr" where
  "strip_leading_scratchpad inner =
     (let s = trim inner;
          lead = dropWhile decoration s;
          s = (if \<not> starts_with_digit lead
               then (case rfind_str analysis_close s of
                       Some pos \<Rightarrow> trim_start (drop (pos + length analysis_close) s)
                     | None \<Rightarrow> s)
               else s)
      in case strip_prefix summary_open s of Some rest \<Rightarrow> trim_start rest | None \<Rightarrow> s)"

text \<open>Step 2: the outer wrapper.\<close>

definition unwrap_summary :: "rstr \<Rightarrow> rstr" where
  "unwrap_summary result =
     (case (find_str summary_open result, rfind_str summary_close result) of
        (Some start, Some e) \<Rightarrow>
          if start < e then
            take start result @ lit ''Summary:'' @ [newline] @
            strip_leading_scratchpad
              (trim (take (e - (start + length summary_open)) (drop (start + length summary_open) result))) @
            drop (e + length summary_close) result
          else result
      | _ \<Rightarrow> result)"

text \<open>Step 3: a zero-width space after the bracket of every control token.\<close>

definition zwsp :: rchar where "zwsp = 0x200B"

definition defused :: "rstr \<Rightarrow> rstr" where
  "defused p = hd p # zwsp # tl p"

definition control_tokens :: "rstr list" where
  "control_tokens =
     [summary_close, summary_open, analysis_close, analysis_open, request_close, request_open]"

definition neutralize_compaction_control_tokens :: "rstr \<Rightarrow> rstr" where
  "neutralize_compaction_control_tokens s = fold (\<lambda>p. replace_str p (defused p)) control_tokens s"

text \<open>Step 4: no more than one blank line in a row.\<close>

definition triple :: rstr where "triple = [newline, newline, newline]"

lemma triple_nonempty: "triple \<noteq> []"
  by (simp add: triple_def)

function collapse_blank_lines :: "rstr \<Rightarrow> rstr" where
  "collapse_blank_lines s =
     (if contains_str triple s then collapse_blank_lines (replace_str triple [newline, newline] s) else s)"
  by pat_completeness auto
termination
  by (relation "measure length") (auto simp: triple_def intro: replace_str_shorter)

declare collapse_blank_lines.simps [simp del]

definition format_compact_summary :: "rstr \<Rightarrow> rstr" where
  "format_compact_summary summary =
     trim (collapse_blank_lines
       (neutralize_compaction_control_tokens (unwrap_summary (strip_analysis summary))))"

definition MIN_SUMMARY_SEED_CHARS :: nat where "MIN_SUMMARY_SEED_CHARS = 500"

definition is_degenerate_summary :: "rstr \<Rightarrow> bool" where
  "is_degenerate_summary raw_summary \<longleftrightarrow>
     length (format_compact_summary raw_summary) < MIN_SUMMARY_SEED_CHARS"

definition format_compact_summary_content :: "rstr \<Rightarrow> rstr" where
  "format_compact_summary_content raw_summary =
     lit ''This session is being continued from a previous conversation that ran out of context. '' @
     lit ''The summary below covers the earlier portion of the conversation.'' @ [newline, newline] @
     format_compact_summary raw_summary"

definition wrap_user_query :: "rstr \<Rightarrow> rstr" where
  "wrap_user_query s = lit ''<user_query>'' @ [newline] @ s @ [newline] @ lit ''</user_query>''"

section \<open>No control token survives\<close>

definition occurs :: "rstr \<Rightarrow> rstr \<Rightarrow> bool" where
  "occurs u s \<longleftrightarrow> (\<exists>m. starts_with u (drop m s))"

lemma occurs_Nil: "u \<noteq> [] \<Longrightarrow> \<not> occurs u []"
  by (simp add: occurs_def not_starts_with_Nil)

lemma occurs_Cons: "occurs u (c # s) \<longleftrightarrow> starts_with u (c # s) \<or> occurs u s"
  unfolding occurs_def
  by (metis drop0 drop_Suc_Cons not0_implies_Suc)

lemma starts_with_Cons_iff: "starts_with (a # u) (c # s) \<longleftrightarrow> a = c \<and> starts_with u s"
  by (auto simp: starts_with_def)

text \<open>
  A defused token: its bracket is followed by a zero-width space, its tail has no bracket.
\<close>

definition bracketed :: "rstr \<Rightarrow> bool" where
  "bracketed p \<longleftrightarrow> (\<exists>a r. p = a # r \<and> r \<noteq> [] \<and> a \<notin> set r \<and> zwsp \<notin> set p \<and> a \<noteq> newline \<and> newline \<notin> set r)"

lemma control_tokens_bracketed: "p \<in> set control_tokens \<Longrightarrow> bracketed p"
  by (auto simp: control_tokens_def control_defs bracketed_def zwsp_def str_simps)

text \<open>A text without zero-width spaces that begins the result begins the input.\<close>

lemma replace_prefix:
  assumes "bracketed p"
  shows "zwsp \<notin> set u \<Longrightarrow> starts_with u (replace_str p (defused p) s) \<Longrightarrow> starts_with u s"
proof (induction s arbitrary: u)
  case (Cons c s)
  obtain a r where p: "p = a # r" using assms by (auto simp: bracketed_def)
  show ?case
  proof (cases u)
    case (Cons d u')
    show ?thesis
    proof (cases "starts_with p (c # s)")
      case True
      then have "a = c" by (simp add: p starts_with_Cons_iff)
      moreover have "starts_with (d # u') (a # zwsp # r @ replace_str p (defused p) (drop (length p) (c # s)))"
        using Cons.prems(2) True by (simp add: \<open>u = d # u'\<close> p defused_def)
      ultimately show ?thesis
        using Cons.prems(1) by (cases u') (auto simp: \<open>u = d # u'\<close> starts_with_Cons_iff)
    next
      case False
      then have "starts_with (d # u') (c # replace_str p (defused p) s)"
        using Cons.prems(2) by (simp add: \<open>u = d # u'\<close>)
      with Cons.IH [of u'] Cons.prems(1) show ?thesis
        by (simp add: \<open>u = d # u'\<close> starts_with_Cons_iff)
    qed
  qed simp
qed simp

lemma replace_prefix_append:
  assumes "bracketed p" and "zwsp \<notin> set u"
  shows "starts_with u (x @ replace_str p (defused p) s) \<Longrightarrow> starts_with u (x @ s)"
  using assms(2)
proof (induction x arbitrary: u)
  case Nil
  with replace_prefix [OF assms(1)] show ?case by simp
next
  case (Cons c x)
  then show ?case by (cases u) (auto simp: starts_with_Cons_iff)
qed

lemma occurs_append_cases:
  "occurs u (x @ s) \<Longrightarrow> u \<noteq> [] \<Longrightarrow> (\<exists>y z. x = y @ z \<and> z \<noteq> [] \<and> starts_with u (z @ s)) \<or> occurs u s"
proof (induction x)
  case (Cons c x)
  show ?case
  proof (cases "starts_with u (c # x @ s)")
    case True
    then have "\<exists>y z. c # x = y @ z \<and> z \<noteq> [] \<and> starts_with u (z @ s)"
      by (intro exI [of _ "[]"] exI [of _ "c # x"]) simp
    then show ?thesis ..
  next
    case False
    with Cons have "(\<exists>y z. x = y @ z \<and> z \<noteq> [] \<and> starts_with u (z @ s)) \<or> occurs u s"
      by (simp add: occurs_Cons)
    then show ?thesis by (metis append_Cons)
  qed
qed simp

lemma occurs_appendI: "starts_with u (z @ s) \<Longrightarrow> occurs u (y @ z @ s)"
  unfolding occurs_def by (intro exI [of _ "length y"]) simp

lemma occurs_append_right: "occurs u s \<Longrightarrow> occurs u (y @ s)"
  unfolding occurs_def by (metis add.commute append_eq_conv_conj drop_drop)

text \<open>Replacing does not create an occurrence of a text without zero-width spaces.\<close>

lemma occurs_replace:
  assumes "bracketed p" and "zwsp \<notin> set u" and "u \<noteq> []"
  shows "occurs u (replace_str p (defused p) s) \<Longrightarrow> occurs u s"
proof (induction s rule: length_induct)
  case (1 cs)
  obtain c s where cs0: "cs = c # s" using "1.prems" assms(3) occurs_Nil by (cases cs) auto
  note IH = "1.IH" [unfolded cs0, rule_format] and prems = "1.prems" [unfolded cs0]
  obtain a r where p: "p = a # r" using assms(1) by (auto simp: bracketed_def)
  have "occurs u (c # s)"
  proof (cases "starts_with p (c # s)")
    case True
    define t where "t = drop (length p) (c # s)"
    have cs: "c # s = p @ t" using True by (auto simp: starts_with_iff t_def)
    have "occurs u ((a # zwsp # r) @ replace_str p (defused p) t)"
      using prems True by (simp add: p defused_def t_def)
    then have "starts_with u (a # zwsp # r @ replace_str p (defused p) t) \<or>
        occurs u (r @ replace_str p (defused p) t)"
      using assms(2,3) by (cases u) (auto simp: occurs_Cons starts_with_Cons_iff)
    then show ?thesis
    proof
      assume "starts_with u (a # zwsp # r @ replace_str p (defused p) t)"
      then have "starts_with u [a]"
        using assms(2) by (cases u; cases "tl u") (auto simp: starts_with_Cons_iff)
      then have "starts_with u ([a] @ r @ t)" by (rule starts_with_append_left)
      then have "starts_with u (c # s)" unfolding cs p by simp
      then show ?thesis by (simp add: occurs_Cons)
    next
      assume "occurs u (r @ replace_str p (defused p) t)"
      from occurs_append_cases [OF this assms(3)] show ?thesis
      proof
        assume "\<exists>y z. r = y @ z \<and> z \<noteq> [] \<and> starts_with u (z @ replace_str p (defused p) t)"
        then obtain y z where "r = y @ z" "starts_with u (z @ t)"
          using replace_prefix_append [OF assms(1,2)] by blast
        then have "occurs u ((a # y) @ z @ t)" by (intro occurs_appendI)
        with \<open>r = y @ z\<close> show ?thesis unfolding cs p by simp
      next
        assume "occurs u (replace_str p (defused p) t)"
        moreover have "length t < length (c # s)" by (simp add: t_def p)
        ultimately have "occurs u t" using IH by blast
        then show ?thesis unfolding cs by (rule occurs_append_right)
      qed
    qed
  next
    case False
    have "starts_with u (c # replace_str p (defused p) s) \<or> occurs u (replace_str p (defused p) s)"
      using prems False by (simp add: occurs_Cons)
    then show ?thesis
    proof
      assume "starts_with u (c # replace_str p (defused p) s)"
      then have "starts_with u ([c] @ s)"
        using replace_prefix_append [OF assms(1,2), of "[c]" s] by simp
      then show ?thesis by (simp add: occurs_Cons)
    next
      assume "occurs u (replace_str p (defused p) s)"
      then have "occurs u s" using IH [of s] by simp
      then show ?thesis by (simp add: occurs_Cons)
    qed
  qed
  then show ?case by (simp add: cs0)
qed

text \<open>A defused token does not occur any more.\<close>

lemma no_occurs_self:
  assumes "bracketed p"
  shows "\<not> occurs p (replace_str p (defused p) s)"
proof (induction s rule: length_induct)
  case (1 s)
  obtain a r where p: "p = a # r" "r \<noteq> []" "a \<notin> set r" "zwsp \<noteq> a" "zwsp \<notin> set r"
    using assms by (auto simp: bracketed_def)
  show ?case
  proof (cases s)
    case Nil
    with p occurs_Nil show ?thesis by simp
  next
    case (Cons c s')
    show ?thesis
    proof (cases "starts_with p s")
      case True
      define t where "t = drop (length p) s"
      have "length t < length s" by (simp add: t_def p Cons)
      with 1 have IH: "\<not> occurs p (replace_str p (defused p) t)" by blast
      have "\<not> occurs p (r @ replace_str p (defused p) t)"
      proof
        assume "occurs p (r @ replace_str p (defused p) t)"
        from occurs_append_cases [OF this] IH obtain y z
          where "r = y @ z" "z \<noteq> []" "starts_with p (z @ replace_str p (defused p) t)" using p by auto
        then have "a \<in> set r" by (cases z) (auto simp: p(1) starts_with_Cons_iff)
        with p show False by simp
      qed
      moreover have "\<not> starts_with p (a # zwsp # x)" "\<not> starts_with p (zwsp # x)" for x
        using p by (cases r; auto simp: starts_with_Cons_iff)+
      moreover have "replace_str p (defused p) s = a # zwsp # r @ replace_str p (defused p) t"
        using True by (simp add: Cons p(1) defused_def t_def)
      ultimately show ?thesis by (simp add: occurs_Cons)
    next
      case False
      have "\<not> starts_with p ([c] @ replace_str p (defused p) s')"
        using replace_prefix_append [OF assms, of p "[c]" s'] False p Cons by auto
      moreover have "\<not> occurs p (replace_str p (defused p) s')" using 1 Cons by simp
      ultimately show ?thesis using False Cons by (simp add: occurs_Cons)
    qed
  qed
qed

lemma no_occurs_fold:
  assumes "\<forall>p \<in> set ps. bracketed p" and "u \<in> set ps"
  shows "\<not> occurs u (fold (\<lambda>p. replace_str p (defused p)) ps s)"
proof -
  have keep: "\<not> occurs u s \<Longrightarrow> \<not> occurs u (fold (\<lambda>p. replace_str p (defused p)) qs s)"
    if "bracketed u" "\<forall>p \<in> set qs. bracketed p" for u qs s
    using that
  proof (induction qs arbitrary: s)
    case (Cons q qs)
    have "zwsp \<notin> set u" "u \<noteq> []" using Cons.prems by (auto simp: bracketed_def)
    then have "\<not> occurs u (replace_str q (defused q) s)"
      using Cons.prems occurs_replace by auto
    with Cons show ?case by simp
  qed simp
  show ?thesis
    using assms
  proof (induction ps arbitrary: s)
    case (Cons p ps)
    show ?case
    proof (cases "u \<in> set ps")
      case True
      with Cons show ?thesis by simp
    next
      case False
      with Cons.prems have "u = p" "bracketed p" by auto
      with keep [of p ps] no_occurs_self Cons.prems show ?thesis by simp
    qed
  qed simp
qed

text \<open>A replacement by other characters creates no occurrence.\<close>

lemma replace_other_prefix:
  assumes "set u \<inter> set q = {}" and "q \<noteq> []"
  shows "starts_with u (replace_str p q s) \<Longrightarrow> starts_with u s"
  using assms(1)
proof (induction s arbitrary: u)
  case (Cons c s)
  show ?case
  proof (cases u)
    case (Cons d u')
    obtain b q' where q: "q = b # q'" using assms(2) by (cases q) auto
    show ?thesis
      using Cons.prems Cons.IH [of u'] \<open>u = d # u'\<close> q by (auto simp: starts_with_Cons_iff split: if_splits)
  qed simp
qed simp

lemma occurs_replace_other:
  assumes "set u \<inter> set q = {}" and "q \<noteq> []" and "u \<noteq> []"
  shows "occurs u (replace_str p q s) \<Longrightarrow> occurs u s"
proof (induction s rule: length_induct)
  case (1 s)
  obtain c s' where s: "s = c # s'" using "1.prems" assms(3) occurs_Nil by (cases s) auto
  show ?case
  proof (cases "starts_with p s \<and> p \<noteq> []")
    case True
    define t where "t = drop (length p) s"
    have st: "s = p @ t" using True by (auto simp: starts_with_iff t_def)
    have "occurs u (q @ replace_str p q t)" using "1.prems" True by (simp add: s t_def)
    from occurs_append_cases [OF this assms(3)] have "occurs u (replace_str p q t)"
    proof
      assume "\<exists>y z. q = y @ z \<and> z \<noteq> [] \<and> starts_with u (z @ replace_str p q t)"
      then have "hd u \<in> set q" using assms(3) by (auto simp: starts_with_iff neq_Nil_conv)
      with assms(1,3) show ?thesis by (cases u) auto
    qed
    moreover have "length t < length s" using True by (simp add: t_def s)
    ultimately have "occurs u t" using "1.IH" by blast
    then show ?thesis unfolding st by (rule occurs_append_right)
  next
    case False
    then have "starts_with u (c # replace_str p q s') \<or> occurs u (replace_str p q s')"
      using "1.prems" by (auto simp: s occurs_Cons)
    then show ?thesis
    proof
      assume "starts_with u (c # replace_str p q s')"
      then have "starts_with u (c # s')"
        using assms(1) replace_other_prefix [OF _ assms(2), of "tl u" p s']
        by (cases u) (auto simp: starts_with_Cons_iff)
      then show ?thesis by (simp add: s occurs_Cons)
    next
      assume "occurs u (replace_str p q s')"
      with "1.IH" have "occurs u s'" by (simp add: s)
      then show ?thesis by (simp add: s occurs_Cons)
    qed
  qed
qed

lemma occurs_collapse:
  assumes "newline \<notin> set u" and "u \<noteq> []"
  shows "occurs u (collapse_blank_lines s) \<Longrightarrow> occurs u s"
proof (induction s rule: collapse_blank_lines.induct)
  case (1 s)
  show ?case
  proof (cases "contains_str triple s")
    case True
    with 1 have "occurs u (replace_str triple [newline, newline] s)"
      by (simp add: collapse_blank_lines.simps [of s])
    moreover have "set u \<inter> set [newline, newline] = {}" using assms(1) by simp
    ultimately show ?thesis by (rule occurs_replace_other [rotated 3]) (simp_all add: assms(2))
  next
    case False
    with "1.prems" show ?thesis by (simp add: collapse_blank_lines.simps [of s])
  qed
qed

lemma occurs_trim: "occurs u (trim s) \<Longrightarrow> occurs u s"
proof -
  assume o: "occurs u (trim s)"
  obtain j k where "trim s = take k (drop j s)" using trim_slice by blast
  with o obtain m where "starts_with u (take (k - m) (drop m (drop j s)))"
    by (auto simp: occurs_def drop_take)
  then have "starts_with u (drop m (drop j s))" by (rule starts_with_take)
  then show ?thesis unfolding occurs_def drop_drop ..
qed

lemma contains_occurs: "u \<noteq> [] \<Longrightarrow> contains_str u s \<longleftrightarrow> occurs u s"
  by (simp add: contains_str_def occurs_def find_None_iff)

lemma collapse_no_triple: "\<not> contains_str triple (collapse_blank_lines s)"
proof (induction s rule: collapse_blank_lines.induct)
  case (1 s)
  then show ?case by (cases "contains_str triple s") (simp_all add: collapse_blank_lines.simps [of s])
qed

section \<open>Properties of a cleaned summary\<close>

text \<open>C39: A cleaned summary cannot prime the next turn. Whatever the model emitted (unclosed,
  nested, repeated or quoted tags), the cleaned text contains no live control token, no
  run of three line feeds, and no white space at either end.\<close>

theorem cleaned_summary_inert:
  assumes "tok \<in> set control_tokens"
  shows "\<not> contains_str tok (format_compact_summary raw) \<and>
    \<not> contains_str triple (format_compact_summary raw) \<and>
    trim (format_compact_summary raw) = format_compact_summary raw"
proof (intro conjI)
  let ?n = "neutralize_compaction_control_tokens (unwrap_summary (strip_analysis raw))"
  have b: "bracketed tok" using control_tokens_bracketed assms by blast
  then have ne: "tok \<noteq> []" "newline \<notin> set tok" by (auto simp: bracketed_def)
  have "\<not> occurs tok ?n"
    unfolding neutralize_compaction_control_tokens_def
    using control_tokens_bracketed assms by (intro no_occurs_fold) auto
  then have "\<not> occurs tok (format_compact_summary raw)"
    unfolding format_compact_summary_def using occurs_trim occurs_collapse [OF ne(2,1)] by blast
  then show "\<not> contains_str tok (format_compact_summary raw)" using ne by (simp add: contains_occurs)
  have "\<not> occurs triple (collapse_blank_lines ?n)"
    using collapse_no_triple contains_occurs [of triple] by (auto simp: triple_def)
  then show "\<not> contains_str triple (format_compact_summary raw)"
    unfolding format_compact_summary_def
    using occurs_trim contains_occurs [OF triple_nonempty] by blast
  show "trim (format_compact_summary raw) = format_compact_summary raw"
    by (simp add: format_compact_summary_def)
qed

theorem cleaned_summary_inert_witness:
  "summary_open \<in> set control_tokens \<and>
   \<not> contains_str summary_open (format_compact_summary (lit ''<summary>a <summary> b''))"
  using cleaned_summary_inert [of summary_open] by (simp add: control_tokens_def)

end
