(* ===== verification/CompactionSample.thy ===== *)
theory CompactionSample
  imports CompactionSummary
begin

text \<open>
  Sampling a summary with bounded retries
  (\<open>xai-grok-compaction/src/code_compaction/sample.rs\<close>, \<open>failure.rs\<close>, \<open>observer.rs\<close>,
  \<open>sampler.rs\<close>). The sampler is a function from the attempt number to its answer; the sleep
  between attempts has no effect on the result. The text of an opaque error is its message.
\<close>

section \<open>Failures\<close>

record llm_compaction_output =
  response :: rstr
  thinking :: rstr

datatype compaction_sample_error =
  SampleTimeout u64 nat
| SampleBuild rstr
| SampleStart rstr
| SampleEmptyResponse
| SampleOther rstr

fun sample_error_display :: "compaction_sample_error \<Rightarrow> rstr" where
  "sample_error_display (SampleTimeout timeout_secs collected_bytes) =
     lit ''Compaction sampling timed out after '' @ decimal (unat timeout_secs) @
     lit ''s (collected '' @ decimal collected_bytes @ lit '' bytes so far)''"
| "sample_error_display (SampleBuild msg) = lit ''Compaction sampler build failed: '' @ msg"
| "sample_error_display (SampleStart msg) = lit ''Compaction sampler start failed: '' @ msg"
| "sample_error_display SampleEmptyResponse =
     lit ''Compaction sampler returned no response channel content''"
| "sample_error_display (SampleOther msg) = msg"

fun is_deterministic :: "compaction_sample_error \<Rightarrow> bool" where
  "is_deterministic (SampleTimeout _ _) = False"
| "is_deterministic SampleEmptyResponse = False"
| "is_deterministic (SampleBuild _) = True"
| "is_deterministic (SampleStart _) = True"
| "is_deterministic (SampleOther msg) =
     (contains_str (lit ''Failed to build AgenticScheduler'') msg \<or>
      contains_str (lit ''Failed to start compaction sample'') msg)"

datatype failure_kind = Deterministic | Transient

definition is_context_length_error :: "rstr \<Rightarrow> bool" where
  "is_context_length_error message =
     (let m = to_ascii_lowercase message
      in contains_str (lit ''too long for this model'') m \<or>
         contains_str (lit ''prompt is too long'') m \<or>
         contains_str (lit ''maximum prompt length'') m \<or>
         contains_str (lit ''maximum context length'') m \<or>
         contains_str (lit ''context_length_exceeded'') m \<or>
         (contains_str (lit ''current message'') m \<and> contains_str (lit ''exceeds budget'') m))"

definition client_error :: "nat \<Rightarrow> bool" where
  "client_error status \<longleftrightarrow> 400 \<le> status \<and> status < 500 \<and> status \<noteq> 408 \<and> status \<noteq> 429"

definition classify_http_status :: "u16 \<Rightarrow> rstr \<Rightarrow> failure_kind" where
  "classify_http_status status message =
     (if is_context_length_error message \<or> client_error (unat status) then Deterministic else Transient)"

definition classify_stream_event_error :: "rstr option \<Rightarrow> rstr \<Rightarrow> failure_kind" where
  "classify_stream_event_error code message =
     (if code = Some (lit ''invalid_request_error'') \<or> contains_str (lit ''invalid_request_error'') message
      then Deterministic
      else if (case Option.bind code (parse_uint 16) of None \<Rightarrow> False | Some status \<Rightarrow> client_error status)
      then Deterministic
      else if is_context_length_error message then Deterministic
      else Transient)"

section \<open>The retry loop\<close>

datatype sample_retry_error =
  Empty nat
| Failure rstr bool bool nat

datatype full_replace_attempt_outcome =
  AttemptSuccess rstr
| AttemptDegenerate rstr bool
| AttemptEmptyResponse bool
| AttemptFailure rstr bool bool bool

type_synonym sampled_summary = "rstr \<times> nat"

text \<open>The last argument counts the attempts that remain, the current one included.\<close>

fun sample_loop ::
  "(nat \<Rightarrow> compaction_sample_error + llm_compaction_output) \<Rightarrow> nat \<Rightarrow> nat \<Rightarrow>
   full_replace_attempt_outcome list \<Rightarrow> nat \<Rightarrow>
   (sample_retry_error + sampled_summary) \<times> full_replace_attempt_outcome list" where
  "sample_loop sampler max_attempts attempt seen 0 = (Inl (Empty max_attempts), seen)"
| "sample_loop sampler max_attempts attempt seen (Suc left) =
     (let will_retry = attempt < max_attempts
      in case sampler attempt of
           Inr output \<Rightarrow>
             if trim (response output) \<noteq> [] then
               if is_degenerate_summary (response output) then
                 (let seen = seen @ [AttemptDegenerate (response output) will_retry]
                  in if \<not> will_retry then (Inl (Empty attempt), seen)
                     else sample_loop sampler max_attempts (attempt + 1) seen left)
               else (Inr (response output, attempt), seen @ [AttemptSuccess (response output)])
             else
               (let seen = seen @ [AttemptEmptyResponse will_retry]
                in if \<not> will_retry then (Inl (Empty attempt), seen)
                   else sample_loop sampler max_attempts (attempt + 1) seen left)
         | Inl e \<Rightarrow>
             (let message = sample_error_display e;
                  context_overflow = is_context_length_error message;
                  deterministic = (is_deterministic e \<or> context_overflow);
                  retrying = (will_retry \<and> \<not> deterministic);
                  seen = seen @ [AttemptFailure message deterministic context_overflow retrying]
              in if deterministic then (Inl (Failure message True context_overflow attempt), seen)
                 else if \<not> will_retry then (Inl (Failure message False False attempt), seen)
                 else sample_loop sampler max_attempts (attempt + 1) seen left))"

definition sample_summary_with_retries ::
  "(nat \<Rightarrow> compaction_sample_error + llm_compaction_output) \<Rightarrow> u32 \<Rightarrow>
   (sample_retry_error + sampled_summary) \<times> full_replace_attempt_outcome list" where
  "sample_summary_with_retries sampler max_attempts =
     (let mx = max (unat max_attempts) 1 in sample_loop sampler mx 1 [] mx)"

section \<open>Specification\<close>

text \<open>What a single answer decides: only a usable summary and a permanent error do.\<close>

definition permanent :: "compaction_sample_error \<Rightarrow> bool" where
  "permanent e \<longleftrightarrow> is_deterministic e \<or> is_context_length_error (sample_error_display e)"

definition transient :: "compaction_sample_error + llm_compaction_output \<Rightarrow> bool" where
  "transient r =
     (case r of
        Inl e \<Rightarrow> \<not> permanent e
      | Inr out \<Rightarrow> trim (response out) = [] \<or> is_degenerate_summary (response out))"

definition verdict ::
  "compaction_sample_error + llm_compaction_output \<Rightarrow> nat \<Rightarrow> sample_retry_error + sampled_summary" where
  "verdict r k =
     (case r of
        Inl e \<Rightarrow> Inl (Failure (sample_error_display e) (permanent e)
                       (is_context_length_error (sample_error_display e)) k)
      | Inr out \<Rightarrow> if transient r then Inl (Empty k) else Inr (response out, k))"

lemma sample_loop_spec:
  assumes "0 < left" and "attempt + left = Suc mx"
  shows "\<exists>k. attempt \<le> k \<and> k \<le> mx \<and> (\<forall>j. attempt \<le> j \<and> j < k \<longrightarrow> transient (sampler j)) \<and>
    (k < mx \<longrightarrow> \<not> transient (sampler k)) \<and>
    fst (sample_loop sampler mx attempt seen left) = verdict (sampler k) k \<and>
    length (snd (sample_loop sampler mx attempt seen left)) = length seen + (k + 1 - attempt)"
  using assms
proof (induction left arbitrary: attempt seen)
  case (Suc left)
  show ?case
  proof (cases "transient (sampler attempt) \<and> attempt < mx")
    case True
    obtain ev where step: "sample_loop sampler mx attempt seen (Suc left) =
        sample_loop sampler mx (attempt + 1) (seen @ [ev]) left"
    proof (cases "sampler attempt")
      case (Inl e)
      with True that show thesis by (auto simp: transient_def permanent_def Let_def)
    next
      case (Inr out)
      show thesis
      proof (cases "trim (response out) = []")
        case trim: True
        with True Inr that show thesis by (auto simp: Let_def)
      next
        case False
        with True Inr that show thesis by (auto simp: transient_def Let_def)
      qed
    qed
    obtain k where k: "attempt + 1 \<le> k" "k \<le> mx"
      "\<forall>j. attempt + 1 \<le> j \<and> j < k \<longrightarrow> transient (sampler j)" "k < mx \<longrightarrow> \<not> transient (sampler k)"
      "fst (sample_loop sampler mx (attempt + 1) (seen @ [ev]) left) = verdict (sampler k) k"
      "length (snd (sample_loop sampler mx (attempt + 1) (seen @ [ev]) left)) =
        length (seen @ [ev]) + (k + 1 - (attempt + 1))"
      using Suc.IH [of "attempt + 1" "seen @ [ev]"] Suc.prems True by auto
    have "transient (sampler j)" if "attempt \<le> j" "j < k" for j
      using that True k(3) by (cases "j = attempt") auto
    with k step show ?thesis by (intro exI [of _ k]) auto
  next
    case False
    then have "fst (sample_loop sampler mx attempt seen (Suc left)) = verdict (sampler attempt) attempt"
      "length (snd (sample_loop sampler mx attempt seen (Suc left))) = length seen + 1"
      by (cases "sampler attempt"; auto simp: transient_def permanent_def verdict_def Let_def)+
    with False Suc.prems show ?thesis by (intro exI [of _ attempt]) auto
  qed
qed simp

section \<open>Properties\<close>

text \<open>C38: The retry loop returns the verdict of the first decisive answer. There is an attempt
  \<open>k\<close> within the configured maximum (at least one) such that all earlier answers were
  transient (empty, degenerate, or an error that may pass), and \<open>k\<close> is decisive or the last
  attempt; the result is the verdict on that answer: its raw text if it is usable, else the
  failure with its classification. Exactly \<open>k\<close> attempts are reported to the observer.\<close>

theorem sample_retries_bounded:
  "\<exists>k. 1 \<le> k \<and> k \<le> max (unat max_attempts) 1 \<and>
     (\<forall>j. 1 \<le> j \<and> j < k \<longrightarrow> transient (sampler j)) \<and>
     (k < max (unat max_attempts) 1 \<longrightarrow> \<not> transient (sampler k)) \<and>
     fst (sample_summary_with_retries sampler max_attempts) = verdict (sampler k) k \<and>
     length (snd (sample_summary_with_retries sampler max_attempts)) = k"
  using sample_loop_spec [of "max (unat max_attempts) 1" 1 "max (unat max_attempts) 1" sampler "[]"]
  by (simp add: sample_summary_with_retries_def Let_def)

theorem sample_retries_bounded_witness:
  "fst (sample_summary_with_retries
     (\<lambda>j. if j = 1 then Inl SampleEmptyResponse else Inl (SampleBuild (lit ''x''))) 5) =
   Inl (Failure (lit ''Compaction sampler build failed: x'') True False 2)"
proof -
  let ?s = "\<lambda>j :: nat. if j = 1 then Inl SampleEmptyResponse else Inl (SampleBuild (lit ''x''))"
  obtain k where k: "1 \<le> k" "k \<le> 5" "\<forall>j. 1 \<le> j \<and> j < k \<longrightarrow> transient (?s j)"
    "k < 5 \<longrightarrow> \<not> transient (?s k)" "fst (sample_summary_with_retries ?s 5) = verdict (?s k) k"
    using sample_retries_bounded [of 5 ?s] by auto
  have t1: "transient (?s 1)"
    by (simp add: transient_def permanent_def is_context_length_error_def contains_str_def
        to_ascii_lowercase_def lower_ascii_def starts_with_def str_simps)
  have t2: "\<not> transient (?s 2)" by (simp add: transient_def permanent_def)
  have "\<not> 2 < k" using k(3) [rule_format, of 2] t2 by auto
  moreover have "k \<noteq> 1" using k(4) t1 by auto
  ultimately have "k = 2" using k(1) by simp
  have "\<not> is_context_length_error (lit ''Compaction sampler build failed: x'')"
    by (simp add: is_context_length_error_def contains_str_def
        to_ascii_lowercase_def lower_ascii_def starts_with_def str_simps)
  with k(5) \<open>k = 2\<close> show ?thesis by (simp add: verdict_def permanent_def lit_append [symmetric])
qed

text \<open>The two failure classifiers agree. For every HTTP status and every message without the
  marker of an invalid request, an event that carries the status as a number is classified
  exactly like the HTTP response with that status.\<close>

theorem classifiers_agree:
  assumes "\<not> contains_str (lit ''invalid_request_error'') message"
  shows "classify_stream_event_error (Some (decimal (unat status))) message =
    classify_http_status status message"
proof -
  have p: "parse_uint 16 (decimal (unat status)) = Some (unat status)"
    using unat_less_exp [of status] by (intro parse_uint_decimal) simp
  have "decimal (unat status) \<noteq> lit ''invalid_request_error''"
  proof
    assume "decimal (unat status) = lit ''invalid_request_error''"
    then have "digits_value 0 (lit ''invalid_request_error'') = Some (unat status)"
      by (metis digits_value_decimal)
    then show False by (simp add: digit_value_def str_simps)
  qed
  with p assms show ?thesis
    by (simp add: classify_stream_event_error_def classify_http_status_def)
qed

theorem classifiers_agree_witness:
  "classify_stream_event_error (Some (decimal (unat (404 :: u16)))) (lit ''gone'') =
     classify_http_status 404 (lit ''gone'')"
proof -
  have "\<not> contains_str (lit ''invalid_request_error'') (lit ''gone'')"
    by (simp add: contains_str_def starts_with_def str_simps)
  then show ?thesis by (rule classifiers_agree)
qed

end
