(* ===== verification/IntraCompaction.thy ===== *)
theory IntraCompaction
  imports CompactionFit CompactionSample Float64
begin

text \<open>
  Compaction inside the agent loop
  (\<open>xai-grok-compaction/src/intra_compaction/config.rs\<close>, \<open>trigger.rs\<close>, \<open>traits.rs\<close>,
  \<open>observer.rs\<close>, \<open>compact.rs\<close>): the trigger, and the passes select, sample, guard, commit in
  the four modes. The stream processor (trait \<open>CompactionStreamProc\<close>) is a record of
  functions over an arbitrary state; the sampler is a function from the number of the call,
  the turns and the prompt template to its answer; token counts come from a function
  parameter. The observer is the list of its notifications; elapsed times, which only go to
  logs and metrics, are left out.
\<close>

section \<open>Configuration and trigger\<close>

datatype intra_compaction_mode = FullReplace | StepsOnly | HistoryOnly | HistoryThenSteps

datatype intra_summarizer = Shared | Legacy

record intra_compaction_config =
  enabled :: bool
  mode :: intra_compaction_mode
  trigger_threshold_percent :: u8
  min_steps_before_compact :: u32
  min_compactable_tokens :: u32
  max_reduction_ratio :: f64
  compaction_model_name :: "rstr option"
  sampling_timeout_secs :: u64
  max_attempts :: u32
  retry_delay_secs :: u64
  compaction_version :: rstr
  summarizer :: intra_summarizer
  target_threshold_percent :: u8
  steps_trigger_ratio :: f64
  user_message_truncate_chars :: u32

definition DEFAULT_COMPACTION_MODEL_NAME :: rstr where
  "DEFAULT_COMPACTION_MODEL_NAME = lit ''grok-4.20''"

definition effective_compaction_model_name :: "intra_compaction_config \<Rightarrow> rstr" where
  "effective_compaction_model_name c =
     (case compaction_model_name c of
        None \<Rightarrow> DEFAULT_COMPACTION_MODEL_NAME
      | Some s \<Rightarrow> if trim s = [] then DEFAULT_COMPACTION_MODEL_NAME else trim s)"

definition default_intra_config :: intra_compaction_config where
  "default_intra_config =
     \<lparr>enabled = False, mode = FullReplace, trigger_threshold_percent = 85,
      min_steps_before_compact = 3, min_compactable_tokens = 5000,
      max_reduction_ratio = Finite (f64_round (8 / 10)),
      compaction_model_name = Some DEFAULT_COMPACTION_MODEL_NAME,
      sampling_timeout_secs = 120, max_attempts = 2, retry_delay_secs = 3,
      compaction_version = lit ''intra-v1'', summarizer = Shared, target_threshold_percent = 50,
      steps_trigger_ratio = Finite (f64_round (3 / 10)), user_message_truncate_chars = 3000\<rparr>"

record intra_compaction_trigger =
  last_prompt_tokens :: u32
  context_window :: u32
  trigger_percent :: u8
  trigger_step :: u32

text \<open>\<open>(window as u64 * percent as u64 / 100) as u32\<close>: the product fits \<open>u64\<close>, the cast wraps.\<close>

definition percent_of :: "u32 \<Rightarrow> u8 \<Rightarrow> u32" where
  "percent_of window pct = word_of_nat (unat window * unat pct div 100)"

definition should_compact ::
  "intra_compaction_config \<Rightarrow> u32 \<Rightarrow> u32 \<Rightarrow> u32 \<Rightarrow> intra_compaction_trigger option" where
  "should_compact policy last_tokens window current_step =
     (if \<not> enabled policy then None
      else if window = 0 then None
      else if mode policy \<noteq> FullReplace \<and> current_step < min_steps_before_compact policy then None
      else if last_tokens \<le> percent_of window (trigger_threshold_percent policy) then None
      else Some \<lparr>last_prompt_tokens = last_tokens, context_window = window,
                 trigger_percent = word_of_nat (min (unat last_tokens * 100 div unat window) 100),
                 trigger_step = current_step\<rparr>)"

section \<open>Errors, targets, seams\<close>

datatype intra_compaction_error =
  NothingToCompact
| Timeout
| EmptyResponse
| InsufficientReduction u32 u32
| InvalidSplit nat nat
| Unsupported
| SamplerBuild rstr
| SamplerStart rstr
| SamplerStream rstr
| Apply rstr

fun error_status_label :: "intra_compaction_error \<Rightarrow> rstr" where
  "error_status_label NothingToCompact = lit ''nothing_to_compact''"
| "error_status_label Timeout = lit ''timeout''"
| "error_status_label EmptyResponse = lit ''empty_response''"
| "error_status_label (InsufficientReduction _ _) = lit ''insufficient_reduction''"
| "error_status_label (InvalidSplit _ _) = lit ''invalid_split''"
| "error_status_label Unsupported = lit ''unsupported''"
| "error_status_label (SamplerBuild _) = lit ''sampler_build''"
| "error_status_label (SamplerStart _) = lit ''sampler_start''"
| "error_status_label (SamplerStream _) = lit ''sampler_stream''"
| "error_status_label (Apply _) = lit ''apply''"

fun compaction_sample_error_to_intra :: "compaction_sample_error \<Rightarrow> intra_compaction_error" where
  "compaction_sample_error_to_intra (SampleTimeout _ _) = Timeout"
| "compaction_sample_error_to_intra (SampleBuild msg) = SamplerBuild msg"
| "compaction_sample_error_to_intra (SampleStart msg) = SamplerStart msg"
| "compaction_sample_error_to_intra SampleEmptyResponse = EmptyResponse"
| "compaction_sample_error_to_intra (SampleOther msg) =
     (if contains_str (lit ''Failed to build'') msg then SamplerBuild msg
      else if contains_str (lit ''Failed to start'') msg then SamplerStart msg
      else if contains_str (lit ''no response channel content'') msg then EmptyResponse
      else SamplerStream msg)"

fun is_transient :: "intra_compaction_error \<Rightarrow> bool" where
  "is_transient Timeout = True"
| "is_transient EmptyResponse = True"
| "is_transient (SamplerStream _) = True"
| "is_transient (SamplerStart _) = True"
| "is_transient _ = False"

text \<open>The constructor \<open>FullReplace\<close> of the source's \<open>CompactionTarget\<close> is \<open>WholeConversation\<close>
  here, apart from the mode of that name.\<close>

datatype compaction_target = Steps | History | WholeConversation

text \<open>Which template the prompt of a call is made from.\<close>

datatype prompt_template = SummaryPrompt | StepsPrompt | HistoryPrompt

record ('s, 'a) compaction_stream_proc =
  get_accumulated_turns :: "'s \<Rightarrow> 'a list"
  get_history_turns :: "'s \<Rightarrow> 'a list"
  replace_with_compaction :: "'s \<Rightarrow> compaction_target \<Rightarrow> nat \<Rightarrow> 'a \<Rightarrow> (intra_compaction_error + unit) \<times> 's"

type_synonym 'a compaction_sampler =
  "nat \<Rightarrow> 'a list \<Rightarrow> prompt_template \<Rightarrow> compaction_sample_error + llm_compaction_output"

datatype observation = OnError rstr | OnSuccess compaction_target u32 u32 u32

record 's world =
  proc :: 's
  calls :: nat
  observed :: "observation list"

record intra_compaction_result =
  tokens_before :: u32
  tokens_after :: u32
  turns_compacted :: u32
  result_summary :: rstr

text \<open>What the passes read but do not change.\<close>

record ('s, 'a) intra_env =
  env_ops :: "'a compaction_item"
  env_counter :: "'a \<Rightarrow> u32"
  env_proc :: "('s, 'a) compaction_stream_proc"
  env_sampler :: "'a compaction_sampler"
  env_policy :: intra_compaction_config

section \<open>Sampling\<close>

definition sample_shared_summary_with_retries ::
  "('s, 'a) intra_env \<Rightarrow> 'a list \<Rightarrow> 's world \<Rightarrow> (intra_compaction_error + rstr) \<times> 's world" where
  "sample_shared_summary_with_retries env turns w =
     (let (r, seen) = sample_summary_with_retries
            (\<lambda>attempt. env_sampler env (calls w + attempt) turns SummaryPrompt) (max_attempts (env_policy env));
          w = w\<lparr>calls := calls w + length seen\<rparr>
      in (case r of
            Inr (summary, _) \<Rightarrow> Inr (format_compact_summary summary)
          | Inl (Empty _) \<Rightarrow> Inl EmptyResponse
          | Inl (Failure message deterministic _ _) \<Rightarrow>
              if deterministic then Inl (SamplerBuild message) else Inl (SamplerStream message), w))"

text \<open>The loop of the legacy summarizer: \<open>left\<close> attempts remain, \<open>attempt\<close> is the next one; the
  second component of the result is the number of calls made.\<close>

fun legacy_loop ::
  "(nat \<Rightarrow> compaction_sample_error + llm_compaction_output) \<Rightarrow> nat \<Rightarrow> nat \<Rightarrow>
   intra_compaction_error option \<Rightarrow> nat \<Rightarrow> (intra_compaction_error + rstr) \<times> nat" where
  "legacy_loop sampler mx attempt last_err 0 =
     (Inl (case last_err of Some e \<Rightarrow> e | None \<Rightarrow> EmptyResponse), attempt - 1)"
| "legacy_loop sampler mx attempt last_err (Suc left) =
     (case sampler attempt of
        Inr output \<Rightarrow> (Inr (response output), attempt)
      | Inl e \<Rightarrow>
          (let intra_err = compaction_sample_error_to_intra e
           in if is_transient intra_err \<and> attempt < mx
              then legacy_loop sampler mx (attempt + 1) (Some intra_err) left
              else (Inl intra_err, attempt)))"

definition sample_compaction_with_retries ::
  "('s, 'a) intra_env \<Rightarrow> 'a list \<Rightarrow> prompt_template \<Rightarrow> 's world \<Rightarrow> (intra_compaction_error + rstr) \<times> 's world" where
  "sample_compaction_with_retries env turns prompt w =
     (let mx = max (unat (max_attempts (env_policy env))) 1;
          (r, made) = legacy_loop (\<lambda>attempt. env_sampler env (calls w + attempt) turns prompt) mx 1 None mx
      in (r, w\<lparr>calls := calls w + made\<rparr>))"

text \<open>The templates are embedded in the program, so building them does not fail; the arm for the
  whole conversation is \<open>unreachable!\<close> in the source.\<close>

fun build_prompt_for_target :: "compaction_target \<Rightarrow> prompt_template" where
  "build_prompt_for_target History = HistoryPrompt"
| "build_prompt_for_target _ = StepsPrompt"

section \<open>Guards\<close>

text \<open>\<open>(n as f64 * ratio) as u32\<close>: the cast truncates and saturates; NaN gives 0.\<close>

fun ratio_tokens :: "nat \<Rightarrow> f64 \<Rightarrow> u32" where
  "ratio_tokens n (Finite x) =
     (if x \<le> 0 then 0 else word_of_nat (min (nat \<lfloor>f64_mul (f64_of_nat n) x\<rfloor>) (2 ^ 32 - 1)))"
| "ratio_tokens n PosInf = (if n = 0 then 0 else - 1)"
| "ratio_tokens n NegInf = 0"
| "ratio_tokens n NaN = 0"

text \<open>\<open>(n as f64 * ratio).ceil() as u64\<close>.\<close>

fun ratio_ceil :: "nat \<Rightarrow> f64 \<Rightarrow> u64" where
  "ratio_ceil n (Finite x) =
     (if x \<le> 0 then 0 else word_of_nat (min (nat \<lceil>f64_mul (f64_of_nat n) x\<rceil>) (2 ^ 64 - 1)))"
| "ratio_ceil n PosInf = (if n = 0 then 0 else - 1)"
| "ratio_ceil n NegInf = 0"
| "ratio_ceil n NaN = 0"

definition insufficient :: "intra_compaction_config \<Rightarrow> u32 \<Rightarrow> u32 \<Rightarrow> bool" where
  "insufficient policy before after \<longleftrightarrow>
     0 < before \<and> ratio_tokens (unat before) (max_reduction_ratio policy) < after"

definition append_reminder_block :: "rstr \<Rightarrow> rstr option \<Rightarrow> rstr" where
  "append_reminder_block summary reminder =
     (case reminder of
        None \<Rightarrow> summary
      | Some r \<Rightarrow> if trim r = [] then summary else summary @ [newline, newline] @ r)"

section \<open>Passes\<close>

text \<open>Steps 4 to 6 of a pass: build the carrier, guard, commit, report.\<close>

definition guard_and_commit ::
  "('s, 'a) intra_env \<Rightarrow> compaction_target \<Rightarrow> u32 \<Rightarrow> nat \<Rightarrow> rstr \<Rightarrow> 's world \<Rightarrow>
   (intra_compaction_error + intra_compaction_result) \<times> 's world" where
  "guard_and_commit env target before n summary w =
     (let compaction_turn = compaction_summary_item (env_ops env) summary;
          after = env_counter env compaction_turn
      in if insufficient (env_policy env) before after then (Inl (InsufficientReduction before after), w)
         else
           (case replace_with_compaction (env_proc env) (proc w) target n compaction_turn of
              (Inl e, s) \<Rightarrow> (Inl e, w\<lparr>proc := s\<rparr>)
            | (Inr _, s) \<Rightarrow>
                (Inr \<lparr>tokens_before = before, tokens_after = after, turns_compacted = word_of_nat n,
                      result_summary = summary\<rparr>,
                 w\<lparr>proc := s,
                   observed := observed w @ [OnSuccess target before after (word_of_nat n)]\<rparr>)))"

definition source_turns :: "('s, 'a) intra_env \<Rightarrow> compaction_target \<Rightarrow> 's world \<Rightarrow> 'a list" where
  "source_turns env target w =
     (if target = Steps then get_accumulated_turns (env_proc env) (proc w)
      else get_history_turns (env_proc env) (proc w))"

text \<open>The steps and the history pass; it is never called for the whole conversation.\<close>

definition compact_one_pass ::
  "('s, 'a) intra_env \<Rightarrow> intra_compaction_trigger \<Rightarrow> compaction_target \<Rightarrow> 's world \<Rightarrow>
   (intra_compaction_error + intra_compaction_result) \<times> 's world" where
  "compact_one_pass env trigger target w =
     (let ops = env_ops env; policy = env_policy env; turns = source_turns env target w
      in if turns = [] then (Inl NothingToCompact, w)
         else
           (case select_turns_to_compact ops (map (env_counter env) turns) turns
                   (percent_of (context_window trigger) (target_threshold_percent policy))
                   (min_compactable_tokens policy) of
              None \<Rightarrow> (Inl NothingToCompact, w)
            | Some plan \<Rightarrow>
                (let turns_to_compact = take (split_idx plan) turns;
                     (turns_llm, prior) =
                       (if target = History
                        then (let sep = separate_prior_user_queries ops turns_to_compact
                              in (turns_for_llm sep, prior_user_queries sep))
                        else (turns_to_compact, None));
                     (r, w) =
                       (case summarizer policy of
                          Legacy \<Rightarrow> sample_compaction_with_retries env turns_llm (build_prompt_for_target target) w
                        | Shared \<Rightarrow> sample_shared_summary_with_retries env turns_llm w)
                 in case r of
                      Inl e \<Rightarrow> (Inl e, w)
                    | Inr summary_text \<Rightarrow>
                        (let final =
                               (if target = History
                                then assemble_user_queries_preamble prior
                                       (extract_user_queries_from_turns ops turns_to_compact
                                          (user_message_truncate_chars policy)) @ summary_text
                                else summary_text)
                         in guard_and_commit env target (tokens_to_compact plan) (split_idx plan) final w))))"

definition apply_steps_compaction ::
  "('s, 'a) intra_env \<Rightarrow> intra_compaction_trigger \<Rightarrow> 's world \<Rightarrow>
   (intra_compaction_error + intra_compaction_result) \<times> 's world" where
  "apply_steps_compaction env trigger w = compact_one_pass env trigger Steps w"

definition apply_history_compaction ::
  "('s, 'a) intra_env \<Rightarrow> intra_compaction_trigger \<Rightarrow> 's world \<Rightarrow>
   (intra_compaction_error + intra_compaction_result) \<times> 's world" where
  "apply_history_compaction env trigger w = compact_one_pass env trigger History w"

text \<open>The whole conversation. The unchecked sum of the source wraps.\<close>

definition apply_full_replace_compaction ::
  "('s, 'a) intra_env \<Rightarrow> intra_compaction_trigger \<Rightarrow> rstr option \<Rightarrow> u32 option \<Rightarrow> 's world \<Rightarrow>
   (intra_compaction_error + intra_compaction_result) \<times> 's world" where
  "apply_full_replace_compaction env trigger active_reminder input_budget w =
     (let history = get_history_turns (env_proc env) (proc w);
          steps = get_accumulated_turns (env_proc env) (proc w);
          total_turns = length history + length steps;
          before = sum_list (map (env_counter env) (history @ steps))
      in if total_turns = 0 then (Inl NothingToCompact, w)
         else if before < min_compactable_tokens (env_policy env) then (Inl NothingToCompact, w)
         else
           (let fitted =
                  (case input_budget of
                     Some budget \<Rightarrow>
                       (let plan = fit_turns_for_summarizer (env_ops env) (env_counter env) history steps budget
                        in if llm_turns plan = [] \<or> tokens_fit plan = 0 then None else Some (llm_turns plan))
                   | None \<Rightarrow> Some (history @ steps))
            in case fitted of
                 None \<Rightarrow> (Inl NothingToCompact, w)
               | Some turns \<Rightarrow>
                   (case sample_shared_summary_with_retries env turns w of
                      (Inl e, w) \<Rightarrow> (Inl e, w)
                    | (Inr summary_text, w) \<Rightarrow>
                        guard_and_commit env WholeConversation before total_turns
                          (append_reminder_block summary_text active_reminder) w)))"

definition merge_results :: "intra_compaction_result \<Rightarrow> intra_compaction_result \<Rightarrow> intra_compaction_result" where
  "merge_results h s =
     \<lparr>tokens_before = sat_add (tokens_before h) (tokens_before s),
      tokens_after = sat_add (tokens_after h) (tokens_after s),
      turns_compacted = sat_add (turns_compacted h) (turns_compacted s),
      result_summary =
        (if result_summary h = [] then result_summary s
         else if result_summary s = [] then result_summary h
         else result_summary h @ [newline, newline] @ result_summary s)\<rparr>"

definition count_u64 :: "('a \<Rightarrow> u32) \<Rightarrow> 'a list \<Rightarrow> u64" where
  "count_u64 counter turns = sum_list (map (\<lambda>t. ucast (counter t)) turns)"

definition apply_history_then_steps ::
  "('s, 'a) intra_env \<Rightarrow> intra_compaction_trigger \<Rightarrow> 's world \<Rightarrow>
   (intra_compaction_error + intra_compaction_result) \<times> 's world" where
  "apply_history_then_steps env trigger w =
     (case apply_history_compaction env trigger w of
        (r, w) \<Rightarrow>
          if \<exists>e. r = Inl e \<and> e \<noteq> NothingToCompact then (r, w)
          else
            (let history_result = (case r of Inr h \<Rightarrow> Some h | Inl _ \<Rightarrow> None);
                 steps_tokens = count_u64 (env_counter env) (get_accumulated_turns (env_proc env) (proc w));
                 history_tokens = count_u64 (env_counter env) (get_history_turns (env_proc env) (proc w));
                 threshold = ratio_ceil (unat history_tokens) (steps_trigger_ratio (env_policy env))
             in if \<not> threshold < steps_tokens
                then (case history_result of Some h \<Rightarrow> Inr h | None \<Rightarrow> Inl NothingToCompact, w)
                else
                  (case apply_steps_compaction env trigger w of
                     (s, w) \<Rightarrow>
                       (case (history_result, s) of
                          (Some h, Inr s) \<Rightarrow> Inr (merge_results h s)
                        | (Some h, Inl e) \<Rightarrow> if e = NothingToCompact then Inr h else Inl e
                        | (None, s) \<Rightarrow> s, w))))"

definition apply_intra_compaction ::
  "('s, 'a) intra_env \<Rightarrow> intra_compaction_trigger \<Rightarrow> rstr option \<Rightarrow> u32 option \<Rightarrow> 's world \<Rightarrow>
   (intra_compaction_error + intra_compaction_result) \<times> 's world" where
  "apply_intra_compaction env trigger active_reminder input_budget w =
     (let (r, w) =
        (case mode (env_policy env) of
           FullReplace \<Rightarrow> apply_full_replace_compaction env trigger active_reminder input_budget w
         | StepsOnly \<Rightarrow> apply_steps_compaction env trigger w
         | HistoryOnly \<Rightarrow> apply_history_compaction env trigger w
         | HistoryThenSteps \<Rightarrow> apply_history_then_steps env trigger w)
      in case r of
           Inl e \<Rightarrow> (r, w\<lparr>observed := observed w @ [OnError (error_status_label e)]\<rparr>)
         | Inr _ \<Rightarrow> (r, w))"

section \<open>The contract of the stream processor\<close>

text \<open>
  What the documentation of \<open>CompactionStreamProc\<close> promises: a replacement that is refused as an invalid split
  leaves the state alone (it says nothing of the state behind other errors); an accepted one puts the summary in place of the first \<open>n\<close> items of the view
  the target names and leaves the other view alone, or in place of the whole conversation.
\<close>

definition proc_contract :: "('s, 'a) compaction_stream_proc \<Rightarrow> bool" where
  "proc_contract P \<longleftrightarrow>
     (\<forall>s t n x a b s'. replace_with_compaction P s t n x = (Inl (InvalidSplit a b), s') \<longrightarrow> s' = s) \<and>
     (\<forall>s n x u s'. replace_with_compaction P s Steps n x = (Inr u, s') \<longrightarrow>
        get_accumulated_turns P s' = x # drop n (get_accumulated_turns P s) \<and>
        get_history_turns P s' = get_history_turns P s) \<and>
     (\<forall>s n x u s'. replace_with_compaction P s History n x = (Inr u, s') \<longrightarrow>
        get_history_turns P s' = x # drop n (get_history_turns P s) \<and>
        get_accumulated_turns P s' = get_accumulated_turns P s) \<and>
     (\<forall>s n x u s'. replace_with_compaction P s WholeConversation n x = (Inr u, s') \<longrightarrow>
        get_history_turns P s' @ get_accumulated_turns P s' = [x])"


section \<open>Lemmas\<close>

lemma sample_shared_frame:
  assumes "sample_shared_summary_with_retries env turns w = (r, w')"
  shows "proc w' = proc w \<and> observed w' = observed w"
  using assms by (auto simp: sample_shared_summary_with_retries_def Let_def split: prod.splits)

lemma sample_legacy_frame:
  assumes "sample_compaction_with_retries env turns p w = (r, w')"
  shows "proc w' = proc w \<and> observed w' = observed w"
  using assms by (auto simp: sample_compaction_with_retries_def Let_def split: prod.splits)


lemma guard_success:
  assumes "guard_and_commit env t b n s w = (Inr res, w')"
  defines "x \<equiv> compaction_summary_item (env_ops env) s"
  shows "res = \<lparr>tokens_before = b, tokens_after = env_counter env x, turns_compacted = word_of_nat n, result_summary = s\<rparr>"
    and "\<not> insufficient (env_policy env) b (env_counter env x)"
    and "\<exists>u. replace_with_compaction (env_proc env) (proc w) t n x = (Inr u, proc w')"
    and "observed w' = observed w @ [OnSuccess t b (env_counter env x) (word_of_nat n)]"
  using assms
  by (auto simp: guard_and_commit_def Let_def x_def split: if_splits prod.splits sum.splits)


text \<open>The sampling step of a pass moves only the count of calls.\<close>

lemma sample_step_frame:
  assumes "(case summarizer p of Legacy \<Rightarrow> sample_compaction_with_retries env turns q w
      | Shared \<Rightarrow> sample_shared_summary_with_retries env turns w) = (r, w')"
  shows "proc w' = proc w \<and> observed w' = observed w"
  using assms by (cases "summarizer p") (auto dest!: sample_shared_frame sample_legacy_frame)

text \<open>A pass is an error that touched nothing, or a plan, a summary and the guarded commit.\<close>

lemma pass_cases:
  assumes "compact_one_pass env trigger t w = (r, w')"
  shows "(\<exists>e. r = Inl e) \<and> proc w' = proc w \<and> observed w' = observed w \<or>
    (\<exists>plan s w1.
       select_turns_to_compact (env_ops env) (map (env_counter env) (source_turns env t w)) (source_turns env t w)
         (percent_of (context_window trigger) (target_threshold_percent (env_policy env)))
         (min_compactable_tokens (env_policy env)) = Some plan \<and>
       proc w1 = proc w \<and> observed w1 = observed w \<and>
       guard_and_commit env t (tokens_to_compact plan) (split_idx plan) s w1 = (r, w'))"
proof (cases "select_turns_to_compact (env_ops env) (map (env_counter env) (source_turns env t w)) (source_turns env t w)
    (percent_of (context_window trigger) (target_threshold_percent (env_policy env)))
    (min_compactable_tokens (env_policy env))")
  case None
  with assms show ?thesis by (auto simp: compact_one_pass_def Let_def split: if_splits)
next
  case (Some plan)
  then have ne: "source_turns env t w \<noteq> []" by (auto simp: select_turns_to_compact_def)
  define turns where "turns = take (split_idx plan) (source_turns env t w)"
  define llm where "llm = (if t = History then turns_for_llm (separate_prior_user_queries (env_ops env) turns) else turns)"
  obtain r1 w1 where step: "(case summarizer (env_policy env) of
      Legacy \<Rightarrow> sample_compaction_with_retries env llm (build_prompt_for_target t) w
    | Shared \<Rightarrow> sample_shared_summary_with_retries env llm w) = (r1, w1)"
    by fastforce
  note frame = sample_step_frame [OF step]
  show ?thesis
  proof (cases r1)
    case (Inl e)
    have "r = Inl e \<and> w' = w1"
      using assms Some ne step Inl
      by (cases "summarizer (env_policy env)"; cases "t = History")
        (simp_all add: compact_one_pass_def Let_def turns_def llm_def)
    with frame show ?thesis by simp
  next
    case (Inr s)
    have "\<exists>s. guard_and_commit env t (tokens_to_compact plan) (split_idx plan) s w1 = (r, w')"
      using assms Some ne step Inr
      by (cases "summarizer (env_policy env)"; cases "t = History")
        (auto simp: compact_one_pass_def Let_def turns_def llm_def)
    with Some frame show ?thesis by blast
  qed
qed


text \<open>What a successful pass over a view did.\<close>

definition pass_effect ::
  "('s, 'a) intra_env \<Rightarrow> intra_compaction_trigger \<Rightarrow> 'a list \<Rightarrow> nat \<Rightarrow> intra_compaction_result \<Rightarrow> 'a list \<Rightarrow> bool" where
  "pass_effect env trigger view k res view' \<longleftrightarrow>
     0 < k \<and> k < length view \<and>
     view' = compaction_summary_item (env_ops env) (result_summary res) # drop k view \<and>
     \<not> is_tool_result (env_ops env) (view ! k) \<and>
     tokens_before res = sum_counts (map (env_counter env) (take k view)) \<and>
     sum_counts (map (env_counter env) (drop k view)) \<le>
       percent_of (context_window trigger) (target_threshold_percent (env_policy env))"

text \<open>What every successful mode reports and guarantees of the sizes.\<close>

definition report_of ::
  "('s, 'a) intra_env \<Rightarrow> compaction_target \<Rightarrow> nat \<Rightarrow> intra_compaction_result \<Rightarrow> observation list \<Rightarrow> bool" where
  "report_of env t k res obs \<longleftrightarrow>
     turns_compacted res = word_of_nat k \<and>
     tokens_after res = env_counter env (compaction_summary_item (env_ops env) (result_summary res)) \<and>
     \<not> insufficient (env_policy env) (tokens_before res) (tokens_after res) \<and>
     min_compactable_tokens (env_policy env) \<le> tokens_before res \<and>
     obs = [OnSuccess t (tokens_before res) (tokens_after res) (turns_compacted res)]"

lemma pass_success:
  assumes "compact_one_pass env trigger t w = (Inr res, w')"
  shows "\<exists>k obs u. replace_with_compaction (env_proc env) (proc w) t k
        (compaction_summary_item (env_ops env) (result_summary res)) = (Inr u, proc w') \<and>
      pass_effect env trigger (source_turns env t w) k res
        (compaction_summary_item (env_ops env) (result_summary res) # drop k (source_turns env t w)) \<and>
      report_of env t k res obs \<and> observed w' = observed w @ obs"
proof -
  from pass_cases [OF assms] obtain plan s w1 where
    plan: "select_turns_to_compact (env_ops env) (map (env_counter env) (source_turns env t w)) (source_turns env t w)
         (percent_of (context_window trigger) (target_threshold_percent (env_policy env)))
         (min_compactable_tokens (env_policy env)) = Some plan"
    and w1: "proc w1 = proc w" "observed w1 = observed w"
    and g: "guard_and_commit env t (tokens_to_compact plan) (split_idx plan) s w1 = (Inr res, w')"
    by auto
  note sel = select_Some [OF length_map plan]
  note gs = guard_success [OF g]
  have "pass_effect env trigger (source_turns env t w) (split_idx plan) res
      (compaction_summary_item (env_ops env) (result_summary res) # drop (split_idx plan) (source_turns env t w))"
    using sel gs(1) by (simp add: pass_effect_def take_map drop_map)
  moreover have "report_of env t (split_idx plan) res
      [OnSuccess t (tokens_before res) (tokens_after res) (turns_compacted res)]"
    using sel(8) gs(1,2) by (simp add: report_of_def)
  ultimately show ?thesis using gs(1,3,4) w1 by (auto simp del: append_eq_conv_conj)
qed

lemma full_replace_cases:
  assumes "apply_full_replace_compaction env trigger rem budget w = (r, w')"
  defines "turns \<equiv> get_history_turns (env_proc env) (proc w) @ get_accumulated_turns (env_proc env) (proc w)"
  shows "(\<exists>e. r = Inl e) \<and> proc w' = proc w \<and> observed w' = observed w \<or>
    (\<exists>s w1. turns \<noteq> [] \<and>
       min_compactable_tokens (env_policy env) \<le> sum_list (map (env_counter env) turns) \<and>
       proc w1 = proc w \<and> observed w1 = observed w \<and>
       guard_and_commit env WholeConversation (sum_list (map (env_counter env) turns)) (length turns) s w1 = (r, w'))"
  using assms(1)
  by (auto simp: apply_full_replace_compaction_def Let_def turns_def not_less
      dest!: sample_shared_frame split: if_splits option.splits prod.splits sum.splits)


lemma full_replace_success:
  assumes "apply_full_replace_compaction env trigger rem budget w = (Inr res, w')"
  defines "turns \<equiv> get_history_turns (env_proc env) (proc w) @ get_accumulated_turns (env_proc env) (proc w)"
  shows "\<exists>obs u. replace_with_compaction (env_proc env) (proc w) WholeConversation (length turns)
        (compaction_summary_item (env_ops env) (result_summary res)) = (Inr u, proc w') \<and>
      tokens_before res = sum_list (map (env_counter env) turns) \<and> turns \<noteq> [] \<and>
      report_of env WholeConversation (length turns) res obs \<and> observed w' = observed w @ obs"
proof -
  from full_replace_cases [OF assms(1), folded turns_def] obtain s w1 where
    t: "turns \<noteq> []" "min_compactable_tokens (env_policy env) \<le> sum_list (map (env_counter env) turns)"
    and w1: "proc w1 = proc w" "observed w1 = observed w"
    and g: "guard_and_commit env WholeConversation (sum_list (map (env_counter env) turns)) (length turns) s w1 = (Inr res, w')"
    by auto
  note gs = guard_success [OF g]
  have "report_of env WholeConversation (length turns) res
      [OnSuccess WholeConversation (tokens_before res) (tokens_after res) (turns_compacted res)]"
    using t(2) gs(1,2) by (simp add: report_of_def)
  with t(1) gs(1,3,4) w1 show ?thesis by auto
qed



section \<open>Properties\<close>

text \<open>The trigger is exact. With a threshold of at most 100 percent, compaction is asked for
  if and only if it is enabled, the context window is known, enough steps have run (a
  condition that full replacement does not have) and the last prompt used strictly more than
  that percentage of the window, up to the rounding down of the threshold to whole tokens;
  no product or cast wraps, and the percentage reported is the used share rounded down,
  at most 100.\<close>

theorem should_compact_exact:
  assumes "trigger_threshold_percent policy \<le> 100"
  shows "(should_compact policy used window step \<noteq> None \<longleftrightarrow>
      enabled policy \<and> window \<noteq> 0 \<and> (mode policy = FullReplace \<or> min_steps_before_compact policy \<le> step) \<and>
      unat window * unat (trigger_threshold_percent policy) div 100 < unat used) \<and>
    (should_compact policy used window step = Some t \<longrightarrow>
      last_prompt_tokens t = used \<and> context_window t = window \<and> trigger_step t = step \<and>
      unat (trigger_percent t) = min (unat used * 100 div unat window) 100)"
proof -
  have "unat (trigger_threshold_percent policy) \<le> 100"
    using assms by (simp add: word_le_nat_alt)
  then have "unat window * unat (trigger_threshold_percent policy) div 100 \<le> unat window"
    using mult_le_mono2 [of "unat (trigger_threshold_percent policy)" 100 "unat window"]
    by (metis div_le_mono nonzero_mult_div_cancel_right zero_neq_numeral)
  then have pc: "unat (percent_of window (trigger_threshold_percent policy)) =
      unat window * unat (trigger_threshold_percent policy) div 100"
    using unat_less_exp [of window] by (simp add: percent_of_def unat_of_nat take_bit_nat_eq_self)
  have "min (unat used * 100 div unat window) 100 < 2 ^ 8" by simp
  then have pt: "unat (word_of_nat (min (unat used * 100 div unat window) 100) :: u8) =
      min (unat used * 100 div unat window) 100"
    by (simp only: unat_of_nat take_bit_nat_eq_self) (simp add: take_bit_nat_eq_self)
  show ?thesis
    using pc pt by (auto simp: should_compact_def word_le_nat_alt word_less_nat_alt not_le)
qed

theorem should_compact_exact_witness:
  "should_compact (default_intra_config\<lparr>enabled := True\<rparr>) 85001 100000 0 \<noteq> None \<and>
   should_compact (default_intra_config\<lparr>enabled := True\<rparr>) 85000 100000 0 = None"
  using should_compact_exact [of "default_intra_config\<lparr>enabled := True\<rparr>" 85001 100000 0, THEN conjunct1]
    should_compact_exact [of "default_intra_config\<lparr>enabled := True\<rparr>" 85000 100000 0, THEN conjunct1]
  by (simp add: default_intra_config_def)

text \<open>C14: What a successful run of one pass did. Under the contract of the stream processor, when
  compaction succeeds in full-replace mode the conversation is exactly the summary; in the
  steps and history modes the view it works on is the summary followed by the untouched newest
  turns, of which there is at least one, whose first is not a tool result and whose tokens fit
  the target share of the window, and the other view is untouched. The result reports the
  (saturating) tokens replaced, at least the configured minimum, and the tokens of the
  summary, which pass the reduction guard; the observer hears of exactly this success.\<close>

theorem intra_success_effect:
  assumes "proc_contract (env_proc env)"
    and "apply_intra_compaction env trigger reminder budget w = (Inr res, w')"
  defines "hist \<equiv> get_history_turns (env_proc env)" and "steps \<equiv> get_accumulated_turns (env_proc env)"
  shows "case mode (env_policy env) of
      FullReplace \<Rightarrow>
        hist (proc w') @ steps (proc w') = [compaction_summary_item (env_ops env) (result_summary res)] \<and>
        tokens_before res = sum_list (map (env_counter env) (hist (proc w) @ steps (proc w))) \<and>
        (\<exists>obs. report_of env WholeConversation (length (hist (proc w) @ steps (proc w))) res obs \<and>
           observed w' = observed w @ obs)
    | StepsOnly \<Rightarrow>
        \<exists>k obs. pass_effect env trigger (steps (proc w)) k res (steps (proc w')) \<and> hist (proc w') = hist (proc w) \<and>
          report_of env Steps k res obs \<and> observed w' = observed w @ obs
    | HistoryOnly \<Rightarrow>
        \<exists>k obs. pass_effect env trigger (hist (proc w)) k res (hist (proc w')) \<and> steps (proc w') = steps (proc w) \<and>
          report_of env History k res obs \<and> observed w' = observed w @ obs
    | HistoryThenSteps \<Rightarrow> True"
proof (cases "mode (env_policy env)")
  case FullReplace
  then have "apply_full_replace_compaction env trigger reminder budget w = (Inr res, w')"
    using assms(2) by (auto simp: apply_intra_compaction_def split: prod.splits sum.splits)
  from full_replace_success [OF this, folded hist_def steps_def] obtain obs u where
    p: "replace_with_compaction (env_proc env) (proc w) WholeConversation (length (hist (proc w) @ steps (proc w)))
        (compaction_summary_item (env_ops env) (result_summary res)) = (Inr u, proc w')"
      "tokens_before res = sum_list (map (env_counter env) (hist (proc w) @ steps (proc w)))"
      "report_of env WholeConversation (length (hist (proc w) @ steps (proc w))) res obs"
      "observed w' = observed w @ obs"
    by blast
  moreover have "hist (proc w') @ steps (proc w') = [compaction_summary_item (env_ops env) (result_summary res)]"
    using assms(1) p(1) unfolding proc_contract_def hist_def steps_def by blast
  ultimately show ?thesis using FullReplace by (simp only: intra_compaction_mode.case) blast
next
  case StepsOnly
  then have "compact_one_pass env trigger Steps w = (Inr res, w')"
    using assms(2) by (auto simp: apply_intra_compaction_def apply_steps_compaction_def split: prod.splits sum.splits)
  from pass_success [OF this] obtain k obs u where
    p: "replace_with_compaction (env_proc env) (proc w) Steps k
        (compaction_summary_item (env_ops env) (result_summary res)) = (Inr u, proc w')"
      "pass_effect env trigger (source_turns env Steps w) k res
        (compaction_summary_item (env_ops env) (result_summary res) # drop k (source_turns env Steps w))"
      "report_of env Steps k res obs" "observed w' = observed w @ obs"
    by blast
  moreover have "steps (proc w') = compaction_summary_item (env_ops env) (result_summary res) # drop k (steps (proc w))"
      "hist (proc w') = hist (proc w)"
    using assms(1) p(1) unfolding proc_contract_def hist_def steps_def by blast+
  ultimately show ?thesis using StepsOnly by (auto simp: source_turns_def steps_def [symmetric])
next
  case HistoryOnly
  then have "compact_one_pass env trigger History w = (Inr res, w')"
    using assms(2) by (auto simp: apply_intra_compaction_def apply_history_compaction_def split: prod.splits sum.splits)
  from pass_success [OF this] obtain k obs u where
    p: "replace_with_compaction (env_proc env) (proc w) History k
        (compaction_summary_item (env_ops env) (result_summary res)) = (Inr u, proc w')"
      "pass_effect env trigger (source_turns env History w) k res
        (compaction_summary_item (env_ops env) (result_summary res) # drop k (source_turns env History w))"
      "report_of env History k res obs" "observed w' = observed w @ obs"
    by blast
  moreover have "hist (proc w') = compaction_summary_item (env_ops env) (result_summary res) # drop k (hist (proc w))"
      "steps (proc w') = steps (proc w)"
    using assms(1) p(1) unfolding proc_contract_def hist_def steps_def by blast+
  ultimately show ?thesis using HistoryOnly by (auto simp: source_turns_def hist_def [symmetric])
qed simp

text \<open>A stream processor on two lists, and an environment whose sampler answers once.\<close>

definition list_proc :: "('a list \<times> 'a list, 'a) compaction_stream_proc" where
  "list_proc =
     \<lparr>get_accumulated_turns = snd, get_history_turns = fst,
      replace_with_compaction = (\<lambda>(h, a) t n x.
        case t of
          Steps \<Rightarrow> if length a < n then (Inl (InvalidSplit n (length a)), (h, a)) else (Inr (), (h, x # drop n a))
        | History \<Rightarrow> if length h < n then (Inl (InvalidSplit n (length h)), (h, a)) else (Inr (), (x # drop n h, a))
        | WholeConversation \<Rightarrow> (Inr (), ([x], [])))\<rparr>"

lemma list_proc_contract: "proc_contract list_proc"
  by (auto simp: proc_contract_def list_proc_def split: compaction_target.splits if_splits)

definition once_env :: "intra_compaction_mode \<Rightarrow> (((compaction_role \<times> rstr) list \<times> (compaction_role \<times> rstr) list),
    compaction_role \<times> rstr) intra_env" where
  "once_env m =
     \<lparr>env_ops = sample_item_ops, env_counter = (\<lambda>_. 10), env_proc = list_proc,
      env_sampler = (\<lambda>n _ _. if n = 1 then Inr \<lparr>response = lit ''s'', thinking = []\<rparr> else Inl (SampleBuild [])),
      env_policy = default_intra_config\<lparr>mode := m, summarizer := Legacy, min_compactable_tokens := 5,
        max_reduction_ratio := PosInf, steps_trigger_ratio := NegInf\<rparr>\<rparr>"

definition once_trigger :: intra_compaction_trigger where
  "once_trigger = \<lparr>last_prompt_tokens = 40, context_window = 40, trigger_percent = 100, trigger_step = 3\<rparr>"

definition once_world :: "((compaction_role \<times> rstr) list \<times> (compaction_role \<times> rstr) list) world" where
  "once_world =
     \<lparr>proc = ([(Assistant, lit ''h''), (Assistant, lit ''h''), (Assistant, lit ''h'')], [(Assistant, lit ''a''), (Assistant, lit ''a''), (Assistant, lit ''a'')]), calls = 0, observed = []\<rparr>"

lemmas once_defs = once_env_def once_trigger_def once_world_def list_proc_def sample_item_ops_def
  default_intra_config_def

lemmas pass_eval = once_defs apply_intra_compaction_def apply_steps_compaction_def apply_history_compaction_def
  compact_one_pass_def source_turns_def select_turns_to_compact_def snap_to_safe_boundary_def is_tool_result_def
  percent_of_def sum_counts_def sat_add_def sample_compaction_with_retries_def guard_and_commit_def insufficient_def
  Let_def numeral_3_eq_3

lemma once_steps:
  "apply_intra_compaction (once_env StepsOnly) once_trigger None None once_world =
    (Inr \<lparr>tokens_before = 10, tokens_after = 10, turns_compacted = 1, result_summary = lit ''s''\<rparr>,
     \<lparr>proc = ([(Assistant, lit ''h''), (Assistant, lit ''h''), (Assistant, lit ''h'')],
             (Developer, lit ''s'') # [(Assistant, lit ''a''), (Assistant, lit ''a'')]), calls = 1,
      observed = [OnSuccess Steps 10 10 1]\<rparr>)"
  by (simp add: pass_eval)

theorem intra_success_effect_witness:
  "\<exists>k. pass_effect (once_env StepsOnly) once_trigger ([(Assistant, lit ''a''), (Assistant, lit ''a''), (Assistant, lit ''a'')]) k
     \<lparr>tokens_before = 10, tokens_after = 10, turns_compacted = 1, result_summary = lit ''s''\<rparr>
     ((Developer, lit ''s'') # [(Assistant, lit ''a''), (Assistant, lit ''a'')])"
proof -
  have c: "proc_contract (env_proc (once_env StepsOnly))" using list_proc_contract by (simp add: once_env_def)
  have m: "mode (env_policy (once_env StepsOnly)) = StepsOnly" by (simp add: once_env_def)
  show ?thesis
    using intra_success_effect [OF c once_steps] unfolding m intra_compaction_mode.case
    by (auto simp: once_world_def once_env_def list_proc_def)
qed




end
