(* ===== verification/ShellWords.thy ===== *)
theory ShellWords
  imports RustStrSearch "HOL-Library.Sublist"
begin

text \<open>
  Argument vectors of shell commands
  (\<open>xai-grok-workspace/src/permission/bash_command_splitting.rs\<close>, the part that works on the
  words of one command): the options of \<open>env\<close>, peeling of wrapper commands (\<open>timeout\<close>,
  \<open>nice\<close>, \<open>env\<close>, ...) and of the transparent prefixes (\<open>exec\<close>, \<open>command\<close>, \<open>builtin\<close>), and the
  bounded alternation of both. Indices into the argument vector are positions in the list of
  the words that remain; the loops are recursions on that list.
\<close>

type_synonym argv = "rstr list"

section \<open>Words\<close>

text \<open>\<open>w.rsplit(['/', '\\']).next()\<close>: the part after the last separator.\<close>

definition basename :: "rstr \<Rightarrow> rstr" where
  "basename w = rev (takeWhile (\<lambda>c. c \<noteq> 47 \<and> c \<noteq> 92) (rev w))"

definition head_name :: "argv \<Rightarrow> rstr option" where
  "head_name cmd = (case cmd of [] \<Rightarrow> None | w # _ \<Rightarrow> Some (basename w))"

definition dashed :: "rstr \<Rightarrow> bool" where
  "dashed w \<longleftrightarrow> starts_with (lit ''-'') w"

definition ddashed :: "rstr \<Rightarrow> bool" where
  "ddashed w \<longleftrightarrow> starts_with (lit ''--'') w"

definition one_of :: "rstr \<Rightarrow> string list \<Rightarrow> bool" where
  "one_of w ss \<longleftrightarrow> w \<in> set (map lit ss)"

definition is_ascii_alpha :: "rchar \<Rightarrow> bool" where
  "is_ascii_alpha c \<longleftrightarrow> 65 \<le> c \<and> c \<le> 90 \<or> 97 \<le> c \<and> c \<le> 122"

definition is_ascii_alnum :: "rchar \<Rightarrow> bool" where
  "is_ascii_alnum c \<longleftrightarrow> is_ascii_alpha c \<or> 48 \<le> c \<and> c \<le> 57"

definition is_setup_command :: "argv \<Rightarrow> bool" where
  "is_setup_command cmd =
     (case cmd of
        [] \<Rightarrow> True
      | w # _ \<Rightarrow> one_of w [''cd'', ''pushd'', ''popd'', ''export'', ''unset'', ''set'', ''sleep'', ''timeout''])"

definition is_env_assignment :: "rstr \<Rightarrow> bool" where
  "is_env_assignment tok =
     (if 61 \<notin> set tok then False
      else
        (let name = takeWhile (\<lambda>c. c \<noteq> 61) tok
         in case name of
              [] \<Rightarrow> False
            | c # _ \<Rightarrow> (is_ascii_alpha c \<or> c = 95) \<and> list_all (\<lambda>c. is_ascii_alnum c \<or> c = 95) name))"

section \<open>Spelling of options\<close>

text \<open>The characters 39 and 34 are the quotes, 92 is the backslash.\<close>

fun decode_loop :: "rchar option \<Rightarrow> rstr \<Rightarrow> rstr \<Rightarrow> rstr option" where
  "decode_loop q acc [] = (if q = None then Some acc else None)"
| "decode_loop q acc (c # cs) =
     (if q = None \<and> (c = 39 \<or> c = 34) then decode_loop (Some c) acc cs
      else if q = Some c then decode_loop None acc cs
      else if q = None \<and> c = 92 then
        (case cs of [] \<Rightarrow> None | n # cs \<Rightarrow> decode_loop q (acc @ [n]) cs)
      else if q = Some 34 \<and> c = 92 then
        (case cs of
           [] \<Rightarrow> None
         | n # cs \<Rightarrow>
             if n \<in> {36, 96, 34, 92, 10} then decode_loop q (acc @ [n]) cs
             else decode_loop q (acc @ [92, n]) cs)
      else decode_loop q (acc @ [c]) cs)"

definition decode_shell_literal_spelling :: "rstr \<Rightarrow> rstr option" where
  "decode_shell_literal_spelling raw = decode_loop None [] raw"

definition decode_env_option_token :: "rstr \<Rightarrow> rstr" where
  "decode_env_option_token raw =
     (if 39 \<notin> set raw \<and> 34 \<notin> set raw then raw
      else (case decode_shell_literal_spelling raw of Some d \<Rightarrow> d | None \<Rightarrow> raw))"

definition is_high_confidence_env_s_payload :: "rstr \<Rightarrow> bool" where
  "is_high_confidence_env_s_payload s \<longleftrightarrow>
     s \<noteq> [] \<and> 0 \<notin> set s \<and> \<not> list_ex (\<lambda>c. c \<in> {39, 34, 92, 35, 96, 36, 10, 13}) s"

definition take_high_confidence_payload :: "rstr \<Rightarrow> rstr option" where
  "take_high_confidence_payload raw = (if is_high_confidence_env_s_payload raw then Some raw else None)"

datatype env_short =
  SplitStringNext
| SplitStringGlued rstr
| SplitStringDetect
| NoArg
| ArgNeedNext rchar
| ArgGlued rchar
| Uncertain

text \<open>The walk over the letters of a short option token, behind the dash.\<close>

fun short_walk :: "rstr \<Rightarrow> env_short" where
  "short_walk [] = NoArg"
| "short_walk (c # cs) =
     (if c \<in> {105, 118, 48} then short_walk cs
      else if c = 83 then SplitStringDetect
      else if c \<in> {117, 67, 80, 97} then (if cs \<noteq> [] then ArgGlued c else ArgNeedNext c)
      else Uncertain)"

definition classify_env_short :: "rstr \<Rightarrow> env_short" where
  "classify_env_short tok =
     (if \<not> dashed tok \<or> ddashed tok \<or> tok = lit ''-'' then Uncertain
      else
        (let body = tl tok
         in if body = [] then Uncertain
            else
              (case strip_prefix (lit ''S'') body of
                 Some rest \<Rightarrow> if rest = [] then SplitStringNext else SplitStringGlued rest
               | None \<Rightarrow> short_walk body)))"

section \<open>The options of env\<close>

record env_scan_result =
  scan_chdir :: "rstr option"
  scan_split :: bool
  scan_uncertain :: bool
  scan_script :: "rstr option"
  command_start :: nat

definition high_confidence_head :: "argv \<Rightarrow> rstr option" where
  "high_confidence_head ws = (case ws of [] \<Rightarrow> None | w # _ \<Rightarrow> take_high_confidence_payload w)"

text \<open>
  One turn of the loop of \<open>env_scan\<close>, for the token at the index and the words behind it: the loop
  is left with the command at some offset from the index, or goes on one or two words further.
\<close>

datatype env_turn = EnvStop nat env_scan_result | EnvNext env_scan_result | EnvNextNext env_scan_result

definition env_uncertain :: "env_scan_result \<Rightarrow> env_turn" where
  "env_uncertain s = EnvStop 0 (s\<lparr>scan_uncertain := True\<rparr>)"

definition env_split :: "rstr option \<Rightarrow> env_scan_result \<Rightarrow> env_turn" where
  "env_split script s = EnvStop 0 (s\<lparr>scan_split := True, scan_script := script\<rparr>)"

definition env_operand :: "argv \<Rightarrow> (rstr \<Rightarrow> env_scan_result) \<Rightarrow> env_scan_result \<Rightarrow> env_turn" where
  "env_operand rest f s = (case rest of [] \<Rightarrow> env_uncertain s | v # _ \<Rightarrow> EnvNextNext (f v))"

definition split_string_payload :: "rstr \<Rightarrow> rstr" where
  "split_string_payload tok =
     (case strip_prefix (lit ''--split-string='') (decode_env_option_token tok) of
        Some p \<Rightarrow> p
      | None \<Rightarrow> drop (length (lit ''--split-string='')) tok)"

definition env_long :: "rstr \<Rightarrow> argv \<Rightarrow> env_scan_result \<Rightarrow> env_turn" where
  "env_long tok rest s =
     (if tok = lit ''--chdir'' then env_operand rest (\<lambda>dir. s\<lparr>scan_chdir := Some dir\<rparr>) s
      else if starts_with (lit ''--chdir='') tok then
        EnvNext (s\<lparr>scan_chdir := strip_prefix (lit ''--chdir='') tok\<rparr>)
      else if one_of tok [''--unset'', ''--path'', ''--argv0''] then env_operand rest (\<lambda>_. s) s
      else if starts_with (lit ''--unset='') tok \<or> starts_with (lit ''--path='') tok \<or>
              starts_with (lit ''--argv0='') tok then EnvNext s
      else if one_of tok [''--ignore-environment'', ''--null'', ''--debug'', ''--version'', ''--help''] then EnvNext s
      else if tok = lit ''--split-string'' then env_split (high_confidence_head rest) s
      else if starts_with (lit ''--split-string='') tok then
        env_split (take_high_confidence_payload (split_string_payload tok)) s
      else env_uncertain s)"

definition env_short_turn :: "rstr \<Rightarrow> argv \<Rightarrow> env_scan_result \<Rightarrow> env_turn" where
  "env_short_turn tok rest s =
     (case classify_env_short (decode_env_option_token tok) of
        SplitStringNext \<Rightarrow> env_split (high_confidence_head rest) s
      | SplitStringGlued payload \<Rightarrow> env_split (take_high_confidence_payload payload) s
      | SplitStringDetect \<Rightarrow> EnvStop 0 (s\<lparr>scan_split := True\<rparr>)
      | NoArg \<Rightarrow> EnvNext s
      | ArgNeedNext kind \<Rightarrow> env_operand rest (\<lambda>v. if kind = 67 then s\<lparr>scan_chdir := Some v\<rparr> else s) s
      | ArgGlued kind \<Rightarrow>
          EnvNext
            (if kind = 67
             then s\<lparr>scan_chdir := Some (case strip_prefix (lit ''-C'') tok of Some d \<Rightarrow> d | None \<Rightarrow> [])\<rparr>
             else s)
      | Uncertain \<Rightarrow> env_uncertain s)"

definition env_token :: "rstr \<Rightarrow> argv \<Rightarrow> env_scan_result \<Rightarrow> env_turn" where
  "env_token tok rest s =
     (if tok = lit ''--'' then EnvStop 1 s
      else if tok = lit ''-'' then EnvNext s
      else if \<not> dashed tok then if is_env_assignment tok then EnvNext s else EnvStop 0 s
      else if ddashed tok then env_long tok rest s
      else env_short_turn tok rest s)"

text \<open>The loop; \<open>i\<close> is the index of the first of the words that remain.\<close>

fun env_loop :: "nat \<Rightarrow> argv \<Rightarrow> env_scan_result \<Rightarrow> env_scan_result" where
  "env_loop i [] s = s\<lparr>command_start := i\<rparr>"
| "env_loop i (tok # rest) s =
     (case env_token tok rest s of
        EnvStop k s \<Rightarrow> s\<lparr>command_start := i + k\<rparr>
      | EnvNext s \<Rightarrow> env_loop (i + 1) rest s
      | EnvNextNext s \<Rightarrow> env_loop (i + 2) (tl rest) s)"

definition env_scan :: "argv \<Rightarrow> env_scan_result" where
  "env_scan cmd =
     env_loop 1 (tl cmd)
       \<lparr>scan_chdir = None, scan_split = False, scan_uncertain = False, scan_script = None, command_start = 1\<rparr>"

definition env_split_string_script :: "argv \<Rightarrow> rstr option" where
  "env_split_string_script ws =
     (if head_name ws \<noteq> Some (lit ''env'') then None
      else if \<not> scan_split (env_scan ws) then None
      else scan_script (env_scan ws))"

section \<open>Wrapper commands\<close>

text \<open>\<open>while i < cmd.len() && cmd[i].starts_with('-')\<close> with options that take a value.\<close>

fun skip_options :: "(rstr \<Rightarrow> bool) \<Rightarrow> argv \<Rightarrow> argv" where
  "skip_options takes_value [] = []"
| "skip_options takes_value (w # ws) =
     (if \<not> dashed w then w # ws
      else if takes_value w then (case ws of [] \<Rightarrow> [] | _ # ws \<Rightarrow> skip_options takes_value ws)
      else skip_options takes_value ws)"

definition some_words :: "argv \<Rightarrow> argv option" where
  "some_words ws = (if ws = [] then None else Some ws)"

definition strip_wrapper_command :: "argv \<Rightarrow> argv option" where
  "strip_wrapper_command cmd =
     (case cmd of
        [] \<Rightarrow> None
      | h # args \<Rightarrow>
          (let head = basename h
           in if head = lit ''timeout'' then
                some_words (tl (skip_options (\<lambda>w. one_of w [''-k'', ''-s'', ''--kill-after'', ''--signal'']) args))
              else if head = lit ''nice'' then
                some_words (skip_options (\<lambda>w. one_of w [''-n'', ''--adjustment'']) args)
              else if head = lit ''ionice'' then
                some_words (skip_options (\<lambda>w. one_of w [''-c'', ''-n'', ''-p'', ''-P'', ''-u'', ''--class'',
                  ''--classdata'', ''--pid'', ''--pgid'', ''--uid'']) args)
              else if head = lit ''chrt'' then some_words (tl (skip_options (\<lambda>_. False) args))
              else if head = lit ''stdbuf'' then
                some_words (skip_options (\<lambda>w. one_of w [''-i'', ''-o'', ''-e'']) args)
              else if head = lit ''env'' then
                (let scan = env_scan cmd
                 in if scan_split scan \<or> scan_uncertain scan then None
                    else some_words (drop (command_start scan) cmd))
              else None))"

definition is_wrapper_command :: "argv \<Rightarrow> bool" where
  "is_wrapper_command ws =
     (case head_name ws of
        None \<Rightarrow> False
      | Some h \<Rightarrow> one_of h [''timeout'', ''nice'', ''ionice'', ''chrt'', ''stdbuf'', ''env''])"

definition MAX_WRAPPER_DEPTH :: nat where "MAX_WRAPPER_DEPTH = 8"
definition MAX_INLINE_SHELL_DEPTH :: nat where "MAX_INLINE_SHELL_DEPTH = 8"

record wrapper_peel =
  peel_words :: argv
  peel_chdir :: bool
  peel_split :: bool
  peel_uncertain :: bool
  peel_exhausted :: bool

definition note_env :: "wrapper_peel \<Rightarrow> wrapper_peel" where
  "note_env p =
     (if head_name (peel_words p) = Some (lit ''env'')
      then (let scan = env_scan (peel_words p)
            in p\<lparr>peel_chdir := peel_chdir p \<or> scan_chdir scan \<noteq> None,
                 peel_split := peel_split p \<or> scan_split scan,
                 peel_uncertain := peel_uncertain p \<or> scan_uncertain scan\<rparr>)
      else p)"

fun unwrap_loop :: "nat \<Rightarrow> wrapper_peel \<Rightarrow> wrapper_peel" where
  "unwrap_loop 0 p =
     p\<lparr>peel_exhausted := is_wrapper_command (peel_words p) \<and> strip_wrapper_command (peel_words p) \<noteq> None\<rparr>"
| "unwrap_loop (Suc n) p =
     (let p = note_env p
      in case strip_wrapper_command (peel_words p) of
           Some inner \<Rightarrow> unwrap_loop n (p\<lparr>peel_words := inner\<rparr>)
         | None \<Rightarrow> p\<lparr>peel_exhausted := False\<rparr>)"

definition unwrap_wrappers_checked :: "argv \<Rightarrow> wrapper_peel" where
  "unwrap_wrappers_checked ws =
     unwrap_loop MAX_WRAPPER_DEPTH
       \<lparr>peel_words = ws, peel_chdir = False, peel_split = False, peel_uncertain = False, peel_exhausted = False\<rparr>"

definition unwrap_wrappers :: "argv \<Rightarrow> argv" where
  "unwrap_wrappers ws = peel_words (unwrap_wrappers_checked ws)"

section \<open>Transparent prefixes\<close>

datatype transparent_strip = NotPrefix | Peeled argv | Ambiguous

definition peeled_or_not :: "argv \<Rightarrow> transparent_strip" where
  "peeled_or_not ws = (if ws = [] then NotPrefix else Peeled ws)"

fun exec_loop :: "argv \<Rightarrow> transparent_strip" where
  "exec_loop [] = NotPrefix"
| "exec_loop (tok # rest) =
     (if tok = lit ''--'' then peeled_or_not rest
      else if tok = lit ''-'' \<or> \<not> dashed tok then Peeled (tok # rest)
      else if one_of tok [''-c'', ''-l'', ''-cl'', ''-lc''] then exec_loop rest
      else if tok = lit ''-a'' then
        (case rest of
           [] \<Rightarrow> Ambiguous
         | v # rest \<Rightarrow> if v \<noteq> [0] \<and> v \<noteq> [] then exec_loop rest else Ambiguous)
      else if starts_with (lit ''-a'') tok then
        if drop 2 tok = [0] then Ambiguous else exec_loop rest
      else if \<not> ddashed tok \<and> list_all (\<lambda>c. c = 99 \<or> c = 108) (tl tok) then exec_loop rest
      else Ambiguous)"

fun command_loop :: "argv \<Rightarrow> transparent_strip" where
  "command_loop [] = NotPrefix"
| "command_loop (tok # rest) =
     (if tok = lit ''--'' then peeled_or_not rest
      else if tok = lit ''-'' \<or> \<not> dashed tok then Peeled (tok # rest)
      else if one_of tok [''-v'', ''-V'', ''--help'', ''--version''] \<or>
              (\<not> ddashed tok \<and> list_ex (\<lambda>c. c = 118 \<or> c = 86) (tl tok)) then NotPrefix
      else if tok = lit ''-p'' \<or> (\<not> ddashed tok \<and> list_all (\<lambda>c. c = 112) (tl tok)) then command_loop rest
      else Ambiguous)"

definition strip_builtin_prefix :: "argv \<Rightarrow> transparent_strip" where
  "strip_builtin_prefix args =
     (case args of
        [] \<Rightarrow> NotPrefix
      | tok # _ \<Rightarrow> if dashed tok \<and> tok \<noteq> lit ''-'' then Ambiguous else Peeled args)"

definition strip_transparent_prefix :: "argv \<Rightarrow> transparent_strip" where
  "strip_transparent_prefix cmd =
     (case cmd of
        [] \<Rightarrow> NotPrefix
      | h # args \<Rightarrow>
          if h = [] \<or> h = [0] then NotPrefix
          else if basename h = lit ''exec'' then exec_loop args
          else if basename h = lit ''command'' then command_loop args
          else if basename h = lit ''builtin'' then strip_builtin_prefix args
          else NotPrefix)"

definition MAX_TRANSPARENT_PREFIX_DEPTH :: nat where "MAX_TRANSPARENT_PREFIX_DEPTH = 8"
definition MAX_NORMALIZE_ROUNDS :: nat where
  "MAX_NORMALIZE_ROUNDS = MAX_WRAPPER_DEPTH + MAX_TRANSPARENT_PREFIX_DEPTH"

text \<open>\<open>TransparentPrefixPeel\<close>: the words, or nothing when they are ambiguous.\<close>

fun peel_loop :: "nat \<Rightarrow> argv \<Rightarrow> argv option" where
  "peel_loop 0 ws = (if strip_transparent_prefix ws = NotPrefix then Some ws else None)"
| "peel_loop (Suc n) ws =
     (case strip_transparent_prefix ws of
        NotPrefix \<Rightarrow> Some ws
      | Peeled inner \<Rightarrow> peel_loop n inner
      | Ambiguous \<Rightarrow> None)"

definition peel_transparent_prefixes :: "argv \<Rightarrow> argv option" where
  "peel_transparent_prefixes ws = peel_loop MAX_TRANSPARENT_PREFIX_DEPTH ws"

section \<open>Normalization\<close>

record normalized =
  norm_words :: argv
  norm_chdir :: bool
  norm_split :: bool
  norm_uncertain :: bool
  norm_exhausted :: bool
  norm_ambiguous :: bool

text \<open>
  The rounds. The source compares the address and the length of the slices before and after a
  round; both are suffixes of one vector, so equal lengths mean equal slices.
\<close>

fun normalize_loop :: "nat \<Rightarrow> normalized \<Rightarrow> normalized" where
  "normalize_loop 0 n = n"
| "normalize_loop (Suc k) n =
     (let w = unwrap_wrappers_checked (norm_words n);
          n' = n\<lparr>norm_words := peel_words w,
                 norm_chdir := norm_chdir n \<or> peel_chdir w,
                 norm_split := norm_split n \<or> peel_split w,
                 norm_uncertain := norm_uncertain n \<or> peel_uncertain w,
                 norm_exhausted := norm_exhausted n \<or> peel_exhausted w\<rparr>
      in if norm_split n' \<or> norm_uncertain n' then n'
         else
           (case peel_transparent_prefixes (norm_words n') of
              None \<Rightarrow> n'\<lparr>norm_ambiguous := True\<rparr>
            | Some inner \<Rightarrow>
                if length inner = length (norm_words n) then n'\<lparr>norm_words := inner\<rparr>
                else normalize_loop k (n'\<lparr>norm_words := inner\<rparr>)))"

definition normalize_command_words :: "argv \<Rightarrow> normalized" where
  "normalize_command_words ws =
     (let n = normalize_loop MAX_NORMALIZE_ROUNDS
                \<lparr>norm_words = ws, norm_chdir = False, norm_split = False, norm_uncertain = False,
                 norm_exhausted = False, norm_ambiguous = False\<rparr>
      in if \<not> norm_ambiguous n \<and> \<not> norm_split n \<and> \<not> norm_uncertain n \<and>
            (is_wrapper_command (norm_words n) \<and> strip_wrapper_command (norm_words n) \<noteq> None \<or>
             strip_transparent_prefix (norm_words n) \<noteq> NotPrefix)
         then n\<lparr>norm_exhausted := True\<rparr> else n)"

section \<open>Specification: the peeling relation\<close>

text \<open>One layer is removed: the words that the wrapper or prefix in front would run.\<close>

inductive peel_step :: "argv \<Rightarrow> argv \<Rightarrow> bool" where
  wrapper: "strip_wrapper_command ws = Some inner \<Longrightarrow> peel_step ws inner"
| transparent: "strip_transparent_prefix ws = Peeled inner \<Longrightarrow> peel_step ws inner"

inductive_simps peel_step_iff: "peel_step ws inner"

abbreviation peels :: "argv \<Rightarrow> argv \<Rightarrow> bool" where
  "peels \<equiv> peel_step\<^sup>*\<^sup>*"

definition bare :: "argv \<Rightarrow> bool" where
  "bare ws \<longleftrightarrow> strip_wrapper_command ws = None \<and> strip_transparent_prefix ws = NotPrefix"

definition clean :: "normalized \<Rightarrow> bool" where
  "clean n \<longleftrightarrow> \<not> norm_split n \<and> \<not> norm_uncertain n \<and> \<not> norm_exhausted n \<and> \<not> norm_ambiguous n"

section \<open>Lemmas\<close>

lemma tl_suffix: "suffix xs ys \<Longrightarrow> suffix (tl xs) ys"
  by (cases xs) (auto dest: suffix_ConsD)

lemma skip_options_suffix: "suffix (skip_options f ws) ws"
  by (induction f ws rule: skip_options.induct) (auto simp: suffix_ConsI split: list.split)

lemma env_loop_start: "i \<le> command_start (env_loop i ws s)"
  by (induction i ws s rule: env_loop.induct) (auto split: env_turn.split)

lemma some_words_iff: "some_words ws = Some inner \<longleftrightarrow> ws = inner \<and> inner \<noteq> []"
  by (auto simp: some_words_def)

lemma strip_wrapper_suffix:
  assumes "strip_wrapper_command cmd = Some inner"
  shows "inner \<noteq> []" and "suffix inner (tl cmd)" and "is_wrapper_command cmd"
proof -
  obtain h args where cmd: "cmd = h # args" using assms by (cases cmd) (auto simp: strip_wrapper_command_def)
  obtain k where k: "command_start (env_scan cmd) = Suc k"
    using env_loop_start [of 1 "tl cmd"] unfolding env_scan_def by (metis One_nat_def Suc_le_D)
  show "inner \<noteq> []" "is_wrapper_command cmd"
    using assms
    by (auto simp: cmd strip_wrapper_command_def some_words_iff is_wrapper_command_def head_name_def one_of_def Let_def
        split: if_splits)
  show "suffix inner (tl cmd)"
    using assms k
    by (auto simp: cmd strip_wrapper_command_def some_words_iff Let_def suffix_drop
        split: if_splits intro: skip_options_suffix tl_suffix)
qed

lemma not_wrapper_strip: "\<not> is_wrapper_command cmd \<Longrightarrow> strip_wrapper_command cmd = None"
  using strip_wrapper_suffix(3) by (cases "strip_wrapper_command cmd") auto

lemma exec_loop_suffix: "exec_loop ws = Peeled inner \<Longrightarrow> suffix inner ws"
  by (induction ws rule: exec_loop.induct)
    (auto simp: peeled_or_not_def suffix_ConsI split: if_splits list.splits)

lemma command_loop_suffix: "command_loop ws = Peeled inner \<Longrightarrow> suffix inner ws"
  by (induction ws rule: command_loop.induct) (auto simp: peeled_or_not_def suffix_ConsI split: if_splits)

lemma strip_transparent_suffix: "strip_transparent_prefix cmd = Peeled inner \<Longrightarrow> suffix inner (tl cmd)"
  by (cases cmd)
    (auto simp: strip_transparent_prefix_def strip_builtin_prefix_def
      simp del: exec_loop.simps command_loop.simps split: if_splits list.splits
      dest: exec_loop_suffix command_loop_suffix)

lemma wrapper_not_transparent: "is_wrapper_command ws \<Longrightarrow> strip_transparent_prefix ws = NotPrefix"
  by (auto simp: is_wrapper_command_def head_name_def one_of_def strip_transparent_prefix_def str_simps
      split: list.splits)

lemma peel_step_deterministic: "peel_step ws a \<Longrightarrow> peel_step ws b \<Longrightarrow> a = b"
  using strip_wrapper_suffix(3) wrapper_not_transparent by (fastforce simp: peel_step_iff)

lemma peel_step_suffix: "peel_step ws inner \<Longrightarrow> suffix inner (tl ws) \<and> ws \<noteq> []"
  by (auto simp: peel_step_iff strip_wrapper_suffix(2) dest: strip_transparent_suffix)
    (auto simp: strip_wrapper_command_def strip_transparent_prefix_def)

lemma peels_suffix: "peels ws m \<Longrightarrow> suffix m ws"
proof (induction rule: rtranclp_induct)
  case (step y z)
  then show ?case
    using peel_step_suffix [of y z] by (meson suffix_order.trans suffix_tl)
qed simp

lemma bare_no_step: "bare ws \<Longrightarrow> \<not> peel_step ws inner"
  by (auto simp: bare_def peel_step_iff)

text \<open>The relation is deterministic, so the bare form is unique.\<close>

lemma peels_confluent: "peels ws a \<Longrightarrow> peels ws b \<Longrightarrow> bare b \<Longrightarrow> peels a b"
proof (induction rule: converse_rtranclp_induct)
  case (step y z)
  show ?case
  proof (cases "y = b")
    case True
    with step.hyps(1) step.prems(2) show ?thesis using bare_no_step by blast
  next
    case False
    with step.prems(1) obtain z' where "peel_step y z'" "peels z' b" by (metis converse_rtranclpE)
    with step show ?thesis using peel_step_deterministic by blast
  qed
qed

lemma peels_bare_unique: "peels ws a \<Longrightarrow> bare a \<Longrightarrow> peels ws b \<Longrightarrow> bare b \<Longrightarrow> a = b"
  using peels_confluent bare_no_step by (metis converse_rtranclpE)

lemma note_env_words [simp]: "peel_words (note_env p) = peel_words p"
  by (simp add: note_env_def Let_def)

lemma unwrap_loop_peels:
  "peels (peel_words p) (peel_words (unwrap_loop n p)) \<and>
   (\<not> peel_exhausted (unwrap_loop n p) \<longrightarrow> strip_wrapper_command (peel_words (unwrap_loop n p)) = None)"
proof (induction n arbitrary: p)
  case 0
  then show ?case using strip_wrapper_suffix(3) by fastforce
next
  case (Suc n)
  show ?case
  proof (cases "strip_wrapper_command (peel_words p)")
    case (Some inner)
    then have "peel_step (peel_words p) inner" by (rule peel_step.wrapper)
    with Suc [of "(note_env p)\<lparr>peel_words := inner\<rparr>"] Some show ?thesis
      by (auto simp: Let_def intro: converse_rtranclp_into_rtranclp)
  qed (simp add: Let_def)
qed

lemma unwrap_checked_peels:
  "peels ws (peel_words (unwrap_wrappers_checked ws))"
  "\<not> peel_exhausted (unwrap_wrappers_checked ws) \<Longrightarrow>
     strip_wrapper_command (peel_words (unwrap_wrappers_checked ws)) = None"
  using unwrap_loop_peels [of "\<lparr>peel_words = ws, peel_chdir = False, peel_split = False, peel_uncertain = False,
      peel_exhausted = False\<rparr>" MAX_WRAPPER_DEPTH]
  by (simp_all add: unwrap_wrappers_checked_def)

lemma peel_loop_peels: "peel_loop n ws = Some r \<Longrightarrow> peels ws r \<and> strip_transparent_prefix r = NotPrefix"
proof (induction n arbitrary: ws)
  case (Suc n)
  then show ?case
    by (auto split: transparent_strip.splits intro: peel_step.transparent converse_rtranclp_into_rtranclp)
qed (auto split: if_splits)

lemma peel_transparent_peels:
  "peel_transparent_prefixes ws = Some r \<Longrightarrow> peels ws r \<and> strip_transparent_prefix r = NotPrefix"
  unfolding peel_transparent_prefixes_def by (rule peel_loop_peels)

lemma normalize_loop_peels: "peels (norm_words n) (norm_words (normalize_loop k n))"
proof (induction k arbitrary: n)
  case (Suc k)
  let ?w = "peel_words (unwrap_wrappers_checked (norm_words n))"
  have u: "peels (norm_words n) ?w" by (rule unwrap_checked_peels)
  show ?case
  proof (cases "peel_transparent_prefixes ?w")
    case None
    with u show ?thesis by (simp add: Let_def)
  next
    case (Some inner)
    then have "peels (norm_words n) inner" using u peel_transparent_peels by (meson rtranclp_trans)
    with u Some show ?thesis
      by (auto simp: Let_def intro: rtranclp_trans [OF _ Suc])
  qed
qed simp

lemma normalize_peels: "peels ws (norm_words (normalize_command_words ws))"
  using normalize_loop_peels [of "\<lparr>norm_words = ws, norm_chdir = False, norm_split = False, norm_uncertain = False,
                 norm_exhausted = False, norm_ambiguous = False\<rparr>" MAX_NORMALIZE_ROUNDS]
  by (auto simp: normalize_command_words_def Let_def)

lemma normalize_clean_bare: "clean (normalize_command_words ws) \<Longrightarrow> bare (norm_words (normalize_command_words ws))"
  by (auto simp: not_wrapper_strip clean_def bare_def normalize_command_words_def Let_def split: if_splits)

section \<open>Properties\<close>

text \<open>Wrappers cannot hide a command. The normalization of an argument vector is reached by
  removing wrappers and prefixes one layer at a time, and is a suffix of the vector; when it raises none of
  its four alarms (split string, uncertain options, exhausted budget, ambiguous prefix)
  nothing is left to remove, and every other way of removing layers until nothing is left
  ends in the same words.\<close>

theorem normalize_reaches_bare:
  "peels ws (norm_words (normalize_command_words ws)) \<and>
   suffix (norm_words (normalize_command_words ws)) ws \<and>
   (clean (normalize_command_words ws) \<longrightarrow>
      bare (norm_words (normalize_command_words ws)) \<and>
      (peels ws other \<and> bare other \<longrightarrow> other = norm_words (normalize_command_words ws)))"
  using normalize_peels [of ws] normalize_clean_bare [of ws] peels_suffix peels_bare_unique by blast

theorem normalize_reaches_bare_witness:
  "norm_words (normalize_command_words (map lit [''timeout'', ''30'', ''nice'', ''-n'', ''10'', ''rm'', ''x''])) =
     map lit [''rm'', ''x''] \<and>
   bare (norm_words (normalize_command_words (map lit [''timeout'', ''30'', ''nice'', ''-n'', ''10'', ''rm'', ''x''])))"
proof -
  let ?ws = "map lit [''timeout'', ''30'', ''nice'', ''-n'', ''10'', ''rm'', ''x'']"
  have "clean (normalize_command_words ?ws)" "norm_words (normalize_command_words ?ws) = map lit [''rm'', ''x'']"
    by code_simp+
  then show ?thesis using normalize_reaches_bare [of ?ws "[]"] by blast
qed

end
