(* ===== verification/ExecRisk.thy ===== *)
theory ExecRisk
  imports ShellWords
begin

text \<open>
  The execution risk of a shell command (\<open>xai-grok-workspace/src/permission/exec_risk.rs\<close>):
  flags of \<open>git\<close> and \<open>sort\<close> that start programs, and the directories whose git configuration
  has to be looked at. What libgit2 and the file system report of a directory is a parameter
  (\<open>repo_view\<close>), as is libgit2's parser of booleans.
\<close>

section \<open>Normalization for the risk floor\<close>

text \<open>\<open>normalize_for_exec_risk\<close>; \<open>None\<close> is \<open>FailClosed\<close>. Slices are compared by length, they are
  suffixes of one vector.\<close>

definition exec_unwrap :: "argv \<Rightarrow> argv option" where
  "exec_unwrap ws =
     (let checked = unwrap_wrappers_checked ws
      in if peel_exhausted checked \<or> peel_split checked \<or> peel_chdir checked then None
         else Some (peel_words checked))"

primrec exec_normalize_loop :: "nat \<Rightarrow> argv \<Rightarrow> argv option" where
  "exec_normalize_loop 0 current = None"
| "exec_normalize_loop (Suc n) current =
     (case exec_unwrap current of
        None \<Rightarrow> None
      | Some after_wrap \<Rightarrow>
          (case peel_transparent_prefixes after_wrap of
             None \<Rightarrow> None
           | Some after_trans \<Rightarrow>
               if length after_trans = length current then Some after_trans
               else if length after_trans = length after_wrap then Some after_trans
               else exec_normalize_loop n after_trans))"

definition normalize_for_exec_risk :: "argv \<Rightarrow> argv option" where
  "normalize_for_exec_risk ws = exec_normalize_loop MAX_NORMALIZE_ROUNDS ws"

section \<open>Flags\<close>

definition before_eq :: "rstr \<Rightarrow> rstr" where
  "before_eq w = takeWhile (\<lambda>c. c \<noteq> 61) w"

definition is_accepted_long_option_prefix :: "rstr \<Rightarrow> string \<Rightarrow> nat \<Rightarrow> bool" where
  "is_accepted_long_option_prefix flag full min_len \<longleftrightarrow>
     ddashed flag \<and> min_len \<le> byte_len flag \<and> starts_with flag (lit full) \<and>
     list_all (\<lambda>c. is_ascii_alnum c \<or> c = 45) flag"

definition strip_exe :: "rstr \<Rightarrow> rstr" where
  "strip_exe name = (case strip_suffix (lit ''.exe'') name of Some stem \<Rightarrow> stem | None \<Rightarrow> name)"

definition normalized_token_basename :: "rstr \<Rightarrow> rstr" where
  "normalized_token_basename token = strip_exe (to_ascii_lowercase (basename token))"

definition normalized_program_name :: "argv \<Rightarrow> rstr option" where
  "normalized_program_name ws =
     (case ws of
        [] \<Rightarrow> None
      | raw # _ \<Rightarrow> if basename raw = [] then None else Some (normalized_token_basename raw))"

definition is_git_program :: "argv \<Rightarrow> bool" where
  "is_git_program ws \<longleftrightarrow> normalized_program_name ws = Some (lit ''git'')"

definition is_sort_program :: "argv \<Rightarrow> bool" where
  "is_sort_program ws \<longleftrightarrow> normalized_program_name ws = Some (lit ''sort'')"

definition is_compress_program_flag :: "rstr \<Rightarrow> bool" where
  "is_compress_program_flag w \<longleftrightarrow>
     w = lit ''--compress-program'' \<or> starts_with (lit ''--compress-program='') w \<or>
     is_accepted_long_option_prefix (before_eq w) ''--compress-program'' 4"

definition sort_has_compress_program_flag :: "argv \<Rightarrow> bool" where
  "sort_has_compress_program_flag ws =
     list_ex is_compress_program_flag (takeWhile (\<lambda>w. w \<noteq> lit ''--'') (tl ws))"

definition is_git_config_env_flag :: "rstr \<Rightarrow> bool" where
  "is_git_config_env_flag tok \<longleftrightarrow>
     tok = lit ''--config-env'' \<or> starts_with (lit ''--config-env='') tok \<or>
     is_accepted_long_option_prefix (before_eq tok) ''--config-env'' 4"

definition is_git_repo_retarget_flag :: "rstr \<Rightarrow> bool" where
  "is_git_repo_retarget_flag tok \<longleftrightarrow>
     tok = lit ''--git-dir'' \<or> starts_with (lit ''--git-dir='') tok \<or>
     tok = lit ''--work-tree'' \<or> starts_with (lit ''--work-tree='') tok \<or>
     is_accepted_long_option_prefix (before_eq tok) ''--git-dir'' 4 \<or>
     is_accepted_long_option_prefix (before_eq tok) ''--work-tree'' 4"

definition is_attached_git_config_c :: "rstr \<Rightarrow> bool" where
  "is_attached_git_config_c tok \<longleftrightarrow> starts_with (lit ''-c'') tok \<and> 2 < byte_len tok \<and> \<not> ddashed tok"

definition attached_git_c_path :: "rstr \<Rightarrow> rstr option" where
  "attached_git_c_path tok =
     (case strip_prefix (lit ''-C'') tok of
        None \<Rightarrow> None
      | Some rest \<Rightarrow> if rest \<noteq> [] \<and> \<not> ddashed tok then Some rest else None)"

definition git_global_option_takes_value :: "rstr \<Rightarrow> bool" where
  "git_global_option_takes_value tok \<longleftrightarrow>
     one_of tok [''-C'', ''-c'', ''--git-dir'', ''--work-tree'', ''--namespace'', ''--super-prefix'', ''--exec-path'',
       ''--list-cmds'', ''--attr-source'', ''--config-env''] \<or>
     is_accepted_long_option_prefix tok ''--config-env'' 4 \<or>
     is_accepted_long_option_prefix tok ''--git-dir'' 4 \<or>
     is_accepted_long_option_prefix tok ''--work-tree'' 4 \<or>
     is_accepted_long_option_prefix tok ''--namespace'' 7 \<or>
     is_accepted_long_option_prefix tok ''--super-prefix'' 8 \<or>
     is_accepted_long_option_prefix tok ''--exec-path'' 7 \<or>
     is_accepted_long_option_prefix tok ''--list-cmds'' 7 \<or>
     is_accepted_long_option_prefix tok ''--attr-source'' 8"

text \<open>The step over an option in front of the subcommand, shared by the two scans below: the value of
  an option that takes one is skipped too.\<close>

definition skip_global_value :: "rstr \<Rightarrow> argv \<Rightarrow> argv" where
  "skip_global_value tok rest =
     (if 61 \<notin> set tok \<and> git_global_option_takes_value tok then
        (case rest of
           [] \<Rightarrow> []
         | n # rest' \<Rightarrow> if \<not> dashed n \<or> n = lit ''-'' then rest' else rest)
      else rest)"

lemma skip_global_value_length [termination_simp]: "length (skip_global_value tok rest) < Suc (length rest)"
  by (cases rest) (auto simp: skip_global_value_def)

definition is_risk_global :: "rstr \<Rightarrow> bool" where
  "is_risk_global tok \<longleftrightarrow>
     tok = lit ''-c'' \<or> is_attached_git_config_c tok \<or> is_git_config_env_flag tok \<or> is_git_repo_retarget_flag tok"

fun git_risk_loop :: "argv \<Rightarrow> bool" where
  "git_risk_loop [] = False"
| "git_risk_loop (tok # rest) =
     (if tok = lit ''--'' then False
      else if \<not> dashed tok \<or> tok = lit ''-'' then False
      else if is_risk_global tok then True
      else if attached_git_c_path tok \<noteq> None then git_risk_loop rest
      else git_risk_loop (skip_global_value tok rest))"

definition git_has_exec_risk_global :: "argv \<Rightarrow> bool" where
  "git_has_exec_risk_global ws = git_risk_loop (tl ws)"

definition segment_has_exec_risk_flag :: "argv \<Rightarrow> bool" where
  "segment_has_exec_risk_flag ws =
     (if is_sort_program ws then sort_has_compress_program_flag ws
      else if is_git_program ws then git_has_exec_risk_global ws
      else False)"

record segment_exec_facts =
  fact_exec_risk :: bool
  fact_has_git :: bool

definition exec_facts :: "argv \<Rightarrow> segment_exec_facts" where
  "exec_facts ws =
     (case normalize_for_exec_risk ws of
        None \<Rightarrow> \<lparr>fact_exec_risk = True, fact_has_git = False\<rparr>
      | Some inner \<Rightarrow> \<lparr>fact_exec_risk = segment_has_exec_risk_flag inner, fact_has_git = is_git_program inner\<rparr>)"

section \<open>Configuration of a repository\<close>

definition SAFE_GIT_SUBCOMMANDS :: "string list" where
  "SAFE_GIT_SUBCOMMANDS = [''status'', ''branch'', ''log'', ''diff'', ''ls-files'', ''show'', ''rev-parse'']"

definition local_git_config_entry_is_exec :: "(rstr \<Rightarrow> bool option) \<Rightarrow> rstr \<Rightarrow> rstr \<Rightarrow> bool" where
  "local_git_config_entry_is_exec parse_bool name value =
     (let name = to_ascii_lowercase name; value = trim value
      in if value = [] then False
         else if name = lit ''core.fsmonitor'' then parse_bool value = None
         else if name = lit ''diff.external'' then True
         else
           (case strip_prefix (lit ''diff.'') name of
              Some rest \<Rightarrow> ends_with (lit ''.command'') rest \<or> ends_with (lit ''.textconv'') rest \<or>
                           ends_with (lit ''.external'') rest
            | None \<Rightarrow> False) \<or>
           (case strip_prefix (lit ''alias.'') name of
              Some alias \<Rightarrow> one_of alias SAFE_GIT_SUBCOMMANDS \<and> starts_with (lit ''!'') value
            | None \<Rightarrow> False))"

datatype config_level = LevelLocal | LevelWorktree | LevelOther

record config_entry =
  entry_level :: config_level
  entry_name :: "rstr option"
  entry_value :: "rstr option"

text \<open>What \<open>Repository::discover\<close> and the queries after it report. Of a repository: whether one of
  the three configuration files is unreadable, and its entries, where the configuration, the
  list of entries and each entry can be an error.\<close>

datatype repo_view =
  RepoNotFound
| RepoError
| RepoFound bool "config_entry option list option"

fun entries_loop :: "(rstr \<Rightarrow> bool option) \<Rightarrow> config_entry option list \<Rightarrow> bool" where
  "entries_loop parse_bool [] = False"
| "entries_loop parse_bool (None # es) = True"
| "entries_loop parse_bool (Some e # es) =
     (if entry_level e = LevelOther then entries_loop parse_bool es
      else if local_git_config_entry_is_exec parse_bool
                (case entry_name e of Some n \<Rightarrow> n | None \<Rightarrow> [])
                (case entry_value e of Some v \<Rightarrow> v | None \<Rightarrow> []) then True
      else entries_loop parse_bool es)"

fun local_repo_config_has_exec_risk :: "(rstr \<Rightarrow> bool option) \<Rightarrow> repo_view \<Rightarrow> bool" where
  "local_repo_config_has_exec_risk parse_bool RepoNotFound = False"
| "local_repo_config_has_exec_risk parse_bool RepoError = True"
| "local_repo_config_has_exec_risk parse_bool (RepoFound unreadable config) =
     (if unreadable then True
      else (case config of None \<Rightarrow> True | Some entries \<Rightarrow> entries_loop parse_bool entries))"

section \<open>Directories to scan\<close>

definition is_static_path_operand :: "rstr \<Rightarrow> bool" where
  "is_static_path_operand p \<longleftrightarrow>
     p \<noteq> [] \<and> p \<noteq> lit ''-'' \<and> \<not> dashed p \<and> 36 \<notin> set p \<and> 96 \<notin> set p"

text \<open>The loop of \<open>apply_literal_chdir\<close>: the target, if there is exactly one operand and no option.\<close>

fun chdir_loop :: "rstr option \<Rightarrow> argv \<Rightarrow> rstr option" where
  "chdir_loop target [] = target"
| "chdir_loop target (tok # rest) =
     (if tok = lit ''--'' then (case rest of [] \<Rightarrow> None | t # _ \<Rightarrow> Some t)
      else if dashed tok then None
      else if target \<noteq> None then None
      else chdir_loop (Some tok) rest)"

definition apply_literal_chdir :: "path \<Rightarrow> argv \<Rightarrow> path option" where
  "apply_literal_chdir cwd ws =
     (case chdir_loop None (tl ws) of
        None \<Rightarrow> None
      | Some target \<Rightarrow> if is_static_path_operand target then Some (path_join cwd target) else None)"

fun git_cwd_loop :: "path \<Rightarrow> argv \<Rightarrow> path option" where
  "git_cwd_loop cwd [] = Some cwd"
| "git_cwd_loop cwd (tok # rest) =
     (if tok = lit ''--'' \<or> \<not> dashed tok \<or> tok = lit ''-'' then Some cwd
      else if is_git_repo_retarget_flag tok then None
      else if tok = lit ''-C'' then
        (case rest of
           [] \<Rightarrow> None
         | p # rest \<Rightarrow> if is_static_path_operand p then git_cwd_loop (path_join cwd p) rest else None)
      else
        (case attached_git_c_path tok of
           Some p \<Rightarrow> if is_static_path_operand p then git_cwd_loop (path_join cwd p) rest else None
         | None \<Rightarrow> git_cwd_loop cwd (skip_global_value tok rest)))"

definition git_effective_cwd :: "argv \<Rightarrow> path \<Rightarrow> path option" where
  "git_effective_cwd ws start_cwd = git_cwd_loop start_cwd (tl ws)"

datatype ambient_scan_plan = FailClosed | CheckDirs "path list"

fun ambient_loop :: "path \<Rightarrow> path list \<Rightarrow> argv list \<Rightarrow> ambient_scan_plan" where
  "ambient_loop cwd git_cwds [] = (if git_cwds = [] then FailClosed else CheckDirs git_cwds)"
| "ambient_loop cwd git_cwds (raw # segments) =
     (case normalize_for_exec_risk raw of
        None \<Rightarrow> FailClosed
      | Some ws \<Rightarrow>
          if normalized_program_name ws = Some (lit ''cd'') \<or> normalized_program_name ws = Some (lit ''pushd'') then
            (case apply_literal_chdir cwd ws of
               Some next \<Rightarrow> ambient_loop next git_cwds segments
             | None \<Rightarrow> FailClosed)
          else if normalized_program_name ws = Some (lit ''popd'') then FailClosed
          else if is_git_program ws then
            (case git_effective_cwd ws cwd of
               Some effective \<Rightarrow> ambient_loop cwd (git_cwds @ [effective]) segments
             | None \<Rightarrow> FailClosed)
          else ambient_loop cwd git_cwds segments)"

definition ambient_scan_plan_from_segments :: "argv list \<Rightarrow> path \<Rightarrow> ambient_scan_plan" where
  "ambient_scan_plan_from_segments raw_segments session_cwd = ambient_loop session_cwd [] raw_segments"

fun ambient_exec_risk_from_plan :: "(rstr \<Rightarrow> bool option) \<Rightarrow> (path \<Rightarrow> repo_view) \<Rightarrow> ambient_scan_plan \<Rightarrow> bool" where
  "ambient_exec_risk_from_plan parse_bool view FailClosed = True"
| "ambient_exec_risk_from_plan parse_bool view (CheckDirs dirs) =
     list_ex (\<lambda>c. local_repo_config_has_exec_risk parse_bool (view c)) dirs"

text \<open>The probe for scripts that cannot be decomposed: \<open>split\<close> at blanks and shell punctuation, and
  \<open>trim_matches\<close> of quotes.\<close>

definition is_token_separator :: "rchar \<Rightarrow> bool" where
  "is_token_separator c \<longleftrightarrow> is_whitespace c \<or> c \<in> set (lit ''|&;()<>'') \<or> c = 96 \<or> c = 10"

fun split_where :: "(rchar \<Rightarrow> bool) \<Rightarrow> rstr \<Rightarrow> rstr list" where
  "split_where sep [] = [[]]"
| "split_where sep (c # s) =
     (if sep c then [] # split_where sep s
      else (case split_where sep s of [] \<Rightarrow> [[c]] | w # ws \<Rightarrow> (c # w) # ws))"

definition trim_quotes :: "rstr \<Rightarrow> rstr" where
  "trim_quotes s =
     (let q = (\<lambda>c. c \<in> {39, 34, 96}) in rev (dropWhile q (rev (dropWhile q s))))"

definition script_may_invoke_git :: "rstr \<Rightarrow> bool" where
  "script_may_invoke_git cmd =
     list_ex (\<lambda>t. trim_quotes t \<noteq> [] \<and> normalized_token_basename (trim_quotes t) = lit ''git'')
       (split_where is_token_separator cmd)"

section \<open>Lemmas\<close>

lemma exec_unwrap_peels:
  assumes "exec_unwrap ws = Some r"
  shows "peels ws r" and "strip_wrapper_command r = None"
  using assms unwrap_checked_peels [of ws] by (auto simp: exec_unwrap_def Let_def split: if_splits)

lemma exec_normalize_loop_bare: "exec_normalize_loop n ws = Some r \<Longrightarrow> peels ws r \<and> bare r"
proof (induction n arbitrary: ws)
  case (Suc n)
  then obtain w t where w: "exec_unwrap ws = Some w" and t: "peel_transparent_prefixes w = Some t"
    by (auto split: option.splits)
  have wt: "peels ws w" "strip_wrapper_command w = None" "peels w t" "strip_transparent_prefix t = NotPrefix"
    using exec_unwrap_peels [OF w] peel_transparent_peels [OF t] by auto
  then have "peels ws t" by auto
  show ?case
  proof (cases "length t = length ws \<or> length t = length w")
    case True
    with Suc.prems w t have r: "r = t" by (auto split: if_splits)
    have "suffix t w" "suffix w ws" using wt peels_suffix by auto
    with True have "t = w" by (auto simp: suffix_def)
    with wt r \<open>peels ws t\<close> show ?thesis by (simp add: bare_def)
  next
    case False
    with Suc.prems w t have "exec_normalize_loop n t = Some r" by simp
    with Suc.IH \<open>peels ws t\<close> show ?thesis by (meson rtranclp_trans)
  qed
qed simp

text \<open>The directory a script is in behind some of its segments.\<close>

definition dir_step :: "path \<Rightarrow> argv \<Rightarrow> path" where
  "dir_step cwd raw =
     (case normalize_for_exec_risk raw of
        Some ws \<Rightarrow>
          if normalized_program_name ws \<in> {Some (lit ''cd''), Some (lit ''pushd'')}
          then (case apply_literal_chdir cwd ws of Some d \<Rightarrow> d | None \<Rightarrow> cwd) else cwd
      | None \<Rightarrow> cwd)"

lemma git_not_cd:
  "is_git_program ws \<Longrightarrow> normalized_program_name ws \<noteq> Some (lit ''cd'') \<and> normalized_program_name ws \<noteq> Some (lit ''pushd'') \<and>
     normalized_program_name ws \<noteq> Some (lit ''popd'')"
  by (simp add: is_git_program_def str_simps)

lemma ambient_loop_keeps: "ambient_loop cwd acc segs = CheckDirs dirs \<Longrightarrow> set acc \<subseteq> set dirs \<and> dirs \<noteq> []"
  by (induction cwd acc segs rule: ambient_loop.induct) (auto split: option.splits if_splits)

lemma ambient_loop_covers:
  "ambient_loop cwd acc (pre @ raw # post) = CheckDirs dirs \<Longrightarrow>
     \<exists>ws. normalize_for_exec_risk raw = Some ws \<and>
       (is_git_program ws \<longrightarrow> (\<exists>d \<in> set dirs. git_effective_cwd ws (foldl dir_step cwd pre) = Some d))"
proof (induction pre arbitrary: cwd acc)
  case Nil
  then show ?case
    by (auto split: option.splits if_splits dest: ambient_loop_keeps git_not_cd)
next
  case (Cons p pre)
  then obtain ws where ws: "normalize_for_exec_risk p = Some ws" by (auto split: option.splits)
  from Cons.prems have "\<exists>acc. ambient_loop (dir_step cwd p) acc (pre @ raw # post) = CheckDirs dirs"
    by (auto simp: dir_step_def ws split: option.splits if_splits)
  with Cons.IH show ?case by auto
qed

section \<open>Properties\<close>

text \<open>Wrappers cannot hide a risky flag. When the facts of a segment report no execution risk,
  then for the command that is left when every wrapper and prefix is removed, however that is
  done, no risky flag is present, and the segment is reported to run \<open>git\<close> exactly when that
  command does.\<close>

theorem exec_facts_see_through:
  assumes "\<not> fact_exec_risk (exec_facts ws)" and "peels ws r" and "bare r"
  shows "\<not> segment_has_exec_risk_flag r \<and> (fact_has_git (exec_facts ws) \<longleftrightarrow> is_git_program r)"
proof -
  obtain inner where inner: "normalize_for_exec_risk ws = Some inner"
    using assms(1) by (auto simp: exec_facts_def split: option.splits)
  then have "inner = r"
    using exec_normalize_loop_bare assms(2,3) peels_bare_unique unfolding normalize_for_exec_risk_def by blast
  with assms(1) inner show ?thesis by (simp add: exec_facts_def)
qed

theorem exec_facts_see_through_witness:
  "\<not> segment_has_exec_risk_flag (map lit [''git'', ''status'']) \<and>
   fact_has_git (exec_facts (map lit [''command'', ''git'', ''status'']))"
proof -
  have "peel_step (map lit [''command'', ''git'', ''status'']) (map lit [''git'', ''status''])"
    by (rule peel_step.transparent) code_simp
  moreover have "\<not> fact_exec_risk (exec_facts (map lit [''command'', ''git'', ''status'']))"
    "bare (map lit [''git'', ''status''])" "is_git_program (map lit [''git'', ''status''])"
    by code_simp+
  ultimately show ?thesis
    using exec_facts_see_through [of "map lit [''command'', ''git'', ''status'']" "map lit [''git'', ''status'']"] by blast
qed

text \<open>Every \<open>git\<close> command of a script is scanned where it will run. When a script gets a list of
  directories to scan, each of its segments could be normalized, and for each that runs \<open>git\<close>
  the list has the directory that results from the directory changes in front of it and from
  its own \<open>-C\<close> options.\<close>

theorem ambient_plan_covers_git:
  assumes "ambient_scan_plan_from_segments (pre @ raw # post) cwd = CheckDirs dirs"
  shows "\<exists>ws. normalize_for_exec_risk raw = Some ws \<and>
           (is_git_program ws \<longrightarrow> (\<exists>d \<in> set dirs. git_effective_cwd ws (foldl dir_step cwd pre) = Some d))"
  using assms unfolding ambient_scan_plan_from_segments_def by (rule ambient_loop_covers)

theorem ambient_plan_covers_git_witness:
  "\<exists>d \<in> set [lit ''/w/a/b'']. git_effective_cwd (map lit [''git'', ''-C'', ''b'', ''status'']) (lit ''/w/a'') = Some d"
proof -
  let ?git = "map lit [''git'', ''-C'', ''b'', ''status'']"
  have p: "ambient_scan_plan_from_segments ([map lit [''cd'', ''a'']] @ ?git # []) (lit ''/w'') = CheckDirs [lit ''/w/a/b'']"
    by code_simp
  have n: "normalize_for_exec_risk ?git = Some ?git" by code_simp
  have g: "is_git_program ?git" by code_simp
  have d: "foldl dir_step (lit ''/w'') [map lit [''cd'', ''a'']] = lit ''/w/a''" by code_simp
  show ?thesis
    using ambient_plan_covers_git [OF p] unfolding n d option.inject using g by blast
qed

text \<open>Options of \<open>env\<close> that are not modelled hide the command from the risk floor. A \<open>git -c\<close> that
  sets the file-system monitor is found behind \<open>command env\<close>; with \<open>--default-signal\<close>, an
  option of \<open>env\<close> that the scan marks as uncertain, the same command has neither risk nor \<open>git\<close>.\<close>

theorem uncertain_env_hides_git:
  "exec_facts (map lit [''command'', ''env'', ''git'', ''-c'', ''core.fsmonitor=/tmp/x'', ''status'']) =
     \<lparr>fact_exec_risk = True, fact_has_git = True\<rparr> \<and>
   exec_facts (map lit [''command'', ''env'', ''--default-signal'', ''git'', ''-c'', ''core.fsmonitor=/tmp/x'', ''status'']) =
     \<lparr>fact_exec_risk = False, fact_has_git = False\<rparr> \<and>
   scan_uncertain (env_scan (map lit [''env'', ''--default-signal'', ''git'', ''-c'', ''core.fsmonitor=/tmp/x'', ''status'']))"
proof (intro conjI)
  show "exec_facts (map lit [''command'', ''env'', ''git'', ''-c'', ''core.fsmonitor=/tmp/x'', ''status'']) =
     \<lparr>fact_exec_risk = True, fact_has_git = True\<rparr>" by code_simp
  show "exec_facts (map lit [''command'', ''env'', ''--default-signal'', ''git'', ''-c'', ''core.fsmonitor=/tmp/x'', ''status'']) =
     \<lparr>fact_exec_risk = False, fact_has_git = False\<rparr>" by code_simp
  show "scan_uncertain (env_scan (map lit [''env'', ''--default-signal'', ''git'', ''-c'', ''core.fsmonitor=/tmp/x'', ''status'']))"
    by code_simp
qed

end
