(* ===== verification/ShellTree.thy ===== *)
theory ShellTree
  imports ShellWords
begin

text \<open>
  Syntax trees of shell scripts
  (\<open>xai-grok-workspace/src/permission/bash_command_splitting.rs\<close> and \<open>shell_access.rs\<close>). The parser is
  the bash grammar of tree-sitter, a library outside the repository; what the code uses of a
  tree is the data of a node: its kind, whether it is named, the field it fills in its
  parent, its byte range, its text and its children. This theory has the walks over a tree: the
  decomposition of a script into plain commands, the words of each invocation, the redirects, the
  changes of directory, and the execution scopes.
\<close>

section \<open>Nodes and walks\<close>

datatype node =
  Node (kind: string) (is_named: bool) (field: "string option") (start_byte: nat) (end_byte: nat)
    (utf8_text: "rstr option") (children: "node list")

record shell_tree =
  root_node :: node
  has_error :: bool

text \<open>A node with what \<open>parent\<close> and \<open>next_sibling\<close> give, from the inside out.\<close>

type_synonym located = "node \<times> (node option \<times> node) list"

definition located_children :: "located \<Rightarrow> located list" where
  "located_children x =
     (let cs = children (fst x)
      in map (\<lambda>(c, next). (c, (next, fst x) # snd x)) (zip cs (map Some (tl cs) @ [None])))"

lemma located_children_nodes: "map fst (located_children x) = children (fst x)"
  by (cases "children (fst x)") (simp_all add: located_children_def Let_def case_prod_beta' o_def)

text \<open>\<open>while let Some(node) = stack.pop()\<close>, pushing the children; the head of the list is the top of the
  stack. The first form gives the nodes, the second has their surroundings too.\<close>

lemma children_size: "sum_list (map size (children n)) < size n"
proof -
  have "sum_list (map size cs) \<le> size_list size cs" for cs :: "node list" by (induction cs) auto
  from this [of "children n"] show ?thesis by (cases n) simp
qed

function visit :: "node list \<Rightarrow> node list" where
  "visit [] = []"
| "visit (n # stack) = n # visit (rev (children n) @ stack)"
  by pat_completeness auto
termination
proof (relation "measure (\<lambda>stack. sum_list (map size stack))")
  fix n stack
  show "(rev (children n) @ stack, n # stack) \<in> measure (\<lambda>stack. sum_list (map size stack))"
    using children_size [of n] by (simp add: rev_map [symmetric] sum_list_rev)
qed simp

function walk :: "located list \<Rightarrow> located list" where
  "walk [] = []"
| "walk (x # stack) = x # walk (rev (located_children x) @ stack)"
  by pat_completeness auto
termination
proof (relation "measure (\<lambda>stack. sum_list (map (\<lambda>y. size (fst y)) stack))")
  fix x :: located and stack
  have "map (\<lambda>y. size (fst y)) (located_children x) = map size (children (fst x))"
    unfolding located_children_nodes [symmetric] by simp
  then show "(rev (located_children x) @ stack, x # stack) \<in> measure (\<lambda>stack. sum_list (map (\<lambda>y. size (fst y)) stack))"
    using children_size [of "fst x"] by (simp add: rev_map [symmetric] sum_list_rev)
qed simp

definition visit_tree :: "shell_tree \<Rightarrow> node list" where
  "visit_tree tree = visit [root_node tree]"

definition walk_tree :: "shell_tree \<Rightarrow> located list" where
  "walk_tree tree = walk [(root_node tree, [])]"

definition named_children :: "node \<Rightarrow> node list" where
  "named_children n = filter is_named (children n)"

definition child_by_field_name :: "string \<Rightarrow> node \<Rightarrow> node option" where
  "child_by_field_name f n = find (\<lambda>c. field c = Some f) (children n)"

section \<open>Plain commands\<close>

record plain_command =
  plain_words :: argv
  span_start :: "nat option"
  span_end :: "nat option"

definition ALLOWED_KINDS :: "string list" where
  "ALLOWED_KINDS =
     [''program'', ''list'', ''pipeline'', ''command'', ''command_name'', ''word'', ''string'', ''string_content'',
      ''raw_string'', ''number'', ''concatenation'', ''variable_assignment'', ''variable_name'',
      ''redirected_statement'', ''file_redirect'', ''file_descriptor'', ''comment'', ''heredoc_redirect'',
      ''heredoc_start'', ''heredoc_body'', ''heredoc_content'', ''heredoc_end'']"

text \<open>The character 34 is the double quote, 39 the single one.\<close>

definition dquote :: string where "dquote = [CHR 0x22]"
definition squote :: string where "squote = [CHR 0x27]"

definition ALLOWED_PUNCT_TOKENS :: "string list" where
  "ALLOWED_PUNCT_TOKENS =
     [''&&'', ''||'', '';'', ''|'', dquote, squote, ''='', ''>'', ''>>'', ''<'', ''<<'', ''>&'', ''&>'', ''&>>'']"

definition node_allowed :: "node \<Rightarrow> bool" where
  "node_allowed n =
     (if is_named n then kind n \<in> set ALLOWED_KINDS
      else if list_ex (\<lambda>c. c \<in> set ''&;|'') (kind n) \<and> kind n \<notin> set ALLOWED_PUNCT_TOKENS then False
      else kind n \<in> set ALLOWED_PUNCT_TOKENS \<or> trim (lit (kind n)) = [])"

definition push_word :: "node \<Rightarrow> rstr \<Rightarrow> plain_command \<Rightarrow> plain_command" where
  "push_word n w c =
     c\<lparr>plain_words := plain_words c @ [w],
       span_start := (case span_start c of None \<Rightarrow> Some (start_byte n) | s \<Rightarrow> s),
       span_end := Some (end_byte n)\<rparr>"

definition unquote :: "string \<Rightarrow> rstr \<Rightarrow> rstr option" where
  "unquote q raw = (case strip_prefix (lit q) raw of None \<Rightarrow> None | Some s \<Rightarrow> strip_suffix (lit q) s)"

text \<open>The word of one child of a command, with the node whose range it has; \<open>Some None\<close> skips the
  child.\<close>

definition plain_word :: "node \<Rightarrow> (node \<times> rstr) option option" where
  "plain_word child =
     (if kind child = ''variable_assignment'' then Some None
      else if kind child = ''command_name'' then
        (case named_children child of
           w # _ \<Rightarrow> if kind w \<noteq> ''word'' then None else map_option (\<lambda>t. Some (w, t)) (utf8_text w)
         | [] \<Rightarrow> None)
      else if kind child \<in> {''word'', ''number'', ''concatenation''} then
        map_option (\<lambda>t. Some (child, t)) (utf8_text child)
      else if kind child = ''string'' then
        (case children child of
           [a, b, c] \<Rightarrow>
             if kind a = dquote \<and> kind b = ''string_content'' \<and> kind c = dquote
             then map_option (\<lambda>t. Some (child, t)) (utf8_text b) else None
         | _ \<Rightarrow> None)
      else if kind child = ''raw_string'' then
        (case utf8_text child of
           None \<Rightarrow> None
         | Some raw \<Rightarrow> map_option (\<lambda>t. Some (child, t)) (unquote squote raw))
      else None)"

fun plain_loop :: "node list \<Rightarrow> plain_command \<Rightarrow> plain_command option" where
  "plain_loop [] c = Some c"
| "plain_loop (n # ns) c =
     (case plain_word n of
        None \<Rightarrow> None
      | Some None \<Rightarrow> plain_loop ns c
      | Some (Some (m, w)) \<Rightarrow> plain_loop ns (push_word m w c))"

definition parse_plain_command_from_node :: "node \<Rightarrow> plain_command option" where
  "parse_plain_command_from_node cmd =
     (if kind cmd \<noteq> ''command'' then None
      else
        map_option
          (\<lambda>c. c\<lparr>span_start := Some (case span_start c of None \<Rightarrow> start_byte cmd | Some s \<Rightarrow> s),
                 span_end := Some (case span_end c of None \<Rightarrow> end_byte cmd | Some e \<Rightarrow> e)\<rparr>)
          (plain_loop (named_children cmd) \<lparr>plain_words = [], span_start = None, span_end = None\<rparr>))"

fun plain_commands :: "node list \<Rightarrow> plain_command list option" where
  "plain_commands [] = Some []"
| "plain_commands (n # ns) =
     (case parse_plain_command_from_node n of
        None \<Rightarrow> None
      | Some c \<Rightarrow> map_option (\<lambda>cs. c # cs) (plain_commands ns))"

definition try_parse_word_only_commands_sequence :: "shell_tree \<Rightarrow> plain_command list option" where
  "try_parse_word_only_commands_sequence tree =
     (if has_error tree then None
      else if \<not> list_all node_allowed (visit_tree tree) then None
      else
        plain_commands
          (sort_key start_byte (filter (\<lambda>n. is_named n \<and> kind n = ''command'') (visit_tree tree))))"

definition commands_of_tree :: "shell_tree \<Rightarrow> argv list option" where
  "commands_of_tree tree = map_option (map plain_words) (try_parse_word_only_commands_sequence tree)"

section \<open>Literal words\<close>

datatype arg_text = ArgLiteral rstr | ArgAmbiguous

definition node_has_expansion :: "node \<Rightarrow> bool" where
  "node_has_expansion n =
     list_ex (\<lambda>d. kind d \<in> {''expansion'', ''simple_expansion'', ''command_substitution'', ''arithmetic_expansion'',
                          ''process_substitution''})
       (tl (visit [n]))"

definition is_windows_path_like :: "rstr \<Rightarrow> bool" where
  "is_windows_path_like raw \<longleftrightarrow>
     starts_with [92, 92] raw \<or> (case raw of c # d # _ \<Rightarrow> is_ascii_alpha c \<and> d = 58 | _ \<Rightarrow> False)"

fun unescape_loop :: "rstr \<Rightarrow> rstr option" where
  "unescape_loop [] = Some []"
| "unescape_loop (c # cs) =
     (if c = 92 then (case cs of [] \<Rightarrow> None | n # cs \<Rightarrow> map_option ((#) n) (unescape_loop cs))
      else map_option ((#) c) (unescape_loop cs))"

definition decode_unquoted_word :: "rstr \<Rightarrow> rstr option" where
  "decode_unquoted_word raw =
     (if 92 \<notin> set raw then Some raw
      else if is_windows_path_like raw then Some raw
      else unescape_loop raw)"

fun dquoted_loop :: "rstr \<Rightarrow> rstr option" where
  "dquoted_loop [] = Some []"
| "dquoted_loop (c # cs) =
     (if c \<noteq> 92 then map_option ((#) c) (dquoted_loop cs)
      else
        (case cs of
           [] \<Rightarrow> None
         | n # cs \<Rightarrow>
             if n \<in> {36, 96, 34, 92, 10} then map_option ((#) n) (dquoted_loop cs)
             else map_option (\<lambda>s. 92 # n # s) (dquoted_loop cs)))"

definition decode_double_quoted_content :: "rstr \<Rightarrow> rstr option" where
  "decode_double_quoted_content content = (if 92 \<notin> set content then Some content else dquoted_loop content)"

definition literal_or_ambiguous :: "rstr option \<Rightarrow> arg_text" where
  "literal_or_ambiguous d = (case d of Some s \<Rightarrow> ArgLiteral s | None \<Rightarrow> ArgAmbiguous)"

definition unquoted_or_raw :: "string \<Rightarrow> rstr \<Rightarrow> rstr" where
  "unquoted_or_raw q raw = (case unquote q raw of Some s \<Rightarrow> s | None \<Rightarrow> raw)"

definition shell_node_arg :: "node \<Rightarrow> arg_text option" where
  "shell_node_arg n =
     (if kind n = ''variable_assignment'' then None
      else if kind n \<in> {''word'', ''number''} then
        Some (literal_or_ambiguous (Option.bind (utf8_text n) decode_unquoted_word))
      else if kind n = ''raw_string'' then map_option (\<lambda>raw. ArgLiteral (unquoted_or_raw squote raw)) (utf8_text n)
      else if kind n = ''string'' then
        if node_has_expansion n then Some ArgAmbiguous
        else
          map_option (\<lambda>raw. literal_or_ambiguous (decode_double_quoted_content (unquoted_or_raw dquote raw)))
            (utf8_text n)
      else if kind n = ''concatenation'' then
        if node_has_expansion n then Some ArgAmbiguous
        else Some (literal_or_ambiguous (Option.bind (utf8_text n) decode_shell_literal_spelling))
      else Some ArgAmbiguous)"

section \<open>Execution scopes\<close>

text \<open>\<open>ExecutionScope\<close>: a byte range, and the whole script as \<open>None\<close>, whose end is \<open>usize::MAX\<close>.\<close>

type_synonym execution_scope = "(nat \<times> nat) option"

definition scope_contains :: "execution_scope \<Rightarrow> execution_scope \<Rightarrow> bool" where
  "scope_contains s t =
     (case s of
        None \<Rightarrow> True
      | Some (a, b) \<Rightarrow> (case t of None \<Rightarrow> False | Some (c, d) \<Rightarrow> a \<le> c \<and> d \<le> b))"

definition node_range :: "node \<Rightarrow> execution_scope" where
  "node_range n = Some (start_byte n, end_byte n)"

fun scope_loop :: "node \<Rightarrow> (node option \<times> node) list \<Rightarrow> execution_scope" where
  "scope_loop current [] = None"
| "scope_loop current ((next, parent) # outer) =
     (if map_option kind next = Some ''&'' then node_range (if kind current = ''list'' then current else parent)
      else if kind parent \<in> {''subshell'', ''command_substitution'', ''process_substitution''} then node_range parent
      else if kind parent = ''pipeline'' then node_range current
      else scope_loop parent outer)"

definition execution_scope :: "located \<Rightarrow> execution_scope" where
  "execution_scope x = scope_loop (fst x) (snd x)"

record cwd_poison =
  poison_at :: nat
  poison_scope :: execution_scope

definition changes_directory :: "node \<Rightarrow> bool" where
  "changes_directory n \<longleftrightarrow>
     kind n = ''command'' \<and>
     (case Option.bind (child_by_field_name ''name'' n) utf8_text of
        None \<Rightarrow> False
      | Some program \<Rightarrow> one_of (basename program) [''cd'', ''pushd'', ''popd''])"

definition cwd_poison_positions :: "shell_tree \<Rightarrow> cwd_poison list" where
  "cwd_poison_positions tree =
     map (\<lambda>x. \<lparr>poison_at = start_byte (fst x), poison_scope = execution_scope x\<rparr>)
       (filter (\<lambda>x. changes_directory (fst x)) (walk_tree tree))"

definition cwd_unpinned_before :: "cwd_poison list \<Rightarrow> nat \<Rightarrow> execution_scope \<Rightarrow> bool" where
  "cwd_unpinned_before positions at_byte scope =
     list_ex (\<lambda>p. poison_at p < at_byte \<and> (poison_scope p = scope \<or> scope_contains (poison_scope p) scope)) positions"

section \<open>Invocations\<close>

datatype invocation_word = InvLiteral rstr | InvUntrusted

record shell_invocation =
  inv_start :: nat
  inv_scope :: execution_scope
  inv_words :: "invocation_word list"
  wrapper_words :: argv

definition inv_operand :: "node \<Rightarrow> invocation_word option" where
  "inv_operand child =
     map_option (\<lambda>a. case a of ArgLiteral w \<Rightarrow> InvLiteral w | ArgAmbiguous \<Rightarrow> InvUntrusted)
       (if kind child = ''command_name''
        then (case named_children child of [] \<Rightarrow> None | inner # _ \<Rightarrow> shell_node_arg inner)
        else shell_node_arg child)"

definition wrapper_word :: "invocation_word \<Rightarrow> rstr" where
  "wrapper_word w = (case w of InvLiteral s \<Rightarrow> s | InvUntrusted \<Rightarrow> [0])"

definition invocation_of :: "located \<Rightarrow> shell_invocation" where
  "invocation_of x =
     (let ws = List.map_filter inv_operand (named_children (fst x))
      in \<lparr>inv_start = start_byte (fst x), inv_scope = execution_scope x, inv_words = ws,
          wrapper_words = map wrapper_word ws\<rparr>)"

definition command_nodes :: "shell_tree \<Rightarrow> located list" where
  "command_nodes tree = filter (\<lambda>x. kind (fst x) = ''command'') (walk_tree tree)"

definition shell_command_invocations :: "shell_tree \<Rightarrow> shell_invocation list" where
  "shell_command_invocations tree = sort_key inv_start (map invocation_of (command_nodes tree))"

definition literal_words :: "invocation_word list \<Rightarrow> argv" where
  "literal_words ws = List.map_filter (\<lambda>w. case w of InvLiteral s \<Rightarrow> Some s | InvUntrusted \<Rightarrow> None) ws"

record checked_invocation_peel =
  inv_peeled :: "invocation_word list"
  inv_chdir :: bool
  inv_split :: bool
  inv_uncertain :: bool
  inv_exhausted :: bool
  inv_ambiguous :: bool

definition unwrap_invocation_checked :: "shell_invocation \<Rightarrow> checked_invocation_peel" where
  "unwrap_invocation_checked i =
     (let norm = normalize_command_words (wrapper_words i)
      in \<lparr>inv_peeled = drop (length (wrapper_words i) - length (norm_words norm)) (inv_words i),
          inv_chdir = norm_chdir norm, inv_split = norm_split norm, inv_uncertain = norm_uncertain norm,
          inv_exhausted = norm_exhausted norm, inv_ambiguous = norm_ambiguous norm\<rparr>)"

section \<open>Redirects\<close>

datatype shell_file_mode = FileRead | FileWrite

record shell_redirect_target =
  redirect_path :: "rstr option"
  redirect_mode :: shell_file_mode
  redirect_ambiguous :: bool
  redirect_start :: nat
  redirect_scope :: execution_scope

definition shell_arg_is_ambiguous :: "rstr \<Rightarrow> bool" where
  "shell_arg_is_ambiguous token \<longleftrightarrow> 42 \<in> set token \<or> 63 \<in> set token \<or> 91 \<in> set token"

text \<open>The operator of a redirect; a here-document or here-string has none.\<close>

fun redirect_operator :: "node list \<Rightarrow> string option" where
  "redirect_operator [] = None"
| "redirect_operator (c # cs) =
     (if contains_str (lit ''<<'') (lit (kind c)) then None
      else if CHR ''>'' \<in> set (kind c) \<or> CHR ''<'' \<in> set (kind c) then Some (kind c)
      else redirect_operator cs)"

definition is_ascii_digit :: "rchar \<Rightarrow> bool" where
  "is_ascii_digit c \<longleftrightarrow> 48 \<le> c \<and> c \<le> 57"

definition shell_redirect_one :: "node \<Rightarrow> (rstr option \<times> shell_file_mode \<times> bool) option" where
  "shell_redirect_one n =
     (case redirect_operator (children n) of
        None \<Rightarrow> None
      | Some redirect \<Rightarrow>
          (let mode = (if CHR ''>'' \<in> set redirect then FileWrite else FileRead);
               duplicates_fd = (redirect = ''>&'' \<or> redirect = ''<&'')
           in case Option.bind (child_by_field_name ''destination'' n) shell_node_arg of
                None \<Rightarrow> None
              | Some (ArgLiteral s) \<Rightarrow>
                  if s = [] \<or> starts_with (lit ''&'') s \<or>
                     duplicates_fd \<and> (s = lit ''-'' \<or> list_all is_ascii_digit s)
                  then None else Some (Some s, mode, shell_arg_is_ambiguous s)
              | Some ArgAmbiguous \<Rightarrow> Some (None, mode, True)))"

definition shell_redirect_targets :: "shell_tree \<Rightarrow> shell_redirect_target list" where
  "shell_redirect_targets tree =
     List.map_filter
       (\<lambda>x. if kind (fst x) = ''file_redirect''
            then map_option (\<lambda>(path, mode, ambiguous).
                   \<lparr>redirect_path = path, redirect_mode = mode, redirect_ambiguous = ambiguous,
                    redirect_start = start_byte (fst x), redirect_scope = execution_scope x\<rparr>)
                   (shell_redirect_one (fst x))
            else None)
       (walk_tree tree)"

section \<open>Variable assignments\<close>

text \<open>\<open>assignment_key\<close> (\<open>auto_mode.rs\<close>): the name of the variable, else the text before the first equals
  sign.\<close>

definition variable_name_text :: "node \<Rightarrow> rstr option" where
  "variable_name_text c = (if kind c = ''variable_name'' then utf8_text c else None)"

definition assignment_key :: "node \<Rightarrow> rstr" where
  "assignment_key n =
     (case List.map_filter variable_name_text (children n) of
        t # _ \<Rightarrow> t
      | [] \<Rightarrow> (case utf8_text n of Some t \<Rightarrow> takeWhile (\<lambda>c. c \<noteq> 61) t | None \<Rightarrow> []))"

definition assigned_keys :: "shell_tree \<Rightarrow> rstr list" where
  "assigned_keys tree =
     map assignment_key (filter (\<lambda>n. kind n = ''variable_assignment'') (visit_tree tree))"

section \<open>Lemmas\<close>

text \<open>The nodes of a tree, as a specification.\<close>

inductive_set subnodes :: "node \<Rightarrow> node set" for n where
  self: "n \<in> subnodes n"
| child: "m \<in> subnodes n \<Longrightarrow> c \<in> set (children m) \<Longrightarrow> c \<in> subnodes n"

lemma subnodes_trans: "m \<in> subnodes n \<Longrightarrow> k \<in> subnodes m \<Longrightarrow> k \<in> subnodes n"
  by (rotate_tac, induction rule: subnodes.induct) (auto intro: subnodes.child)

lemma subnodes_unfold: "subnodes n = insert n (\<Union>c \<in> set (children n). subnodes c)"
proof (intro set_eqI iffI)
  fix k assume "k \<in> subnodes n"
  then show "k \<in> insert n (\<Union>c \<in> set (children n). subnodes c)"
    by induction (auto intro: subnodes.intros)
next
  fix k assume "k \<in> insert n (\<Union>c \<in> set (children n). subnodes c)"
  then show "k \<in> subnodes n" by (auto intro: subnodes.self dest: subnodes_trans [OF subnodes.child [OF subnodes.self]])
qed

lemma set_visit: "set (visit stack) = (\<Union>n \<in> set stack. subnodes n)"
proof (induction stack rule: visit.induct)
  case (2 n stack)
  have "set (visit (n # stack)) = insert n ((\<Union>c \<in> set (children n). subnodes c) \<union> (\<Union>m \<in> set stack. subnodes m))"
    using 2 by auto
  also have "\<dots> = subnodes n \<union> (\<Union>m \<in> set stack. subnodes m)" by (subst subnodes_unfold [of n]) auto
  finally show ?case by simp
qed simp

lemma walk_nodes: "map fst (walk stack) = visit (map fst stack)"
  by (induction stack rule: walk.induct) (simp_all add: rev_map [symmetric] located_children_nodes)

lemma plain_commands_iff:
  "plain_commands ns = Some cs \<longleftrightarrow> list_all2 (\<lambda>n c. parse_plain_command_from_node n = Some c) ns cs"
proof (induction ns arbitrary: cs)
  case (Cons n ns)
  then show ?case
    by (cases cs) (auto split: option.split simp: Cons.IH [symmetric])
qed auto

lemma set_visit_tree: "set (visit_tree tree) = subnodes (root_node tree)"
  unfolding visit_tree_def set_visit by simp

lemma word_only_commands:
  assumes "try_parse_word_only_commands_sequence tree = Some cs"
  shows "\<not> has_error tree" and "n \<in> subnodes (root_node tree) \<Longrightarrow> node_allowed n"
    and "list_all2 (\<lambda>n c. parse_plain_command_from_node n = Some c)
           (sort_key start_byte (filter (\<lambda>n. is_named n \<and> kind n = ''command'') (visit_tree tree))) cs"
  using assms
  by (auto simp: try_parse_word_only_commands_sequence_def list_all_iff set_visit_tree plain_commands_iff
      split: if_splits)

section \<open>Example trees\<close>

text \<open>The tree of a sequence of plain commands whose operands are quoted.\<close>

definition leaf :: "string \<Rightarrow> nat \<Rightarrow> rstr \<Rightarrow> node" where
  "leaf k i w = Node k True None i i (Some w) []"

definition command_node :: "nat \<Rightarrow> argv \<Rightarrow> node" where
  "command_node i ws =
     Node ''command'' True None i i None
       (case ws of
          [] \<Rightarrow> []
        | w # args \<Rightarrow>
            Node ''command_name'' True (Some ''name'') i i (Some w) [leaf ''word'' i w] #
            map (\<lambda>a. leaf ''raw_string'' i ([39] @ a @ [39])) args)"

definition plain_tree :: "argv list \<Rightarrow> shell_tree" where
  "plain_tree segs =
     \<lparr>root_node = Node ''program'' True None 0 0 None (map (\<lambda>(i, ws). command_node i ws) (enumerate 0 segs)),
      has_error = False\<rparr>"

section \<open>Properties\<close>

text \<open>The kinds of nodes that run or build a command out of the reach of its words.\<close>

definition hidden_kinds :: "string list" where
  "hidden_kinds =
     [''command_substitution'', ''process_substitution'', ''subshell'', ''simple_expansion'', ''expansion'',
      ''arithmetic_expansion'', ''function_definition'', ''declaration_command'', ''unset_command'', ''compound_statement'',
      ''if_statement'', ''while_statement'', ''for_statement'', ''c_style_for_statement'', ''case_statement'',
      ''negated_command'', ''test_command'', ''ansi_c_string'', ''translated_string'', ''brace_expression'',
      ''herestring_redirect'', ''variable_assignments'', ''array'', ''subscript'', ''ERROR'']"

text \<open>C23: The decomposition of a script misses nothing. When a syntax tree decomposes into plain commands,
  these are, in the order of the source, the words of exactly the command nodes of the tree; the
  parse had no error; no substitution, expansion, function, control structure, array or other
  hidden way to run a command occurs anywhere; and nothing runs in the background.\<close>

theorem decomposition_misses_nothing:
  assumes "commands_of_tree tree = Some segs"
  shows "(\<exists>ns. set ns = {n \<in> subnodes (root_node tree). is_named n \<and> kind n = ''command''} \<and> sorted (map start_byte ns) \<and>
            list_all2 (\<lambda>n ws. \<exists>c. parse_plain_command_from_node n = Some c \<and> plain_words c = ws) ns segs) \<and>
         \<not> has_error tree \<and>
         \<not> (\<exists>n \<in> subnodes (root_node tree). is_named n \<and> kind n \<in> set hidden_kinds) \<and>
         \<not> (\<exists>n \<in> subnodes (root_node tree). \<not> is_named n \<and> kind n \<in> {''&'', ''$('', ''`'', ''('', ''<('', ''>('', '';;''})"
proof -
  obtain cs where cs: "try_parse_word_only_commands_sequence tree = Some cs" "segs = map plain_words cs"
    using assms by (auto simp: commands_of_tree_def)
  note facts = word_only_commands [OF cs(1)]
  let ?ns = "sort_key start_byte (filter (\<lambda>n. is_named n \<and> kind n = ''command'') (visit_tree tree))"
  have "set ?ns = {n \<in> subnodes (root_node tree). is_named n \<and> kind n = ''command''}" by (auto simp: set_visit_tree)
  moreover have "sorted (map start_byte ?ns)" by simp
  moreover have "list_all2 (\<lambda>n ws. \<exists>c. parse_plain_command_from_node n = Some c \<and> plain_words c = ws) ?ns segs"
    using facts(3) unfolding cs(2) list.rel_map by (rule list.rel_mono_strong) blast
  ultimately have shape: "\<exists>ns. set ns = {n \<in> subnodes (root_node tree). is_named n \<and> kind n = ''command''} \<and>
      sorted (map start_byte ns) \<and>
      list_all2 (\<lambda>n ws. \<exists>c. parse_plain_command_from_node n = Some c \<and> plain_words c = ws) ns segs" by blast
  have "set ALLOWED_KINDS \<inter> set hidden_kinds = {}" by (simp add: ALLOWED_KINDS_def hidden_kinds_def)
  moreover have "kind n \<in> set ALLOWED_KINDS" if "n \<in> subnodes (root_node tree)" "is_named n" for n
    using facts(2) [OF that(1)] that(2) by (simp add: node_allowed_def)
  ultimately have hidden: "\<not> (\<exists>n \<in> subnodes (root_node tree). is_named n \<and> kind n \<in> set hidden_kinds)" by blast
  have "list_all (\<lambda>k. k \<notin> set ALLOWED_PUNCT_TOKENS \<and> trim (lit k) \<noteq> []) [''&'', ''$('', ''`'', ''('', ''<('', ''>('', '';;'']"
    by code_simp
  then have "\<not> node_allowed n" if "\<not> is_named n" "kind n \<in> {''&'', ''$('', ''`'', ''('', ''<('', ''>('', '';;''}" for n
    using that by (auto simp: node_allowed_def)
  then have "\<not> (\<exists>n \<in> subnodes (root_node tree). \<not> is_named n \<and> kind n \<in> {''&'', ''$('', ''`'', ''('', ''<('', ''>('', '';;''})"
    using facts(2) by meson
  with shape facts(1) hidden show ?thesis by (intro conjI)
qed

theorem decomposition_misses_nothing_witness:
  "(\<exists>ns. set ns = {n \<in> subnodes (root_node (plain_tree [map lit [''ls''], map lit [''rm'', ''x'']])). is_named n \<and> kind n = ''command''} \<and>
      sorted (map start_byte ns) \<and>
      list_all2 (\<lambda>n ws. \<exists>c. parse_plain_command_from_node n = Some c \<and> plain_words c = ws) ns
        [map lit [''ls''], map lit [''rm'', ''x'']])"
proof -
  have "commands_of_tree (plain_tree [map lit [''ls''], map lit [''rm'', ''x'']]) = Some [map lit [''ls''], map lit [''rm'', ''x'']]"
    by code_simp
  from decomposition_misses_nothing [OF this] show ?thesis by blast
qed

end
