(* ===== verification/ShellFiles.thy ===== *)
theory ShellFiles
  imports ShellTree
begin

text \<open>
  The files that a shell command names
  (\<open>xai-grok-workspace/src/permission/shell_access.rs\<close>): which operands of which programs are read or
  written, the normal form of a path, and the resolution of symbolic links. The file system is
  a record of the answers of the operating system.
\<close>

section \<open>Operands\<close>

definition shell_file_mode_of :: "rstr \<Rightarrow> shell_file_mode option" where
  "shell_file_mode_of program =
     (if one_of program [''cat'', ''tac'', ''nl'', ''head'', ''tail'', ''grep'', ''egrep'', ''fgrep'', ''rg'', ''sed'', ''awk'',
           ''less'', ''more'', ''bat'', ''strings'', ''xxd'', ''od'', ''hexdump'', ''base64'', ''base32'', ''cut'', ''sort'',
           ''uniq'', ''wc'', ''type'', ''get-content'', ''gc'', ''diff'', ''comm'', ''rev'', ''jq'', ''yq'', ''select-string'',
           ''sls'', ''ag'', ''ack'', ''zcat'', ''zless'', ''zmore'', ''zgrep'', ''zegrep'', ''zfgrep'', ''bzcat'', ''bzgrep'',
           ''xzcat'', ''xzgrep'', ''zstdcat'', ''lz4cat'']
      then Some FileRead
      else if one_of program [''tee'', ''set-content'', ''out-file'', ''add-content'', ''tee-object'', ''truncate'']
      then Some FileWrite
      else None)"

definition shell_sed_in_place :: "argv \<Rightarrow> bool" where
  "shell_sed_in_place ws =
     list_ex (\<lambda>w. w = lit ''--in-place'' \<or> starts_with (lit ''--in-place='') w \<or>
                  dashed w \<and> \<not> ddashed w \<and> 105 \<in> set w) (tl ws)"

text \<open>The value of a flag in the words from the flag on; the next word is the second of them.\<close>

definition non_empty :: "rstr \<Rightarrow> rstr option" where
  "non_empty s = (if s = [] then None else Some s)"

definition next_word :: "argv \<Rightarrow> rstr option" where
  "next_word ws = (case ws of [] \<Rightarrow> None | w # _ \<Rightarrow> Some w)"

definition output_value :: "rstr \<Rightarrow> argv \<Rightarrow> rstr option" where
  "output_value token rest =
     (case strip_prefix (lit ''--output='') token of
        Some v \<Rightarrow> Some v
      | None \<Rightarrow>
          (case Option.bind (strip_prefix (lit ''-o'') token) non_empty of
             Some v \<Rightarrow> Some v
           | None \<Rightarrow> if one_of token [''--output'', ''-o''] then next_word rest else None))"

fun shell_output_flag_values :: "argv \<Rightarrow> rstr list" where
  "shell_output_flag_values [] = []"
| "shell_output_flag_values (token # rest) =
     (case output_value token rest of
        Some v \<Rightarrow> v # shell_output_flag_values rest
      | None \<Rightarrow> shell_output_flag_values rest)"

definition flag_value :: "rstr \<Rightarrow> rstr \<Rightarrow> argv \<Rightarrow> rstr option" where
  "flag_value flag token rest =
     (case strip_prefix (flag @ lit ''='') token of
        Some v \<Rightarrow> Some v
      | None \<Rightarrow>
          if token = flag then next_word rest
          else if \<not> ddashed flag then Option.bind (strip_prefix flag token) non_empty
          else None)"

fun value_flag_values :: "rstr \<Rightarrow> argv \<Rightarrow> rstr list" where
  "value_flag_values flag [] = []"
| "value_flag_values flag (token # rest) =
     (case flag_value flag token rest of
        Some v \<Rightarrow> v # value_flag_values flag rest
      | None \<Rightarrow> value_flag_values flag rest)"

fun candidates_loop :: "bool \<Rightarrow> argv \<Rightarrow> rstr list" where
  "candidates_loop end_of_options [] = []"
| "candidates_loop end_of_options (token # rest) =
     (if \<not> end_of_options \<and> token = lit ''--'' then candidates_loop True rest
      else if end_of_options \<or> token \<noteq> lit ''-'' \<and> \<not> dashed token then token # candidates_loop end_of_options rest
      else candidates_loop end_of_options rest)"

definition shell_file_candidates :: "argv \<Rightarrow> rstr list" where
  "shell_file_candidates ws = candidates_loop False (tl ws)"

definition dd_operand :: "rstr \<Rightarrow> (rstr \<times> shell_file_mode) option" where
  "dd_operand token =
     (case strip_prefix (lit ''if='') token of
        Some p \<Rightarrow> Some (p, FileRead)
      | None \<Rightarrow> map_option (\<lambda>p. (p, FileWrite)) (strip_prefix (lit ''of='') token))"

definition special_file_operands :: "rstr \<Rightarrow> argv \<Rightarrow> (rstr \<times> shell_file_mode) list" where
  "special_file_operands program ws =
     (if program = lit ''dd'' then List.map_filter dd_operand (tl ws)
      else if one_of program [''sort'', ''go'', ''git''] then map (\<lambda>v. (v, FileWrite)) (shell_output_flag_values ws)
      else if program = lit ''rustc'' then
        map (\<lambda>v. (v, FileWrite)) (shell_output_flag_values ws @ value_flag_values (lit ''--out-dir'') ws)
      else if program = lit ''rustfmt'' then map (\<lambda>v. (v, FileWrite)) (shell_file_candidates ws)
      else [])"

definition shell_path_command_operands :: "rstr \<Rightarrow> argv \<Rightarrow> (rstr \<times> shell_file_mode) list option" where
  "shell_path_command_operands program ws =
     (if one_of program [''cp'', ''mv'', ''ln'', ''install''] then
        (let operands = shell_file_candidates ws
         in if operands = [] then None
            else Some (map (\<lambda>s. (s, FileRead)) (butlast operands) @ [(last operands, FileWrite)]))
      else if one_of program [''rm'', ''rmdir'', ''mkdir'', ''touch''] then
        Some (map (\<lambda>c. (c, FileWrite)) (shell_file_candidates ws))
      else if program = lit ''uniq'' then
        (case shell_file_candidates ws of
           input # output # _ \<Rightarrow> Some [(input, FileRead), (output, FileWrite)]
         | _ \<Rightarrow> None)
      else None)"

definition is_directory_operand :: "rstr \<Rightarrow> bool" where
  "is_directory_operand token \<longleftrightarrow> token = lit ''.'' \<or> token = lit ''..'' \<or> ends_with (lit ''/'') token"

definition shell_reader_can_recurse :: "rstr \<Rightarrow> argv \<Rightarrow> rstr list \<Rightarrow> bool" where
  "shell_reader_can_recurse program ws candidates \<longleftrightarrow>
     one_of program [''grep'', ''egrep'', ''fgrep''] \<and>
       list_ex (\<lambda>w. one_of w [''--recursive'', ''--dereference-recursive''] \<or>
                    dashed w \<and> \<not> ddashed w \<and> (114 \<in> set w \<or> 82 \<in> set w)) ws \<or>
     one_of program [''rg'', ''ag'', ''ack''] \<and>
       (length candidates \<le> 1 \<or> list_ex is_directory_operand (tl candidates))"

section \<open>Paths that a command writes\<close>

definition written :: "(rstr \<times> shell_file_mode) list \<Rightarrow> rstr list" where
  "written ops = map fst (filter (\<lambda>(_, mode). mode = FileWrite) ops)"

definition writes_operands :: "rstr \<Rightarrow> argv \<Rightarrow> bool" where
  "writes_operands program inner \<longleftrightarrow>
     shell_file_mode_of program = Some FileWrite \<or> program = lit ''sed'' \<and> shell_sed_in_place inner"

definition command_words_write_paths :: "argv \<Rightarrow> rstr list" where
  "command_words_write_paths ws =
     (case unwrap_wrappers ws of
        [] \<Rightarrow> []
      | w # args \<Rightarrow>
          (let inner = w # args; program = to_ascii_lowercase (basename w)
           in written (special_file_operands program inner) @
              (case shell_path_command_operands program inner of
                 Some operands \<Rightarrow> written operands
               | None \<Rightarrow> if writes_operands program inner then shell_file_candidates inner else [])))"

definition redirect_write :: "shell_redirect_target \<Rightarrow> rstr option" where
  "redirect_write r = (if redirect_mode r = FileWrite then redirect_path r else None)"

definition command_write_paths_in_tree :: "shell_tree \<Rightarrow> rstr list" where
  "command_write_paths_in_tree tree =
     List.map_filter redirect_write (shell_redirect_targets tree) @
     concat (map (\<lambda>i. command_words_write_paths (literal_words (inv_words i))) (shell_command_invocations tree))"

definition is_safe_write_sink :: "rstr \<Rightarrow> bool" where
  "is_safe_write_sink p = one_of p [''/dev/null'', ''/dev/stdout'', ''/dev/stderr'']"

section \<open>Normal forms of paths\<close>

text \<open>The second byte is a colon: the first character is one byte long then.\<close>

definition has_drive :: "rstr \<Rightarrow> bool" where
  "has_drive p = (case p of c # d # _ \<Rightarrow> c < 128 \<and> d = 58 | _ \<Rightarrow> False)"

definition is_absolute_shell_path :: "rstr \<Rightarrow> bool" where
  "is_absolute_shell_path p \<longleftrightarrow> starts_with (lit ''/'') p \<or> starts_with (lit ''~/'') p \<or> has_drive p"

definition trim_path_quotes :: "rstr \<Rightarrow> rstr" where
  "trim_path_quotes p =
     rev (dropWhile (\<lambda>c. c = 34 \<or> c = 39) (rev (dropWhile (\<lambda>c. c = 34 \<or> c = 39) p)))"

definition normalize_shell_path_raw :: "rstr \<Rightarrow> rstr" where
  "normalize_shell_path_raw path =
     (let p = map (\<lambda>c. if c = 92 then 47 else c) (trim_path_quotes path)
      in case strip_prefix (lit ''/c/'') p of Some rest \<Rightarrow> lit ''C:/'' @ rest | None \<Rightarrow> p)"

definition normal_step :: "bool \<Rightarrow> rstr list \<Rightarrow> rstr \<Rightarrow> rstr list" where
  "normal_step absolute out seg =
     (if seg = [] \<or> seg = lit ''.'' then out
      else if seg = lit ''..'' then
        if out \<noteq> [] \<and> last out \<noteq> lit ''..'' then butlast out
        else if \<not> absolute then out @ [seg]
        else out
      else out @ [seg])"

definition normal_segments :: "bool \<Rightarrow> rstr \<Rightarrow> rstr list" where
  "normal_segments absolute rest = foldl (normal_step absolute) [] (split_char 47 rest)"

definition lexical_normalize :: "rstr \<Rightarrow> rstr" where
  "lexical_normalize path =
     (let k = (if has_drive path then 2 else 0);
          absolute = starts_with (lit ''/'') (drop k path)
      in take k path @ (if absolute then lit ''/'' else []) @ join (lit ''/'') (normal_segments absolute (drop k path)))"

definition normalize_shell_path :: "rstr \<Rightarrow> rstr" where
  "normalize_shell_path path = lexical_normalize (normalize_shell_path_raw path)"

section \<open>Symbolic links\<close>

text \<open>\<open>Path::components\<close> (on Unix): empty parts and inner dots are dropped.\<close>

datatype component = RootDir | CurDir | ParentDir | Normal rstr

type_synonym pathbuf = "component list"

definition component_of :: "rstr \<Rightarrow> component" where
  "component_of s = (if s = lit ''.'' then CurDir else if s = lit ''..'' then ParentDir else Normal s)"

definition components :: "rstr \<Rightarrow> pathbuf" where
  "components p =
     (let absolute = starts_with (lit ''/'') p;
          cs = map component_of (filter (\<lambda>s. s \<noteq> []) (split_char 47 p))
      in if absolute then RootDir # filter (\<lambda>c. c \<noteq> CurDir) cs
         else (case cs of CurDir # cs \<Rightarrow> CurDir # filter (\<lambda>c. c \<noteq> CurDir) cs | _ \<Rightarrow> filter (\<lambda>c. c \<noteq> CurDir) cs))"

definition path_is_absolute :: "pathbuf \<Rightarrow> bool" where
  "path_is_absolute cs = (case cs of RootDir # _ \<Rightarrow> True | _ \<Rightarrow> False)"

definition path_parent :: "pathbuf \<Rightarrow> pathbuf option" where
  "path_parent cs = (if cs = [] \<or> last cs = RootDir then None else Some (butlast cs))"

definition file_name :: "pathbuf \<Rightarrow> rstr option" where
  "file_name cs = (if cs = [] then None else (case last cs of Normal s \<Rightarrow> Some s | _ \<Rightarrow> None))"

definition path_append :: "pathbuf \<Rightarrow> pathbuf \<Rightarrow> pathbuf" where
  "path_append base t =
     (if path_is_absolute t then t else if base = [] then t else base @ filter (\<lambda>c. c \<noteq> CurDir) t)"

definition component_text :: "component \<Rightarrow> rstr" where
  "component_text c =
     (case c of RootDir \<Rightarrow> [] | CurDir \<Rightarrow> lit ''.'' | ParentDir \<Rightarrow> lit ''..'' | Normal s \<Rightarrow> s)"

text \<open>The text of a path that is built from components.\<close>

definition path_text :: "pathbuf \<Rightarrow> rstr" where
  "path_text cs = (if cs = [RootDir] then lit ''/'' else join (lit ''/'') (map component_text cs))"

datatype link_metadata = MetaNotFound | MetaFailed | MetaFound bool

record fs_view =
  canonicalize :: "pathbuf \<Rightarrow> pathbuf option"
  symlink_metadata :: "pathbuf \<Rightarrow> link_metadata"
  read_link :: "pathbuf \<Rightarrow> pathbuf option"

definition MAX_SYMLINK_DEPTH :: nat where "MAX_SYMLINK_DEPTH = 40"

text \<open>The argument counts the calls that are left, \<open>MAX_SYMLINK_DEPTH + 1 - depth\<close>.\<close>

fun resolve_loop :: "fs_view \<Rightarrow> nat \<Rightarrow> pathbuf \<Rightarrow> pathbuf option" where
  "resolve_loop fs 0 p = None"
| "resolve_loop fs (Suc n) p =
     (case canonicalize fs p of
        Some c \<Rightarrow> Some c
      | None \<Rightarrow>
          (case (path_parent p, file_name p) of
             (Some parent, Some name) \<Rightarrow>
               (case resolve_loop fs n parent of
                  None \<Rightarrow> None
                | Some resolved_parent \<Rightarrow>
                    (case symlink_metadata fs (path_append resolved_parent [Normal name]) of
                       MetaFailed \<Rightarrow> None
                     | MetaNotFound \<Rightarrow> Some (path_append resolved_parent [Normal name])
                     | MetaFound is_symlink \<Rightarrow>
                         if \<not> is_symlink then Some (path_append resolved_parent [Normal name])
                         else
                           (case read_link fs (path_append resolved_parent [Normal name]) of
                              None \<Rightarrow> None
                            | Some t \<Rightarrow>
                                resolve_loop fs n (if path_is_absolute t then t else path_append resolved_parent t))))
           | _ \<Rightarrow> None))"

definition resolve_following_symlinks :: "fs_view \<Rightarrow> pathbuf \<Rightarrow> pathbuf option" where
  "resolve_following_symlinks fs p = resolve_loop fs (MAX_SYMLINK_DEPTH + 1) p"

definition resolve_symlink_target :: "fs_view \<Rightarrow> rstr \<Rightarrow> rstr option" where
  "resolve_symlink_target fs absolute =
     (if \<not> path_is_absolute (components absolute) then None
      else
        map_option (\<lambda>p. normalize_shell_path (path_text p)) (resolve_following_symlinks fs (components absolute)))"

definition path_has_symlink :: "fs_view \<Rightarrow> rstr \<Rightarrow> bool" where
  "path_has_symlink fs absolute \<longleftrightarrow>
     path_is_absolute (components absolute) \<and>
     list_ex (\<lambda>k. symlink_metadata fs (take (Suc k) (components absolute)) = MetaFound True)
       [0..<length (components absolute)]"

end
