(* ===== verification/PermissionRules.thy ===== *)
theory PermissionRules
  imports RustStrSearch
begin

text \<open>
  Permission rules (\<open>xai-grok-workspace/src/permission/types.rs\<close>) and the notation for them
  (\<open>rules.rs\<close>): a tool name with a pattern in parentheses, in which parentheses and
  backslashes are escaped. The source searches bytes; the characters searched for are ASCII,
  so positions are counted in characters here.
\<close>

section \<open>Rules\<close>

datatype rule_action = RuleAllow | RuleDeny | RuleAsk

datatype tool_filter = FAny | FBash | FEdit | FRead | FGrep | FMcp | FWebFetch | FWebSearch

datatype pattern_mode = Glob | Domain

record permission_rule =
  rule_act :: rule_action
  rule_tool :: tool_filter
  rule_pattern :: "rstr option"
  rule_pattern_mode :: pattern_mode

datatype prompt_policy = PromptAsk | PromptDeny | PromptAuto

record permission_config =
  config_rules :: "permission_rule list"
  config_prompt_policy :: prompt_policy

datatype default_permission_mode = DefaultMode | AcceptEdits | Plan | Auto | DontAsk | BypassPermissions

definition default_mode_from_str :: "rstr \<Rightarrow> rstr + default_permission_mode" where
  "default_mode_from_str s =
     (if s = lit ''default'' then Inr DefaultMode
      else if s = lit ''acceptEdits'' then Inr AcceptEdits
      else if s = lit ''plan'' then Inr Plan
      else if s = lit ''auto'' then Inr Auto
      else if s = lit ''dontAsk'' then Inr DontAsk
      else if s = lit ''bypassPermissions'' then Inr BypassPermissions
      else Inl s)"

record default_mode_effects =
  effect_prompt_policy :: prompt_policy
  effect_accept_edits :: bool
  effect_bypass_permissions :: bool

definition effects :: "default_permission_mode \<Rightarrow> default_mode_effects" where
  "effects m =
     \<lparr>effect_prompt_policy = (case m of DontAsk \<Rightarrow> PromptDeny | Auto \<Rightarrow> PromptAuto | _ \<Rightarrow> PromptAsk),
      effect_accept_edits = (m = AcceptEdits),
      effect_bypass_permissions = (m = BypassPermissions)\<rparr>"

datatype rule_parse_error =
  UnsupportedToolPrefix rstr
| UnknownToolPrefix rstr
| MalformedRule rstr

fun rule_parse_error_display :: "rule_parse_error \<Rightarrow> rstr" where
  "rule_parse_error_display (UnsupportedToolPrefix p) = lit ''unsupported tool prefix: '' @ p"
| "rule_parse_error_display (UnknownToolPrefix p) = lit ''unknown tool prefix: '' @ p"
| "rule_parse_error_display (MalformedRule d) = lit ''malformed rule: '' @ d"

section \<open>Parsing\<close>

definition tool_name_to_filter :: "rstr \<Rightarrow> tool_filter option" where
  "tool_name_to_filter name =
     (if name = lit ''Bash'' then Some FBash
      else if name = lit ''Read'' \<or> name = lit ''NotebookRead'' then Some FRead
      else if name = lit ''Edit'' \<or> name = lit ''Write'' \<or> name = lit ''NotebookEdit'' then Some FEdit
      else if name = lit ''MCPTool'' then Some FMcp
      else if name = lit ''Grep'' \<or> name = lit ''Glob'' then Some FGrep
      else if name = lit ''WebFetch'' then Some FWebFetch
      else if name = lit ''WebSearch'' then Some FWebSearch
      else None)"

abbreviation backslash :: rchar where "backslash \<equiv> 92"
abbreviation lparen :: rchar where "lparen \<equiv> 40"
abbreviation rparen :: rchar where "rparen \<equiv> 41"

text \<open>The number of backslashes right before position \<open>pos\<close> is even.\<close>

definition is_unescaped :: "rstr \<Rightarrow> nat \<Rightarrow> bool" where
  "is_unescaped s pos \<longleftrightarrow> even (length (takeWhile (\<lambda>c. c = backslash) (rev (take pos s))))"

definition find_first_unescaped :: "rstr \<Rightarrow> rchar \<Rightarrow> nat option" where
  "find_first_unescaped s target = find (\<lambda>i. s ! i = target \<and> is_unescaped s i) [0..<length s]"

definition find_last_unescaped :: "rstr \<Rightarrow> rchar \<Rightarrow> nat option" where
  "find_last_unescaped s target = find (\<lambda>i. s ! i = target \<and> is_unescaped s i) (rev [0..<length s])"

definition unescape_rule_content :: "rstr \<Rightarrow> rstr" where
  "unescape_rule_content s =
     (if backslash \<notin> set s then s
      else replace_str [backslash, backslash] [backslash]
             (replace_str [backslash, rparen] [rparen]
               (replace_str [backslash, lparen] [lparen] s)))"

definition strip_domain_prefix :: "rstr \<Rightarrow> rstr \<times> pattern_mode" where
  "strip_domain_prefix pattern =
     (case strip_prefix (lit ''domain:'') pattern of
        Some domain \<Rightarrow> (domain, Domain)
      | None \<Rightarrow> (pattern, Glob))"

definition strip_bash_colon_wildcard :: "rstr \<Rightarrow> rstr" where
  "strip_bash_colon_wildcard pattern =
     (case strip_suffix (lit '':*'') pattern of Some prefix \<Rightarrow> prefix | None \<Rightarrow> pattern)"

definition none_if_empty :: "rstr \<Rightarrow> rstr option" where
  "none_if_empty p = (if p = [] then None else Some p)"

definition parse_permission_rule :: "rstr \<Rightarrow> rule_action \<Rightarrow> rule_parse_error + permission_rule" where
  "parse_permission_rule rule action =
     (let rule = trim rule
      in case find_first_unescaped rule lparen of
           Some open_paren \<Rightarrow>
             (let prefix_trimmed = trim (take open_paren rule);
                  content_and_close = drop (open_paren + 1) rule
              in case find_last_unescaped content_and_close rparen of
                   None \<Rightarrow> Inl (MalformedRule (lit ''missing closing parenthesis''))
                 | Some close_paren \<Rightarrow>
                     (let raw_content = trim (take close_paren content_and_close);
                          pattern = (if raw_content = [] \<or> raw_content = lit ''*'' then []
                                     else unescape_rule_content raw_content)
                      in case tool_name_to_filter prefix_trimmed of
                           None \<Rightarrow>
                             if prefix_trimmed = lit ''EnterWorktree''
                             then Inl (UnsupportedToolPrefix prefix_trimmed)
                             else Inl (UnknownToolPrefix prefix_trimmed)
                         | Some tool \<Rightarrow>
                             (let pattern = (if tool = FBash then strip_bash_colon_wildcard pattern else pattern);
                                  (pattern, mode) = strip_domain_prefix pattern
                              in Inr \<lparr>rule_act = action, rule_tool = tool, rule_pattern = none_if_empty pattern,
                                      rule_pattern_mode = mode\<rparr>)))
         | None \<Rightarrow>
             (case tool_name_to_filter rule of
                Some tool \<Rightarrow>
                  Inr \<lparr>rule_act = action, rule_tool = tool, rule_pattern = None, rule_pattern_mode = Glob\<rparr>
              | None \<Rightarrow>
                  Inr \<lparr>rule_act = action, rule_tool = FAny, rule_pattern = none_if_empty rule,
                       rule_pattern_mode = Glob\<rparr>))"

section \<open>Specification: printing a rule\<close>

fun escape_char :: "rchar \<Rightarrow> rstr" where
  "escape_char c = (if c = backslash \<or> c = lparen \<or> c = rparen then [backslash, c] else [c])"

definition escape_rule_content :: "rstr \<Rightarrow> rstr" where
  "escape_rule_content p = concat (map escape_char p)"

fun filter_name :: "tool_filter \<Rightarrow> rstr" where
  "filter_name FBash = lit ''Bash''"
| "filter_name FRead = lit ''Read''"
| "filter_name FEdit = lit ''Edit''"
| "filter_name FMcp = lit ''MCPTool''"
| "filter_name FGrep = lit ''Grep''"
| "filter_name FWebFetch = lit ''WebFetch''"
| "filter_name FWebSearch = lit ''WebSearch''"
| "filter_name FAny = []"

definition render_rule :: "permission_rule \<Rightarrow> rstr" where
  "render_rule r =
     filter_name (rule_tool r) @
     (case rule_pattern r of
        None \<Rightarrow> []
      | Some p \<Rightarrow>
          [lparen] @ escape_rule_content ((if rule_pattern_mode r = Domain then lit ''domain:'' else []) @ p) @ [rparen])"

text \<open>Patterns that the notation can carry for a tool.\<close>

definition printable :: "permission_rule \<Rightarrow> bool" where
  "printable r \<longleftrightarrow>
     rule_tool r \<noteq> FAny \<and>
     (case rule_pattern r of
        None \<Rightarrow> rule_pattern_mode r = Glob
      | Some p \<Rightarrow>
          p \<noteq> [] \<and> trim p = p \<and> p \<noteq> lit ''*'' \<and>
          (rule_tool r = FBash \<longrightarrow> \<not> ends_with (lit '':*'') p) \<and>
          (rule_pattern_mode r = Glob \<longrightarrow> \<not> starts_with (lit ''domain:'') p))"

section \<open>Lemmas\<close>

text \<open>Undoing one escape sequence in a text in which every backslash starts one.\<close>

lemma replace_escape:
  assumes "\<And>c. f c = [backslash, c] \<or> f c = [c] \<and> c \<noteq> backslash"
    and "f t = [backslash, t]" and "t \<noteq> backslash"
  shows "replace_str [backslash, t] [t] (concat (map f p)) = concat (map (f(t := [t])) p)"
proof (induction p)
  case (Cons a p)
  have hd: "\<not> starts_with [t] (concat (map f p))"
    using assms(1) [of "hd p"] assms(2,3) by (cases p) (auto simp: starts_with_def)
  have sw: "starts_with [backslash, t] (x # y) \<longleftrightarrow> x = backslash \<and> starts_with [t] y" for x y
    by (auto simp: starts_with_def)
  show ?case
  proof (cases "a = t")
    case True
    with assms(2) Cons show ?thesis by (simp add: sw) (simp add: starts_with_def)
  next
    case False
    with assms(1) [of a] hd Cons show ?thesis by (auto simp: sw) (auto simp: starts_with_def)
  qed
qed simp

lemma replace_double:
  "replace_str [backslash, backslash] [backslash] (concat (map (\<lambda>c. if c = backslash then [c, c] else [c]) p)) = p"
  by (induction p) (auto simp: starts_with_def)

lemma unescape_escape [simp]: "unescape_rule_content (escape_rule_content p) = p"
proof (cases "backslash \<in> set (escape_rule_content p)")
  case True
  have 1: "replace_str [backslash, lparen] [lparen] (concat (map escape_char p)) =
      concat (map (escape_char(lparen := [lparen])) p)"
    by (rule replace_escape) auto
  have 2: "replace_str [backslash, rparen] [rparen] (concat (map (escape_char(lparen := [lparen])) p)) =
      concat (map (escape_char(lparen := [lparen], rparen := [rparen])) p)"
    by (rule replace_escape) auto
  have 3: "escape_char(lparen := [lparen], rparen := [rparen]) = (\<lambda>c. if c = backslash then [c, c] else [c])"
    by auto
  show ?thesis
    using True by (simp add: unescape_rule_content_def escape_rule_content_def 1 2 3 replace_double)
next
  case False
  then have "escape_rule_content p = p"
    by (induction p) (auto simp: escape_rule_content_def split: if_splits)
  with False show ?thesis by (simp add: unescape_rule_content_def)
qed

lemma escape_even: "even (length (takeWhile (\<lambda>c. c = backslash) (rev (escape_rule_content p))))"
  by (induction p rule: rev_induct) (auto simp: escape_rule_content_def)

lemma find_last_rparen: "find_last_unescaped (escape_rule_content p @ [rparen]) rparen = Some (length (escape_rule_content p))"
  using escape_even [of p] by (simp add: find_last_unescaped_def is_unescaped_def)

lemma find_first_lparen:
  assumes "lparen \<notin> set name" and "backslash \<notin> set name"
  shows "find_first_unescaped (name @ lparen # rest) lparen = Some (length name)"
proof -
  have "takeWhile (\<lambda>c. c = backslash) (rev name) = []"
    using assms(2) by (simp add: takeWhile_eq_Nil_iff hd_rev) (metis last_in_set)
  then have "is_unescaped (name @ lparen # rest) (length name)" by (simp add: is_unescaped_def)
  moreover have "(name @ lparen # rest) ! j \<noteq> lparen" if "j < length name" for j
    using that assms(1) by (metis nth_append nth_mem)
  ultimately show ?thesis
    unfolding find_first_unescaped_def find_Some_iff by (intro exI [of _ "length name"]) (auto simp del: upt_Suc)
qed

lemma find_first_none: "lparen \<notin> set s \<Longrightarrow> find_first_unescaped s lparen = None"
  by (auto simp: find_first_unescaped_def find_None_iff in_set_conv_nth)

lemma filter_name_parses: "t \<noteq> FAny \<Longrightarrow> tool_name_to_filter (filter_name t) = Some t"
  by (cases t) (simp_all add: tool_name_to_filter_def str_simps)

lemma filter_name_chars:
  "lparen \<notin> set (filter_name t)" "backslash \<notin> set (filter_name t)"
  "t \<noteq> FAny \<Longrightarrow> filter_name t \<noteq> [] \<and> \<not> is_whitespace (hd (filter_name t)) \<and> \<not> is_whitespace (last (filter_name t))"
  by (cases t; simp add: str_simps is_whitespace_def)+

lemma trimmed_ends:
  assumes "p \<noteq> []" and "trim p = p"
  shows "\<not> is_whitespace (hd p)" and "\<not> is_whitespace (last p)"
proof -
  have start: "trim_start p = p" by (metis assms(2) trim_alt trim_start_idem)
  obtain c r where p: "p = c # r" using assms(1) by (cases p) auto
  show "\<not> is_whitespace (hd p)"
  proof
    assume "is_whitespace (hd p)"
    then have "dropWhile is_whitespace r = c # r" using start by (simp add: p trim_start_def)
    then show False by (metis impossible_Cons length_dropWhile_le)
  qed
  have "trim_end p = p" using assms(2) start by (simp add: trim_def)
  then show "\<not> is_whitespace (last p)" using trim_end_last [OF assms(1)] by simp
qed

lemma escape_ends:
  assumes "p \<noteq> []"
  shows "escape_rule_content p \<noteq> []"
    and "\<not> is_whitespace (hd p) \<Longrightarrow> \<not> is_whitespace (hd (escape_rule_content p))"
    and "last (escape_rule_content p) = last p"
proof -
  show "escape_rule_content p \<noteq> []" using assms by (cases p) (auto simp: escape_rule_content_def)
  show "\<not> is_whitespace (hd (escape_rule_content p))" if "\<not> is_whitespace (hd p)"
    using assms that by (cases p) (auto simp: escape_rule_content_def is_whitespace_def)
  show "last (escape_rule_content p) = last p"
    using assms by (cases p rule: rev_cases) (auto simp: escape_rule_content_def)
qed

lemma escape_trimmed:
  assumes "p \<noteq> []" and "trim p = p"
  shows "trim (escape_rule_content p) = escape_rule_content p"
  using escape_ends [OF assms(1)] trimmed_ends [OF assms] by (intro trim_noop) auto

lemma unescape_star: "unescape_rule_content (lit ''*'') = lit ''*''"
  by (simp add: unescape_rule_content_def str_simps)

lemma escape_not_star: "p \<noteq> lit ''*'' \<Longrightarrow> escape_rule_content p \<noteq> lit ''*''"
  by (metis unescape_escape unescape_star)

text \<open>Parsing a printed pattern, before the two idioms are looked at.\<close>

lemma parse_printed:
  assumes "t \<noteq> FAny" and "p \<noteq> []" and "trim p = p" and "p \<noteq> lit ''*''"
  shows "parse_permission_rule (filter_name t @ [lparen] @ escape_rule_content p @ [rparen]) act =
    (let (q, m) = strip_domain_prefix (if t = FBash then strip_bash_colon_wildcard p else p)
     in Inr \<lparr>rule_act = act, rule_tool = t, rule_pattern = none_if_empty q, rule_pattern_mode = m\<rparr>)"
proof -
  let ?s = "filter_name t @ lparen # escape_rule_content p @ [rparen]"
  note name = filter_name_chars(3) [OF assms(1)]
  have "trim ?s = ?s"
    using name by (intro trim_noop) (auto simp: is_whitespace_def)
  moreover have "trim (filter_name t) = filter_name t" using name by (simp add: trim_noop)
  moreover have "escape_rule_content p \<noteq> []" "trim (escape_rule_content p) = escape_rule_content p"
    "escape_rule_content p \<noteq> lit ''*''"
    using escape_ends(1) [OF assms(2)] escape_trimmed [OF assms(2,3)] escape_not_star [OF assms(4)] by auto
  ultimately show ?thesis
    using find_first_lparen [OF filter_name_chars(1,2), of t "escape_rule_content p @ [rparen]"]
    by (simp add: parse_permission_rule_def find_last_rparen filter_name_parses [OF assms(1)])
qed

lemma ends_with_star:
  assumes "p \<noteq> []" and "p \<noteq> lit ''*''"
  shows "ends_with (lit '':*'') (x @ p) \<longleftrightarrow> ends_with (lit '':*'') p"
proof -
  obtain q d where p: "p = q @ [d]" using assms(1) by (cases p rule: rev_cases) auto
  show ?thesis
    using assms(2) p by (cases q rule: rev_cases) (auto simp: ends_with_def starts_with_def str_simps)
qed

section \<open>Properties\<close>

text \<open>C27: The notation for permission rules loses nothing. Printing a rule (tool name, pattern with
  backslashes and parentheses escaped, the \<open>domain:\<close> marker) and parsing it again gives the
  same rule, for every action and every pattern the notation can carry: not blank at either
  end, not a lone star, for Bash not ending in \<open>:*\<close>, and starting with \<open>domain:\<close> only as the marker.\<close>

theorem rule_roundtrip:
  assumes "printable r"
  shows "parse_permission_rule (render_rule r) (rule_act r) = Inr r"
proof (cases "rule_pattern r")
  case None
  with assms have t: "rule_tool r \<noteq> FAny" "rule_pattern_mode r = Glob" by (simp_all add: printable_def)
  have "trim (filter_name (rule_tool r)) = filter_name (rule_tool r)"
    using filter_name_chars(3) [OF t(1)] by (simp add: trim_noop)
  with None t show ?thesis
    using find_first_none [OF filter_name_chars(1)] filter_name_parses [OF t(1)]
    by (simp add: parse_permission_rule_def render_rule_def)
next
  case (Some p)
  let ?q = "(if rule_pattern_mode r = Domain then lit ''domain:'' else []) @ p"
  from assms Some have p: "rule_tool r \<noteq> FAny" "p \<noteq> []" "trim p = p" "p \<noteq> lit ''*''"
    "rule_tool r = FBash \<longrightarrow> \<not> ends_with (lit '':*'') p"
    "rule_pattern_mode r = Glob \<longrightarrow> \<not> starts_with (lit ''domain:'') p"
    by (simp_all add: printable_def)
  have "\<not> is_whitespace 100" by (simp add: is_whitespace_def)
  then have ends: "?q \<noteq> []" "\<not> is_whitespace (hd ?q)" "\<not> is_whitespace (last ?q)"
    using p(2) trimmed_ends [OF p(2,3)] by (simp_all add: str_simps)
  have q: "?q \<noteq> []" "trim ?q = ?q" "?q \<noteq> lit ''*''"
    using ends(1) trim_noop [OF ends] p(4) by (simp_all add: str_simps)
  have "strip_suffix (lit '':*'') ?q = None" if "rule_tool r = FBash"
    using that p ends_with_star [OF p(2,4), of "lit ''domain:''"] by (simp add: strip_suffix_def)
  moreover have "strip_domain_prefix ?q = (p, rule_pattern_mode r)"
    using p(6) by (cases "rule_pattern_mode r") (simp_all add: strip_domain_prefix_def strip_prefix_def)
  ultimately have "(let (q, m) = strip_domain_prefix
        (if rule_tool r = FBash then strip_bash_colon_wildcard ?q else ?q)
      in Inr \<lparr>rule_act = rule_act r, rule_tool = rule_tool r, rule_pattern = none_if_empty q, rule_pattern_mode = m\<rparr>)
      = (Inr r :: rule_parse_error + permission_rule)"
    using Some p(2) by (simp add: strip_bash_colon_wildcard_def none_if_empty_def)
  then show ?thesis
    using parse_printed [OF p(1) q, of "rule_act r"] Some by (simp add: render_rule_def)
qed

theorem rule_roundtrip_witness:
  "parse_permission_rule (lit ''Bash(echo '' @ [backslash, lparen] @ lit ''x'' @ [backslash, rparen] @ lit '')'') RuleDeny =
     Inr \<lparr>rule_act = RuleDeny, rule_tool = FBash, rule_pattern = Some (lit ''echo (x)''), rule_pattern_mode = Glob\<rparr>"
proof -
  let ?r = "\<lparr>rule_act = RuleDeny, rule_tool = FBash, rule_pattern = Some (lit ''echo (x)''), rule_pattern_mode = Glob\<rparr>"
  have "printable ?r" by code_simp
  from rule_roundtrip [OF this] show ?thesis
    by (simp add: render_rule_def escape_rule_content_def str_simps)
qed

end
