(* ===== verification/BashPermission.thy ===== *)
theory BashPermission
  imports ExecRisk PermissionPolicy
begin

text \<open>
  The evaluation of one shell request (\<open>xai-grok-workspace/src/permission/manager.rs\<close>, with the
  environment risk of \<open>auto_mode.rs\<close> and the opaque-shell floor of \<open>shell_access.rs\<close>): safe and
  dangerous commands, the verdict on the segments of a script, the floors that force a prompt,
  and the decision by a session grant. What the bash grammar gives of a script is a parameter.
  The hash sets of the state are lists without repetition, in iteration order.
\<close>

section \<open>Persistent state\<close>

datatype edit_policy = EditAsk | EditAllow | EditReject

record permission_state =
  edit_pol :: edit_policy
  allow_bash_execute :: bool
  allowed_bash_commands :: "rstr list"
  disallowed_bash_commands :: "rstr list"
  allowed_web_fetch_domains :: "rstr list"
  allowed_mcp_tools :: "rstr list"
  allowed_mcp_servers :: "rstr list"
  grants_version :: int

definition VALIDATED_MCP_SERVER_GRANTS_VERSION :: int where
  "VALIDATED_MCP_SERVER_GRANTS_VERSION = 1"

definition default_state :: permission_state where
  "default_state =
     \<lparr>edit_pol = EditAsk, allow_bash_execute = False, allowed_bash_commands = [], disallowed_bash_commands = [],
      allowed_web_fetch_domains = [], allowed_mcp_tools = [], allowed_mcp_servers = [],
      grants_version = VALIDATED_MCP_SERVER_GRANTS_VERSION\<rparr>"

section \<open>Environment risk\<close>

datatype env_risk = EnvSafe | EnvUnvetted | EnvInjection

fun risk_max :: "env_risk \<Rightarrow> env_risk \<Rightarrow> env_risk" where
  "risk_max EnvInjection _ = EnvInjection"
| "risk_max _ EnvInjection = EnvInjection"
| "risk_max EnvUnvetted _ = EnvUnvetted"
| "risk_max _ EnvUnvetted = EnvUnvetted"
| "risk_max EnvSafe EnvSafe = EnvSafe"

definition SAFE_ENV_KEYS :: "string list" where
  "SAFE_ENV_KEYS =
     [''CARGO_TERM_COLOR'', ''CARGO_TERM_PROGRESS_WHEN'', ''RUST_LOG'', ''RUST_LOG_STYLE'', ''RUST_BACKTRACE'',
      ''RUST_TEST_THREADS'', ''RUST_MIN_STACK'', ''NO_COLOR'', ''CLICOLOR'', ''CLICOLOR_FORCE'', ''FORCE_COLOR'',
      ''COLORTERM'']"

definition INJECTION_ENV_KEYS :: "string list" where
  "INJECTION_ENV_KEYS =
     [''LD_PRELOAD'', ''LD_AUDIT'', ''BASH_ENV'', ''ENV'', ''IFS'', ''PATH'', ''GIT_EXTERNAL_DIFF'', ''GIT_PROXY_COMMAND'',
      ''PROMPT_COMMAND'']"

definition INJECTION_ENV_KEY_PREFIXES :: "string list" where
  "INJECTION_ENV_KEY_PREFIXES = [''DYLD_'', ''GIT_CONFIG'']"

definition env_key_risk :: "rstr \<Rightarrow> env_risk" where
  "env_key_risk key =
     (if one_of key SAFE_ENV_KEYS then EnvSafe
      else if one_of key INJECTION_ENV_KEYS \<or>
              list_ex (\<lambda>p. starts_with (lit p) key) INJECTION_ENV_KEY_PREFIXES then EnvInjection
      else EnvUnvetted)"

text \<open>The arguments of one \<open>env\<close>; \<open>None\<close> is the early return at an option.\<close>

fun env_args_risk :: "bool \<Rightarrow> env_risk \<Rightarrow> argv \<Rightarrow> env_risk option" where
  "env_args_risk options_done risk [] = Some risk"
| "env_args_risk options_done risk (arg # args) =
     (if arg = lit ''--'' then env_args_risk True risk args
      else if \<not> options_done \<and> dashed arg then None
      else if 61 \<in> set arg then env_args_risk options_done (risk_max risk (env_key_risk (before_eq arg))) args
      else Some risk)"

primrec env_chain_risk :: "nat \<Rightarrow> env_risk \<Rightarrow> argv \<Rightarrow> env_risk" where
  "env_chain_risk 0 risk current = risk"
| "env_chain_risk (Suc n) risk current =
     (case (if head_name current = Some (lit ''env'') then env_args_risk False risk (tl current) else Some risk) of
        None \<Rightarrow> EnvInjection
      | Some risk \<Rightarrow>
          (case strip_wrapper_command current of
             Some inner \<Rightarrow> env_chain_risk n risk inner
           | None \<Rightarrow> risk))"

definition command_env_risk :: "argv \<Rightarrow> env_risk" where
  "command_env_risk ws = env_chain_risk 8 EnvSafe ws"

text \<open>\<open>script_env_risk\<close>: the keys of the assignment nodes of the tree, then the commands.\<close>

definition script_env_risk :: "rstr list \<Rightarrow> argv list \<Rightarrow> env_risk" where
  "script_env_risk keys cmds =
     fold (\<lambda>ws risk. risk_max risk (command_env_risk ws)) cmds
       (fold (\<lambda>k risk. risk_max risk (env_key_risk k)) keys EnvSafe)"

section \<open>Safe and dangerous commands\<close>

definition rg_has_pre_flag :: "argv \<Rightarrow> bool" where
  "rg_has_pre_flag ws \<longleftrightarrow>
     ws \<noteq> [] \<and> hd ws = lit ''rg'' \<and> list_ex (\<lambda>w. w = lit ''--pre'' \<or> starts_with (lit ''--pre='') w) ws"

definition KUBECTL_UNSAFE_FLAGS :: "string list" where
  "KUBECTL_UNSAFE_FLAGS =
     [''--kubeconfig'', ''--context'', ''--cluster'', ''--server'', ''-s'', ''--token'', ''--user'', ''--as'',
      ''--as-group'', ''--as-uid'', ''--as-user-extra'', ''--username'', ''--password'', ''--client-certificate'',
      ''--client-key'', ''--certificate-authority'']"

definition kubectl_has_unsafe_flag :: "argv \<Rightarrow> bool" where
  "kubectl_has_unsafe_flag ws \<longleftrightarrow>
     ws \<noteq> [] \<and> hd ws = lit ''kubectl'' \<and> list_ex (\<lambda>w. one_of (before_eq w) KUBECTL_UNSAFE_FLAGS) (tl ws)"

definition ps_value_flags :: "string list" where
  "ps_value_flags =
     [''-o'', ''-O'', ''--format'', ''--sort'', ''-p'', ''-q'', ''-t'', ''-u'', ''-U'', ''-g'', ''-G'', ''-C'', ''-s'',
      ''--pid'', ''--ppid'', ''--sid'', ''--tty'', ''--user'', ''--group'', ''--cols'', ''--columns'', ''--width'',
      ''o'', ''O'']"

definition ps_word_dumps :: "rstr \<Rightarrow> bool" where
  "ps_word_dumps s \<longleftrightarrow>
     69 \<in> set s \<or> 101 \<in> set s \<and> (\<not> dashed s \<or> dashed s \<and> \<not> ddashed s \<and> (97 \<in> set s \<or> 120 \<in> set s))"

fun ps_loop :: "bool \<Rightarrow> argv \<Rightarrow> bool" where
  "ps_loop skip_next [] = False"
| "ps_loop skip_next (s # ws) =
     (if skip_next then ps_loop False ws
      else if starts_with (lit ''--format='') s \<or> starts_with (lit ''--sort='') s then ps_loop False ws
      else if one_of s ps_value_flags then ps_loop True ws
      else if starts_with (lit ''-o'') s \<or> starts_with (lit ''-O'') s then ps_loop False ws
      else if ps_word_dumps s then True
      else ps_loop (dashed s \<and> \<not> ddashed s \<and> (ends_with (lit ''o'') s \<or> ends_with (lit ''O'') s)) ws)"

definition ps_dumps_environment :: "argv \<Rightarrow> bool" where
  "ps_dumps_environment ws \<longleftrightarrow> ws \<noteq> [] \<and> hd ws = lit ''ps'' \<and> ps_loop False (tl ws)"

definition safe_prefixes :: "string list" where
  "safe_prefixes =
     [''ls'', ''cat'', ''pwd'', ''date'', ''git status'', ''git branch'', ''git log'', ''git diff'', ''git ls-files'',
      ''git show'', ''git rev-parse'', ''whoami'', ''hostname'', ''uptime'', ''grep'', ''rg'', ''kubectl get'',
      ''kubectl logs'', ''kubectl describe'', ''ps'', ''bin/explorer ls'', ''head'', ''tail'', ''wc'', ''sort'', ''uniq'',
      ''tr'', ''cut'']"

definition is_safe_command_words_str :: "rstr \<Rightarrow> bool" where
  "is_safe_command_words_str cmd = list_ex (\<lambda>p. matches_command_prefix cmd (lit p)) safe_prefixes"

definition exposes :: "argv \<Rightarrow> bool" where
  "exposes ws \<longleftrightarrow> rg_has_pre_flag ws \<or> kubectl_has_unsafe_flag ws \<or> ps_dumps_environment ws"

definition is_safe_command_words :: "argv \<Rightarrow> bool" where
  "is_safe_command_words ws \<longleftrightarrow>
     ws \<noteq> [] \<and> \<not> exposes ws \<and> is_safe_command_words_str (join (lit '' '') ws)"

definition ALWAYS_SAFE_COMMANDS :: "string list" where
  "ALWAYS_SAFE_COMMANDS =
     [''ls'', ''cat'', ''pwd'', ''date'', ''whoami'', ''hostname'', ''uptime'', ''ps'', ''git status'', ''git branch'',
      ''git log'', ''git diff'', ''git ls-files'', ''git show'', ''git rev-parse'', ''grep'', ''rg'', ''kubectl get'',
      ''kubectl logs'', ''kubectl describe'', ''bin/explorer ls'']"

definition is_always_safe_command_words :: "argv \<Rightarrow> bool" where
  "is_always_safe_command_words ws \<longleftrightarrow>
     ws \<noteq> [] \<and> \<not> exposes ws \<and>
     list_ex (\<lambda>p. matches_command_prefix (join (lit '' '') ws) (lit p)) ALWAYS_SAFE_COMMANDS"

text \<open>\<open>default_always_allow_scope\<close>.\<close>

definition default_scope :: "argv \<Rightarrow> nat" where
  "default_scope ws = min (length ws) 2 + length (takeWhile dashed (drop 2 ws))"

definition default_always_allow_scope :: "argv \<Rightarrow> nat" where
  "default_always_allow_scope ws =
     (if ws = [] then 0
      else if is_safe_command_words ws \<and> is_safe_command_words_str (hd ws) then 1
      else if is_safe_command_words ws \<and> 2 \<le> length ws \<and> is_safe_command_words_str (join (lit '' '') (take 2 ws)) then 2
      else default_scope ws)"

definition dangerous_prefixes :: "string list" where
  "dangerous_prefixes = [''rm'', ''chmod'', ''chown'', ''chgrp'', ''chattr'', ''pkill'', ''kill'', ''killall'', ''git push'']"

definition is_dangerous_command_words :: "argv \<Rightarrow> bool" where
  "is_dangerous_command_words ws \<longleftrightarrow>
     ws \<noteq> [] \<and> list_ex (\<lambda>p. matches_command_prefix (join (lit '' '') ws) (lit p)) dangerous_prefixes"

definition words_are_opaque_shell :: "shell_word list \<Rightarrow> bool" where
  "words_are_opaque_shell ws \<longleftrightarrow>
     is_potential_inline (shell_dash_c_script ws) \<or>
     (case ws of WordLiteral p # _ \<Rightarrow> basename p = lit ''eval'' | _ \<Rightarrow> False)"

section \<open>Evaluation of a script\<close>

datatype segment_evaluation =
  AutoAllow bool
| SegReject rstr
| NeedsPrompts "rstr list" bool
| Unparseable

record bash_evaluation =
  eval_segments :: segment_evaluation
  writes_real_file :: bool
  eval_env_risk :: env_risk
  exact_grant :: bool
  all_segments_granted :: bool
  has_opaque_shell :: bool
  exec_risk :: bool
  ambient_segments :: "argv list option"

record segment_totals =
  needs_prompt :: "rstr list"
  any_dangerous :: bool
  via_session_grant :: bool
  all_granted :: bool
  opaque_seen :: bool
  risk_seen :: bool
  git_seen :: bool

definition initial_totals :: segment_totals where
  "initial_totals =
     \<lparr>needs_prompt = [], any_dangerous = False, via_session_grant = False, all_granted = True,
      opaque_seen = False, risk_seen = False, git_seen = False\<rparr>"

definition note_facts :: "argv \<Rightarrow> argv \<Rightarrow> segment_totals \<Rightarrow> segment_totals" where
  "note_facts raw ws t =
     t\<lparr>opaque_seen := opaque_seen t \<or> words_are_opaque_shell (map WordLiteral ws),
       risk_seen := risk_seen t \<or> fact_exec_risk (exec_facts raw),
       git_seen := git_seen t \<or> fact_has_git (exec_facts raw)\<rparr>"

definition matched_grant :: "permission_state \<Rightarrow> rstr \<Rightarrow> bool" where
  "matched_grant st s = list_ex (matches_command_prefix s) (allowed_bash_commands st)"

definition classify_segment :: "permission_state \<Rightarrow> bool \<Rightarrow> argv \<Rightarrow> segment_totals \<Rightarrow> segment_totals" where
  "classify_segment st honor_safe_lists ws t =
     (let s = join (lit '' '') ws;
          t = t\<lparr>all_granted := all_granted t \<and> matched_grant st s\<rparr>
      in if is_dangerous_command_words ws then t\<lparr>any_dangerous := True, needs_prompt := needs_prompt t @ [s]\<rparr>
         else if exposes ws \<and> s \<notin> set (allowed_bash_commands st) then t\<lparr>needs_prompt := needs_prompt t @ [s]\<rparr>
         else if matched_grant st s \<or>
                 (honor_safe_lists \<and> (is_safe_command_words ws \<or> is_always_safe_command_words ws))
         then (if matched_grant st s then t\<lparr>via_session_grant := True\<rparr> else t)
         else t\<lparr>needs_prompt := needs_prompt t @ [s]\<rparr>)"

text \<open>The loop over the segments; \<open>Inl\<close> is the early return at a disallowed prefix.\<close>

fun segments_loop ::
  "permission_state \<Rightarrow> bool \<Rightarrow> segment_totals \<Rightarrow> argv list \<Rightarrow> rstr \<times> segment_totals + segment_totals" where
  "segments_loop st honor t [] = Inr t"
| "segments_loop st honor t (raw # segs) =
     (if is_setup_command (unwrap_wrappers raw)
      then segments_loop st honor (note_facts raw (unwrap_wrappers raw) t) segs
      else
        (case find (matches_command_prefix (join (lit '' '') (unwrap_wrappers raw))) (disallowed_bash_commands st) of
           Some d \<Rightarrow> Inl (d, note_facts raw (unwrap_wrappers raw) t)
         | None \<Rightarrow>
             segments_loop st honor
               (classify_segment st honor (unwrap_wrappers raw) (note_facts raw (unwrap_wrappers raw) t)) segs))"

definition reject_text :: "rstr \<Rightarrow> rstr" where
  "reject_text d = lit ''User previously rejected '' @ [96] @ d @ [96] @ lit '' for this session''"

definition finish_evaluation :: "bool \<Rightarrow> env_risk \<Rightarrow> bool \<Rightarrow> argv list \<Rightarrow> rstr \<times> segment_totals + segment_totals \<Rightarrow> bash_evaluation" where
  "finish_evaluation writes risk exact segs r =
     (case r of
        Inl (d, t) \<Rightarrow>
          \<lparr>eval_segments = SegReject (reject_text d), writes_real_file = writes, eval_env_risk = risk,
           exact_grant = exact, all_segments_granted = all_granted t, has_opaque_shell = opaque_seen t,
           exec_risk = risk_seen t, ambient_segments = None\<rparr>
      | Inr t \<Rightarrow>
          \<lparr>eval_segments =
             (if needs_prompt t = [] then AutoAllow (via_session_grant t)
              else NeedsPrompts (needs_prompt t) (any_dangerous t)),
           writes_real_file = writes, eval_env_risk = risk, exact_grant = exact,
           all_segments_granted = all_granted t, has_opaque_shell = opaque_seen t, exec_risk = risk_seen t,
           ambient_segments = (if git_seen t \<and> \<not> risk_seen t then Some segs else None)\<rparr>)"

definition tree_has_opaque_shell :: "shell_tree \<Rightarrow> bool" where
  "tree_has_opaque_shell tree =
     list_ex (\<lambda>i. words_are_opaque_shell (shell_words_of (inv_peeled (unwrap_invocation_checked i))))
       (shell_command_invocations tree)"

definition evaluate_tree :: "rstr \<Rightarrow> shell_tree \<Rightarrow> permission_state \<Rightarrow> bool \<Rightarrow> bash_evaluation" where
  "evaluate_tree cmd tree st honor_safe_lists =
     (let writes = list_ex (\<lambda>p. \<not> is_safe_write_sink p) (command_write_paths_in_tree tree);
          exact = cmd \<in> set (allowed_bash_commands st)
      in case commands_of_tree tree of
           None \<Rightarrow>
             \<lparr>eval_segments = Unparseable, writes_real_file = writes,
              eval_env_risk = script_env_risk (assigned_keys tree) [], exact_grant = exact,
              all_segments_granted = False, has_opaque_shell = tree_has_opaque_shell tree,
              exec_risk = script_may_invoke_git cmd, ambient_segments = None\<rparr>
         | Some segs \<Rightarrow>
             finish_evaluation writes (script_env_risk (assigned_keys tree) segs) exact segs
               (segments_loop st honor_safe_lists initial_totals segs))"

definition evaluate_bash :: "(rstr \<Rightarrow> shell_tree option) \<Rightarrow> rstr \<Rightarrow> permission_state \<Rightarrow> bool \<Rightarrow> bash_evaluation" where
  "evaluate_bash parse cmd st honor_safe_lists =
     (case parse cmd of
        None \<Rightarrow>
          \<lparr>eval_segments = Unparseable, writes_real_file = False, eval_env_risk = EnvSafe,
           exact_grant = (cmd \<in> set (allowed_bash_commands st)), all_segments_granted = False,
           has_opaque_shell = False, exec_risk = script_may_invoke_git cmd, ambient_segments = None\<rparr>
      | Some tree \<Rightarrow> evaluate_tree cmd tree st honor_safe_lists)"

section \<open>Floors and grants\<close>

definition persisted_bash_auto_allows :: "permission_state \<Rightarrow> rstr \<Rightarrow> string option \<Rightarrow> bool" where
  "persisted_bash_auto_allows st cmd yolo_pin \<longleftrightarrow>
     allow_bash_execute st \<and> yolo_pin = None \<or> cmd \<in> set (allowed_bash_commands st)"

definition bash_write_floor :: "bash_evaluation \<Rightarrow> bool" where
  "bash_write_floor e \<longleftrightarrow> writes_real_file e \<and> \<not> exact_grant e"

definition bash_unsafe_env_floor :: "bash_evaluation \<Rightarrow> bool" where
  "bash_unsafe_env_floor e \<longleftrightarrow> eval_env_risk e \<noteq> EnvSafe \<and> \<not> exact_grant e"

definition bash_opaque_shell_floor :: "bash_evaluation \<Rightarrow> bool" where
  "bash_opaque_shell_floor e \<longleftrightarrow> has_opaque_shell e \<and> \<not> exact_grant e"

definition bash_exec_floor :: "bash_evaluation \<Rightarrow> bool" where
  "bash_exec_floor e \<longleftrightarrow> exec_risk e \<and> \<not> exact_grant e"

definition bash_request_floor :: "bash_evaluation \<Rightarrow> bool" where
  "bash_request_floor e \<longleftrightarrow>
     bash_write_floor e \<or> bash_unsafe_env_floor e \<or> bash_opaque_shell_floor e \<or> bash_exec_floor e"

definition bash_request_floor_defers :: "bash_evaluation \<Rightarrow> bool" where
  "bash_request_floor_defers e \<longleftrightarrow>
     \<not> writes_real_file e \<and> \<not> has_opaque_shell e \<and> \<not> exec_risk e \<and> eval_env_risk e = EnvUnvetted"

definition sandbox_may_auto_allow_bash :: "bash_evaluation \<Rightarrow> bool \<Rightarrow> bool" where
  "sandbox_may_auto_allow_bash e sandbox_active \<longleftrightarrow> sandbox_active \<and> \<not> bash_request_floor e"

record bash_grant_opts =
  honor_safe_lists :: bool
  allow_blanket :: bool
  conservative_blanket :: bool

definition PRE_CLASSIFIER :: bash_grant_opts where
  "PRE_CLASSIFIER = \<lparr>honor_safe_lists = True, allow_blanket = True, conservative_blanket = True\<rparr>"

definition ASK_FLOOR_REMEMBER :: bash_grant_opts where
  "ASK_FLOOR_REMEMBER = \<lparr>honor_safe_lists = False, allow_blanket = False, conservative_blanket = False\<rparr>"

definition post_classify :: "bool \<Rightarrow> bash_grant_opts" where
  "post_classify auto_forced_prompt =
     \<lparr>honor_safe_lists = True, allow_blanket = \<not> auto_forced_prompt, conservative_blanket = False\<rparr>"

datatype reason =
  Yolo | PolicyAllow | PolicyDenyReason | AutoFastPathReason | AutoClassifierAllow | AutoClassifierDeny
| SandboxAuto | PersistedGrant | SessionGrant | StaticAllowlist | SafeCommand | SessionDeny | PromptDenyReason
| RequesterGone | PromptTrigger string

definition allow_if :: "bool \<Rightarrow> reason \<Rightarrow> (decision \<times> reason) option" where
  "allow_if b r = (if b then Some (Allow, r) else None)"

definition bash_grant_pre_decision ::
  "rstr \<Rightarrow> bash_evaluation \<Rightarrow> permission_state \<Rightarrow> string option \<Rightarrow> bash_grant_opts \<Rightarrow> (decision \<times> reason) option" where
  "bash_grant_pre_decision cmd e st yolo_pin opts =
     (case eval_segments e of
        SegReject reason \<Rightarrow> Some (Reject reason, SessionDeny)
      | seg \<Rightarrow>
          if bash_request_floor e then None
          else
            (case seg of
               AutoAllow via \<Rightarrow>
                 if \<not> honor_safe_lists opts \<and> \<not> all_segments_granted e then None
                 else Some (Allow, if via then SessionGrant else SafeCommand)
             | NeedsPrompts _ dangerous \<Rightarrow>
                 if \<not> allow_blanket opts \<or> dangerous \<and> conservative_blanket opts then None
                 else allow_if (persisted_bash_auto_allows st cmd yolo_pin) SessionGrant
             | _ \<Rightarrow>
                 if \<not> allow_blanket opts then None
                 else
                   allow_if
                     (if conservative_blanket opts then exact_grant e else persisted_bash_auto_allows st cmd yolo_pin)
                     SessionGrant))"

section \<open>Specification\<close>

definition seg_disallowed :: "permission_state \<Rightarrow> argv \<Rightarrow> bool" where
  "seg_disallowed st raw \<longleftrightarrow>
     \<not> is_setup_command (unwrap_wrappers raw) \<and>
     list_ex (matches_command_prefix (join (lit '' '') (unwrap_wrappers raw))) (disallowed_bash_commands st)"

definition seg_cleared :: "permission_state \<Rightarrow> bool \<Rightarrow> argv \<Rightarrow> bool" where
  "seg_cleared st honor ws \<longleftrightarrow>
     is_setup_command ws \<or>
     \<not> is_dangerous_command_words ws \<and>
     (exposes ws \<longrightarrow> join (lit '' '') ws \<in> set (allowed_bash_commands st)) \<and>
     (matched_grant st (join (lit '' '') ws) \<or> honor \<and> (is_safe_command_words ws \<or> is_always_safe_command_words ws))"

section \<open>Lemmas\<close>

lemma note_facts_simps [simp]:
  "needs_prompt (note_facts raw ws t) = needs_prompt t" "all_granted (note_facts raw ws t) = all_granted t"
  "opaque_seen (note_facts raw ws t) \<longleftrightarrow> opaque_seen t \<or> words_are_opaque_shell (map WordLiteral ws)"
  "risk_seen (note_facts raw ws t) \<longleftrightarrow> risk_seen t \<or> fact_exec_risk (exec_facts raw)"
  "git_seen (note_facts raw ws t) \<longleftrightarrow> git_seen t \<or> fact_has_git (exec_facts raw)"
  by (simp_all add: note_facts_def)

lemma classify_segment_simps [simp]:
  "opaque_seen (classify_segment st honor ws t) = opaque_seen t"
  "risk_seen (classify_segment st honor ws t) = risk_seen t"
  "git_seen (classify_segment st honor ws t) = git_seen t"
  "all_granted (classify_segment st honor ws t) \<longleftrightarrow> all_granted t \<and> matched_grant st (join (lit '' '') ws)"
  by (simp_all add: classify_segment_def Let_def)

lemma classify_segment_needs:
  "\<not> is_setup_command ws \<Longrightarrow>
     needs_prompt (classify_segment st honor ws t) = [] \<longleftrightarrow> needs_prompt t = [] \<and> seg_cleared st honor ws"
  by (auto simp: classify_segment_def Let_def seg_cleared_def)

lemma segments_loop_Inl: "(\<exists>r. segments_loop st honor t segs = Inl r) \<longleftrightarrow> list_ex (seg_disallowed st) segs"
proof (induction st honor t segs rule: segments_loop.induct)
  case (2 st honor t raw segs)
  let ?f = "find (matches_command_prefix (join (lit '' '') (unwrap_wrappers raw))) (disallowed_bash_commands st)"
  have "seg_disallowed st raw \<longleftrightarrow> \<not> is_setup_command (unwrap_wrappers raw) \<and> ?f \<noteq> None"
    by (simp add: seg_disallowed_def find_eq_None)
  with 2 show ?case by (cases ?f) auto
qed simp

lemma segments_loop_Inr:
  "segments_loop st honor t segs = Inr u \<Longrightarrow>
     (needs_prompt u = [] \<longleftrightarrow> needs_prompt t = [] \<and> (\<forall>raw \<in> set segs. seg_cleared st honor (unwrap_wrappers raw))) \<and>
     (risk_seen u \<longleftrightarrow> risk_seen t \<or> (\<exists>raw \<in> set segs. fact_exec_risk (exec_facts raw))) \<and>
     (git_seen u \<longleftrightarrow> git_seen t \<or> (\<exists>raw \<in> set segs. fact_has_git (exec_facts raw))) \<and>
     (opaque_seen u \<longleftrightarrow> opaque_seen t \<or>
        (\<exists>raw \<in> set segs. words_are_opaque_shell (map WordLiteral (unwrap_wrappers raw)))) \<and>
     (all_granted u \<longleftrightarrow> all_granted t \<and>
        (\<forall>raw \<in> set segs. is_setup_command (unwrap_wrappers raw) \<or>
           matched_grant st (join (lit '' '') (unwrap_wrappers raw))))"
proof (induction st honor t segs rule: segments_loop.induct)
  case (2 st honor t raw segs)
  show ?case
  proof (cases "is_setup_command (unwrap_wrappers raw)")
    case True
    with 2 show ?thesis by (auto simp: seg_cleared_def)
  next
    case False
    with 2 show ?thesis
      by (cases "find (matches_command_prefix (join (lit '' '') (unwrap_wrappers raw))) (disallowed_bash_commands st)")
        (auto simp: classify_segment_needs)
  qed
qed simp

lemma no_risk_unwrapped:
  assumes "\<not> fact_exec_risk (exec_facts raw)"
  shows "strip_wrapper_command (unwrap_wrappers raw) = None"
proof -
  have "\<exists>r. normalize_for_exec_risk raw = Some r" using assms by (auto simp: exec_facts_def split: option.splits)
  then have "exec_unwrap raw \<noteq> None"
    by (auto simp: normalize_for_exec_risk_def MAX_NORMALIZE_ROUNDS_def MAX_WRAPPER_DEPTH_def
        MAX_TRANSPARENT_PREFIX_DEPTH_def numeral_nat split: option.splits)
  then show ?thesis
    using unwrap_checked_peels(2) [of raw] by (auto simp: exec_unwrap_def unwrap_wrappers_def Let_def split: if_splits)
qed

lemma matches_command_prefix_iff: "matches_command_prefix cmd p \<longleftrightarrow> cmd = p \<or> (\<exists>r. cmd = p @ 32 # r)"
proof -
  have "starts_with p cmd \<and> length p < length cmd \<and> cmd ! length p = 32 \<longleftrightarrow> (\<exists>r. cmd = p @ 32 # r)"
  proof
    assume a: "starts_with p cmd \<and> length p < length cmd \<and> cmd ! length p = 32"
    then obtain q where "cmd = p @ q" by (auto simp: starts_with_iff)
    with a show "\<exists>r. cmd = p @ 32 # r" by (cases q) auto
  qed auto
  then show ?thesis by (simp add: matches_command_prefix_def)
qed

lemma matches_command_prefix_trans:
  "matches_command_prefix a b \<Longrightarrow> matches_command_prefix b c \<Longrightarrow> matches_command_prefix a c"
  by (auto simp: matches_command_prefix_iff)

lemma join_prefix:
  assumes "0 < n" "n \<le> length ws"
  shows "matches_command_prefix (join (lit '' '') ws) (join (lit '' '') (take n ws))"
proof (cases "n = length ws")
  case False
  with assms have "take n ws \<noteq> []" "drop n ws \<noteq> []" by auto
  then have "join (lit '' '') ws = join (lit '' '') (take n ws) @ 32 # join (lit '' '') (drop n ws)"
    using join_append [of "take n ws" "drop n ws" "lit '' ''"] by (simp add: str_simps)
  then show ?thesis by (auto simp: matches_command_prefix_iff)
qed (simp add: matches_command_prefix_def)

lemma safe_str_closed: "matches_command_prefix cmd p \<Longrightarrow> is_safe_command_words_str p \<Longrightarrow> is_safe_command_words_str cmd"
  by (auto simp: is_safe_command_words_str_def list_ex_iff intro: matches_command_prefix_trans)

lemma scope_range: "ws \<noteq> [] \<Longrightarrow> 0 < default_always_allow_scope ws \<and> default_always_allow_scope ws \<le> length ws"
proof -
  assume "ws \<noteq> []"
  moreover have "length (takeWhile dashed (drop 2 ws)) \<le> length ws - 2"
    using length_takeWhile_le [of dashed "drop 2 ws"] by simp
  moreover have "Suc 0 \<le> length ws" using \<open>ws \<noteq> []\<close> by (simp add: Suc_le_eq)
  ultimately show ?thesis by (auto simp: default_always_allow_scope_def default_scope_def)
qed

lemma take_hd: "ws \<noteq> [] \<Longrightarrow> join sep (take (Suc 0) ws) = hd ws"
  by (cases ws) simp_all

section \<open>Properties\<close>

text \<open>C25: A grant covers every segment of the script. When a shell command is allowed without a prompt
  by the segment evaluation, and the command was not granted as a whole and there is no
  blanket grant (or the policy pins it off), then the script was decomposed, writes to no real
  file and sets no risky variable, and each of its segments is, with every wrapper removed, no
  inline script, carries no execution risk, matches no disallowed prefix, and is a setup
  command, or a command that is not dangerous and is granted or on the safe lists, where the
  variants that expose secrets need a grant of exactly that segment.\<close>

theorem grant_without_blanket_is_sound:
  assumes "bash_grant_pre_decision cmd (evaluate_bash parse cmd st True) st pin opts = Some (Allow, r)"
    and "cmd \<notin> set (allowed_bash_commands st)" and "\<not> allow_bash_execute st \<or> pin \<noteq> None"
  shows "\<exists>tree segs. parse cmd = Some tree \<and> commands_of_tree tree = Some segs \<and>
           (\<forall>p \<in> set (command_write_paths_in_tree tree). is_safe_write_sink p) \<and>
           script_env_risk (assigned_keys tree) segs = EnvSafe \<and>
           (\<forall>raw \<in> set segs.
              strip_wrapper_command (unwrap_wrappers raw) = None \<and>
              \<not> words_are_opaque_shell (map WordLiteral (unwrap_wrappers raw)) \<and>
              \<not> fact_exec_risk (exec_facts raw) \<and> \<not> seg_disallowed st raw \<and>
              seg_cleared st True (unwrap_wrappers raw))"
proof -
  let ?e = "evaluate_bash parse cmd st True"
  have exact: "\<not> exact_grant ?e"
    using assms(2)
    by (auto simp: evaluate_bash_def evaluate_tree_def Let_def finish_evaluation_def split: option.splits sum.splits)
  have nb: "\<not> persisted_bash_auto_allows st cmd pin" using assms(2,3) by (auto simp: persisted_bash_auto_allows_def)
  have floor: "\<not> bash_request_floor ?e" and auto: "\<exists>via. eval_segments ?e = AutoAllow via"
    using assms(1) exact nb
    by (auto simp: bash_grant_pre_decision_def allow_if_def split: segment_evaluation.splits if_splits)
  from auto obtain tree segs u where tree: "parse cmd = Some tree" "commands_of_tree tree = Some segs"
    and u: "segments_loop st True initial_totals segs = Inr u"
    by (auto simp: evaluate_bash_def evaluate_tree_def Let_def finish_evaluation_def split: option.splits sum.splits)
  then have e: "eval_segments ?e = (if needs_prompt u = [] then AutoAllow (via_session_grant u)
              else NeedsPrompts (needs_prompt u) (any_dangerous u))"
    "exec_risk ?e = risk_seen u" "has_opaque_shell ?e = opaque_seen u"
    "eval_env_risk ?e = script_env_risk (assigned_keys tree) segs"
    "writes_real_file ?e = list_ex (\<lambda>p. \<not> is_safe_write_sink p) (command_write_paths_in_tree tree)"
    by (simp_all add: evaluate_bash_def evaluate_tree_def Let_def finish_evaluation_def)
  note loop = segments_loop_Inr [OF u]
  have "\<forall>raw \<in> set segs. \<not> seg_disallowed st raw"
    using segments_loop_Inl [of st True initial_totals segs] u by (auto simp: list_ex_iff)
  moreover have "needs_prompt u = []" using auto e(1) by (auto split: if_splits)
  moreover have "\<not> risk_seen u" "\<not> opaque_seen u" "eval_env_risk ?e = EnvSafe" "\<not> writes_real_file ?e"
    using floor exact e
    by (auto simp: bash_request_floor_def bash_write_floor_def bash_unsafe_env_floor_def bash_opaque_shell_floor_def
        bash_exec_floor_def)
  ultimately show ?thesis
    using tree loop e no_risk_unwrapped by (auto simp: list_ex_iff)
qed

theorem grant_without_blanket_is_sound_witness:
  "seg_cleared default_state True (map lit [''ls'', ''x''])"
proof -
  have p: "bash_grant_pre_decision (lit ''ls x'')
      (evaluate_bash (\<lambda>_. Some (plain_tree [map lit [''ls'', ''x'']])) (lit ''ls x'') default_state True)
      default_state None PRE_CLASSIFIER = Some (Allow, SafeCommand)"
    by code_simp
  have u: "unwrap_wrappers (map lit [''ls'', ''x'']) = map lit [''ls'', ''x'']" by code_simp
  have c: "commands_of_tree (plain_tree [map lit [''ls'', ''x'']]) = Some [map lit [''ls'', ''x'']]" by code_simp
  have "lit ''ls x'' \<notin> set (allowed_bash_commands default_state)" "\<not> allow_bash_execute default_state \<or> None \<noteq> None"
    by (simp_all add: default_state_def)
  from grant_without_blanket_is_sound [OF p this] c u show ?thesis by (simp del: list.map)
qed

text \<open>The default scope of an always-allow is tight. It is a non-empty prefix of the words that
  grants the command itself; a command that is not on the safe list keeps at least its first
  two words; and when only the first of several words is kept, the grant allows nothing beyond
  the safe list.\<close>

theorem default_scope_is_tight:
  assumes "ws \<noteq> []"
  shows "(let k = default_always_allow_scope ws; granted = join (lit '' '') (take k ws)
          in 0 < k \<and> k \<le> length ws \<and> matches_command_prefix (join (lit '' '') ws) granted \<and>
             (\<not> is_safe_command_words ws \<longrightarrow> min 2 (length ws) \<le> k) \<and>
             (k < min 2 (length ws) \<longrightarrow> (\<forall>cmd. matches_command_prefix cmd granted \<longrightarrow> is_safe_command_words_str cmd)))"
proof -
  have r: "0 < default_always_allow_scope ws" "default_always_allow_scope ws \<le> length ws"
    using scope_range [OF assms] by auto
  have s: "is_safe_command_words_str (hd ws) \<and> default_always_allow_scope ws = 1"
    if "default_always_allow_scope ws < min 2 (length ws)"
    using that by (auto simp: default_always_allow_scope_def default_scope_def split: if_splits)
  have m: "\<not> is_safe_command_words ws \<Longrightarrow> min 2 (length ws) \<le> default_always_allow_scope ws"
    using assms by (simp add: default_always_allow_scope_def default_scope_def)
  have c: "is_safe_command_words_str cmd"
    if k: "default_always_allow_scope ws < min 2 (length ws)"
      and c: "matches_command_prefix cmd (join (lit '' '') (take (default_always_allow_scope ws) ws))" for cmd
    using c s [OF k] safe_str_closed [of cmd "hd ws"] by (simp add: take_hd [OF assms])
  show ?thesis
    unfolding Let_def using r join_prefix [OF r] m c by (intro conjI) simp_all
qed

theorem default_scope_is_tight_witness:
  "\<exists>k. default_always_allow_scope (map lit [''ls'', ''-l'']) = k \<and> 0 < k \<and> k \<le> 2"
  using default_scope_is_tight [of "map lit [''ls'', ''-l'']"] by (simp add: Let_def)

text \<open>A script of setup commands passes an ask rule without any grant. The evaluation skips setup
  commands before it asks for a grant of the segment, so the flag that all segments are granted
  stays true, and the path that should honour only explicit grants allows \<open>cd /etc\<close> in the
  default state.\<close>

theorem setup_script_satisfies_ask_rule:
  "bash_grant_pre_decision (lit ''cd /etc'')
     (evaluate_bash (\<lambda>_. Some (plain_tree [map lit [''cd'', ''/etc'']])) (lit ''cd /etc'') default_state True)
     default_state None ASK_FLOOR_REMEMBER =
   Some (Allow, SafeCommand)"
  by code_simp

text \<open>A dangerous command is approved without a prompt when it was granted as a whole. With
  \<open>rm x\<close> among the granted commands the evaluation behind the classifier allows it.\<close>

theorem exact_grant_allows_dangerous:
  "is_dangerous_command_words (map lit [''rm'', ''x'']) \<and>
   bash_grant_pre_decision (lit ''rm x'')
     (evaluate_bash (\<lambda>_. Some (plain_tree [map lit [''rm'', ''x'']])) (lit ''rm x'')
        (default_state\<lparr>allowed_bash_commands := [lit ''rm x'']\<rparr>) True)
     (default_state\<lparr>allowed_bash_commands := [lit ''rm x'']\<rparr>) None (post_classify False) =
   Some (Allow, SessionGrant)"
proof
  show "is_dangerous_command_words (map lit [''rm'', ''x''])" by code_simp
  show "bash_grant_pre_decision (lit ''rm x'')
     (evaluate_bash (\<lambda>_. Some (plain_tree [map lit [''rm'', ''x'']])) (lit ''rm x'')
        (default_state\<lparr>allowed_bash_commands := [lit ''rm x'']\<rparr>) True)
     (default_state\<lparr>allowed_bash_commands := [lit ''rm x'']\<rparr>) None (post_classify False) =
   Some (Allow, SessionGrant)" by code_simp
qed

end
