(* ===== verification/GrantTargets.thy ===== *)
theory GrantTargets
  imports PermissionPolicy
begin

text \<open>
  The names that grants are keyed by: qualified names of MCP tools
  (\<open>xai-grok-mcp/src/servers.rs\<close>, with the identifiers of \<open>xai-tool-protocol/src/ids.rs\<close>), and the
  domain allow list of the fetch tool
  (\<open>xai-grok-tools/src/implementations/grok_build/web_fetch/domain.rs\<close>). The URL parser is a
  parameter: of a URL it gives the host, if there is one, and the path.
\<close>

section \<open>Tool identifiers\<close>

datatype id_error = IdEmpty | IdInvalidFormat rstr | IdReservedPrefix rstr

definition is_id_char :: "rchar \<Rightarrow> bool" where
  "is_id_char c \<longleftrightarrow> is_ascii_alnum c \<or> c = 95 \<or> c = 45"

definition is_valid_segment :: "rstr \<Rightarrow> bool" where
  "is_valid_segment s \<longleftrightarrow> s \<noteq> [] \<and> list_all is_id_char s"

text \<open>\<open>splitn(3, ':')\<close> gives one, two or three parts.\<close>

definition is_well_formed_tool_id :: "rstr \<Rightarrow> bool" where
  "is_well_formed_tool_id s =
     (case split_char 58 s of
        [first] \<Rightarrow> is_valid_segment first
      | [first, second] \<Rightarrow> is_valid_segment first \<and> is_valid_segment second
      | _ \<Rightarrow> False)"

definition tool_id_new :: "rstr \<Rightarrow> id_error + rstr" where
  "tool_id_new s =
     (if s = [] then Inl IdEmpty
      else if \<not> is_well_formed_tool_id s then Inl (IdInvalidFormat s)
      else Inr s)"

section \<open>Qualified names\<close>

definition MCP_TOOL_NAME_DELIMITER :: rstr where
  "MCP_TOOL_NAME_DELIMITER = lit ''__''"

text \<open>The positions of the delimiter, overlapping ones included.\<close>

definition delimiter_boundaries :: "rstr \<Rightarrow> nat list" where
  "delimiter_boundaries name = filter (\<lambda>i. take 2 (drop i name) = MCP_TOOL_NAME_DELIMITER) [0..<length name]"

definition parse_mcp_qualified_name :: "rstr \<Rightarrow> (rstr \<times> rstr) option" where
  "parse_mcp_qualified_name name =
     (case delimiter_boundaries name of
        [b] \<Rightarrow>
          (let server = take b name; tool = drop (b + 2) name
           in if server = [] \<or> tool = [] then None
              else (case tool_id_new name of Inl _ \<Rightarrow> None | Inr _ \<Rightarrow> Some (server, tool)))
      | _ \<Rightarrow> None)"

section \<open>Domains\<close>

datatype host_entry = AnyPath | PathPrefixes "rstr list"

type_synonym domain_matcher = "rstr \<Rightarrow> host_entry option"

definition split_host :: "rstr \<Rightarrow> rstr \<times> rstr option" where
  "split_host normalized =
     (if 47 \<in> set normalized
      then (takeWhile (\<lambda>c. c \<noteq> 47) normalized, Some (dropWhile (\<lambda>c. c \<noteq> 47) normalized))
      else (normalized, None))"

definition push_prefix :: "rstr \<Rightarrow> host_entry option \<Rightarrow> host_entry" where
  "push_prefix stem e =
     (case e of
        None \<Rightarrow> PathPrefixes [stem]
      | Some (PathPrefixes v) \<Rightarrow> PathPrefixes (if stem \<in> set v then v else v @ [stem])
      | Some AnyPath \<Rightarrow> AnyPath)"

definition add_entry :: "'g policy_env \<Rightarrow> domain_matcher \<Rightarrow> rstr \<Rightarrow> domain_matcher" where
  "add_entry env entries raw =
     (let normalized = normalize_domain env raw
      in if normalized = [] then entries
         else
           (case split_host normalized of
              (host, None) \<Rightarrow> entries(host \<mapsto> AnyPath)
            | (host, Some raw_path) \<Rightarrow>
                if entries host = Some AnyPath then entries
                else
                  (let stem = trim_end_matches 47 raw_path
                   in if stem = [] \<or> stem = [47] then entries(host \<mapsto> AnyPath)
                      else
                        (let stem = (if starts_with [47] stem then stem else 47 # stem)
                         in entries(host \<mapsto> push_prefix stem (entries host))))))"

definition domain_matcher_new :: "'g policy_env \<Rightarrow> rstr list \<Rightarrow> domain_matcher" where
  "domain_matcher_new env raws = foldl (add_entry env) Map.empty raws"

definition under_prefix :: "rstr \<Rightarrow> rstr \<Rightarrow> bool" where
  "under_prefix url_path stem \<longleftrightarrow>
     url_path = stem \<or> starts_with stem url_path \<and> length stem < length url_path \<and> url_path ! length stem = 47"

text \<open>\<open>check(url).is_none()\<close>: the URL, given as its host and its path, is permitted.\<close>

definition domain_permitted :: "'g policy_env \<Rightarrow> domain_matcher \<Rightarrow> rstr option \<times> rstr \<Rightarrow> bool" where
  "domain_permitted env entries url =
     (case url of
        (None, _) \<Rightarrow> False
      | (Some raw_host, path) \<Rightarrow>
          (case entries (normalize_domain env raw_host) of
             None \<Rightarrow> False
           | Some AnyPath \<Rightarrow> True
           | Some (PathPrefixes stems) \<Rightarrow> list_ex (under_prefix (to_lowercase env path)) stems))"

section \<open>Specification\<close>

text \<open>What one entry of the list permits, on its own.\<close>

definition entry_permits :: "'g policy_env \<Rightarrow> rstr \<Rightarrow> rstr \<Rightarrow> rstr \<Rightarrow> bool" where
  "entry_permits env raw host path \<longleftrightarrow>
     normalize_domain env raw \<noteq> [] \<and> fst (split_host (normalize_domain env raw)) = host \<and>
     (case snd (split_host (normalize_domain env raw)) of
        None \<Rightarrow> True
      | Some p \<Rightarrow> trim_end_matches 47 p = [] \<or> under_prefix path (trim_end_matches 47 p))"

definition host_permits :: "host_entry option \<Rightarrow> rstr \<Rightarrow> bool" where
  "host_permits e path =
     (case e of None \<Rightarrow> False | Some AnyPath \<Rightarrow> True | Some (PathPrefixes ps) \<Rightarrow> list_ex (under_prefix path) ps)"

section \<open>Lemmas\<close>

lemma trim_path_head:
  assumes "trim_end_matches 47 (dropWhile (\<lambda>c. c \<noteq> 47) s) = p" and "p \<noteq> []"
  shows "starts_with [47] p" and "p \<noteq> [47]"
proof -
  have h: "dropWhile (\<lambda>c. c \<noteq> 47) s \<noteq> [] \<Longrightarrow> hd (dropWhile (\<lambda>c. c \<noteq> 47) s) = 47" using hd_dropWhile [of "\<lambda>c. c \<noteq> 47" s] by auto
  obtain q where q: "dropWhile (\<lambda>c. c \<noteq> 47) s = p @ q"
    using assms(1) unfolding trim_end_matches_def
    by (metis rev_append rev_rev_ident takeWhile_dropWhile_id)
  with h assms(2) have "hd p = 47" by (cases p) auto
  with assms(2) show "starts_with [47] p" by (cases p) (auto simp: starts_with_def)
  have "last p \<noteq> 47"
    using assms hd_dropWhile [of "\<lambda>d. d = 47" "rev (dropWhile (\<lambda>c. c \<noteq> 47) s)"]
    unfolding trim_end_matches_def by (auto simp: last_rev)
  then show "p \<noteq> [47]" by auto
qed

lemma add_entry_permits:
  "host_permits (add_entry env m raw host) path \<longleftrightarrow> host_permits (m host) path \<or> entry_permits env raw host path"
proof (cases "snd (split_host (normalize_domain env raw))")
  case None
  then show ?thesis
    by (auto simp: add_entry_def Let_def entry_permits_def host_permits_def split: prod.splits)
next
  case (Some p)
  then have p: "p = dropWhile (\<lambda>c. c \<noteq> 47) (normalize_domain env raw)" by (auto simp: split_host_def split: if_splits)
  have q: "starts_with [47] (trim_end_matches 47 p)" "trim_end_matches 47 p \<noteq> [47]" if "trim_end_matches 47 p \<noteq> []"
    using trim_path_head [OF refl, of "normalize_domain env raw"] that by (simp_all add: p)
  show ?thesis
    using Some q
    by (auto simp: add_entry_def Let_def entry_permits_def host_permits_def push_prefix_def list_ex_iff
        split: prod.splits option.splits host_entry.splits if_splits)
qed

lemma foldl_permits:
  "host_permits (foldl (add_entry env) m raws host) path \<longleftrightarrow>
     host_permits (m host) path \<or> (\<exists>raw \<in> set raws. entry_permits env raw host path)"
  by (induction raws arbitrary: m) (auto simp: add_entry_permits)

lemma boundaries_single:
  assumes "delimiter_boundaries name = [b]"
  shows "b < length name" and "name = take b name @ MCP_TOOL_NAME_DELIMITER @ drop (b + 2) name"
proof -
  have "b \<in> set (delimiter_boundaries name)" using assms by simp
  then have b: "b < length name" "take 2 (drop b name) = MCP_TOOL_NAME_DELIMITER"
    by (auto simp: delimiter_boundaries_def)
  then show "b < length name" by simp
  have "drop b name = take 2 (drop b name) @ drop 2 (drop b name)" by (rule append_take_drop_id [symmetric])
  with b(2) show "name = take b name @ MCP_TOOL_NAME_DELIMITER @ drop (b + 2) name"
    by (metis add.commute append_take_drop_id drop_drop)
qed

section \<open>Properties\<close>

text \<open>The precomputed allow list is the union of its entries. A URL is permitted exactly when it
  has a host and one of the raw entries, read on its own, permits the normalized host with the
  lower-case path: entries without a path permit the whole host whatever else the list holds
  for it, in every order.\<close>

theorem domain_matcher_exact:
  "domain_permitted env (domain_matcher_new env raws) (host, path) \<longleftrightarrow>
     (\<exists>h. host = Some h \<and>
        (\<exists>raw \<in> set raws. entry_permits env raw (normalize_domain env h) (to_lowercase env path)))"
proof (cases host)
  case (Some h)
  have "domain_permitted env m (Some h, path) \<longleftrightarrow> host_permits (m (normalize_domain env h)) (to_lowercase env path)" for m
    by (simp add: domain_permitted_def host_permits_def split: option.split host_entry.split)
  with Some foldl_permits [of env Map.empty raws "normalize_domain env h" "to_lowercase env path"] show ?thesis
    by (simp add: domain_matcher_new_def host_permits_def)
qed (simp add: domain_permitted_def)

text \<open>A qualified name splits in one way. What the parser returns are non-empty parts around the
  delimiter, and no name has two readings: whatever parts around a delimiter make up the name
  are the ones returned. So a grant for a server covers only tools of that server.\<close>

theorem qualified_name_unambiguous:
  assumes "parse_mcp_qualified_name name = Some (server, tool)"
  shows "name = server @ MCP_TOOL_NAME_DELIMITER @ tool \<and> server \<noteq> [] \<and> tool \<noteq> [] \<and>
         is_well_formed_tool_id name \<and>
         (\<forall>s t. name = s @ MCP_TOOL_NAME_DELIMITER @ t \<longrightarrow> s = server \<and> t = tool)"
proof -
  obtain b where b: "delimiter_boundaries name = [b]" "server = take b name" "tool = drop (b + 2) name"
    "server \<noteq> []" "tool \<noteq> []" "is_well_formed_tool_id name"
    using assms
    by (auto simp: parse_mcp_qualified_name_def Let_def tool_id_new_def split: list.splits if_splits sum.splits)
  have "s = server \<and> t = tool" if n: "name = s @ MCP_TOOL_NAME_DELIMITER @ t" for s t
  proof -
    have "length s \<in> set (delimiter_boundaries name)"
      by (simp add: n delimiter_boundaries_def) (simp add: MCP_TOOL_NAME_DELIMITER_def str_simps)
    with b(1) have "length s = b" by simp
    then show ?thesis using n b(2,3) by (auto simp: MCP_TOOL_NAME_DELIMITER_def str_simps)
  qed
  with boundaries_single [OF b(1)] b show ?thesis by auto
qed

theorem qualified_name_unambiguous_witness:
  "lit ''fs__read'' = lit ''fs'' @ MCP_TOOL_NAME_DELIMITER @ lit ''read''"
proof -
  have "parse_mcp_qualified_name (lit ''fs__read'') = Some (lit ''fs'', lit ''read'')" by code_simp
  from qualified_name_unambiguous [OF this] show ?thesis by blast
qed

text \<open>The canonical form of a domain is not canonical. The prefix \<open>www.\<close> is removed before the
  letters are lowered, so a rule written \<open>WWW.Example.com\<close> does not match the host that
  \<open>www.example.com\<close> matches, and normalizing twice differs from normalizing once.\<close>

definition ascii_env :: "rstr \<Rightarrow> unit policy_env" where
  "ascii_env host =
     \<lparr>glob_new = (\<lambda>_. None), glob_matches_with = (\<lambda>_ _ _. False), url_host = (\<lambda>_. Some host),
      to_lowercase = to_ascii_lowercase, try_parse_shell = (\<lambda>_. None),
      file_view = \<lparr>canonicalize = (\<lambda>_. None), symlink_metadata = (\<lambda>_. MetaNotFound), read_link = (\<lambda>_. None)\<rparr>\<rparr>"

theorem normalize_domain_not_canonical:
  "normalize_domain (ascii_env []) (lit ''WWW.Example.com'') = lit ''www.example.com'' \<and>
   normalize_domain (ascii_env []) (lit ''www.example.com'') = lit ''example.com'' \<and>
   domain_matches (ascii_env (lit ''www.example.com'')) (lit ''www.example.com'') [] \<and>
   \<not> domain_matches (ascii_env (lit ''www.example.com'')) (lit ''WWW.Example.com'') []"
proof (intro conjI)
  show "normalize_domain (ascii_env []) (lit ''WWW.Example.com'') = lit ''www.example.com''" by code_simp
  show "normalize_domain (ascii_env []) (lit ''www.example.com'') = lit ''example.com''" by code_simp
  show "domain_matches (ascii_env (lit ''www.example.com'')) (lit ''www.example.com'') []" by code_simp
  show "\<not> domain_matches (ascii_env (lit ''www.example.com'')) (lit ''WWW.Example.com'') []" by code_simp
qed

end
