(* ===== verification/ShellFileGate.thy ===== *)
theory ShellFileGate
  imports PermissionPolicy
begin

text \<open>
  The gate on the files that a shell command touches
  (\<open>xai-grok-workspace/src/permission/shell_access.rs\<close>): redirects and file operands of known programs are
  checked against the rules for reading and editing, in the script and in the literal scripts it
  hands to a shell.
\<close>

section \<open>One path\<close>

definition shell_access :: "shell_file_mode \<Rightarrow> rstr \<Rightarrow> access_kind" where
  "shell_access mode path = (case mode of FileRead \<Rightarrow> ARead (Some path) | FileWrite \<Rightarrow> AEdit path)"

definition escalate_access :: "'g policy_env \<Rightarrow> 'g compiled_policy \<Rightarrow> access_kind \<Rightarrow> gate_decision option" where
  "escalate_access env p access =
     (case evaluate env p access of
        Some (Reject reason) \<Rightarrow> Some (GateReject reason)
      | Some Ask \<Rightarrow> Some AskRuleMatch
      | _ \<Rightarrow> None)"

definition anchored :: "path \<Rightarrow> rstr \<Rightarrow> rstr" where
  "anchored cwd path =
     (if is_absolute_shell_path path then path else normalize_shell_path (path_join cwd path))"

definition raw_anchored :: "path \<Rightarrow> bool \<Rightarrow> rstr \<Rightarrow> rstr option" where
  "raw_anchored cwd cwd_unpinned raw =
     (if is_absolute_shell_path raw then Some raw
      else if cwd_unpinned then None
      else Some (normalize_shell_path_raw (path_join cwd raw)))"

text \<open>The rules on the target that the links of a path lead to.\<close>

definition resolved_gate ::
  "'g policy_env \<Rightarrow> 'g compiled_policy \<Rightarrow> path \<Rightarrow> shell_file_mode \<Rightarrow> rstr \<Rightarrow> rstr option \<Rightarrow> gate_decision option" where
  "resolved_gate env p cwd mode path raw_absolute =
     (case raw_absolute of
        None \<Rightarrow> None
      | Some raw \<Rightarrow>
          (case resolve_symlink_target (file_view env) raw of
             Some resolved \<Rightarrow>
               if resolved \<noteq> anchored cwd path then escalate_access env p (shell_access mode resolved) else None
           | None \<Rightarrow> if path_has_symlink (file_view env) raw then Some AskFailClosed else None))"

definition evaluate_shell_path ::
  "'g policy_env \<Rightarrow> 'g compiled_policy \<Rightarrow> path \<Rightarrow> rstr \<Rightarrow> shell_file_mode \<Rightarrow> bool \<Rightarrow> gate_decision option" where
  "evaluate_shell_path env p cwd token mode cwd_unpinned =
     (let path = normalize_shell_path token;
          resolved_decision =
            resolved_gate env p cwd mode path (raw_anchored cwd cwd_unpinned (normalize_shell_path_raw token));
          path_decision = escalate_access env p (shell_access mode path);
          anchored_decision =
            (if cwd_unpinned \<and> \<not> is_absolute_shell_path path then None
             else
               combine_gate_decisions (escalate_access env p (shell_access mode (anchored cwd path)))
                 resolved_decision)
      in combine_gate_decisions (combine_gate_decisions path_decision anchored_decision)
           (fail_closed_if (cwd_unpinned \<and> \<not> is_absolute_shell_path path)))"

section \<open>One invocation\<close>

text \<open>The two variables of the loops: the decision so far, and whether a prompt is forced.\<close>

type_synonym gate_acc = "gate_decision option \<times> bool"

definition acc_decision :: "gate_decision option \<Rightarrow> gate_acc \<Rightarrow> gate_acc" where
  "acc_decision g acc = (combine_gate_decisions (fst acc) g, snd acc)"

definition acc_force :: "bool \<Rightarrow> gate_acc \<Rightarrow> gate_acc" where
  "acc_force b acc = (fst acc, snd acc \<or> b)"

definition path_gate ::
  "'g policy_env \<Rightarrow> 'g compiled_policy \<Rightarrow> path \<Rightarrow> bool \<Rightarrow> rstr \<times> shell_file_mode \<Rightarrow> gate_acc \<Rightarrow> gate_acc" where
  "path_gate env p cwd unpinned operand acc =
     acc_decision (evaluate_shell_path env p cwd (fst operand) (snd operand) unpinned)
       (acc_force (shell_arg_is_ambiguous (fst operand)) acc)"

text \<open>An inline script. The recursion goes through \<open>rec\<close>, which is absent when no level is left; it takes
  the script and whether its directory is unknown.\<close>

definition inline_files ::
  "(rstr \<Rightarrow> bool \<Rightarrow> gate_decision option) option \<Rightarrow> bool \<Rightarrow> shell_word list \<Rightarrow> gate_acc \<Rightarrow> gate_acc" where
  "inline_files rec unpinned ws acc =
     (case shell_dash_c_script ws of
        InlineLiteral i \<Rightarrow>
          (case rec of
             None \<Rightarrow> acc_force True acc
           | Some f \<Rightarrow> (case ws ! i of WordLiteral script \<Rightarrow> acc_decision (f script unpinned) acc | WordUntrusted \<Rightarrow> acc))
      | InlineUntrusted \<Rightarrow> acc_force True acc
      | Unrecognized \<Rightarrow> acc_force True acc
      | NotInline \<Rightarrow> acc)"

definition file_modes :: "rstr \<Rightarrow> argv \<Rightarrow> shell_file_mode list" where
  "file_modes program ws =
     (case shell_file_mode_of program of
        None \<Rightarrow> []
      | Some mode \<Rightarrow> if program = lit ''sed'' \<and> shell_sed_in_place ws then [FileRead, FileWrite] else [mode])"

text \<open>The positional operands of a reader or writer: each is checked for every mode of the program.\<close>

definition candidate_gate ::
  "'g policy_env \<Rightarrow> 'g compiled_policy \<Rightarrow> path \<Rightarrow> bool \<Rightarrow> shell_file_mode list \<Rightarrow> rstr \<Rightarrow> gate_acc \<Rightarrow> gate_acc" where
  "candidate_gate env p cwd unpinned modes token acc =
     fold (\<lambda>mode acc. acc_decision (evaluate_shell_path env p cwd token mode unpinned) acc) modes
       (acc_force (shell_arg_is_ambiguous token) acc)"

definition candidates_gate ::
  "'g policy_env \<Rightarrow> 'g compiled_policy \<Rightarrow> path \<Rightarrow> bool \<Rightarrow> rstr \<Rightarrow> argv \<Rightarrow> gate_acc \<Rightarrow> gate_acc" where
  "candidates_gate env p cwd unpinned program ws acc =
     (if shell_file_mode_of program = None then acc
      else
        acc_force (shell_reader_can_recurse program ws (shell_file_candidates ws))
          (fold (candidate_gate env p cwd unpinned (file_modes program ws)) (shell_file_candidates ws) acc))"

definition is_known_program :: "rstr \<Rightarrow> argv \<Rightarrow> bool" where
  "is_known_program program ws \<longleftrightarrow>
     program = lit ''dd'' \<or> shell_file_mode_of program \<noteq> None \<or> shell_path_command_operands program ws \<noteq> None"

text \<open>The operands of a program, given its name in lower case, its literal words and whether the
  analysis of its words is incomplete.\<close>

definition operands_gate ::
  "'g policy_env \<Rightarrow> 'g compiled_policy \<Rightarrow> path \<Rightarrow> bool \<Rightarrow> bool \<Rightarrow> rstr \<Rightarrow> argv \<Rightarrow> gate_acc \<Rightarrow> gate_acc" where
  "operands_gate env p cwd unpinned incomplete program ws acc =
     (if one_of program [''cd'', ''pushd'', ''popd''] then acc
      else
        (let acc = acc_force (is_known_program program ws \<and> (unpinned \<or> incomplete)) acc;
             acc = fold (path_gate env p cwd unpinned) (special_file_operands program ws) acc
         in if program = lit ''dd'' then acc
            else
              (case shell_path_command_operands program ws of
                 Some operands \<Rightarrow> fold (path_gate env p cwd unpinned) operands acc
               | None \<Rightarrow> candidates_gate env p cwd unpinned program ws acc)))"

definition peeled_gate ::
  "'g policy_env \<Rightarrow> 'g compiled_policy \<Rightarrow> (rstr \<Rightarrow> bool \<Rightarrow> gate_decision option) option \<Rightarrow> path \<Rightarrow> bool \<Rightarrow> bool \<Rightarrow>
   checked_invocation_peel \<Rightarrow> gate_acc \<Rightarrow> gate_acc" where
  "peeled_gate env p rec cwd unpinned parse_failed peeled acc =
     (let ws = inv_peeled peeled;
          acc = acc_force (inv_exhausted peeled \<or> inv_split peeled \<or> inv_uncertain peeled \<or> inv_ambiguous peeled) acc;
          acc = acc_force (parse_failed \<and> shell_dash_c_script (shell_words_of ws) \<noteq> NotInline) acc;
          acc = inline_files rec unpinned (shell_words_of ws) acc
      in case ws of
           InvLiteral program # _ \<Rightarrow>
             operands_gate env p cwd unpinned (InvUntrusted \<in> set ws \<or> parse_failed)
               (to_ascii_lowercase (basename program)) (literal_words ws) acc
         | _ \<Rightarrow> acc)"

definition invocation_gate ::
  "'g policy_env \<Rightarrow> 'g compiled_policy \<Rightarrow> (rstr \<Rightarrow> bool \<Rightarrow> gate_decision option) option \<Rightarrow> path \<Rightarrow> bool \<Rightarrow>
   cwd_poison list \<Rightarrow> bool \<Rightarrow> shell_invocation \<Rightarrow> gate_acc \<Rightarrow> gate_acc" where
  "invocation_gate env p rec cwd unpinned changes parse_failed i acc =
     (let peeled = unwrap_invocation_checked i
      in peeled_gate env p rec cwd
           (unpinned \<or> cwd_unpinned_before changes (inv_start i) (inv_scope i) \<or> inv_chdir peeled) parse_failed peeled acc)"

definition redirect_gate ::
  "'g policy_env \<Rightarrow> 'g compiled_policy \<Rightarrow> path \<Rightarrow> bool \<Rightarrow> cwd_poison list \<Rightarrow> shell_redirect_target \<Rightarrow> gate_acc \<Rightarrow> gate_acc" where
  "redirect_gate env p cwd unpinned changes r acc =
     (let acc = acc_force (redirect_ambiguous r) acc
      in case redirect_path r of
           None \<Rightarrow> acc
         | Some path \<Rightarrow>
             acc_decision
               (evaluate_shell_path env p cwd path (redirect_mode r)
                 (unpinned \<or> cwd_unpinned_before changes (redirect_start r) (redirect_scope r)))
               acc)"

section \<open>A script\<close>

definition tree_files_gate ::
  "'g policy_env \<Rightarrow> 'g compiled_policy \<Rightarrow> (rstr \<Rightarrow> bool \<Rightarrow> gate_decision option) option \<Rightarrow> path \<Rightarrow> bool \<Rightarrow> bool \<Rightarrow>
   shell_tree \<Rightarrow> gate_decision option" where
  "tree_files_gate env p rec cwd unpinned entered_inline tree =
     (let changes = cwd_poison_positions tree;
          acc = (None, entered_inline \<and> has_error tree);
          acc = fold (redirect_gate env p cwd unpinned changes) (shell_redirect_targets tree) acc;
          acc = fold (invocation_gate env p rec cwd unpinned changes (has_error tree))
                  (shell_command_invocations tree) acc
      in combine_gate_decisions (fst acc) (fail_closed_if (snd acc)))"

definition script_files_gate ::
  "'g policy_env \<Rightarrow> 'g compiled_policy \<Rightarrow> (rstr \<Rightarrow> bool \<Rightarrow> gate_decision option) option \<Rightarrow> path \<Rightarrow> bool \<Rightarrow> bool \<Rightarrow>
   rstr \<Rightarrow> gate_decision option" where
  "script_files_gate env p rec cwd unpinned entered_inline cmd =
     (case try_parse_shell env cmd of
        None \<Rightarrow> fail_closed_if entered_inline
      | Some tree \<Rightarrow> tree_files_gate env p rec cwd unpinned entered_inline tree)"

primrec evaluate_shell_file_access_inner ::
  "'g policy_env \<Rightarrow> 'g compiled_policy \<Rightarrow> path \<Rightarrow> nat \<Rightarrow> bool \<Rightarrow> bool \<Rightarrow> rstr \<Rightarrow> gate_decision option" where
  "evaluate_shell_file_access_inner env p cwd 0 = script_files_gate env p None cwd"
| "evaluate_shell_file_access_inner env p cwd (Suc d) =
     script_files_gate env p
       (Some (\<lambda>script unpinned. evaluate_shell_file_access_inner env p cwd d unpinned True script)) cwd"

definition evaluate_shell_file_access_gate ::
  "'g policy_env \<Rightarrow> 'g compiled_policy \<Rightarrow> rstr \<Rightarrow> path \<Rightarrow> gate_decision option" where
  "evaluate_shell_file_access_gate env p cmd cwd =
     (if \<not> has_file_restrictions p then None
      else evaluate_shell_file_access_inner env p cwd MAX_INLINE_SHELL_DEPTH False False cmd)"

definition evaluate_shell_file_access :: "'g policy_env \<Rightarrow> 'g compiled_policy \<Rightarrow> rstr \<Rightarrow> path \<Rightarrow> decision option" where
  "evaluate_shell_file_access env p cmd cwd = map_option into_decision (evaluate_shell_file_access_gate env p cmd cwd)"

end
