(* ===== verification/PermissionPreflight.thy ===== *)
theory PermissionPreflight
  imports ShellFileGate
begin

text \<open>
  The evaluation of the policy for one request
  (\<open>xai-grok-workspace/src/permission/gate_preflight.rs\<close>): the rules on the request itself, the gate on the
  commands of a script and the gate on its files, with the provenance of every ask.
\<close>

record gate_preflight =
  direct :: "decision option"
  bash_command :: "gate_decision option"
  shell_file :: "gate_decision option"
  defers_gate_ask :: bool

definition preflight :: "'g policy_env \<Rightarrow> 'g compiled_policy option \<Rightarrow> access_kind \<Rightarrow> rstr \<Rightarrow> bool \<Rightarrow> gate_preflight" where
  "preflight env policy access cwd auto_mode =
     (let direct = (case policy of None \<Rightarrow> None | Some p \<Rightarrow> evaluate env p access);
          (bash_command, shell_file) =
            (case (policy, access) of
               (Some p, ABash cmd) \<Rightarrow>
                 (evaluate_bash_command_gate env p cmd, evaluate_shell_file_access_gate env p cmd cwd)
             | _ \<Rightarrow> (None, None));
          rule_match_ask = (direct = Some Ask \<or> bash_command = Some AskRuleMatch \<or> shell_file = Some AskRuleMatch);
          fail_closed_ask = (bash_command = Some AskFailClosed \<or> shell_file = Some AskFailClosed)
      in \<lparr>direct = direct, bash_command = bash_command, shell_file = shell_file,
          defers_gate_ask = auto_mode \<and> fail_closed_ask \<and> \<not> rule_match_ask\<rparr>)"

definition policy_decision :: "gate_preflight \<Rightarrow> decision option" where
  "policy_decision g =
     combine_decisions
       (combine_decisions (direct g) (map_option into_decision (bash_command g)))
       (map_option into_decision (shell_file g))"

definition policy_forced_prompt :: "gate_preflight \<Rightarrow> bool" where
  "policy_forced_prompt g \<longleftrightarrow> policy_decision g = Some Ask"

definition gate_asks :: "gate_decision option \<Rightarrow> bool" where
  "gate_asks d = (case d of None \<Rightarrow> False | Some g \<Rightarrow> is_ask g)"

definition shell_file_forced_prompt :: "gate_preflight \<Rightarrow> bool" where
  "shell_file_forced_prompt g = gate_asks (shell_file g)"

definition shell_forced_prompt :: "gate_preflight \<Rightarrow> bool" where
  "shell_forced_prompt g \<longleftrightarrow> gate_asks (bash_command g) \<or> shell_file_forced_prompt g"

definition admits_auto_classifier :: "gate_preflight \<Rightarrow> bool" where
  "admits_auto_classifier g \<longleftrightarrow> \<not> policy_forced_prompt g \<or> defers_gate_ask g"

definition POLICY_ASK :: string where "POLICY_ASK = ''policy_ask''"
definition BASH_COMMAND_GATE_ASK :: string where "BASH_COMMAND_GATE_ASK = ''bash_command_gate_ask''"
definition SHELL_FILE_GATE_ASK :: string where "SHELL_FILE_GATE_ASK = ''shell_file_gate_ask''"

definition prompt_trigger :: "gate_preflight \<Rightarrow> string option \<Rightarrow> string option" where
  "prompt_trigger g auto_prompt_reason =
     (if direct g = Some Ask then Some POLICY_ASK
      else if defers_gate_ask g then auto_prompt_reason
      else if gate_asks (bash_command g) then Some BASH_COMMAND_GATE_ASK
      else if shell_file_forced_prompt g then Some SHELL_FILE_GATE_ASK
      else auto_prompt_reason)"

end
