(* ===== verification/ProtectedEdit.thy ===== *)
theory ProtectedEdit
  imports ShellFiles
begin

text \<open>
  Edits that need a confirmation whatever has been granted
  (\<open>xai-grok-workspace/src/permission/shell_access.rs\<close>): hooks, shell start-up files, keys, system
  configuration and the configuration of the agent itself, named directly or through symbolic
  links; and the resolution of the path that the model wrote
  (\<open>xai-grok-tools/src/types/resources.rs\<close>). The expansion of a leading tilde and the home directory of
  the agent are parameters.
\<close>

section \<open>The path that the model wrote\<close>

definition is_quote :: "rchar \<Rightarrow> bool" where
  "is_quote c \<longleftrightarrow> c = 34 \<or> c = 39"

definition quote_wrapped :: "rstr \<Rightarrow> bool" where
  "quote_wrapped s \<longleftrightarrow> 2 \<le> byte_len s \<and> is_quote (hd s) \<and> is_quote (last s)"

definition strip_escape :: "rstr \<Rightarrow> rstr option" where
  "strip_escape s =
     (case strip_suffix (lit [CHR 0x5C, CHR ''n'']) s of
        Some r \<Rightarrow> Some r
      | None \<Rightarrow>
          (case strip_suffix (lit [CHR 0x5C, CHR ''r'']) s of
             Some r \<Rightarrow> Some r
           | None \<Rightarrow> strip_suffix (lit [CHR 0x5C, CHR ''t'']) s))"

lemma strip_escape_shorter: "strip_escape s = Some r \<Longrightarrow> length r < length s"
  by (cases s) (auto simp: strip_escape_def strip_suffix_def ends_with_def starts_with_def lit_def split: option.splits if_splits)

function strip_escapes :: "rstr \<Rightarrow> rstr" where
  "strip_escapes s = (case strip_escape s of Some r \<Rightarrow> strip_escapes (trim_end r) | None \<Rightarrow> s)"
  by pat_completeness auto
termination
proof (relation "measure length")
  fix s r assume "strip_escape s = Some r"
  moreover have "length (trim_end r) \<le> length r" using length_dropWhile_le [of is_whitespace "rev r"] by (simp add: trim_end_def)
  ultimately show "(trim_end r, s) \<in> measure length" using strip_escape_shorter [of s r] by simp
qed simp

definition sanitize_model_path_arg :: "rstr \<Rightarrow> rstr" where
  "sanitize_model_path_arg input =
     (let trimmed = trim input; unquoted = trim (trim_path_quotes trimmed)
      in if \<not> quote_wrapped trimmed then unquoted else strip_escapes unquoted)"

text \<open>\<open>Path::strip_prefix\<close>.\<close>

definition strip_base :: "pathbuf \<Rightarrow> pathbuf \<Rightarrow> pathbuf option" where
  "strip_base base p = (if prefix base p then Some (drop (length base) p) else None)"

definition resolve_model_path :: "(rstr \<Rightarrow> rstr) \<Rightarrow> pathbuf \<Rightarrow> pathbuf option \<Rightarrow> rstr \<Rightarrow> pathbuf" where
  "resolve_model_path tilde cwd display_cwd input =
     (let expanded = tilde (sanitize_model_path_arg input); p = components expanded;
          base = (case display_cwd of None \<Rightarrow> cwd | Some d \<Rightarrow> d)
      in if display_cwd \<noteq> None \<and> path_is_absolute p then
           (case strip_base base p of Some rest \<Rightarrow> path_append cwd rest | None \<Rightarrow> p)
         else if \<not> path_is_absolute p \<and> expanded \<noteq> [] then
           (case strip_base base (components (lit ''/'' @ expanded)) of
              Some rest \<Rightarrow> path_append cwd rest
            | None \<Rightarrow> path_append cwd p)
         else path_append cwd p)"

section \<open>Protected targets\<close>

datatype protected_edit_reason =
  HookRoot | GitHooks | Ssh | StartupFile | Etc | GrokConfig | GrokSandbox | ClaudeSettings | CursorHooks | Sensitive

fun reason_kind :: "protected_edit_reason \<Rightarrow> string" where
  "reason_kind HookRoot = ''hook_root''"
| "reason_kind GitHooks = ''git_hooks''"
| "reason_kind Ssh = ''ssh''"
| "reason_kind StartupFile = ''startup_file''"
| "reason_kind Etc = ''etc''"
| "reason_kind GrokConfig = ''grok_config''"
| "reason_kind GrokSandbox = ''grok_sandbox''"
| "reason_kind ClaudeSettings = ''claude_settings''"
| "reason_kind CursorHooks = ''cursor_hooks''"
| "reason_kind Sensitive = ''sensitive''"

text \<open>\<open>normalize_lexically\<close> (\<open>xai-grok-paths/src/lib.rs\<close>).\<close>

definition lexical_step :: "pathbuf \<Rightarrow> component \<Rightarrow> pathbuf" where
  "lexical_step cs c =
     (case c of
        CurDir \<Rightarrow> cs
      | ParentDir \<Rightarrow>
          if cs = [] then cs @ [c]
          else (case last cs of Normal _ \<Rightarrow> butlast cs | RootDir \<Rightarrow> cs | _ \<Rightarrow> cs @ [c])
      | _ \<Rightarrow> cs @ [c])"

definition normalize_lexically :: "pathbuf \<Rightarrow> pathbuf" where
  "normalize_lexically p = (let cs = foldl lexical_step [] p in if cs = [] then [CurDir] else cs)"

definition name_of :: "component \<Rightarrow> rstr option" where
  "name_of c = (case c of Normal s \<Rightarrow> Some (to_ascii_lowercase s) | _ \<Rightarrow> None)"

definition names :: "pathbuf \<Rightarrow> rstr list" where
  "names p = List.map_filter name_of p"

definition STARTUP_FILES :: "string list" where
  "STARTUP_FILES =
     [''.bashrc'', ''.bash_profile'', ''.bash_login'', ''.bash_logout'', ''.profile'', ''.zshrc'', ''.zshenv'', ''.zprofile'',
      ''.zlogin'', ''.zlogout'', ''.kshrc'', ''.cshrc'', ''.tcshrc'', ''.login'', ''.logout'', ''.inputrc'', ''.xprofile'']"

definition ends_in :: "rstr list \<Rightarrow> string list \<Rightarrow> bool" where
  "ends_in cs ss \<longleftrightarrow> suffix (map lit ss) cs"

fun has_pair :: "string \<Rightarrow> string \<Rightarrow> rstr list \<Rightarrow> bool" where
  "has_pair a b (x # y # cs) \<longleftrightarrow> x = lit a \<and> y = lit b \<or> has_pair a b (y # cs)"
| "has_pair a b _ \<longleftrightarrow> False"

definition grok_home_matches :: "fs_view \<Rightarrow> pathbuf option \<Rightarrow> (pathbuf \<Rightarrow> bool) \<Rightarrow> bool" where
  "grok_home_matches fs home pred =
     (case home of
        None \<Rightarrow> False
      | Some h \<Rightarrow>
          pred (normalize_lexically h) \<or>
          (case resolve_following_symlinks fs (normalize_lexically h) of None \<Rightarrow> False | Some r \<Rightarrow> pred r))"

definition path_is_under_user_grok_hook_root :: "pathbuf \<Rightarrow> pathbuf \<Rightarrow> bool" where
  "path_is_under_user_grok_hook_root p home \<longleftrightarrow>
     prefix (path_append home [Normal (lit ''hooks'')]) p \<or> p = path_append home [Normal (lit ''hooks-paths'')]"

definition protected_grok_hook_root :: "fs_view \<Rightarrow> pathbuf option \<Rightarrow> pathbuf \<Rightarrow> rstr list \<Rightarrow> bool" where
  "protected_grok_hook_root fs home p cs \<longleftrightarrow>
     has_pair ''.grok'' ''hooks'' cs \<or> ends_in cs [''.grok'', ''hooks-paths''] \<or>
     grok_home_matches fs home (path_is_under_user_grok_hook_root p)"

text \<open>\<open>.git/hooks\<close>, or \<open>.git/modules\<close> with \<open>hooks\<close> behind at least one more component.\<close>

fun has_module_hooks :: "rstr list \<Rightarrow> bool" where
  "has_module_hooks [] \<longleftrightarrow> False"
| "has_module_hooks (c # cs) \<longleftrightarrow>
     c = lit ''.git'' \<and> (case cs of m # rest \<Rightarrow> m = lit ''modules'' \<and> lit ''hooks'' \<in> set (tl rest) | [] \<Rightarrow> False) \<or>
     has_module_hooks cs"

definition protected_git_hooks_path :: "rstr list \<Rightarrow> bool" where
  "protected_git_hooks_path cs \<longleftrightarrow> has_pair ''.git'' ''hooks'' cs \<or> has_module_hooks cs"

definition protected_grok_config_file_with_home ::
  "fs_view \<Rightarrow> pathbuf option \<Rightarrow> pathbuf \<Rightarrow> rstr list \<Rightarrow> protected_edit_reason option" where
  "protected_grok_config_file_with_home fs home p cs =
     (let reason =
            (if cs = [] then None
             else if one_of (last cs) [''config.toml'', ''managed_config.toml'', ''requirements.toml''] then Some GrokConfig
             else if last cs = lit ''sandbox.toml'' then Some GrokSandbox
             else None)
      in if 2 \<le> length cs \<and> cs ! (length cs - 2) = lit ''.grok'' \<or>
            grok_home_matches fs home (\<lambda>h. path_parent p = Some h)
         then reason else None)"

definition etc_path :: pathbuf where
  "etc_path = [RootDir, Normal (lit ''etc'')]"

definition protected_edit_reason ::
  "fs_view \<Rightarrow> pathbuf option \<Rightarrow> pathbuf \<Rightarrow> protected_edit_reason option" where
  "protected_edit_reason fs home p =
     (let cs = names p; file = (if cs = [] then [] else last cs)
      in if protected_grok_hook_root fs home p cs then Some HookRoot
         else if ends_in cs [''.claude'', ''settings.json''] \<or> ends_in cs [''.claude'', ''settings.local.json'']
         then Some ClaudeSettings
         else if ends_in cs [''.cursor'', ''hooks.json''] then Some CursorHooks
         else if protected_git_hooks_path cs then Some GitHooks
         else if lit ''.ssh'' \<in> set cs then Some Ssh
         else if one_of file STARTUP_FILES then Some StartupFile
         else
           (case protected_grok_config_file_with_home fs home p cs of
              Some r \<Rightarrow> Some r
            | None \<Rightarrow> if prefix etc_path p then Some Etc else None))"

definition resolved_path_is_within_root :: "fs_view \<Rightarrow> pathbuf \<Rightarrow> pathbuf \<Rightarrow> bool" where
  "resolved_path_is_within_root fs resolved root =
     (case resolve_following_symlinks fs root of None \<Rightarrow> True | Some r \<Rightarrow> prefix r resolved)"

definition edit_target_protection :: "fs_view \<Rightarrow> pathbuf option \<Rightarrow> pathbuf \<Rightarrow> protected_edit_reason option" where
  "edit_target_protection fs home p =
     (if \<not> path_is_absolute p then Some Sensitive
      else
        (case protected_edit_reason fs home (normalize_lexically p) of
           Some r \<Rightarrow> Some r
         | None \<Rightarrow>
             (case resolve_following_symlinks fs p of
                None \<Rightarrow> Some Sensitive
              | Some resolved \<Rightarrow>
                  (case protected_edit_reason fs home resolved of
                     Some r \<Rightarrow> Some r
                   | None \<Rightarrow> if resolved_path_is_within_root fs resolved etc_path then Some Sensitive else None))))"

end
