(* ===== verification/PermissionManager.thy ===== *)
theory PermissionManager
  imports BashPermission GrantTargets PermissionPreflight ProtectedEdit
begin

text \<open>
  The permission manager (\<open>xai-grok-workspace/src/permission/manager.rs\<close>): the loop of the actor, one
  command at a time, and the handle in front of it. What the outside world answers while a
  request is handled (the classifier, the user, the sandbox, libgit2, whether the requester is
  still there) is a record of answers, an argument of the step; the properties hold for all of
  them. Logging and time stamps are left out; an event keeps the decision, the two flags, the
  outcome of the prompt and the reason.
\<close>

section \<open>Automatic mode\<close>

fun tool_name_for_access :: "access_kind \<Rightarrow> rstr" where
  "tool_name_for_access (ARead _) = lit ''read_file''"
| "tool_name_for_access (AGrep _ _) = lit ''grep''"
| "tool_name_for_access (AEdit _) = lit ''search_replace''"
| "tool_name_for_access (ABash _) = lit ''run_terminal_command''"
| "tool_name_for_access (AMcp name _) = lit ''mcp:'' @ name"
| "tool_name_for_access (AWebFetch _) = lit ''web_fetch''"
| "tool_name_for_access (AWebSearch _) = lit ''web_search''"

definition access_requires_user_interaction :: "rstr \<Rightarrow> access_kind \<Rightarrow> bool" where
  "access_requires_user_interaction tool_name access \<longleftrightarrow>
     (let t = to_ascii_lowercase tool_name
      in contains_str (lit ''ask_user'') t \<or> contains_str (lit ''askuserquestion'') t \<or>
         contains_str (lit ''user_question'') t \<or> t = lit ''ask_user_question'') \<or>
     (case access of
        AMcp name _ \<Rightarrow>
          (let n = to_ascii_lowercase name
           in contains_str (lit ''ask_user'') n \<or> contains_str (lit ''confirm'') n \<and> contains_str (lit ''human'') n)
      | _ \<Rightarrow> False)"

definition is_auto_mode_allowlisted_access :: "access_kind \<Rightarrow> bool" where
  "is_auto_mode_allowlisted_access access =
     (case access of ARead _ \<Rightarrow> True | AGrep _ _ \<Rightarrow> True | AWebSearch _ \<Rightarrow> True | _ \<Rightarrow> False)"

definition is_auto_mode_allowlisted_tool_name :: "rstr \<Rightarrow> bool" where
  "is_auto_mode_allowlisted_tool_name t =
     one_of t [''todo_write'', ''TodoWrite'', ''task_output'', ''TaskOutput'', ''wait_tasks'', ''WaitTasks'',
       ''ask_user_question'', ''AskUserQuestion'', ''enter_plan_mode'', ''EnterPlanMode'', ''exit_plan_mode'',
       ''ExitPlanMode'', ''switch_mode'', ''SwitchMode'', ''create_plan'', ''CreatePlan'', ''update_plan'',
       ''UpdatePlan'', ''list_mcp_resources'', ''ListMcpResources'', ''read_mcp_resource'', ''ReadMcpResource'',
       ''tool_search'', ''ToolSearch'', ''sleep'', ''Sleep'']"

datatype auto_fast_path = FastAllow | FastPromptUser | FastClassify

definition auto_mode_fast_path :: "access_kind \<Rightarrow> rstr \<Rightarrow> bool \<Rightarrow> auto_fast_path" where
  "auto_mode_fast_path access tool_name requires_user_interaction =
     (if requires_user_interaction then FastPromptUser
      else if is_auto_mode_allowlisted_access access \<or> is_auto_mode_allowlisted_tool_name tool_name then FastAllow
      else
        (case access of
           AEdit _ \<Rightarrow> FastAllow
         | ABash cmd \<Rightarrow> if one_of (trim cmd) [''true'', '':'', ''false''] then FastAllow else FastClassify
         | _ \<Rightarrow> FastClassify))"

section \<open>State\<close>

record 'g manager_config =
  cfg_env :: "'g policy_env"
  cfg_policy :: "'g compiled_policy option"
  cfg_prompt_policy :: prompt_policy
  cfg_yolo_pin :: "string option"
  cfg_remember :: bool
  cfg_cwd :: path
  cfg_url :: "rstr \<Rightarrow> (rstr option \<times> rstr) option"
  cfg_matcher :: domain_matcher
  cfg_default_allowlist :: bool
  cfg_git_bool :: "rstr \<Rightarrow> bool option"
  cfg_args :: "access_kind \<Rightarrow> rstr"
  cfg_tilde :: "rstr \<Rightarrow> rstr"
  cfg_grok_home :: "pathbuf option"

record decision_turn =
  turn_tool :: rstr
  turn_args :: rstr
  turn_approved :: bool

record manager_state =
  perm :: permission_state
  disk :: permission_state
  yolo_mode :: bool
  auto_mode :: bool
  has_classifier :: bool
  consecutive_denials :: nat
  total_denials :: nat
  transcript :: "rstr list"
  recorded :: "decision_turn list"
  project_instructions :: "rstr option"
  pin_refusal_logged :: bool
  allow_edits_for_session :: bool

definition AUTO_DENY_CONSECUTIVE_LIMIT :: nat where "AUTO_DENY_CONSECUTIVE_LIMIT = 3"
definition AUTO_DENY_TOTAL_LIMIT :: nat where "AUTO_DENY_TOTAL_LIMIT = 20"
definition MAX_RECORDED_PERMISSION_DECISIONS :: nat where "MAX_RECORDED_PERMISSION_DECISIONS = 12"

definition clamp_yolo :: "bool \<Rightarrow> string option \<Rightarrow> bool" where
  "clamp_yolo requested yolo_pin \<longleftrightarrow> requested \<and> yolo_pin = None"

text \<open>The state of the actor when it starts, from what was loaded; a persisted permission for all
  edits is downgraded and the file rewritten, if it can be (\<open>saved\<close>).\<close>

definition migrate :: "permission_state \<Rightarrow> permission_state" where
  "migrate st = (if edit_pol st = EditAllow then st\<lparr>edit_pol := EditAsk\<rparr> else st)"

definition spawn :: "'g manager_config \<Rightarrow> permission_state \<Rightarrow> bool \<Rightarrow> bool \<Rightarrow> manager_state" where
  "spawn cfg loaded saved initial_yolo =
     (let yolo = clamp_yolo initial_yolo (cfg_yolo_pin cfg);
          auto = (\<not> yolo \<and> cfg_prompt_policy cfg = PromptAuto)
      in \<lparr>perm = migrate loaded, disk = (if saved then migrate loaded else loaded), yolo_mode = yolo, auto_mode = auto,
          has_classifier = True, consecutive_denials = 0, total_denials = 0,
          transcript = [], recorded = [], project_instructions = None, pin_refusal_logged = False,
          allow_edits_for_session = False\<rparr>)"

section \<open>Grants\<close>

definition mcp_server_prefix_allowed :: "rstr \<Rightarrow> rstr list \<Rightarrow> bool" where
  "mcp_server_prefix_allowed name servers \<longleftrightarrow>
     servers \<noteq> [] \<and>
     (case parse_mcp_qualified_name name of Some (server, _) \<Rightarrow> server \<in> set servers | None \<Rightarrow> False)"

definition mcp_pre_decision :: "rstr \<Rightarrow> permission_state \<Rightarrow> bool \<Rightarrow> bool \<Rightarrow> bool" where
  "mcp_pre_decision name st policy_forced remember \<longleftrightarrow>
     \<not> (policy_forced \<and> \<not> remember) \<and>
     (name \<in> set (allowed_mcp_tools st) \<or> mcp_server_prefix_allowed name (allowed_mcp_servers st))"

definition session_domain_allowed :: "'g manager_config \<Rightarrow> permission_state \<Rightarrow> rstr option \<Rightarrow> bool" where
  "session_domain_allowed cfg st host =
     (case host of
        None \<Rightarrow> False
      | Some h \<Rightarrow> normalize_domain (cfg_env cfg) h \<in> set (allowed_web_fetch_domains st))"

definition web_fetch_decision ::
  "'g manager_config \<Rightarrow> permission_state \<Rightarrow> bool \<Rightarrow> reason \<Rightarrow> rstr \<Rightarrow> (decision \<times> reason) option" where
  "web_fetch_decision cfg st honor_static grant_reason url =
     (case cfg_url cfg url of
        None \<Rightarrow> None
      | Some parsed \<Rightarrow>
          if honor_static \<and> domain_permitted (cfg_env cfg) (cfg_matcher cfg) parsed
          then Some (Allow, StaticAllowlist)
          else allow_if (session_domain_allowed cfg st (fst parsed)) grant_reason)"

definition session_grant_pre_decision ::
  "'g manager_config \<Rightarrow> manager_state \<Rightarrow> access_kind \<Rightarrow> bash_evaluation option \<Rightarrow> bool \<Rightarrow> (decision \<times> reason) option" where
  "session_grant_pre_decision cfg st access eval honor_static =
     (case access of
        AMcp name _ \<Rightarrow> allow_if (mcp_pre_decision name (perm st) False False) SessionGrant
      | AWebFetch url \<Rightarrow> web_fetch_decision cfg (perm st) honor_static SessionGrant url
      | AEdit _ \<Rightarrow> allow_if (allow_edits_for_session st) SessionGrant
      | ABash cmd \<Rightarrow>
          (case eval of
             None \<Rightarrow> None
           | Some e \<Rightarrow> bash_grant_pre_decision cmd e (perm st) (cfg_yolo_pin cfg) PRE_CLASSIFIER)
      | _ \<Rightarrow> None)"

section \<open>Answers of the outside world\<close>

datatype classifier_verdict = VerdictAllow | VerdictBlock | VerdictUnavailable

record classifier_outcome =
  verdict_of :: classifier_verdict
  outcome_reason :: "rstr option"
  is_timeout :: bool

datatype prompt_outcome =
  OutAllowOnce
| OutAllowAlways
| OutAllowEditsForSession
| OutAllowAlwaysBashCommand rstr
| OutAllowAlwaysDomain rstr
| OutAllowAlwaysMcpTool rstr
| OutAllowAlwaysMcpServer rstr
| OutRejectOnce
| OutRejectAlwaysBashCommand rstr
| OutCancelled
| OutFollowupMessage rstr
| OutError rstr

record world =
  gone_at_dequeue :: bool
  gone_after_scan :: bool
  gone_before_prompt :: bool
  gone_at_end :: bool
  repo_views :: "path \<Rightarrow> repo_view"
  scan_joined :: bool
  edit_context :: "(pathbuf \<times> pathbuf option) option"
  classify :: "classifier_outcome option"
  sandbox :: bool
  answer :: prompt_outcome
  saved :: bool

record event =
  ev_decision :: decision
  ev_auto_approved :: bool
  ev_prompted :: bool
  ev_outcome :: "string option"
  ev_reason :: reason

record reply =
  next_state :: manager_state
  response :: "decision option"
  event :: event

definition decided :: "manager_state \<Rightarrow> decision \<Rightarrow> bool \<Rightarrow> reason \<Rightarrow> reply" where
  "decided st d auto r =
     \<lparr>next_state = st, response = Some d,
      event = \<lparr>ev_decision = d, ev_auto_approved = auto, ev_prompted = False, ev_outcome = None, ev_reason = r\<rparr>\<rparr>"

definition abandoned :: "manager_state \<Rightarrow> reply" where
  "abandoned st =
     \<lparr>next_state = st, response = None,
      event = \<lparr>ev_decision = Cancelled, ev_auto_approved = False, ev_prompted = False, ev_outcome = None,
               ev_reason = RequesterGone\<rparr>\<rparr>"

section \<open>One request\<close>

record request_facts =
  f_access :: access_kind
  f_eval :: "bash_evaluation option"
  f_pre :: gate_preflight
  f_protected :: bool

definition floor_requires_prompt :: "request_facts \<Rightarrow> bool" where
  "floor_requires_prompt f = (case f_eval f of None \<Rightarrow> False | Some e \<Rightarrow> bash_request_floor e)"

definition floor_defers :: "request_facts \<Rightarrow> bool" where
  "floor_defers f = (case f_eval f of None \<Rightarrow> False | Some e \<Rightarrow> bash_request_floor_defers e)"

definition opaque_floor :: "request_facts \<Rightarrow> bool" where
  "opaque_floor f = (case f_eval f of None \<Rightarrow> False | Some e \<Rightarrow> bash_opaque_shell_floor e)"

definition ambient_risk :: "'g manager_config \<Rightarrow> world \<Rightarrow> argv list \<Rightarrow> bool" where
  "ambient_risk cfg w raw =
     (case ambient_scan_plan_from_segments raw (cfg_cwd cfg) of
        FailClosed \<Rightarrow> True
      | plan \<Rightarrow> if scan_joined w then ambient_exec_risk_from_plan (cfg_git_bool cfg) (repo_views w) plan else True)"

text \<open>The evaluation of a shell command with the scan of the git configuration; \<open>None\<close> when the
  requester is gone behind the scan.\<close>

definition bash_facts :: "'g manager_config \<Rightarrow> manager_state \<Rightarrow> world \<Rightarrow> access_kind \<Rightarrow> bash_evaluation option option" where
  "bash_facts cfg st w access =
     (case access of
        ABash cmd \<Rightarrow>
          (let e = evaluate_bash (try_parse_shell (cfg_env cfg)) cmd (perm st) True
           in case ambient_segments e of
                None \<Rightarrow> Some (Some e)
              | Some raw \<Rightarrow>
                  if gone_after_scan w then None
                  else Some (Some (e\<lparr>ambient_segments := None, exec_risk := exec_risk e \<or> ambient_risk cfg w raw\<rparr>)))
      | _ \<Rightarrow> Some None)"

text \<open>\<open>protected_edit\<close>: the target of an edit, resolved in the directories that came with the request or
  else in the directory of the manager, and whether it is protected.\<close>

definition edit_target :: "'g manager_config \<Rightarrow> world \<Rightarrow> rstr \<Rightarrow> pathbuf" where
  "edit_target cfg w path =
     (case edit_context w of
        Some (real_cwd, display_cwd) \<Rightarrow> resolve_model_path (cfg_tilde cfg) real_cwd display_cwd path
      | None \<Rightarrow> resolve_model_path (cfg_tilde cfg) (components (cfg_cwd cfg)) None path)"

definition protected_edit :: "'g manager_config \<Rightarrow> world \<Rightarrow> access_kind \<Rightarrow> protected_edit_reason option" where
  "protected_edit cfg w access =
     (case access of
        AEdit path \<Rightarrow> edit_target_protection (file_view (cfg_env cfg)) (cfg_grok_home cfg) (edit_target cfg w path)
      | _ \<Rightarrow> None)"

definition facts_of :: "'g manager_config \<Rightarrow> manager_state \<Rightarrow> world \<Rightarrow> access_kind \<Rightarrow> bash_evaluation option \<Rightarrow> request_facts" where
  "facts_of cfg st w access eval =
     \<lparr>f_access = access, f_eval = eval,
      f_pre = preflight (cfg_env cfg) (cfg_policy cfg) access (cfg_cwd cfg) (auto_mode st),
      f_protected = (protected_edit cfg w access \<noteq> None)\<rparr>"

text \<open>The decisions before automatic mode: deny rules, always-approve, session grants, allow rules.\<close>

definition unforced :: "request_facts \<Rightarrow> bool" where
  "unforced f \<longleftrightarrow> \<not> policy_forced_prompt (f_pre f) \<and> \<not> shell_forced_prompt (f_pre f) \<and> \<not> f_protected f"

definition early_grant :: "'g manager_config \<Rightarrow> manager_state \<Rightarrow> request_facts \<Rightarrow> (decision \<times> reason) option" where
  "early_grant cfg st f =
     (if unforced f
      then session_grant_pre_decision cfg st (f_access f) (f_eval f) (\<not> (auto_mode st \<and> cfg_default_allowlist cfg))
      else None)"

definition early_stage :: "'g manager_config \<Rightarrow> manager_state \<Rightarrow> request_facts \<Rightarrow> reply option" where
  "early_stage cfg st f =
     (case policy_decision (f_pre f) of
        Some (Reject reason) \<Rightarrow> Some (decided st (PolicyDeny reason) False PolicyDenyReason)
      | pd \<Rightarrow>
          if yolo_mode st \<and> \<not> shell_forced_prompt (f_pre f) then Some (decided st Allow True Yolo)
          else
            (case early_grant cfg st f of
               Some (d, r) \<Rightarrow> Some (decided st d True r)
             | None \<Rightarrow>
                 if auto_mode st \<and> unforced f \<and> \<not> floor_requires_prompt f \<and> pd = Some Allow
                 then Some (decided st Allow True PolicyAllow) else None))"

datatype auto_result = AutoReply reply | AutoForced string | AutoPass

definition AUTO_DENY_GUIDANCE :: rstr where
  "AUTO_DENY_GUIDANCE =
     lit ''Take a safer approach that stays within what the user asked for; do not retry this exact action or attempt to work around the denial. If no safer alternative exists, ask the user how to proceed.''"

definition auto_deny_text :: "rstr option \<Rightarrow> rstr" where
  "auto_deny_text r =
     lit ''Auto mode blocked this action'' @
     (case r of None \<Rightarrow> [] | Some r \<Rightarrow> lit '' ('' @ trim_end_matches 46 r @ lit '')'') @ lit ''. '' @ AUTO_DENY_GUIDANCE"

definition classified :: "manager_state \<Rightarrow> request_facts \<Rightarrow> classifier_outcome \<Rightarrow> auto_result" where
  "classified st f out =
     (case verdict_of out of
        VerdictAllow \<Rightarrow> AutoReply (decided (st\<lparr>consecutive_denials := 0\<rparr>) Allow True AutoClassifierAllow)
      | VerdictBlock \<Rightarrow>
          if defers_gate_ask (f_pre f) \<or> floor_requires_prompt f then AutoForced ''auto_classifier_block''
          else if consecutive_denials st < AUTO_DENY_CONSECUTIVE_LIMIT \<and> total_denials st < AUTO_DENY_TOTAL_LIMIT
          then AutoReply
                 (decided
                   (st\<lparr>consecutive_denials := consecutive_denials st + 1, total_denials := total_denials st + 1\<rparr>)
                   (PolicyDeny (auto_deny_text (outcome_reason out))) False AutoClassifierDeny)
          else AutoForced ''auto_denial_limit''
      | VerdictUnavailable \<Rightarrow>
          AutoForced (if is_timeout out then ''auto_classifier_timeout'' else ''auto_classifier_unavailable''))"

definition unavailable :: classifier_outcome where
  "unavailable = \<lparr>verdict_of = VerdictUnavailable, outcome_reason = None, is_timeout = False\<rparr>"

definition auto_stage :: "manager_state \<Rightarrow> world \<Rightarrow> request_facts \<Rightarrow> auto_result" where
  "auto_stage st w f =
     (if auto_mode st \<and> admits_auto_classifier (f_pre f) \<and> (\<not> floor_requires_prompt f \<or> floor_defers f) then
        (case auto_mode_fast_path (f_access f) (tool_name_for_access (f_access f))
                (f_protected f \<or> access_requires_user_interaction (tool_name_for_access (f_access f)) (f_access f)) of
           FastAllow \<Rightarrow> AutoReply (decided st Allow True AutoFastPathReason)
         | FastPromptUser \<Rightarrow> AutoForced ''needs_user''
         | FastClassify \<Rightarrow>
             (case (if has_classifier st then classify w else Some unavailable) of
                None \<Rightarrow> AutoReply (abandoned st)
              | Some out \<Rightarrow> classified st f out))
      else AutoPass)"

text \<open>The decisions behind automatic mode: the sandbox, allow rules, the lists and grants.\<close>

definition sandbox_allows :: "world \<Rightarrow> request_facts \<Rightarrow> bool \<Rightarrow> bool" where
  "sandbox_allows w f auto_forced \<longleftrightarrow>
     (case f_eval f of None \<Rightarrow> False | Some e \<Rightarrow> sandbox_may_auto_allow_bash e (sandbox w)) \<and>
     \<not> policy_forced_prompt (f_pre f) \<and> \<not> auto_forced"

definition late_policy :: "request_facts \<Rightarrow> decision option" where
  "late_policy f =
     (case policy_decision (f_pre f) of
        Some Ask \<Rightarrow> None
      | Some Allow \<Rightarrow> if f_protected f \<or> floor_requires_prompt f then None else Some Allow
      | pd \<Rightarrow> pd)"

definition bash_pre_decision ::
  "'g manager_config \<Rightarrow> manager_state \<Rightarrow> request_facts \<Rightarrow> bool \<Rightarrow> rstr \<Rightarrow> (decision \<times> reason) option" where
  "bash_pre_decision cfg st f auto_forced cmd =
     (case f_eval f of
        None \<Rightarrow> None
      | Some e \<Rightarrow>
          if bash_request_floor e then None
          else if policy_forced_prompt (f_pre f) then
            if cfg_remember cfg \<and> \<not> auto_forced \<and> \<not> shell_file_forced_prompt (f_pre f)
            then bash_grant_pre_decision cmd e (perm st) (cfg_yolo_pin cfg) ASK_FLOOR_REMEMBER
            else None
          else bash_grant_pre_decision cmd e (perm st) (cfg_yolo_pin cfg) (post_classify auto_forced))"

definition access_pre_decision ::
  "'g manager_config \<Rightarrow> manager_state \<Rightarrow> request_facts \<Rightarrow> bool \<Rightarrow> (decision \<times> reason) option" where
  "access_pre_decision cfg st f auto_forced =
     (case f_access f of
        ARead _ \<Rightarrow> allow_if (\<not> policy_forced_prompt (f_pre f)) SafeCommand
      | AGrep _ _ \<Rightarrow> allow_if (\<not> policy_forced_prompt (f_pre f)) SafeCommand
      | AWebSearch _ \<Rightarrow> Some (Allow, SafeCommand)
      | AMcp name _ \<Rightarrow>
          allow_if (mcp_pre_decision name (perm st) (policy_forced_prompt (f_pre f)) (cfg_remember cfg)) PersistedGrant
      | AEdit _ \<Rightarrow>
          if allow_edits_for_session st \<and> \<not> f_protected f then Some (Allow, PersistedGrant)
          else if edit_pol (perm st) = EditReject then Some (Reject (lit ''edits prohibited''), SessionDeny)
          else None
      | ABash cmd \<Rightarrow> bash_pre_decision cfg st f auto_forced cmd
      | AWebFetch url \<Rightarrow> web_fetch_decision cfg (perm st) True PersistedGrant url)"

definition auto_prompt_blocks_allow :: "access_kind \<Rightarrow> bool" where
  "auto_prompt_blocks_allow access = (case access of ABash _ \<Rightarrow> False | _ \<Rightarrow> True)"

definition pre_decision ::
  "'g manager_config \<Rightarrow> manager_state \<Rightarrow> request_facts \<Rightarrow> bool \<Rightarrow> (decision \<times> reason) option" where
  "pre_decision cfg st f auto_forced =
     (case access_pre_decision cfg st f auto_forced of
        Some (Allow, r) \<Rightarrow> if auto_forced \<and> auto_prompt_blocks_allow (f_access f) then None else Some (Allow, r)
      | pd \<Rightarrow> pd)"

definition trigger_of :: "request_facts \<Rightarrow> string option \<Rightarrow> string" where
  "trigger_of f auto_reason =
     (case prompt_trigger (f_pre f) auto_reason of
        Some t \<Rightarrow> t
      | None \<Rightarrow>
          if opaque_floor f then ''opaque_shell''
          else if floor_requires_prompt f then ''bash_request_floor''
          else ''needs_user'')"

section \<open>The prompt\<close>

text \<open>The state in memory changes; the file does when the directory can be made and the file written, and a failure is
  only logged. The file is replaced as a whole or not at all.\<close>

definition persist :: "bool \<Rightarrow> manager_state \<Rightarrow> permission_state \<Rightarrow> manager_state" where
  "persist ok st ps = st\<lparr>perm := ps, disk := (if ok then ps else disk st)\<rparr>"

definition grant_bash :: "rstr \<Rightarrow> permission_state \<Rightarrow> permission_state" where
  "grant_bash c ps = ps\<lparr>allowed_bash_commands := List.insert c (allowed_bash_commands ps)\<rparr>"

definition grant_mcp_tool :: "rstr \<Rightarrow> permission_state \<Rightarrow> permission_state" where
  "grant_mcp_tool n ps = ps\<lparr>allowed_mcp_tools := List.insert n (allowed_mcp_tools ps)\<rparr>"

definition user_rejected :: decision where
  "user_rejected = Reject (lit ''User rejected the execution'')"

definition prompt_failed :: "rstr \<Rightarrow> decision" where
  "prompt_failed e = Reject (lit ''Failed to request permission from user: '' @ e)"

definition bash_outcome :: "bool \<Rightarrow> manager_state \<Rightarrow> rstr \<Rightarrow> prompt_outcome \<Rightarrow> manager_state \<times> decision \<times> string" where
  "bash_outcome ok st cmd out =
     (case out of
        OutAllowOnce \<Rightarrow> (st, Allow, ''allow_once'')
      | OutAllowAlways \<Rightarrow> (persist ok st (grant_bash cmd (perm st)), Allow, ''allow_always'')
      | OutAllowAlwaysBashCommand p \<Rightarrow> (persist ok st (grant_bash p (perm st)), Allow, ''allow_always_bash'')
      | OutAllowAlwaysDomain _ \<Rightarrow> (st, Allow, ''allow_once'')
      | OutAllowAlwaysMcpTool _ \<Rightarrow> (st, Allow, ''allow_once'')
      | OutAllowAlwaysMcpServer _ \<Rightarrow> (st, Allow, ''allow_once'')
      | OutAllowEditsForSession \<Rightarrow> (st, Allow, ''allow_once'')
      | OutRejectOnce \<Rightarrow> (st, user_rejected, ''reject_once'')
      | OutRejectAlwaysBashCommand p \<Rightarrow>
          (persist ok st ((perm st)\<lparr>disallowed_bash_commands := List.insert p (disallowed_bash_commands (perm st))\<rparr>),
           Reject (lit ''User rejected the execution and excluded '' @ p @ lit '' from this session''),
           ''reject_always_bash'')
      | OutCancelled \<Rightarrow> (st, Cancelled, ''cancelled'')
      | OutFollowupMessage m \<Rightarrow> (st, FollowupMessage m, ''followup'')
      | OutError e \<Rightarrow> (st, prompt_failed e, ''error''))"

definition mcp_server_grant :: "bool \<Rightarrow> manager_state \<Rightarrow> rstr \<Rightarrow> rstr \<Rightarrow> manager_state" where
  "mcp_server_grant ok st name server_prefix =
     persist ok st
       (if map_option fst (parse_mcp_qualified_name name) = Some server_prefix
        then (perm st)\<lparr>allowed_mcp_servers := List.insert server_prefix (allowed_mcp_servers (perm st))\<rparr>
        else grant_mcp_tool name (perm st))"

definition other_outcome :: "bool \<Rightarrow> manager_state \<Rightarrow> access_kind \<Rightarrow> prompt_outcome \<Rightarrow> manager_state \<times> decision \<times> string" where
  "other_outcome ok st access out =
     (case out of
        OutAllowOnce \<Rightarrow> (st, Allow, ''allow_once'')
      | OutAllowEditsForSession \<Rightarrow> (st\<lparr>allow_edits_for_session := True\<rparr>, Allow, ''allow_edits_for_session'')
      | OutAllowAlways \<Rightarrow>
          (persist ok st (case access of AMcp name _ \<Rightarrow> grant_mcp_tool name (perm st) | _ \<Rightarrow> perm st), Allow, ''allow_always'')
      | OutAllowAlwaysBashCommand _ \<Rightarrow> (st, Allow, ''allow_always_bash'')
      | OutAllowAlwaysDomain d \<Rightarrow>
          (case access of
             AWebFetch _ \<Rightarrow>
               persist ok st ((perm st)\<lparr>allowed_web_fetch_domains := List.insert d (allowed_web_fetch_domains (perm st))\<rparr>)
           | _ \<Rightarrow> st, Allow, ''allow_always_domain'')
      | OutAllowAlwaysMcpTool _ \<Rightarrow>
          (case access of AMcp name _ \<Rightarrow> persist ok st (grant_mcp_tool name (perm st)) | _ \<Rightarrow> st, Allow,
           ''allow_always_mcp_tool'')
      | OutAllowAlwaysMcpServer server \<Rightarrow>
          (case access of AMcp name _ \<Rightarrow> mcp_server_grant ok st name server | _ \<Rightarrow> st, Allow, ''allow_always_mcp_server'')
      | OutRejectAlwaysBashCommand _ \<Rightarrow> (st, user_rejected, ''reject_always_bash'')
      | OutRejectOnce \<Rightarrow> (st, user_rejected, ''reject_once'')
      | OutCancelled \<Rightarrow> (st, Cancelled, ''cancelled'')
      | OutFollowupMessage m \<Rightarrow> (st, FollowupMessage m, ''followup'')
      | OutError e \<Rightarrow> (st, prompt_failed e, ''error''))"

definition prompted_decision_approved :: "decision \<Rightarrow> string \<Rightarrow> bool option" where
  "prompted_decision_approved d outcome =
     (case d of
        Allow \<Rightarrow> Some True
      | Reject _ \<Rightarrow> if outcome \<noteq> ''error'' then Some False else None
      | _ \<Rightarrow> None)"

definition record_decision :: "'g manager_config \<Rightarrow> access_kind \<Rightarrow> decision \<Rightarrow> string \<Rightarrow> manager_state \<Rightarrow> manager_state" where
  "record_decision cfg access d outcome st =
     (case prompted_decision_approved d outcome of
        None \<Rightarrow> st
      | Some approved \<Rightarrow>
          (let turns = recorded st @
                 [\<lparr>turn_tool = tool_name_for_access access, turn_args = cfg_args cfg access, turn_approved = approved\<rparr>]
           in st\<lparr>recorded := drop (length turns - MAX_RECORDED_PERMISSION_DECISIONS) turns\<rparr>))"

definition prompt_stage :: "'g manager_config \<Rightarrow> manager_state \<Rightarrow> world \<Rightarrow> request_facts \<Rightarrow> string option \<Rightarrow> reply" where
  "prompt_stage cfg st w f auto_reason =
     (case (case f_access f of ABash cmd \<Rightarrow> bash_outcome (saved w) st cmd (answer w) | access \<Rightarrow> other_outcome (saved w) st access (answer w)) of
        (st, d, outcome) \<Rightarrow>
          (let st = record_decision cfg (f_access f) d outcome st;
               gone = (d = Cancelled \<and> gone_at_end w);
               st = (if outcome \<noteq> ''error'' \<and> \<not> gone then st\<lparr>consecutive_denials := 0\<rparr> else st)
           in \<lparr>next_state = st, response = Some d,
               event = \<lparr>ev_decision = d, ev_auto_approved = False, ev_prompted = True, ev_outcome = Some outcome,
                        ev_reason = (if gone then RequesterGone else PromptTrigger (trigger_of f auto_reason))\<rparr>\<rparr>))"

definition late_stage :: "'g manager_config \<Rightarrow> manager_state \<Rightarrow> world \<Rightarrow> request_facts \<Rightarrow> string option \<Rightarrow> reply" where
  "late_stage cfg st w f auto_reason =
     (if sandbox_allows w f (auto_reason \<noteq> None) then decided st Allow True SandboxAuto
      else
        (case late_policy f of
           Some d \<Rightarrow> decided st d True PolicyAllow
         | None \<Rightarrow>
             (case pre_decision cfg st f (auto_reason \<noteq> None) of
                Some (d, r) \<Rightarrow> decided st d True r
              | None \<Rightarrow>
                  if cfg_prompt_policy cfg = PromptDeny
                  then decided st (PolicyDeny (lit ''denied by prompt policy (tool not pre-approved)'')) False PromptDenyReason
                  else if gone_before_prompt w then abandoned st
                  else prompt_stage cfg st w f auto_reason)))"

definition handle_facts :: "'g manager_config \<Rightarrow> manager_state \<Rightarrow> world \<Rightarrow> request_facts \<Rightarrow> reply" where
  "handle_facts cfg st w f =
     (case early_stage cfg st f of
        Some r \<Rightarrow> r
      | None \<Rightarrow>
          (case auto_stage st w f of
             AutoReply r \<Rightarrow> r
           | AutoForced reason \<Rightarrow> late_stage cfg st w f (Some reason)
           | AutoPass \<Rightarrow> late_stage cfg st w f None))"

definition handle_request :: "'g manager_config \<Rightarrow> manager_state \<Rightarrow> world \<Rightarrow> access_kind \<Rightarrow> reply" where
  "handle_request cfg st w access =
     (if gone_at_dequeue w then abandoned st
      else
        (case bash_facts cfg st w access of
           None \<Rightarrow> abandoned st
         | Some eval \<Rightarrow> handle_facts cfg st w (facts_of cfg st w access eval)))"

section \<open>The actor\<close>

text \<open>A reset carries whether the file can be written when it is handled, a request what it meets outside.\<close>

datatype permission_command =
  SetYoloMode bool
| SetAutoMode bool
| SetClassifier bool
| SetClassifierTranscript "rstr list"
| SetProjectInstructions "rstr option"
| ResetState bool
| RequestCmd access_kind world
| Shutdown

definition set_yolo_mode :: "'g manager_config \<Rightarrow> bool \<Rightarrow> manager_state \<Rightarrow> manager_state" where
  "set_yolo_mode cfg enabled st =
     (let clamped = clamp_yolo enabled (cfg_yolo_pin cfg);
          st = st\<lparr>pin_refusal_logged := pin_refusal_logged st \<or> enabled \<and> \<not> clamped, yolo_mode := clamped\<rparr>
      in if clamped then st\<lparr>auto_mode := False\<rparr> else st)"

definition set_auto_mode :: "bool \<Rightarrow> manager_state \<Rightarrow> manager_state" where
  "set_auto_mode enabled st =
     (let st = st\<lparr>auto_mode := enabled\<rparr>
      in if enabled then st\<lparr>yolo_mode := False, has_classifier := True\<rparr> else st)"

fun actor_step :: "'g manager_config \<Rightarrow> permission_command \<Rightarrow> manager_state \<Rightarrow> manager_state" where
  "actor_step cfg (SetYoloMode enabled) st = set_yolo_mode cfg enabled st"
| "actor_step cfg (SetAutoMode enabled) st = set_auto_mode enabled st"
| "actor_step cfg (SetClassifier c) st = st\<lparr>has_classifier := c\<rparr>"
| "actor_step cfg (SetClassifierTranscript ts) st = st\<lparr>transcript := ts\<rparr>"
| "actor_step cfg (SetProjectInstructions i) st = st\<lparr>project_instructions := i\<rparr>"
| "actor_step cfg (ResetState ok) st = (persist ok st default_state)\<lparr>allow_edits_for_session := False\<rparr>"
| "actor_step cfg (RequestCmd access w) st = next_state (handle_request cfg st w access)"
| "actor_step cfg Shutdown st = st"

section \<open>The handle and the queue\<close>

text \<open>The handles and the actor share two flags, which are stored one at a time. A call of a handle, and what the
  actor does to the flags for one command, is a list of single accesses. The stores are relaxed; what is shown of the
  flags is shown of each one alone, for which its own order of stores and the order that sending and receiving a
  command gives are enough.\<close>

datatype flag_access = StoreYolo bool | StoreAuto bool | SendCommand permission_command

definition handle_set_yolo :: "'g manager_config \<Rightarrow> bool \<Rightarrow> flag_access list" where
  "handle_set_yolo cfg enabled =
     (let clamped = clamp_yolo enabled (cfg_yolo_pin cfg)
      in StoreYolo clamped # (if clamped then [StoreAuto False] else []) @ [SendCommand (SetYoloMode enabled)])"

definition handle_set_auto :: "bool \<Rightarrow> flag_access list" where
  "handle_set_auto enabled =
     StoreAuto enabled # (if enabled then [StoreYolo False] else []) @ [SendCommand (SetAutoMode enabled)]"

definition actor_stores :: "'g manager_config \<Rightarrow> permission_command \<Rightarrow> flag_access list" where
  "actor_stores cfg c =
     (case c of
        SetYoloMode enabled \<Rightarrow>
          (let clamped = clamp_yolo enabled (cfg_yolo_pin cfg)
           in StoreYolo clamped # (if clamped then [StoreAuto False] else []))
      | SetAutoMode enabled \<Rightarrow> StoreAuto enabled # (if enabled then [StoreYolo False] else [])
      | _ \<Rightarrow> [])"

text \<open>The actor, the two flags, its queue, the calls that handles are in the middle of, and the stores the
  actor has still to make for the command it has taken; \<open>running\<close> turns false when it takes \<open>Shutdown\<close>.
  What is in the queue then stays there, and what is sent later is lost.\<close>

record system =
  actor :: manager_state
  yolo_state :: bool
  auto_state :: bool
  queue :: "permission_command list"
  calls :: "flag_access list list"
  stores :: "flag_access list"
  running :: bool

definition access_flag :: "flag_access \<Rightarrow> system \<Rightarrow> system" where
  "access_flag x s =
     (case x of
        StoreYolo b \<Rightarrow> s\<lparr>yolo_state := b\<rparr>
      | StoreAuto b \<Rightarrow> s\<lparr>auto_state := b\<rparr>
      | SendCommand c \<Rightarrow> if running s then s\<lparr>queue := queue s @ [c]\<rparr> else s)"

definition is_mode_command :: "permission_command \<Rightarrow> bool" where
  "is_mode_command c = (case c of SetYoloMode _ \<Rightarrow> True | SetAutoMode _ \<Rightarrow> True | _ \<Rightarrow> False)"

definition start_system :: "'g manager_config \<Rightarrow> permission_state \<Rightarrow> bool \<Rightarrow> bool \<Rightarrow> system" where
  "start_system cfg loaded ok initial_yolo =
     (let st = spawn cfg loaded ok initial_yolo
      in \<lparr>actor = st, yolo_state = yolo_mode st, auto_state = auto_mode st, queue = [], calls = [], stores = [], running = True\<rparr>)"

definition saves :: "permission_command \<Rightarrow> bool" where
  "saves c = (case c of ResetState ok \<Rightarrow> ok | RequestCmd _ w \<Rightarrow> saved w | _ \<Rightarrow> True)"

text \<open>The steps: a handle is called, a call makes its next access, the actor makes the next store, the actor takes a
  command. With \<open>io\<close> every write of the file succeeds.\<close>

inductive sys_step :: "'g manager_config \<Rightarrow> bool \<Rightarrow> system \<Rightarrow> system \<Rightarrow> bool" for cfg io where
  call_yolo: "sys_step cfg io s (s\<lparr>calls := handle_set_yolo cfg enabled # calls s\<rparr>)"
| call_auto: "sys_step cfg io s (s\<lparr>calls := handle_set_auto enabled # calls s\<rparr>)"
| call_other: "\<not> is_mode_command c \<Longrightarrow> io \<longrightarrow> saves c \<Longrightarrow> sys_step cfg io s (s\<lparr>calls := [SendCommand c] # calls s\<rparr>)"
| handle_moves: "i < length (calls s) \<Longrightarrow> calls s ! i = x # xs \<Longrightarrow>
    sys_step cfg io s (access_flag x (s\<lparr>calls := (calls s)[i := xs]\<rparr>))"
| actor_moves: "stores s = x # xs \<Longrightarrow> sys_step cfg io s (access_flag x (s\<lparr>stores := xs\<rparr>))"
| receive: "running s \<Longrightarrow> stores s = [] \<Longrightarrow> queue s = c # cs \<Longrightarrow>
    sys_step cfg io s (s\<lparr>actor := actor_step cfg c (actor s), queue := cs, stores := actor_stores cfg c, running := (c \<noteq> Shutdown)\<rparr>)"

inductive sys_reachable :: "'g manager_config \<Rightarrow> bool \<Rightarrow> system \<Rightarrow> bool" for cfg io where
  init: "io \<longrightarrow> ok \<Longrightarrow> sys_reachable cfg io (start_system cfg loaded ok initial_yolo)"
| step: "sys_reachable cfg io s \<Longrightarrow> sys_step cfg io s t \<Longrightarrow> sys_reachable cfg io t"

section \<open>Specification\<close>

definition manager_inv :: "'g manager_config \<Rightarrow> bool \<Rightarrow> manager_state \<Rightarrow> bool" where
  "manager_inv cfg io st \<longleftrightarrow>
     (cfg_yolo_pin cfg \<noteq> None \<longrightarrow> \<not> yolo_mode st) \<and> \<not> (yolo_mode st \<and> auto_mode st) \<and>
     consecutive_denials st \<le> AUTO_DENY_CONSECUTIVE_LIMIT \<and> total_denials st \<le> AUTO_DENY_TOTAL_LIMIT \<and>
     consecutive_denials st \<le> total_denials st \<and>
     length (recorded st) \<le> MAX_RECORDED_PERMISSION_DECISIONS \<and>
     edit_pol (perm st) \<noteq> EditAllow \<and> (io \<longrightarrow> disk st = perm st)"

text \<open>The commands that store a flag.\<close>

definition writes_yolo :: "permission_command \<Rightarrow> bool" where
  "writes_yolo c = (case c of SetYoloMode _ \<Rightarrow> True | SetAutoMode enabled \<Rightarrow> enabled | _ \<Rightarrow> False)"

definition writes_auto :: "'g manager_config \<Rightarrow> permission_command \<Rightarrow> bool" where
  "writes_auto cfg c =
     (case c of SetYoloMode enabled \<Rightarrow> clamp_yolo enabled (cfg_yolo_pin cfg) | SetAutoMode _ \<Rightarrow> True | _ \<Rightarrow> False)"

section \<open>Lemmas\<close>

text \<open>What a request can change: the grants, the counters, the recorded decisions.\<close>

definition modes_kept :: "manager_state \<Rightarrow> manager_state \<Rightarrow> bool" where
  "modes_kept st st' \<longleftrightarrow>
     yolo_mode st' = yolo_mode st \<and> auto_mode st' = auto_mode st"

definition book_kept :: "bool \<Rightarrow> manager_state \<Rightarrow> manager_state \<Rightarrow> bool" where
  "book_kept ok st st' \<longleftrightarrow>
     modes_kept st st' \<and> edit_pol (perm st') = edit_pol (perm st) \<and> (ok \<longrightarrow> disk st = perm st \<longrightarrow> disk st' = perm st') \<and>
     (length (recorded st) \<le> MAX_RECORDED_PERMISSION_DECISIONS \<longrightarrow>
        length (recorded st') \<le> MAX_RECORDED_PERMISSION_DECISIONS)"

lemma book_kept_refl [simp]: "book_kept ok st st"
  by (simp add: book_kept_def modes_kept_def)

lemma decided_simps [simp]:
  "next_state (decided st d a r) = st" "response (decided st d a r) = Some d"
  "ev_decision (event (decided st d a r)) = d" "ev_prompted (event (decided st d a r)) = False"
  "ev_reason (event (decided st d a r)) = r" "ev_auto_approved (event (decided st d a r)) = a"
  by (simp_all add: decided_def)

lemma abandoned_simps [simp]:
  "next_state (abandoned st) = st" "response (abandoned st) = None" "ev_reason (event (abandoned st)) = RequesterGone"
  "ev_prompted (event (abandoned st)) = False"
  by (simp_all add: abandoned_def)

lemma outcome_book:
  "book_kept ok st (fst (bash_outcome ok st cmd out))" "book_kept ok st (fst (other_outcome ok st access out))"
  "consecutive_denials (fst (bash_outcome ok st cmd out)) = consecutive_denials st"
  "consecutive_denials (fst (other_outcome ok st access out)) = consecutive_denials st"
  "total_denials (fst (bash_outcome ok st cmd out)) = total_denials st"
  "total_denials (fst (other_outcome ok st access out)) = total_denials st"
  by (simp_all add: bash_outcome_def other_outcome_def book_kept_def modes_kept_def persist_def grant_bash_def
      grant_mcp_tool_def mcp_server_grant_def split: prompt_outcome.split access_kind.split)

lemma record_decision_book:
  "book_kept ok st u \<Longrightarrow> book_kept ok st (record_decision cfg access d out u)"
  "consecutive_denials (record_decision cfg access d out u) = consecutive_denials u"
  "total_denials (record_decision cfg access d out u) = total_denials u"
  by (auto simp: record_decision_def book_kept_def modes_kept_def Let_def MAX_RECORDED_PERMISSION_DECISIONS_def
      split: option.split)

lemma prompt_stage_book:
  "book_kept (saved w) st (next_state (prompt_stage cfg st w f r))"
  "consecutive_denials (next_state (prompt_stage cfg st w f r)) \<in> {0, consecutive_denials st}"
  "total_denials (next_state (prompt_stage cfg st w f r)) = total_denials st"
proof -
  obtain u d out where u: "(case f_access f of ABash cmd \<Rightarrow> bash_outcome (saved w) st cmd (answer w)
      | access \<Rightarrow> other_outcome (saved w) st access (answer w)) = (u, d, out)" (is "?x = _") by (cases ?x) auto
  have "book_kept (saved w) st u \<and> consecutive_denials u = consecutive_denials st \<and> total_denials u = total_denials st"
    using u outcome_book(1,3,5) [of "saved w" st _ "answer w"] outcome_book(2,4,6) [of "saved w" st "f_access f" "answer w"]
    by (cases "f_access f") (auto, (metis fst_conv)+)
  then show "book_kept (saved w) st (next_state (prompt_stage cfg st w f r))"
    "consecutive_denials (next_state (prompt_stage cfg st w f r)) \<in> {0, consecutive_denials st}"
    "total_denials (next_state (prompt_stage cfg st w f r)) = total_denials st"
    using record_decision_book(1) [of "saved w" st u cfg "f_access f" d out] record_decision_book(2,3) [of cfg "f_access f" d out u]
    unfolding prompt_stage_def u by (auto simp: Let_def book_kept_def modes_kept_def)
qed

lemma late_stage_book:
  "book_kept (saved w) st (next_state (late_stage cfg st w f r))"
  "consecutive_denials (next_state (late_stage cfg st w f r)) \<in> {0, consecutive_denials st}"
  "total_denials (next_state (late_stage cfg st w f r)) = total_denials st"
  by (auto simp: late_stage_def prompt_stage_book(1,3) prompt_stage_book(2) [simplified] split: option.split)

text \<open>The counters move in three ways: they stay, the first is cleared, or both are incremented below
  their limits.\<close>

definition counters_move :: "manager_state \<Rightarrow> reply \<Rightarrow> bool" where
  "counters_move st r \<longleftrightarrow>
     (if ev_reason (event r) = AutoClassifierDeny
      then consecutive_denials st < AUTO_DENY_CONSECUTIVE_LIMIT \<and> total_denials st < AUTO_DENY_TOTAL_LIMIT \<and>
           consecutive_denials (next_state r) = consecutive_denials st + 1 \<and>
           total_denials (next_state r) = total_denials st + 1
      else consecutive_denials (next_state r) \<in> {0, consecutive_denials st} \<and>
           total_denials (next_state r) = total_denials st)"

definition grant_reasons :: "reason set" where
  "grant_reasons = {SessionGrant, SafeCommand, SessionDeny, StaticAllowlist, PersistedGrant}"

lemma bash_grant_reason: "bash_grant_pre_decision cmd e ps pin opts = Some (d, r) \<Longrightarrow> r \<in> grant_reasons"
  by (auto simp: bash_grant_pre_decision_def allow_if_def grant_reasons_def split: segment_evaluation.splits if_splits)

lemma web_fetch_reason:
  "web_fetch_decision cfg ps h g url = Some (d, r) \<Longrightarrow> g \<in> grant_reasons \<Longrightarrow> r \<in> grant_reasons"
  by (auto simp: web_fetch_decision_def allow_if_def grant_reasons_def split: option.splits if_splits)

lemma session_grant_reason: "session_grant_pre_decision cfg st a e h = Some (d, r) \<Longrightarrow> r \<in> grant_reasons"
  by (auto simp: session_grant_pre_decision_def allow_if_def dest: bash_grant_reason web_fetch_reason
      split: access_kind.splits option.splits if_splits)
    (auto simp: grant_reasons_def dest!: web_fetch_reason)

lemma pre_decision_access: "pre_decision cfg st f b = Some x \<Longrightarrow> access_pre_decision cfg st f b = Some x"
  by (auto simp: pre_decision_def split: option.splits decision.splits if_splits)

lemma pre_decision_reason: "pre_decision cfg st f b = Some (d, r) \<Longrightarrow> r \<in> grant_reasons"
  by (drule pre_decision_access, auto simp: access_pre_decision_def bash_pre_decision_def allow_if_def
      dest: bash_grant_reason split: access_kind.splits option.splits if_splits)
    (auto simp: grant_reasons_def dest!: web_fetch_reason)

lemma early_reason:
  assumes "early_stage cfg st f = Some r"
  shows "next_state r = st" and "ev_reason (event r) \<noteq> AutoClassifierDeny"
proof -
  have "next_state r = st \<and> ev_reason (event r) \<in> {PolicyDenyReason, Yolo, PolicyAllow} \<union> grant_reasons"
    using assms
    by (auto simp: early_stage_def early_grant_def Let_def dest: session_grant_reason
        split: option.splits decision.splits if_splits)
  then show "next_state r = st" and "ev_reason (event r) \<noteq> AutoClassifierDeny" by (auto simp: grant_reasons_def)
qed

lemma late_reason: "ev_reason (event (late_stage cfg st w f r)) \<noteq> AutoClassifierDeny"
  by (auto simp: late_stage_def prompt_stage_def Let_def grant_reasons_def dest!: pre_decision_reason
      split: option.split prod.split)

lemma counters_move_abandoned: "counters_move st (abandoned st)"
  by (simp add: counters_move_def)

lemma classified_counters:
  assumes "classified st f out = AutoReply r"
  shows "counters_move st r \<and> book_kept (saved w) st (next_state r)"
proof -
  consider "r = decided (st\<lparr>consecutive_denials := 0\<rparr>) Allow True AutoClassifierAllow"
    | d where "consecutive_denials st < AUTO_DENY_CONSECUTIVE_LIMIT" "total_denials st < AUTO_DENY_TOTAL_LIMIT"
      "r = decided (st\<lparr>consecutive_denials := consecutive_denials st + 1, total_denials := total_denials st + 1\<rparr>) d
         False AutoClassifierDeny"
    using assms by (auto simp: classified_def split: classifier_verdict.splits if_splits)
  then show ?thesis by cases (simp_all add: counters_move_def book_kept_def modes_kept_def)
qed

lemma auto_stage_cases:
  assumes "auto_stage st w f = AutoReply r"
  obtains (fast) "auto_mode st" "admits_auto_classifier (f_pre f)" "\<not> floor_requires_prompt f \<or> floor_defers f"
      "r = decided st Allow True AutoFastPathReason"
    | (gone) "r = abandoned st"
    | (classified) out where "auto_mode st" "admits_auto_classifier (f_pre f)" "\<not> floor_requires_prompt f \<or> floor_defers f"
      "classified st f out = AutoReply r"
proof -
  define fp where "fp = auto_mode_fast_path (f_access f) (tool_name_for_access (f_access f))
                (f_protected f \<or> access_requires_user_interaction (tool_name_for_access (f_access f)) (f_access f))"
  define cl where "cl = (if has_classifier st then classify w else Some unavailable)"
  have c: "auto_mode st" "admits_auto_classifier (f_pre f)" "\<not> floor_requires_prompt f \<or> floor_defers f"
    and r: "(case fp of FastAllow \<Rightarrow> AutoReply (decided st Allow True AutoFastPathReason)
         | FastPromptUser \<Rightarrow> AutoForced ''needs_user''
         | FastClassify \<Rightarrow> (case cl of None \<Rightarrow> AutoReply (abandoned st) | Some out \<Rightarrow> classified st f out)) = AutoReply r"
    using assms unfolding auto_stage_def fp_def [symmetric] cl_def [symmetric] by (simp_all split: if_splits)
  show thesis
  proof (cases fp)
    case FastAllow
    with r c that(1) show thesis by simp
  next
    case FastPromptUser
    with r show thesis by simp
  next
    case FastClassify
    with r c that(2,3) show thesis by (cases cl) auto
  qed
qed

lemma auto_stage_counters:
  assumes "auto_stage st w f = AutoReply r"
  shows "counters_move st r \<and> book_kept (saved w) st (next_state r)"
  using assms
proof (cases rule: auto_stage_cases)
  case fast
  then show ?thesis by (simp add: counters_move_def)
next
  case gone
  then show ?thesis by (simp add: counters_move_abandoned)
next
  case (classified out)
  then show ?thesis using classified_counters by blast
qed

lemma handle_facts_counters:
  "counters_move st (handle_facts cfg st w f) \<and> book_kept (saved w) st (next_state (handle_facts cfg st w f))"
proof (cases "early_stage cfg st f")
  case (Some r)
  with early_reason [OF Some] show ?thesis by (simp add: handle_facts_def counters_move_def)
next
  case None
  note late = late_stage_book(1) [of w st cfg f] late_stage_book(2) [of cfg st w f] late_stage_book(3) [of cfg st w f]
    late_reason [of cfg st w f]
  show ?thesis
  proof (cases "auto_stage st w f")
    case (AutoReply r)
    then have "counters_move st r \<and> book_kept (saved w) st (next_state r)" by (rule auto_stage_counters)
    with None AutoReply show ?thesis by (simp add: handle_facts_def)
  qed (use None late in \<open>auto simp: handle_facts_def counters_move_def\<close>)
qed

lemma handle_request_counters:
  "counters_move st (handle_request cfg st w access) \<and> book_kept (saved w) st (next_state (handle_request cfg st w access))"
  using handle_facts_counters [of st cfg w] counters_move_abandoned [of st]
  by (auto simp: handle_request_def split: option.split)

lemma actor_step_inv: "manager_inv cfg io st \<Longrightarrow> io \<longrightarrow> saves c \<Longrightarrow> manager_inv cfg io (actor_step cfg c st)"
proof (cases c)
  case (RequestCmd access w)
  assume "manager_inv cfg io st" "io \<longrightarrow> saves c"
  with handle_request_counters [of st cfg w access] RequestCmd show ?thesis
    by (auto simp: manager_inv_def counters_move_def book_kept_def modes_kept_def saves_def split: if_splits)
qed (auto simp: manager_inv_def set_yolo_mode_def set_auto_mode_def clamp_yolo_def Let_def persist_def default_state_def saves_def)

lemma spawn_inv: "io \<longrightarrow> ok \<Longrightarrow> manager_inv cfg io (spawn cfg loaded ok y)"
  by (auto simp: manager_inv_def spawn_def Let_def clamp_yolo_def migrate_def)

section \<open>The flags\<close>

text \<open>What a command stores is what it makes of the modes, and it changes no mode that it does not store.\<close>

lemma actor_stores_modes:
  "StoreYolo b \<in> set (actor_stores cfg c) \<longleftrightarrow> writes_yolo c \<and> b = yolo_mode (actor_step cfg c st)"
  "StoreAuto b \<in> set (actor_stores cfg c) \<longleftrightarrow> writes_auto cfg c \<and> b = auto_mode (actor_step cfg c st)"
  "SendCommand d \<notin> set (actor_stores cfg c)"
  by (cases c; auto simp: actor_stores_def writes_yolo_def writes_auto_def set_yolo_mode_def set_auto_mode_def Let_def)+

lemma actor_step_keeps_modes:
  "\<not> writes_yolo c \<Longrightarrow> yolo_mode (actor_step cfg c st) = yolo_mode st"
  "\<not> writes_auto cfg c \<Longrightarrow> auto_mode (actor_step cfg c st) = auto_mode st"
  using handle_request_counters [of st cfg]
  by (cases c; auto simp: writes_yolo_def writes_auto_def set_yolo_mode_def set_auto_mode_def Let_def persist_def book_kept_def modes_kept_def)+

text \<open>A call of a handle sends the command whose flags it has stored.\<close>

definition call_ok :: "'g manager_config \<Rightarrow> bool \<Rightarrow> flag_access list \<Rightarrow> bool" where
  "call_ok cfg io xs \<longleftrightarrow>
     xs = [] \<or>
     (\<exists>ys c. xs = ys @ [SendCommand c] \<and> (io \<longrightarrow> saves c) \<and>
        (\<forall>y \<in> set ys. case y of StoreYolo b \<Rightarrow> writes_yolo c \<and> (cfg_yolo_pin cfg \<noteq> None \<longrightarrow> \<not> b)
                        | StoreAuto _ \<Rightarrow> writes_auto cfg c | SendCommand _ \<Rightarrow> False))"

lemma handle_calls_ok:
  "call_ok cfg io (handle_set_yolo cfg e)" "call_ok cfg io (handle_set_auto e)" "io \<longrightarrow> saves c \<Longrightarrow> call_ok cfg io [SendCommand c]"
proof -
  have "handle_set_yolo cfg e = (StoreYolo (clamp_yolo e (cfg_yolo_pin cfg)) # (if clamp_yolo e (cfg_yolo_pin cfg) then [StoreAuto False] else [])) @
      [SendCommand (SetYoloMode e)]" by (simp add: handle_set_yolo_def)
  then show "call_ok cfg io (handle_set_yolo cfg e)" unfolding call_ok_def
    by (intro disjI2 exI conjI) (auto simp: saves_def writes_yolo_def writes_auto_def clamp_yolo_def)
  have "handle_set_auto e = (StoreAuto e # (if e then [StoreYolo False] else [])) @ [SendCommand (SetAutoMode e)]" by (simp add: handle_set_auto_def)
  then show "call_ok cfg io (handle_set_auto e)" unfolding call_ok_def
    by (intro disjI2 exI conjI) (auto simp: saves_def writes_yolo_def writes_auto_def)
qed (simp add: call_ok_def)

lemma call_ok_Cons:
  assumes "call_ok cfg io (x # xs)"
  shows "call_ok cfg io xs"
    and "x = StoreYolo b \<Longrightarrow> (\<exists>c. SendCommand c \<in> set xs \<and> writes_yolo c) \<and> (cfg_yolo_pin cfg \<noteq> None \<longrightarrow> \<not> b)"
    and "x = StoreAuto b \<Longrightarrow> \<exists>c. SendCommand c \<in> set xs \<and> writes_auto cfg c"
    and "x = SendCommand d \<Longrightarrow> io \<longrightarrow> saves d"
  using assms unfolding call_ok_def by (auto simp: Cons_eq_append_conv)

text \<open>A flag agrees with the mode of the actor, or a command that will store it is on its way.\<close>

definition on_its_way :: "(permission_command \<Rightarrow> bool) \<Rightarrow> system \<Rightarrow> bool" where
  "on_its_way writes s \<longleftrightarrow> (\<exists>c \<in> set (queue s). writes c) \<or> (\<exists>xs \<in> set (calls s). \<exists>c. SendCommand c \<in> set xs \<and> writes c)"

definition flags_follow :: "'g manager_config \<Rightarrow> system \<Rightarrow> bool" where
  "flags_follow cfg s \<longleftrightarrow>
     (yolo_state s = yolo_mode (actor s) \<or> StoreYolo (yolo_mode (actor s)) \<in> set (stores s) \<or> on_its_way writes_yolo s) \<and>
     (auto_state s = auto_mode (actor s) \<or> StoreAuto (auto_mode (actor s)) \<in> set (stores s) \<or> on_its_way (writes_auto cfg) s)"

definition stores_ok :: "system \<Rightarrow> bool" where
  "stores_ok s \<longleftrightarrow>
     (\<forall>x \<in> set (stores s). case x of StoreYolo b \<Rightarrow> b = yolo_mode (actor s) | StoreAuto b \<Rightarrow> b = auto_mode (actor s) | SendCommand _ \<Rightarrow> False)"

definition sys_inv :: "'g manager_config \<Rightarrow> bool \<Rightarrow> system \<Rightarrow> bool" where
  "sys_inv cfg io s \<longleftrightarrow>
     manager_inv cfg io (actor s) \<and> (cfg_yolo_pin cfg \<noteq> None \<longrightarrow> \<not> yolo_state s) \<and> stores_ok s \<and>
     (\<forall>xs \<in> set (calls s). call_ok cfg io xs) \<and> (io \<longrightarrow> list_all saves (queue s)) \<and> (running s \<longrightarrow> flags_follow cfg s)"

lemma call_inv:
  assumes "sys_inv cfg io s" "call_ok cfg io xs"
  shows "sys_inv cfg io (s\<lparr>calls := xs # calls s\<rparr>)"
  using assms unfolding sys_inv_def flags_follow_def stores_ok_def on_its_way_def by (auto split: flag_access.splits)

lemma on_its_way_moves:
  assumes "i < length (calls s)" "calls s ! i = x # xs" "on_its_way writes s" "running s"
  shows "on_its_way writes (access_flag x (s\<lparr>calls := (calls s)[i := xs]\<rparr>))"
proof -
  consider c where "c \<in> set (queue s)" "writes c" | j c where "j < length (calls s)" "SendCommand c \<in> set (calls s ! j)" "writes c"
    using assms(3) unfolding on_its_way_def by (metis in_set_conv_nth)
  then show ?thesis
  proof cases
    case 1
    then show ?thesis by (cases x) (auto simp: on_its_way_def access_flag_def)
  next
    case (2 j c)
    show ?thesis
    proof (cases "j = i \<and> x = SendCommand c")
      case True
      then show ?thesis using assms(4) 2(3) by (auto simp: on_its_way_def access_flag_def)
    next
      case False
      then have "SendCommand c \<in> set ((calls s)[i := xs] ! j)" using 2 assms(1,2) by (cases "j = i") auto
      moreover have "(calls s)[i := xs] ! j \<in> set ((calls s)[i := xs])" using 2(1) by simp
      ultimately show ?thesis using 2(3) by (cases x) (auto simp: on_its_way_def access_flag_def)
    qed
  qed
qed

lemma handle_move_inv:
  assumes inv: "sys_inv cfg io s" and i: "i < length (calls s)" and x: "calls s ! i = x # xs"
  shows "sys_inv cfg io (access_flag x (s\<lparr>calls := (calls s)[i := xs]\<rparr>))" (is "sys_inv cfg io ?t")
proof -
  have "calls s ! i \<in> set (calls s)" using i by simp
  then have "call_ok cfg io (x # xs)" using inv x by (simp add: sys_inv_def)
  note ok = call_ok_Cons [OF this]
  have new: "xs \<in> set ((calls s)[i := xs])" using i by (simp add: set_update_memI)
  have same: "actor ?t = actor s" "stores ?t = stores s" "running ?t = running s" "calls ?t = (calls s)[i := xs]"
    by (cases x; simp add: access_flag_def)+
  have calls: "\<forall>ys \<in> set (calls ?t). call_ok cfg io ys"
    using inv ok(1) set_update_subset_insert [of "calls s" i xs] by (auto simp: same sys_inv_def)
  have pin: "cfg_yolo_pin cfg \<noteq> None \<longrightarrow> \<not> yolo_state ?t"
    using inv ok(2) by (cases x) (auto simp: access_flag_def sys_inv_def)
  have queue: "io \<longrightarrow> list_all saves (queue ?t)"
    using inv ok(4) by (cases x) (auto simp: access_flag_def sys_inv_def)
  have follow: "flags_follow cfg ?t" if r: "running s"
  proof -
    have yolo: "yolo_state ?t = yolo_state s \<or> on_its_way writes_yolo ?t"
      using ok(2) new by (cases x) (auto simp: access_flag_def on_its_way_def)
    have auto: "auto_state ?t = auto_state s \<or> on_its_way (writes_auto cfg) ?t"
      using ok(3) new by (cases x) (auto simp: access_flag_def on_its_way_def)
    show ?thesis
      using inv r yolo auto on_its_way_moves [OF i x _ r]
      unfolding sys_inv_def flags_follow_def same by blast
  qed
  have stores: "stores_ok ?t = stores_ok s" by (simp only: stores_ok_def same)
  show ?thesis using inv calls pin queue follow unfolding sys_inv_def stores same by blast
qed

lemma actor_move_inv:
  assumes inv: "sys_inv cfg io s" and x: "stores s = x # xs"
  shows "sys_inv cfg io (access_flag x (s\<lparr>stores := xs\<rparr>))" (is "sys_inv cfg io ?t")
proof -
  have ok: "stores_ok s" and pin: "cfg_yolo_pin cfg \<noteq> None \<longrightarrow> \<not> yolo_mode (actor s) \<and> \<not> yolo_state s"
    using inv by (simp_all add: sys_inv_def manager_inv_def)
  have same: "actor ?t = actor s" "stores ?t = xs" "running ?t = running s" "calls ?t = calls s" "queue ?t = queue s"
    and flags: "yolo_state ?t = (if x = StoreYolo (yolo_mode (actor s)) then yolo_mode (actor s) else yolo_state s)"
      "auto_state ?t = (if x = StoreAuto (auto_mode (actor s)) then auto_mode (actor s) else auto_state s)"
    using ok x by (cases x; simp add: access_flag_def stores_ok_def)+
  have "stores_ok ?t" using ok unfolding stores_ok_def same x by simp
  moreover have "flags_follow cfg ?t" if "flags_follow cfg s"
    using that unfolding flags_follow_def on_its_way_def same flags x by auto
  moreover have "cfg_yolo_pin cfg \<noteq> None \<longrightarrow> \<not> yolo_state ?t" using pin by (simp add: flags)
  ultimately show ?thesis using inv unfolding sys_inv_def same by blast
qed

lemma receive_inv:
  assumes inv: "sys_inv cfg io s" and r: "running s" "stores s = []" and q: "queue s = c # cs"
  shows "sys_inv cfg io (s\<lparr>actor := actor_step cfg c (actor s), queue := cs, stores := actor_stores cfg c, running := (c \<noteq> Shutdown)\<rparr>)"
    (is "sys_inv cfg io ?t")
proof -
  let ?a = "actor_step cfg c (actor s)"
  have same: "actor ?t = ?a" "stores ?t = actor_stores cfg c" "queue ?t = cs" "calls ?t = calls s"
    "yolo_state ?t = yolo_state s" "auto_state ?t = auto_state s" by simp_all
  have act: "manager_inv cfg io ?a" "io \<longrightarrow> list_all saves cs"
    using inv q actor_step_inv [of cfg io "actor s" c] by (auto simp: sys_inv_def)
  have stores: "stores_ok ?t" unfolding stores_ok_def same
  proof
    fix x assume x: "x \<in> set (actor_stores cfg c)"
    show "case x of StoreYolo b \<Rightarrow> b = yolo_mode ?a | StoreAuto b \<Rightarrow> b = auto_mode ?a | SendCommand _ \<Rightarrow> False"
      using x actor_stores_modes(1,2) [of _ cfg c "actor s"] actor_stores_modes(3) [of _ cfg c]
      by (simp split: flag_access.split) blast
  qed
  have "flags_follow cfg s" using inv r by (simp add: sys_inv_def)
  then have "flags_follow cfg ?t"
    using actor_stores_modes(1,2) [of _ cfg c "actor s"] actor_step_keeps_modes(1) [of c cfg "actor s"]
      actor_step_keeps_modes(2) [of cfg c "actor s"]
    unfolding flags_follow_def on_its_way_def same r q by (metis empty_iff empty_set set_ConsD)
  with act stores inv show ?thesis unfolding sys_inv_def same by blast
qed

lemma sys_step_inv: "sys_step cfg io s t \<Longrightarrow> sys_inv cfg io s \<Longrightarrow> sys_inv cfg io t"
  by (induction rule: sys_step.induct)
    (simp_all add: call_inv handle_calls_ok handle_move_inv actor_move_inv receive_inv)

lemma start_system_inv: "io \<longrightarrow> ok \<Longrightarrow> sys_inv cfg io (start_system cfg loaded ok y)"
  using spawn_inv [of io ok cfg loaded y]
  by (simp add: sys_inv_def start_system_def Let_def stores_ok_def flags_follow_def manager_inv_def)

lemma sys_reachable_inv: "sys_reachable cfg io s \<Longrightarrow> sys_inv cfg io s"
  by (induction rule: sys_reachable.induct) (blast intro: start_system_inv sys_step_inv)+

text \<open>Nothing is under way: no call, no store and no command is left.\<close>

definition settled :: "system \<Rightarrow> bool" where
  "settled s \<longleftrightarrow> running s \<and> queue s = [] \<and> stores s = [] \<and> (\<forall>xs \<in> set (calls s). xs = [])"

lemma settled_flags: "sys_inv cfg io s \<Longrightarrow> settled s \<Longrightarrow> yolo_state s = yolo_mode (actor s) \<and> auto_state s = auto_mode (actor s)"
  by (auto simp: sys_inv_def settled_def flags_follow_def on_its_way_def)

end
