(* ===== verification/PermissionGate.thy ===== *)
theory PermissionGate
  imports PermissionPreflight
begin

text \<open>
  What the permission policy guarantees for a shell command. The specification is the relation
  \<open>runs\<close>: the commands a script runs, behind wrappers and inside inline scripts, at any depth. The
  properties say that a quiet policy covers all of them, that an allow covers all of them, that a
  rule that matches one of them is never waived, and that the order of the rules does not matter.
\<close>

section \<open>Specification\<close>

definition hits :: "'g policy_env \<Rightarrow> access_kind \<Rightarrow> rule_action \<Rightarrow> permission_rule \<Rightarrow> bool" where
  "hits env access act r \<longleftrightarrow> rule_act r = act \<and> rule_matches env access r (compile_matcher env r)"

definition verdict :: "decision \<Rightarrow> decision" where
  "verdict d = (case d of Reject _ \<Rightarrow> Reject [] | _ \<Rightarrow> d)"

text \<open>The commands that a script runs: the bare form of every simple command of the script, and of the
  scripts that a shell receives as a literal, and (with \<open>packs\<close>) of those that \<open>env -S\<close> receives.\<close>

inductive runs :: "'g policy_env \<Rightarrow> bool \<Rightarrow> rstr \<Rightarrow> argv \<Rightarrow> bool" for env packs where
  segment: "all_commands_from_script env cmd = Some segs \<Longrightarrow> raw \<in> set segs \<Longrightarrow> peels raw ws \<Longrightarrow> bare ws \<Longrightarrow>
    runs env packs cmd ws"
| inline: "runs env packs cmd sh \<Longrightarrow> shell_dash_c_script (map WordLiteral sh) = InlineLiteral i \<Longrightarrow>
    runs env packs (sh ! i) ws \<Longrightarrow> runs env packs cmd ws"
| packed: "packs \<Longrightarrow> runs env packs cmd e \<Longrightarrow> env_split_string_script e = Some script \<Longrightarrow>
    runs env packs script ws \<Longrightarrow> runs env packs cmd ws"

section \<open>Combination of decisions by rank\<close>

definition at_least :: "('a \<Rightarrow> nat) \<Rightarrow> nat \<Rightarrow> 'a option \<Rightarrow> bool" where
  "at_least rank n d = (case d of None \<Rightarrow> False | Some x \<Rightarrow> n \<le> rank x)"

locale ranked_combination =
  fixes comb :: "'a option \<Rightarrow> 'a option \<Rightarrow> 'a option" and rank :: "'a \<Rightarrow> nat"
  assumes comb_None_left: "comb None b = b"
    and comb_None_right: "comb a None = a"
    and comb_Some: "comb (Some x) (Some y) = Some (if rank y \<le> rank x then x else y)"
begin

lemma comb_eq_None: "comb a b = None \<longleftrightarrow> a = None \<and> b = None"
  by (cases a; cases b) (simp_all add: comb_None_left comb_None_right comb_Some)

lemma comb_chooses: "comb a b = a \<or> comb a b = b"
  by (cases a; cases b) (simp_all add: comb_None_left comb_None_right comb_Some)

lemma comb_assoc: "comb (comb a b) c = comb a (comb b c)"
  by (cases a; cases b; cases c) (simp_all add: comb_None_left comb_None_right comb_Some)

lemma comb_at_least: "at_least rank n (comb a b) \<longleftrightarrow> at_least rank n a \<or> at_least rank n b"
  by (cases a; cases b) (auto simp: at_least_def comb_None_left comb_None_right comb_Some)

lemma foldl_at_least:
  "at_least rank n (foldl (\<lambda>d x. comb d (f x)) d xs) \<longleftrightarrow> at_least rank n d \<or> (\<exists>x \<in> set xs. at_least rank n (f x))"
  by (induction xs arbitrary: d) (auto simp: comb_at_least)

lemma foldl_eq_None: "foldl (\<lambda>d x. comb d (f x)) d xs = None \<longleftrightarrow> d = None \<and> (\<forall>x \<in> set xs. f x = None)"
  by (induction xs arbitrary: d) (auto simp: comb_eq_None)

end

interpretation gate: ranked_combination combine_gate_decisions gate_rank
  by unfold_locales (auto elim: combine_gate_decisions.elims, case_tac a, auto)

interpretation dec: ranked_combination combine_decisions decision_rank
  by unfold_locales (auto, case_tac a, auto)

section \<open>Lemmas\<close>


declare dash_c_loop.simps [simp del]

text \<open>The index of a literal script is an index of a word behind the shell.\<close>

definition index_between :: "nat \<Rightarrow> nat \<Rightarrow> bool \<Rightarrow> inline_shell_script \<Rightarrow> bool" where
  "index_between i n dyn r = (case r of InlineLiteral k \<Rightarrow> i \<le> k \<and> k < n \<and> \<not> dyn | _ \<Rightarrow> True)"

lemma index_between_simps [simp]:
  "index_between i n dyn (ambiguous_script b)" "index_between i n dyn (not_seen b)"
  "index_between i n dyn InlineUntrusted"
  "i \<le> k \<Longrightarrow> k < n \<Longrightarrow> index_between i n dyn (finish_literal dyn k)"
  by (simp_all add: index_between_def ambiguous_script_def not_seen_def finish_literal_def)

lemma dash_c_loop_index: "index_between i (i + length ws) dyn (dash_c_loop dyn i ws saw unrec)"
proof (induction "length ws" arbitrary: i ws saw unrec rule: less_induct)
  case less
  show ?case
  proof (cases ws)
    case (Cons w rest)
    have weaken: "index_between i n dyn r" if "index_between j m dyn r" "i \<le> j" "m \<le> n" for j m n r
      using that by (auto simp: index_between_def split: inline_shell_script.splits)
    have 1: "index_between i (Suc (i + length rest)) dyn (dash_c_loop dyn (Suc i) rest saw unrec)" for saw unrec
      using less [of rest "Suc i" saw unrec] Cons by (auto intro: weaken)
    have 2: "index_between i (Suc (Suc (i + length r))) dyn (dash_c_loop dyn (Suc (Suc i)) r saw unrec)"
      if "length r < length rest" for r saw unrec
      using less [of r "Suc (Suc i)" saw unrec] Cons that by (auto intro: weaken)
    have 3: "index_between i n dyn (if b then x else y)"
      if "index_between i n dyn x" and "index_between i n dyn y" for n b x y
      using that by simp
    have 4: "index_between i n dyn (case l of [] \<Rightarrow> f | w # l \<Rightarrow> g w l)"
      if "index_between i n dyn f" and "\<And>w r. l = w # r \<Longrightarrow> index_between i n dyn (g w r)" for n l f g
      using that by (cases l) auto
    have 5: "index_between i n dyn (case w of WordLiteral v \<Rightarrow> f v | WordUntrusted \<Rightarrow> g)"
      if "\<And>v. index_between i n dyn (f v)" and "index_between i n dyn g" for n w f g
      using that by (cases w) auto
    show ?thesis
    proof (cases w)
      case (WordLiteral v)
      show ?thesis
        unfolding Cons WordLiteral dash_c_loop.simps One_nat_def add_2_eq_Suc' add_Suc_right add_0_right length_Cons
        by (intro 3 4 5) (simp_all add: 1 2)
    qed (simp add: Cons dash_c_loop.simps)
  qed (simp add: dash_c_loop.simps)
qed

lemma dash_c_index:
  assumes "shell_dash_c_script ws = InlineLiteral i"
  shows "0 < i \<and> i < length ws"
proof -
  obtain w rest where ws: "ws = w # rest" using assms by (cases ws) (auto simp: shell_dash_c_script_def)
  show ?thesis
    using assms dash_c_loop_index [of 1 rest False False False] dash_c_loop_index [of 1 rest True False False]
    by (auto simp: ws shell_dash_c_script_def index_between_def split: shell_word.splits if_splits)
qed

lemma eval_loop_exact:
  "eval_loop env a rs ask allow =
     (case find (\<lambda>(r, m). rule_act r = RuleDeny \<and> rule_matches env a r m) rs of
        Some (r, _) \<Rightarrow> Inl (deny_reason r)
      | None \<Rightarrow> Inr (ask \<or> list_ex (\<lambda>(r, m). rule_act r = RuleAsk \<and> rule_matches env a r m) rs,
                     allow \<or> list_ex (\<lambda>(r, m). rule_act r = RuleAllow \<and> rule_matches env a r m) rs))"
  by (induction env a rs ask allow rule: eval_loop.induct)
    (auto simp: rule_matches_def split: rule_action.split option.split)

lemma compiled_rules_new: "compiled_rules (new_policy env config) = map (\<lambda>r. (r, compile_matcher env r)) (config_rules config)"
  by (simp add: compiled_rules_def new_policy_def zip_map2 zip_same_conv_map)

lemma evaluate_exact:
  "evaluate env (new_policy env config) access =
     (case find (hits env access RuleDeny) (config_rules config) of
        Some r \<Rightarrow> Some (Reject (deny_reason r))
      | None \<Rightarrow>
          if list_ex (hits env access RuleAsk) (config_rules config) then Some Ask
          else
            (case access of
               ABash cmd \<Rightarrow>
                 if list_ex (\<lambda>r. rule_act r = RuleAllow \<and> bash_rule r) (config_rules config) \<and>
                    bash_chain_fully_allowed env (new_policy env config) MAX_INLINE_SHELL_DEPTH cmd
                 then Some Allow else None
             | _ \<Rightarrow> if list_ex (hits env access RuleAllow) (config_rules config) then Some Allow else None))"
proof -
  have f: "find (\<lambda>(r, m). rule_act r = RuleDeny \<and> rule_matches env access r m) (compiled_rules (new_policy env config)) =
      map_option (\<lambda>r. (r, compile_matcher env r)) (find (hits env access RuleDeny) (config_rules config))"
    by (simp add: compiled_rules_new find_map comp_def hits_def [abs_def])
  have l: "list_ex (\<lambda>(r, m). rule_act r = act \<and> rule_matches env access r m) (compiled_rules (new_policy env config)) \<longleftrightarrow>
      list_ex (hits env access act) (config_rules config)" for act
    by (simp add: compiled_rules_new list_ex_iff hits_def)
  have "has_bash_allow_rules (new_policy env config) \<longleftrightarrow> list_ex (\<lambda>r. rule_act r = RuleAllow \<and> bash_rule r) (config_rules config)"
    by (simp add: new_policy_def)
  then show ?thesis
    unfolding evaluate_def eval_loop_exact f l
    by (simp split: option.split access_kind.split)
qed

lemma verdict_exact:
  "map_option verdict (evaluate env (new_policy env config) access) =
     (if list_ex (hits env access RuleDeny) (config_rules config) then Some (Reject [])
      else if list_ex (hits env access RuleAsk) (config_rules config) then Some Ask
      else
        (case access of
           ABash cmd \<Rightarrow>
             if list_ex (\<lambda>r. rule_act r = RuleAllow \<and> bash_rule r) (config_rules config) \<and>
                bash_chain_fully_allowed env (new_policy env config) MAX_INLINE_SHELL_DEPTH cmd
             then Some Allow else None
         | _ \<Rightarrow> if list_ex (hits env access RuleAllow) (config_rules config) then Some Allow else None))"
  unfolding evaluate_exact
  using find_eq_None [of "hits env access RuleDeny" "config_rules config"]
  by (cases "find (hits env access RuleDeny) (config_rules config)")
    (simp_all add: verdict_def split: access_kind.split)

text \<open>The allow side depends on the rules only as a set.\<close>

lemma words_allowed_new:
  "bash_words_allowed env (new_policy env config) ws \<longleftrightarrow>
     ws \<noteq> [] \<and> (\<exists>r \<in> set (config_rules config). rule_act r = RuleAllow \<and> bash_rule r \<and>
        bash_allow_pattern_matches env (join (lit '' '') ws) r (compile_matcher env r))"
  by (auto simp: bash_words_allowed_def compiled_rules_new list_ex_iff)

lemma segment_allowed_cong:
  "bash_words_allowed env p = bash_words_allowed env q \<Longrightarrow> segment_allowed env p rec raw = segment_allowed env q rec raw"
  by (simp add: segment_allowed_def normalized_words_allowed_def)

lemma chain_allowed_cong:
  assumes "bash_words_allowed env p = bash_words_allowed env q"
  shows "bash_chain_fully_allowed env p d = bash_chain_fully_allowed env q d"
proof -
  have "script_allowed env p rec = script_allowed env q rec" for rec
    using segment_allowed_cong [OF assms]
    by (auto simp: script_allowed_def fun_eq_iff list_all_iff split: option.split)
  then show ?thesis by (induction d) simp_all
qed


text \<open>A clean segment is reached by every way of peeling it to the end.\<close>

lemma clean_unique:
  assumes "clean (normalize_command_words raw)" "peels raw ws" "bare ws"
  shows "norm_words (normalize_command_words raw) = ws"
  using assms normalize_peels normalize_clean_bare peels_bare_unique by blast

lemma segment_allowed_iff:
  "segment_allowed env p rec raw \<longleftrightarrow>
     clean (normalize_command_words raw) \<and> bash_words_allowed env p (norm_words (normalize_command_words raw)) \<and>
     (case shell_dash_c_script (map WordLiteral (norm_words (normalize_command_words raw))) of
        InlineLiteral i \<Rightarrow> rec (norm_words (normalize_command_words raw) ! i)
      | NotInline \<Rightarrow> True
      | _ \<Rightarrow> False)"
  by (auto simp: segment_allowed_def normalized_words_allowed_def clean_def)

definition inner_level :: "(nat \<Rightarrow> 'a) \<Rightarrow> 'a \<Rightarrow> nat \<Rightarrow> 'a" where
  "inner_level f base d = (case d of 0 \<Rightarrow> base | Suc d \<Rightarrow> f d)"

lemma chain_allowed_unfold:
  "bash_chain_fully_allowed env p d = script_allowed env p (inner_level (bash_chain_fully_allowed env p) (\<lambda>_. False) d)"
  by (cases d) (simp_all add: inner_level_def)

lemma segments_unfold:
  "evaluate_bash_command_segments env p d =
     script_gate env p (inner_level (evaluate_bash_command_segments env p) (\<lambda>_. Some AskFailClosed) d)"
  by (cases d) (simp_all add: inner_level_def)

lemma chain_allowed_runs:
  assumes "runs env False cmd ws"
  shows "bash_chain_fully_allowed env p d cmd \<Longrightarrow>
    bash_words_allowed env p ws \<and>
    (\<forall>i. shell_dash_c_script (map WordLiteral ws) = InlineLiteral i \<longrightarrow>
       (\<exists>d'. bash_chain_fully_allowed env p d' (ws ! i)))"
  using assms
proof (induction arbitrary: d rule: runs.induct)
  case (segment cmd segs raw ws)
  from segment.prems segment.hyps(1,2)
  have "segment_allowed env p (inner_level (bash_chain_fully_allowed env p) (\<lambda>_. False) d) raw"
    unfolding chain_allowed_unfold [of env p d] script_allowed_def by (auto simp: list_all_iff)
  then show ?case
    using clean_unique [OF _ segment.hyps(3,4)]
    by (auto simp: segment_allowed_iff inner_level_def split: nat.splits)
next
  case (inline cmd sh i ws)
  then show ?case by blast
qed simp

lemma evaluate_restricting:
  assumes "evaluate env (new_policy env config) access = Some d" "d \<noteq> Allow"
  shows "\<exists>r \<in> set (config_rules config). restricts r \<and> tool_filter_matches access (rule_tool r)"
proof -
  have "list_ex (hits env access RuleDeny) (config_rules config) \<or> list_ex (hits env access RuleAsk) (config_rules config)"
  proof (rule ccontr)
    assume "\<not> ?thesis"
    moreover from this have "find (hits env access RuleDeny) (config_rules config) = None" by (simp add: find_eq_None)
    ultimately have "evaluate env (new_policy env config) access \<in> {None, Some Allow}"
      by (simp add: evaluate_exact split: access_kind.split)
    with assms show False by simp
  qed
  then show ?thesis by (auto simp: list_ex_iff hits_def rule_matches_def restricts_def)
qed

lemma escalate_restricts:
  assumes "escalate env (new_policy env config) ws \<noteq> None"
  shows "has_bash_command_restrictions (new_policy env config)"
proof -
  let ?a = "ABash (join (lit '' '') ws)"
  obtain d where "evaluate env (new_policy env config) ?a = Some d" "d \<noteq> Allow"
    using assms by (auto simp: escalate_def split: option.splits decision.splits)
  from evaluate_restricting [OF this]
  obtain r where "r \<in> set (config_rules config)" "restricts r" "tool_filter_matches ?a (rule_tool r)" by blast
  moreover from this have "bash_rule r" by (auto simp: tool_filter_matches_def bash_rule_def split: tool_filter.splits)
  ultimately show ?thesis by (auto simp: new_policy_def list_ex_iff)
qed

lemma combine_segments_eq: "combine_segments gate d segs = foldl (\<lambda>d raw. combine_gate_decisions d (gate raw)) d segs"
  by (induction gate d segs rule: combine_segments.induct) auto

lemma fail_closed_if_None [simp]: "fail_closed_if b = None \<longleftrightarrow> \<not> b"
  by (simp add: fail_closed_if_def)

lemmas command_words_defs =
  evaluate_command_words_def normalized_words_gate_def forms_gate_def inline_gate_def packed_gate_def

lemma same_length_peeled:
  assumes "length (norm_words (normalize_command_words raw)) = length raw"
  shows "norm_words (normalize_command_words raw) = raw"
  using peels_suffix [OF normalize_peels [of raw]] assms by (metis suffix_def append_eq_conv_conj append_Nil drop_eq_Nil le_refl length_append add_cancel_left_left length_0_conv)

lemma command_words_None:
  assumes "evaluate_command_words env p rec raw = None"
  shows "clean (normalize_command_words raw)" "escalate env p (norm_words (normalize_command_words raw)) = None"
    "shell_dash_c_script (map WordLiteral (norm_words (normalize_command_words raw))) = InlineLiteral i \<Longrightarrow>
       rec (norm_words (normalize_command_words raw) ! i) = None"
    "env_split_string_script (norm_words (normalize_command_words raw)) = Some script \<Longrightarrow> rec script = None"
proof -
  have forms: "forms_gate env p raw (normalize_command_words raw) = None"
    using assms by (auto simp: evaluate_command_words_def normalized_words_gate_def inline_gate_def packed_gate_def
        gate.comb_eq_None split: option.splits inline_shell_script.splits)
  then show "clean (normalize_command_words raw)" by (simp add: forms_gate_def clean_def gate.comb_eq_None)
  show "escalate env p (norm_words (normalize_command_words raw)) = None"
    using forms same_length_peeled [of raw] by (auto simp: forms_gate_def gate.comb_eq_None split: if_splits)
  show "rec (norm_words (normalize_command_words raw) ! i) = None"
    if "shell_dash_c_script (map WordLiteral (norm_words (normalize_command_words raw))) = InlineLiteral i"
    using assms that by (auto simp: command_words_defs gate.comb_eq_None split: option.splits)
  show "rec script = None" if "env_split_string_script (norm_words (normalize_command_words raw)) = Some script"
    using assms that by (auto simp: command_words_defs gate.comb_eq_None)
qed

lemma segments_None_runs:
  assumes "runs env packs cmd ws"
  shows "evaluate_bash_command_segments env p d cmd = None \<Longrightarrow>
    escalate env p ws = None \<and>
    (\<forall>i. shell_dash_c_script (map WordLiteral ws) = InlineLiteral i \<longrightarrow>
       (\<exists>d'. evaluate_bash_command_segments env p d' (ws ! i) = None)) \<and>
    (\<forall>script. env_split_string_script ws = Some script \<longrightarrow>
       (\<exists>d'. evaluate_bash_command_segments env p d' script = None))"
  using assms
proof (induction arbitrary: d rule: runs.induct)
  case (segment cmd segs raw ws)
  let ?rec = "inner_level (evaluate_bash_command_segments env p) (\<lambda>_. Some AskFailClosed) d"
  from segment.prems segment.hyps(1,2) have e: "evaluate_command_words env p ?rec raw = None"
    unfolding segments_unfold [of env p d] script_gate_def combine_segments_eq by (simp add: gate.foldl_eq_None)
  have level: "\<exists>d'. evaluate_bash_command_segments env p d' s = None" if "?rec s = None" for s
    using that by (auto simp: inner_level_def split: nat.splits)
  show ?case
    using command_words_None [OF e] level
    unfolding clean_unique [OF command_words_None(1) [OF e] segment.hyps(3,4)] by blast
next
  case (inline cmd sh i ws)
  then show ?case by blast
next
  case (packed cmd e script ws)
  then show ?case by blast
qed


lemma into_decision_rank: "2 \<le> decision_rank (into_decision d)"
  by (cases d) auto

lemma policy_decision_at_least:
  "at_least decision_rank n (policy_decision g) \<longleftrightarrow>
     at_least decision_rank n (direct g) \<or> at_least decision_rank n (map_option into_decision (bash_command g)) \<or>
     at_least decision_rank n (map_option into_decision (shell_file g))"
  by (simp add: policy_decision_def dec.comb_at_least)

lemma policy_decision_quiet:
  assumes "policy_decision g \<in> {None, Some Allow}"
  shows "bash_command g = None" "shell_file g = None" "policy_decision g = direct g"
proof -
  have "\<not> at_least decision_rank 2 (policy_decision g)" using assms by (auto simp: at_least_def)
  then show b: "bash_command g = None" and s: "shell_file g = None"
    unfolding policy_decision_at_least by (auto simp: at_least_def into_decision_rank split: option.splits)
  show "policy_decision g = direct g" by (simp add: policy_decision_def b s dec.comb_None_right)
qed

lemma evaluate_not_other: "evaluate env p a \<in> {None, Some Allow, Some Ask} \<union> Some ` range Reject"
  by (auto simp: evaluate_def split: sum.split access_kind.split)



lemma command_words_at_least:
  "at_least gate_rank n (escalate env p raw) \<Longrightarrow> at_least gate_rank n (evaluate_command_words env p rec raw)"
  by (simp add: command_words_defs gate.comb_at_least split: option.split inline_shell_script.split)

lemma gate_at_least:
  assumes "all_commands_from_script env cmd = Some segs" "raw \<in> set segs"
    "at_least gate_rank n (escalate env (new_policy env config) raw)"
  shows "at_least gate_rank n (evaluate_bash_command_gate env (new_policy env config) cmd)"
proof -
  have "has_bash_command_restrictions (new_policy env config)"
    using escalate_restricts assms(3) by (fastforce simp: at_least_def split: option.splits)
  with assms command_words_at_least [OF assms(3)] show ?thesis
    by (auto simp: evaluate_bash_command_gate_def segments_unfold [of _ _ MAX_INLINE_SHELL_DEPTH] script_gate_def
        combine_segments_eq gate.foldl_at_least)
qed

section \<open>Properties\<close>

definition empty_fs :: fs_view where
  "empty_fs = \<lparr>canonicalize = (\<lambda>_. None), symlink_metadata = (\<lambda>_. MetaNotFound), read_link = (\<lambda>_. None)\<rparr>"

definition example_env :: "(rstr \<Rightarrow> argv list option) \<Rightarrow> unit policy_env" where
  "example_env parse =
     \<lparr>glob_new = (\<lambda>_. None), glob_matches_with = (\<lambda>_ _ _. False), url_host = (\<lambda>_. None), to_lowercase = id,
      try_parse_shell = (\<lambda>s. map_option plain_tree (parse s)), file_view = empty_fs\<rparr>"

definition words_env :: "unit policy_env" where
  "words_env = example_env (\<lambda>s. Some [split_char 32 s])"

definition bash_prefix_rule :: "rule_action \<Rightarrow> string \<Rightarrow> permission_rule" where
  "bash_prefix_rule act p = \<lparr>rule_act = act, rule_tool = FBash, rule_pattern = Some (lit p), rule_pattern_mode = Glob\<rparr>"

definition rules_config :: "permission_rule list \<Rightarrow> permission_config" where
  "rules_config rs = \<lparr>config_rules = rs, config_prompt_policy = PromptAsk\<rparr>"

text \<open>C3: No silent bypass. When the combined decision of the policy for a shell command is neither a
  rejection nor a prompt, then no command that the script runs, behind wrappers, in a literal
  \<open>-c\<close> script or in an \<open>env -S\<close> script at any depth, would be rejected or asked about by the rules.\<close>

theorem quiet_policy_no_bypass:
  assumes "policy_decision (preflight env (Some (new_policy env config)) (ABash cmd) cwd auto_mode) \<in> {None, Some Allow}"
    and "runs env True cmd ws"
  shows "evaluate env (new_policy env config) (ABash (join (lit '' '') ws)) \<in> {None, Some Allow}"
proof -
  let ?p = "new_policy env config"
  have g: "evaluate_bash_command_gate env ?p cmd = None"
    using policy_decision_quiet(1) [OF assms(1)] by (simp add: preflight_def Let_def)
  have "escalate env ?p ws = None"
  proof (cases "has_bash_command_restrictions ?p")
    case True
    with g have "evaluate_bash_command_segments env ?p MAX_INLINE_SHELL_DEPTH cmd = None"
      by (simp add: evaluate_bash_command_gate_def)
    from segments_None_runs [OF assms(2) this] show ?thesis by blast
  qed (use escalate_restricts in blast)
  with evaluate_not_other [of env ?p "ABash (join (lit '' '') ws)"] show ?thesis by (auto simp: escalate_def)
qed

theorem quiet_policy_no_bypass_witness:
  "evaluate words_env (new_policy words_env (rules_config [bash_prefix_rule RuleDeny ''rm'']))
     (ABash (join (lit '' '') (map lit [''ls'', ''x'']))) \<in> {None, Some Allow}"
proof (rule quiet_policy_no_bypass [where cwd = "[]" and auto_mode = False])
  show "policy_decision (preflight words_env (Some (new_policy words_env (rules_config [bash_prefix_rule RuleDeny ''rm''])))
      (ABash (lit ''nice ls x'')) [] False) \<in> {None, Some Allow}"
    by code_simp
  have "peel_step (map lit [''nice'', ''ls'', ''x'']) (map lit [''ls'', ''x''])"
    by (rule peel_step.wrapper) code_simp
  moreover have "bare (map lit [''ls'', ''x''])" by code_simp
  moreover have "all_commands_from_script words_env (lit ''nice ls x'') = Some [map lit [''nice'', ''ls'', ''x'']]"
    by code_simp
  ultimately show "runs words_env True (lit ''nice ls x'') (map lit [''ls'', ''x''])"
    by (auto intro!: runs.segment)
qed

text \<open>C8: An allow is conjunctive. When the combined decision for a shell command is to allow it, every
  command that the script runs, behind wrappers and in literal \<open>-c\<close> scripts at any depth, is
  matched by an allow rule of its own. An \<open>env -S\<close> that is left in front is one command here, matched by a rule
  like any other; the commands of the script that it packs are not covered.\<close>

theorem allow_covers_every_command:
  assumes "policy_decision (preflight env (Some (new_policy env config)) (ABash cmd) cwd auto_mode) = Some Allow"
    and "runs env False cmd ws"
  shows "\<exists>r \<in> set (config_rules config). rule_act r = RuleAllow \<and> bash_rule r \<and>
           bash_allow_pattern_matches env (join (lit '' '') ws) r (compile_matcher env r)"
proof -
  let ?p = "new_policy env config"
  have "direct (preflight env (Some ?p) (ABash cmd) cwd auto_mode) = Some Allow"
    using policy_decision_quiet(3) [of "preflight env (Some ?p) (ABash cmd) cwd auto_mode"] assms(1) by simp
  then have "evaluate env ?p (ABash cmd) = Some Allow" by (simp add: preflight_def Let_def)
  then have "bash_chain_fully_allowed env ?p MAX_INLINE_SHELL_DEPTH cmd"
    by (auto simp: evaluate_def split: sum.splits if_splits)
  from chain_allowed_runs [OF assms(2) this] show ?thesis by (auto simp: words_allowed_new)
qed

theorem allow_covers_every_command_witness:
  "\<exists>r \<in> set (config_rules (rules_config [bash_prefix_rule RuleAllow ''ls''])). rule_act r = RuleAllow \<and> bash_rule r \<and>
     bash_allow_pattern_matches words_env (join (lit '' '') (map lit [''ls'', ''x''])) r (compile_matcher words_env r)"
proof (rule allow_covers_every_command [where cwd = "[]" and auto_mode = False])
  show "policy_decision (preflight words_env (Some (new_policy words_env (rules_config [bash_prefix_rule RuleAllow ''ls''])))
      (ABash (lit ''ls x'')) [] False) = Some Allow"
    by code_simp
  have "bare (map lit [''ls'', ''x''])" by code_simp
  moreover have "all_commands_from_script words_env (lit ''ls x'') = Some [map lit [''ls'', ''x'']]" by code_simp
  ultimately show "runs words_env False (lit ''ls x'') (map lit [''ls'', ''x''])"
    by (auto intro!: runs.segment)
qed

text \<open>A rule match is never waived by the classifier. When a deny or ask rule matches one of the
  commands of a script, the request is rejected, or it was an ask rule, the request must prompt,
  and the automatic classifier is not admitted, in automatic mode or not.\<close>

theorem rule_ask_never_deferred:
  assumes "all_commands_from_script env cmd = Some segs" and "raw \<in> set segs"
    and "evaluate env (new_policy env config) (ABash (join (lit '' '') raw)) = Some d" and "d \<noteq> Allow"
  shows "let g = preflight env (Some (new_policy env config)) (ABash cmd) cwd auto_mode
         in (\<exists>reason. policy_decision g = Some (Reject reason)) \<or>
            d = Ask \<and> policy_forced_prompt g \<and> \<not> admits_auto_classifier g"
proof -
  let ?p = "new_policy env config"
  let ?g = "preflight env (Some ?p) (ABash cmd) cwd auto_mode"
  obtain x where x: "escalate env ?p raw = Some x" "x = AskRuleMatch \<and> d = Ask \<or> (\<exists>r. x = GateReject r)"
    using assms(3,4) evaluate_not_other [of env ?p "ABash (join (lit '' '') raw)"]
    by (auto simp: escalate_def)
  obtain y where y: "bash_command ?g = Some y" "gate_rank x \<le> gate_rank y"
    using gate_at_least [OF assms(1,2), of "gate_rank x" config] x(1)
    by (auto simp: preflight_def Let_def at_least_def split: option.splits)
  have dir: "direct ?g \<in> {None, Some Allow, Some Ask} \<union> Some ` range Reject"
    using evaluate_not_other by (simp add: preflight_def Let_def)
  have nodefer: "y = AskRuleMatch \<Longrightarrow> \<not> defers_gate_ask ?g"
    using y(1) by (simp add: preflight_def Let_def)
  show ?thesis
    using x(2) y dir nodefer
    by (cases y; cases "shell_file ?g" ; cases "the (shell_file ?g)")
      (auto simp: policy_decision_def Let_def policy_forced_prompt_def admits_auto_classifier_def)
qed

theorem rule_ask_never_deferred_witness:
  "let g = preflight words_env (Some (new_policy words_env (rules_config [bash_prefix_rule RuleAsk ''git push''])))
             (ABash (lit ''git push'')) [] True
   in (\<exists>reason. policy_decision g = Some (Reject reason)) \<or>
      Ask = Ask \<and> policy_forced_prompt g \<and> \<not> admits_auto_classifier g"
proof (rule rule_ask_never_deferred)
  show "all_commands_from_script words_env (lit ''git push'') = Some [map lit [''git'', ''push'']]" by code_simp
  show "map lit [''git'', ''push''] \<in> set [map lit [''git'', ''push'']]" by simp
  show "evaluate words_env (new_policy words_env (rules_config [bash_prefix_rule RuleAsk ''git push'']))
      (ABash (join (lit '' '') (map lit [''git'', ''push'']))) = Some Ask"
    by code_simp
qed simp

text \<open>The decision of the rules does not depend on their order. Two configurations with the same
  rules, as multisets, give the same verdict for every request; only the text of the reason of a
  rejection can differ.\<close>

theorem evaluate_order_independent:
  assumes "mset (config_rules config') = mset (config_rules config)"
  shows "map_option verdict (evaluate env (new_policy env config') access) =
         map_option verdict (evaluate env (new_policy env config) access)"
proof -
  have s: "set (config_rules config') = set (config_rules config)" using assms by (rule mset_eq_setD)
  then have "list_ex P (config_rules config') = list_ex P (config_rules config)" for P
    by (simp add: list_ex_iff)
  moreover have "bash_words_allowed env (new_policy env config') = bash_words_allowed env (new_policy env config)"
    by (simp add: fun_eq_iff words_allowed_new s)
  then have "bash_chain_fully_allowed env (new_policy env config') d = bash_chain_fully_allowed env (new_policy env config) d" for d
    by (rule chain_allowed_cong)
  ultimately show ?thesis unfolding verdict_exact by (simp split: access_kind.split)
qed

theorem evaluate_order_independent_witness:
  "map_option verdict (evaluate words_env (new_policy words_env
       (rules_config [bash_prefix_rule RuleAsk ''rm'', bash_prefix_rule RuleDeny ''rm''])) (ABash (lit ''rm x''))) =
   Some (Reject [])"
proof -
  have "map_option verdict (evaluate words_env (new_policy words_env
       (rules_config [bash_prefix_rule RuleDeny ''rm'', bash_prefix_rule RuleAsk ''rm''])) (ABash (lit ''rm x''))) =
   Some (Reject [])"
    by code_simp
  then show ?thesis
    by (subst evaluate_order_independent [where config = "rules_config [bash_prefix_rule RuleDeny ''rm'', bash_prefix_rule RuleAsk ''rm'']"])
      (simp_all add: rules_config_def)
qed

text \<open>\<open>k\<close> alternations of a wrapper and a transparent prefix in front of a command.\<close>

definition alternations :: "nat \<Rightarrow> argv \<Rightarrow> argv" where
  "alternations k ws = concat (replicate k (map lit [''nice'', ''command''])) @ ws"

definition packed_rm :: argv where
  "packed_rm = map lit [''env'', ''-S'', ''rm $x'']"

text \<open>The budget of the normalization can hide a split string. Behind fifteen alternations of a
  wrapper and a prefix the gate of a policy that denies \<open>rm\<close> asks for an \<open>env -S\<close> whose script it
  cannot read; behind sixteen the rounds are used up with the \<open>env\<close> in front, its options are
  never looked at, no alarm is raised, and the gate says nothing.\<close>

theorem budget_hides_split_string:
  "evaluate_bash_command_gate (example_env (\<lambda>_. Some [alternations 15 packed_rm]))
     (new_policy (example_env (\<lambda>_. Some [alternations 15 packed_rm])) (rules_config [bash_prefix_rule RuleDeny ''rm''])) [] =
     Some AskFailClosed \<and>
   evaluate_bash_command_gate (example_env (\<lambda>_. Some [alternations 16 packed_rm]))
     (new_policy (example_env (\<lambda>_. Some [alternations 16 packed_rm])) (rules_config [bash_prefix_rule RuleDeny ''rm''])) [] =
     None \<and>
   clean (normalize_command_words (alternations 16 packed_rm))"
proof (intro conjI)
  show "evaluate_bash_command_gate (example_env (\<lambda>_. Some [alternations 15 packed_rm]))
     (new_policy (example_env (\<lambda>_. Some [alternations 15 packed_rm])) (rules_config [bash_prefix_rule RuleDeny ''rm''])) [] =
     Some AskFailClosed"
    by code_simp
  show "evaluate_bash_command_gate (example_env (\<lambda>_. Some [alternations 16 packed_rm]))
     (new_policy (example_env (\<lambda>_. Some [alternations 16 packed_rm])) (rules_config [bash_prefix_rule RuleDeny ''rm''])) [] = None"
    by code_simp
  show "clean (normalize_command_words (alternations 16 packed_rm))" by code_simp
qed

text \<open>In the same way an allow rule on \<open>env\<close> allows what \<open>env -S\<close> packs. Behind fifteen alternations the script
  \<open>rm x\<close> of the \<open>env -S\<close> keeps the rule from allowing the command; behind sixteen the combined decision is to allow it,
  although no rule matches \<open>rm x\<close>.\<close>

definition packed_rm_x :: argv where
  "packed_rm_x = map lit [''env'', ''-S'', ''rm x'']"

definition allow_env_gate :: "nat \<Rightarrow> decision option" where
  "allow_env_gate k =
     (let env = example_env (\<lambda>s. if s = [] then Some [alternations k packed_rm_x] else Some [split_char 32 s])
      in policy_decision (preflight env (Some (new_policy env (rules_config [bash_prefix_rule RuleAllow ''env'']))) (ABash []) [] False))"

theorem budget_allows_split_string:
  "allow_env_gate 15 = None \<and> allow_env_gate 16 = Some Allow \<and> env_split_string_script packed_rm_x = Some (lit ''rm x'') \<and>
   evaluate words_env (new_policy words_env (rules_config [bash_prefix_rule RuleAllow ''env''])) (ABash (lit ''rm x'')) = None"
proof (intro conjI)
  show "allow_env_gate 15 = None" by code_simp
  show "allow_env_gate 16 = Some Allow" by code_simp
  show "env_split_string_script packed_rm_x = Some (lit ''rm x'')" by code_simp
  show "evaluate words_env (new_policy words_env (rules_config [bash_prefix_rule RuleAllow ''env''])) (ABash (lit ''rm x'')) = None"
    by code_simp
qed

end
