(* ===== verification/PermissionSafety.thy ===== *)
theory PermissionSafety
  imports PermissionManager PermissionGate
begin

text \<open>
  What the permission manager guarantees: its invariant under every interleaving of the single accesses of
  the handles and the actor, that deny rules bind in every mode, when floors and ask rules do, and the bound on
  silent denials. The last group composes the manager with the policy.
\<close>

section \<open>Lemmas\<close>

lemma early_allow:
  assumes "early_stage cfg st f = Some r" "response r = Some Allow"
  shows "yolo_mode st \<and> \<not> shell_forced_prompt (f_pre f) \<and> ev_reason (event r) = Yolo \<or>
         unforced f \<and> (\<exists>q. early_grant cfg st f = Some (Allow, q)) \<or>
         auto_mode st \<and> unforced f \<and> \<not> floor_requires_prompt f"
  using assms
  by (auto simp: early_stage_def early_grant_def split: option.splits decision.splits if_splits)

lemma bash_grant_floor:
  "bash_grant_pre_decision cmd e ps pin opts = Some (Allow, r) \<Longrightarrow> \<not> bash_request_floor e"
  by (auto simp: bash_grant_pre_decision_def split: segment_evaluation.splits if_splits)

lemma session_grant_floor:
  assumes "session_grant_pre_decision cfg st (ABash cmd) (Some e) h = Some (Allow, r)"
  shows "\<not> bash_request_floor e"
  using assms bash_grant_floor by (auto simp: session_grant_pre_decision_def)

lemma late_allow:
  assumes "response (late_stage cfg st w f r) = Some Allow" "\<not> ev_prompted (event (late_stage cfg st w f r))"
  shows "sandbox_allows w f (r \<noteq> None) \<or> late_policy f = Some Allow \<or> (\<exists>q. pre_decision cfg st f (r \<noteq> None) = Some (Allow, q))"
  using assms by (auto simp: late_stage_def prompt_stage_def Let_def split: if_splits option.splits prod.splits)

text \<open>The grants to MCP servers only change in the prompt.\<close>

lemma outcome_servers:
  "allowed_mcp_servers (perm (fst (bash_outcome ok st cmd out))) = allowed_mcp_servers (perm st)"
  "set (allowed_mcp_servers (perm (fst (other_outcome ok st access out)))) \<subseteq>
     set (allowed_mcp_servers (perm st)) \<union> {s. \<exists>name i t. access = AMcp name i \<and> parse_mcp_qualified_name name = Some (s, t)}"
  by (auto simp: bash_outcome_def other_outcome_def persist_def grant_bash_def grant_mcp_tool_def mcp_server_grant_def
      split: prompt_outcome.splits access_kind.splits if_splits)

lemma record_decision_perm [simp]: "perm (record_decision cfg a d out st) = perm st"
  by (simp add: record_decision_def Let_def split: option.split)

lemma prompt_stage_servers:
  "set (allowed_mcp_servers (perm (next_state (prompt_stage cfg st w f x)))) \<subseteq>
     set (allowed_mcp_servers (perm st)) \<union> {s. \<exists>name i t. f_access f = AMcp name i \<and> parse_mcp_qualified_name name = Some (s, t)}"
proof (cases "\<exists>cmd. f_access f = ABash cmd")
  case True
  then obtain cmd where "f_access f = ABash cmd" by blast
  then show ?thesis
    using outcome_servers(1) [of "saved w" st cmd "answer w"] by (auto simp: prompt_stage_def Let_def split: prod.splits if_splits)
next
  case False
  then have "(case f_access f of ABash cmd \<Rightarrow> bash_outcome (saved w) st cmd (answer w) | access \<Rightarrow> other_outcome (saved w) st access (answer w)) =
      other_outcome (saved w) st (f_access f) (answer w)" by (cases "f_access f") auto
  then show ?thesis
    using outcome_servers(2) [of "saved w" st "f_access f" "answer w"]
    by (cases "other_outcome (saved w) st (f_access f) (answer w)") (auto simp: prompt_stage_def Let_def)
qed

primrec classifier_denials :: "'g manager_config \<Rightarrow> manager_state \<Rightarrow> permission_command list \<Rightarrow> nat" where
  "classifier_denials cfg st [] = 0"
| "classifier_denials cfg st (c # cs) =
     (case c of
        RequestCmd access w \<Rightarrow> if ev_reason (event (handle_request cfg st w access)) = AutoClassifierDeny then 1 else 0
      | _ \<Rightarrow> 0) + classifier_denials cfg (actor_step cfg c st) cs"

lemma actor_step_total:
  "total_denials (actor_step cfg c st) =
     total_denials st +
     (case c of
        RequestCmd access w \<Rightarrow> if ev_reason (event (handle_request cfg st w access)) = AutoClassifierDeny then 1 else 0
      | _ \<Rightarrow> 0)"
proof (cases c)
  case (RequestCmd access w)
  with handle_request_counters [of st cfg w access] show ?thesis by (auto simp: counters_move_def split: if_splits)
qed (simp_all add: set_yolo_mode_def set_auto_mode_def Let_def persist_def)

lemma classifier_denials_total:
  "total_denials (fold (actor_step cfg) cs st) = total_denials st + classifier_denials cfg st cs"
proof (induction cs arbitrary: st)
  case (Cons c cs)
  show ?case by (simp only: fold_simps Cons.IH actor_step_total classifier_denials.simps add.assoc)
qed simp

lemma fold_inv: "manager_inv cfg False st \<Longrightarrow> manager_inv cfg False (fold (actor_step cfg) cs st)"
  by (induction cs arbitrary: st) (simp_all add: actor_step_inv del: actor_step.simps)

lemma into_decision_top: "3 \<le> gate_rank g \<Longrightarrow> 3 \<le> decision_rank (into_decision g)"
  by (cases g) auto

lemma policy_decision_no_policy_deny:
  "policy_decision (preflight env p access cwd auto) \<noteq> Some (PolicyDeny x)"
proof
  let ?g = "preflight env p access cwd auto"
  assume "policy_decision ?g = Some (PolicyDeny x)"
  then have "direct ?g = Some (PolicyDeny x) \<or> map_option into_decision (bash_command ?g) = Some (PolicyDeny x) \<or>
      map_option into_decision (shell_file ?g) = Some (PolicyDeny x)"
    unfolding policy_decision_def by (metis dec.comb_chooses)
  moreover have "into_decision y \<noteq> PolicyDeny x" for y by (cases y) auto
  moreover have "direct ?g \<noteq> Some (PolicyDeny x)"
    using evaluate_not_other [of env "the p" access]
    by (cases p) (auto simp: preflight_def Let_def split: prod.splits)
  ultimately show False by auto
qed

section \<open>Example configuration\<close>

text \<open>A gate that rejects is enough for the denial.\<close>

lemma rejecting_gate_denies:
  assumes "preflight (cfg_env cfg) (cfg_policy cfg) (ABash cmd) (cfg_cwd cfg) (auto_mode st) = g"
    "at_least gate_rank 3 (bash_command g) \<or> at_least gate_rank 3 (shell_file g)"
  shows "(\<exists>reason. response (handle_request cfg st w (ABash cmd)) = Some (PolicyDeny reason)) \<or>
         response (handle_request cfg st w (ABash cmd)) = None"
proof -
  have "at_least decision_rank 3 (policy_decision g)"
    using assms(2) unfolding policy_decision_at_least by (auto simp: at_least_def into_decision_top split: option.splits)
  then obtain d where d: "policy_decision g = Some d" "3 \<le> decision_rank d" by (auto simp: at_least_def split: option.splits)
  moreover have "d \<noteq> PolicyDeny x" for x using d(1) policy_decision_no_policy_deny unfolding assms(1) [symmetric] by blast
  ultimately obtain r where "policy_decision g = Some (Reject r)" by (cases d) auto
  then show ?thesis
    using assms(1) by (auto simp: handle_request_def handle_facts_def early_stage_def facts_of_def split: option.split)
qed

definition example_config :: "permission_rule list \<Rightarrow> unit manager_config" where
  "example_config rules =
     \<lparr>cfg_env = words_env, cfg_policy = Some (new_policy words_env (rules_config rules)), cfg_prompt_policy = PromptAsk,
      cfg_yolo_pin = None, cfg_remember = False, cfg_cwd = lit ''/w'',
      cfg_url = (\<lambda>_. None), cfg_matcher = Map.empty,
      cfg_default_allowlist = False, cfg_git_bool = (\<lambda>_. None), cfg_args = (\<lambda>_. []),
      cfg_tilde = id, cfg_grok_home = None\<rparr>"

definition example_world :: world where
  "example_world =
     \<lparr>gone_at_dequeue = False, gone_after_scan = False, gone_before_prompt = False, gone_at_end = False,
      repo_views = (\<lambda>_. RepoNotFound), scan_joined = True, edit_context = None,
      classify = Some unavailable, sandbox = False, answer = OutAllowOnce, saved = True\<rparr>"

section \<open>Properties\<close>

text \<open>C1: The modes stay consistent under every interleaving of calls of the handles and of the actor, each
  store of a flag and each send a step of its own. In every state reached, the actor never has always-approve on when
  the policy pins it off, nor always-approve and automatic mode at once; its counters of denials stay within their
  limits; at most twelve decisions are recorded; the legacy permission for all edits never returns; and, as long as
  every write of the file has succeeded (\<open>io\<close>), the file holds the state in memory. The flag that the handles read for
  always-approve is never on under the pin. The two flags are the modes of the actor once it runs and nothing is under
  way: no call, no store, no command. Before that they can lag behind, and both can be on.\<close>

theorem manager_invariant:
  assumes "sys_reachable cfg io s"
  shows "manager_inv cfg io (actor s) \<and> (cfg_yolo_pin cfg \<noteq> None \<longrightarrow> \<not> yolo_state s) \<and>
         (settled s \<longrightarrow> yolo_state s = yolo_mode (actor s) \<and> auto_state s = auto_mode (actor s))"
  using sys_reachable_inv [OF assms] settled_flags by (auto simp: sys_inv_def)

text \<open>Two handles race: one switches always-approve on and another automatic mode, and after the first store of each
  both flags are on. The actor has neither mode yet.\<close>

definition racing :: system where
  "racing =
     (start_system (example_config []) default_state True False)
       \<lparr>yolo_state := True, auto_state := True,
        calls := [[StoreYolo False, SendCommand (SetAutoMode True)], [StoreAuto False, SendCommand (SetYoloMode True)]]\<rparr>"

lemma racing_reachable: "sys_reachable (example_config []) True racing"
proof -
  let ?c = "example_config []" and ?s = "start_system (example_config []) default_state True False"
  let ?a = "[StoreAuto True, StoreYolo False, SendCommand (SetAutoMode True)]"
    and ?y = "[StoreYolo True, StoreAuto False, SendCommand (SetYoloMode True)]"
  have h: "handle_set_yolo ?c True = ?y" "handle_set_auto True = ?a"
    by (simp_all add: handle_set_yolo_def handle_set_auto_def clamp_yolo_def example_config_def)
  have r0: "sys_reachable ?c True ?s" by (rule sys_reachable.init) simp
  have "sys_reachable ?c True (?s\<lparr>calls := [?y]\<rparr>)"
    using sys_reachable.step [OF r0 sys_step.call_yolo [where enabled = True]] by (simp add: h start_system_def Let_def)
  from sys_reachable.step [OF this sys_step.call_auto [where enabled = True]]
  have "sys_reachable ?c True (?s\<lparr>calls := [?a, ?y]\<rparr>)" by (simp add: h)
  from sys_reachable.step [OF this sys_step.handle_moves [where i = 0 and x = "StoreAuto True" and xs = "tl ?a"]]
  have "sys_reachable ?c True (?s\<lparr>auto_state := True, calls := [tl ?a, ?y]\<rparr>)" by (simp add: access_flag_def start_system_def Let_def)
  from sys_reachable.step [OF this sys_step.handle_moves [where i = 1 and x = "StoreYolo True" and xs = "tl ?y"]]
  show ?thesis by (simp add: access_flag_def racing_def start_system_def Let_def)
qed

theorem racing_handles_set_both:
  "sys_reachable (example_config []) True racing \<and> yolo_state racing \<and> auto_state racing \<and>
   \<not> yolo_mode (actor racing) \<and> \<not> auto_mode (actor racing)"
proof -
  have "\<not> yolo_mode (actor racing) \<and> \<not> auto_mode (actor racing) \<and> yolo_state racing \<and> auto_state racing" by code_simp
  with racing_reachable show ?thesis by simp
qed

theorem manager_invariant_witness:
  "manager_inv (example_config []) True (actor racing) \<and>
   (let c = (example_config [])\<lparr>cfg_yolo_pin := Some ''p''\<rparr>
    in \<not> yolo_state (start_system c default_state True True) \<and> \<not> yolo_mode (actor (start_system c default_state True True)))"
proof -
  let ?c = "(example_config [])\<lparr>cfg_yolo_pin := Some ''p''\<rparr>"
  have "sys_reachable ?c True (start_system ?c default_state True True)" by (rule sys_reachable.init) simp
  from manager_invariant [OF this] manager_invariant [OF racing_reachable] show ?thesis
    by (simp add: manager_inv_def Let_def)
qed

text \<open>A deny wins in every mode. When the combined decision of the policy is a rejection, the
  request is denied with its reason, always-approve, automatic mode, sandbox and grants
  notwithstanding, unless the requester is gone.\<close>

theorem deny_wins_in_every_mode:
  assumes "policy_decision (preflight (cfg_env cfg) (cfg_policy cfg) access (cfg_cwd cfg) (auto_mode st)) = Some (Reject reason)"
  shows "handle_request cfg st w access = decided st (PolicyDeny reason) False PolicyDenyReason \<or>
         handle_request cfg st w access = abandoned st"
  using assms by (auto simp: handle_request_def handle_facts_def early_stage_def facts_of_def split: option.split)

theorem deny_wins_in_every_mode_witness:
  "handle_request (example_config [bash_prefix_rule RuleDeny ''rm''])
     (spawn (example_config []) default_state True True) example_world (ABash (lit ''rm x'')) =
   decided (spawn (example_config []) default_state True True) (PolicyDeny (deny_reason (bash_prefix_rule RuleDeny ''rm''))) False
     PolicyDenyReason"
proof -
  let ?cfg = "example_config [bash_prefix_rule RuleDeny ''rm'']"
  let ?st = "spawn (example_config []) default_state True True"
  have p: "policy_decision (preflight (cfg_env ?cfg) (cfg_policy ?cfg) (ABash (lit ''rm x'')) (cfg_cwd ?cfg) (auto_mode ?st)) =
      Some (Reject (deny_reason (bash_prefix_rule RuleDeny ''rm'')))"
    by code_simp
  have "response (handle_request ?cfg ?st example_world (ABash (lit ''rm x''))) \<noteq> None" by code_simp
  then show ?thesis using deny_wins_in_every_mode [OF p, of example_world] by auto
qed

text \<open>C7: The floors on shell commands bind. A command that writes a real file, sets risky variables,
  runs an opaque shell or carries an execution risk, and was not granted as a whole, is allowed
  without a prompt only by always-approve, or, when its only risk are unvetted variables, by
  the fast path or the classifier of automatic mode; never by the sandbox, an allow rule, a safe
  list or a session grant.\<close>

theorem floor_is_binding:
  assumes "bash_facts cfg st w (ABash cmd) = Some (Some e)" and "bash_request_floor e"
    and "handle_request cfg st w (ABash cmd) = r" and "response r = Some Allow" and "\<not> ev_prompted (event r)"
  shows "yolo_mode st \<and> ev_reason (event r) = Yolo \<or>
         auto_mode st \<and> bash_request_floor_defers e \<and> ev_reason (event r) \<in> {AutoFastPathReason, AutoClassifierAllow}"
proof -
  define f where "f = facts_of cfg st w (ABash cmd) (Some e)"
  have f: "f_eval f = Some e" "f_access f = ABash cmd" "floor_requires_prompt f" "floor_defers f = bash_request_floor_defers e"
    using assms(2) by (simp_all add: f_def facts_of_def floor_requires_prompt_def floor_defers_def)
  have r: "r = handle_facts cfg st w f"
    using assms(1,3,4) by (auto simp: handle_request_def f_def split: if_splits)
  show ?thesis
  proof (cases "early_stage cfg st f")
    case (Some q)
    with r assms(4) have "q = r" by (simp add: handle_facts_def)
    moreover have "early_grant cfg st f \<noteq> Some (Allow, x)" for x
      using session_grant_floor [of cfg st cmd e _ x] assms(2) f by (auto simp: early_grant_def split: if_splits)
    ultimately show ?thesis using early_allow [OF Some] assms(4) f by blast
  next
    case None
    have late: False if "r = late_stage cfg st w f x" for x
    proof -
      have "sandbox_allows w f (x \<noteq> None) \<or> late_policy f = Some Allow \<or> (\<exists>q. pre_decision cfg st f (x \<noteq> None) = Some (Allow, q))"
        using late_allow assms(4,5) that by blast
      moreover have "\<not> sandbox_allows w f b" for b
        using f assms(2) by (simp add: sandbox_allows_def sandbox_may_auto_allow_bash_def)
      moreover have "late_policy f \<noteq> Some Allow"
        using f by (auto simp: late_policy_def split: option.splits decision.splits)
      moreover have "pre_decision cfg st f b = None" for b
        using f assms(2) by (simp add: pre_decision_def access_pre_decision_def bash_pre_decision_def)
      ultimately show False by simp
    qed
    show ?thesis
    proof (cases "auto_stage st w f")
      case (AutoReply q)
      with None r have q: "q = r" by (simp add: handle_facts_def)
      from AutoReply show ?thesis
      proof (cases rule: auto_stage_cases)
        case fast
        with q f show ?thesis by auto
      next
        case gone
        with q assms(4) show ?thesis by auto
      next
        case (classified out)
        with q assms(4) f show ?thesis
          by (auto simp: classified_def split: classifier_verdict.splits if_splits)
      qed
    qed (use None r late in \<open>auto simp: handle_facts_def\<close>)
  qed
qed

theorem floor_is_binding_witness:
  "ev_reason (event (handle_request (example_config []) (spawn (example_config []) default_state True True) example_world
     (ABash (lit ''bash -c ls'')))) = Yolo"
proof -
  let ?st = "spawn (example_config []) default_state True True"
  let ?r = "handle_request (example_config []) ?st example_world (ABash (lit ''bash -c ls''))"
  have f: "map_option (map_option bash_request_floor)
      (bash_facts (example_config []) ?st example_world (ABash (lit ''bash -c ls''))) = Some (Some True)"
    by code_simp
  then obtain e where e: "bash_facts (example_config []) ?st example_world (ABash (lit ''bash -c ls'')) = Some (Some e)"
    "bash_request_floor e" by auto
  have r: "response ?r = Some Allow" "\<not> ev_prompted (event ?r)" "\<not> auto_mode ?st" by code_simp+
  show ?thesis using floor_is_binding [OF e refl r(1,2)] r(3) by simp
qed

text \<open>C21: An ask rule on a shell command reaches the user. When the policy asks about a shell command,
  always-approve is off, the ask does not defer to the classifier and approvals are not
  remembered, the request is put to the user, or denied by the prompt policy, or the requester
  is gone: no list, grant, sandbox or classifier answers it.\<close>

theorem ask_rule_reaches_user:
  assumes "policy_forced_prompt (preflight (cfg_env cfg) (cfg_policy cfg) (ABash cmd) (cfg_cwd cfg) (auto_mode st))"
    and "\<not> yolo_mode st" and "\<not> defers_gate_ask (preflight (cfg_env cfg) (cfg_policy cfg) (ABash cmd) (cfg_cwd cfg) (auto_mode st))"
    and "\<not> cfg_remember cfg"
  shows "let r = handle_request cfg st w (ABash cmd)
         in ev_prompted (event r) \<or> response r = None \<or> ev_reason (event r) = PromptDenyReason"
proof (cases "gone_at_dequeue w \<or> bash_facts cfg st w (ABash cmd) = None")
  case True
  then show ?thesis by (auto simp: handle_request_def Let_def)
next
  case False
  then obtain eval where e: "bash_facts cfg st w (ABash cmd) = Some eval" by blast
  define f where "f = facts_of cfg st w (ABash cmd) eval"
  have f: "f_access f = ABash cmd" "policy_forced_prompt (f_pre f)" "\<not> defers_gate_ask (f_pre f)"
    using assms by (simp_all add: f_def facts_of_def)
  have early: "early_stage cfg st f = None"
    using f assms(2) by (auto simp: early_stage_def early_grant_def unforced_def policy_forced_prompt_def split: option.split)
  have auto: "auto_stage st w f = AutoPass"
    using f by (simp add: auto_stage_def admits_auto_classifier_def)
  have "\<not> sandbox_allows w f False" using f by (simp add: sandbox_allows_def)
  moreover have "late_policy f = None" using f by (simp add: late_policy_def policy_forced_prompt_def)
  moreover have "pre_decision cfg st f False = None"
    using f assms(4) by (simp add: pre_decision_def access_pre_decision_def bash_pre_decision_def split: option.split)
  ultimately have "let r = late_stage cfg st w f None in ev_prompted (event r) \<or> response r = None \<or> ev_reason (event r) = PromptDenyReason"
    by (simp add: late_stage_def Let_def prompt_stage_def split: prod.split)
  then show ?thesis using False e early auto by (simp add: handle_request_def handle_facts_def f_def)
qed

theorem ask_rule_reaches_user_witness:
  "let r = handle_request (example_config [bash_prefix_rule RuleAsk ''ls'']) (spawn (example_config []) default_state True False)
             example_world (ABash (lit ''ls x''))
   in ev_prompted (event r) \<or> response r = None \<or> ev_reason (event r) = PromptDenyReason"
proof (rule ask_rule_reaches_user)
  show "policy_forced_prompt (preflight (cfg_env (example_config [bash_prefix_rule RuleAsk ''ls'']))
      (cfg_policy (example_config [bash_prefix_rule RuleAsk ''ls''])) (ABash (lit ''ls x''))
      (cfg_cwd (example_config [bash_prefix_rule RuleAsk ''ls''])) (auto_mode (spawn (example_config []) default_state True False)))"
    by code_simp
  show "\<not> defers_gate_ask (preflight (cfg_env (example_config [bash_prefix_rule RuleAsk ''ls'']))
      (cfg_policy (example_config [bash_prefix_rule RuleAsk ''ls''])) (ABash (lit ''ls x''))
      (cfg_cwd (example_config [bash_prefix_rule RuleAsk ''ls''])) (auto_mode (spawn (example_config []) default_state True False)))"
    by code_simp
  show "\<not> yolo_mode (spawn (example_config []) default_state True False)" by code_simp
  show "\<not> cfg_remember (example_config [bash_prefix_rule RuleAsk ''ls''])" by code_simp
qed

text \<open>Under the deny prompt policy the user is never prompted, whatever the request and the mode.\<close>

theorem prompt_deny_never_prompts:
  assumes "cfg_prompt_policy cfg = PromptDeny"
  shows "\<not> ev_prompted (event (handle_request cfg st w access))"
proof -
  have late: "\<not> ev_prompted (event (late_stage cfg st w f x))" for f x
    using assms by (simp add: late_stage_def split: option.split)
  have "\<not> ev_prompted (event (handle_facts cfg st w f))" for f
  proof (cases "early_stage cfg st f")
    case (Some q)
    then have "\<not> ev_prompted (event q)"
      by (auto simp: early_stage_def split: option.splits decision.splits if_splits)
    with Some show ?thesis by (simp add: handle_facts_def)
  next
    case None
    show ?thesis
    proof (cases "auto_stage st w f")
      case (AutoReply q)
      then have "\<not> ev_prompted (event q)"
        by (auto simp: auto_stage_def classified_def split: if_splits auto_fast_path.splits option.splits classifier_verdict.splits)
      with None AutoReply show ?thesis by (simp add: handle_facts_def)
    qed (use None late in \<open>auto simp: handle_facts_def\<close>)
  qed
  then show ?thesis by (auto simp: handle_request_def split: option.split)
qed

theorem prompt_deny_never_prompts_witness:
  "\<not> ev_prompted (event (handle_request ((example_config [])\<lparr>cfg_prompt_policy := PromptDeny\<rparr>)
       (spawn (example_config []) default_state True False) example_world (AEdit (lit ''f''))))"
  by (rule prompt_deny_never_prompts) simp

text \<open>C22: A grant for a whole MCP server comes from the prompt, for the server of the tool the user
  was asked about, whatever the client sent back: a request adds no other server.\<close>

theorem server_grant_is_canonical:
  assumes "s \<in> set (allowed_mcp_servers (perm (next_state (handle_request cfg st w access))))"
    and "s \<notin> set (allowed_mcp_servers (perm st))"
  shows "\<exists>name input tool. access = AMcp name input \<and> parse_mcp_qualified_name name = Some (s, tool) \<and>
           ev_prompted (event (handle_request cfg st w access))"
proof -
  let ?ok = "\<lambda>f r. perm (next_state r) = perm st \<or>
     ev_prompted (event r) \<and> set (allowed_mcp_servers (perm (next_state r))) \<subseteq> set (allowed_mcp_servers (perm st)) \<union>
        {s. \<exists>name i t. f_access f = AMcp name i \<and> parse_mcp_qualified_name name = Some (s, t)}"
  have late: "?ok f (late_stage cfg st w f x)" for f x
    using prompt_stage_servers [of cfg st w f x]
    by (simp add: late_stage_def split: option.split) (simp add: prompt_stage_def Let_def split: prod.split)
  have "?ok f (handle_facts cfg st w f)" for f
  proof (cases "early_stage cfg st f")
    case (Some q)
    with early_reason(1) [OF Some] show ?thesis by (simp add: handle_facts_def)
  next
    case None
    show ?thesis
    proof (cases "auto_stage st w f")
      case (AutoReply q)
      then have "perm (next_state q) = perm st"
        by (cases rule: auto_stage_cases) (auto simp: classified_def split: classifier_verdict.splits if_splits)
      with None AutoReply show ?thesis by (simp add: handle_facts_def)
    qed (use None late in \<open>auto simp: handle_facts_def\<close>)
  qed
  note facts = this
  have acc: "f_access (facts_of cfg st w access e) = access" for e by (simp add: facts_of_def)
  show ?thesis
  proof (cases "gone_at_dequeue w \<or> bash_facts cfg st w access = None")
    case True
    with assms show ?thesis by (auto simp: handle_request_def)
  next
    case False
    then obtain e where e: "handle_request cfg st w access = handle_facts cfg st w (facts_of cfg st w access e)"
      by (auto simp: handle_request_def)
    show ?thesis using facts [of "facts_of cfg st w access e"] assms unfolding e acc by auto
  qed
qed

theorem server_grant_is_canonical_witness:
  "\<exists>name input tool. AMcp (lit ''fs__read'') [] = AMcp name input \<and> parse_mcp_qualified_name name = Some (lit ''fs'', tool) \<and>
     ev_prompted (event (handle_request (example_config []) (spawn (example_config []) default_state True False)
       (example_world\<lparr>answer := OutAllowAlwaysMcpServer (lit ''fs'')\<rparr>) (AMcp (lit ''fs__read'') [])))"
proof (rule server_grant_is_canonical)
  show "lit ''fs'' \<in> set (allowed_mcp_servers (perm (next_state (handle_request (example_config [])
      (spawn (example_config []) default_state True False) (example_world\<lparr>answer := OutAllowAlwaysMcpServer (lit ''fs'')\<rparr>)
      (AMcp (lit ''fs__read'') [])))))"
    by code_simp
  show "lit ''fs'' \<notin> set (allowed_mcp_servers (perm (spawn (example_config []) default_state True False)))" by code_simp
qed

text \<open>C26: Automatic mode denies silently at most twenty times in a session: over every sequence of
  commands the actor handles, at most twenty requests are denied by the classifier without a
  prompt.\<close>

theorem silent_denials_bounded:
  "classifier_denials cfg (spawn cfg loaded ok initial_yolo) cmds \<le> 20"
proof -
  let ?st = "spawn cfg loaded ok initial_yolo"
  have "total_denials (fold (actor_step cfg) cmds ?st) \<le> AUTO_DENY_TOTAL_LIMIT"
    using fold_inv [OF spawn_inv, of ok cfg cmds loaded initial_yolo] by (simp add: manager_inv_def)
  moreover have "total_denials ?st = 0" by (simp add: spawn_def Let_def)
  ultimately show ?thesis by (simp add: classifier_denials_total AUTO_DENY_TOTAL_LIMIT_def)
qed

text \<open>An ask rule on web searches is not asked. In ask mode a web search for which a rule asks is
  allowed as a safe command, without a prompt, in every state.\<close>

theorem web_search_ask_not_asked:
  assumes "policy_forced_prompt (preflight (cfg_env cfg) (cfg_policy cfg) (AWebSearch q) (cfg_cwd cfg) False)"
    and "\<not> yolo_mode st" and "\<not> auto_mode st" and "\<not> gone_at_dequeue w"
  shows "handle_request cfg st w (AWebSearch q) = decided st Allow True SafeCommand"
proof -
  define f where "f = facts_of cfg st w (AWebSearch q) None"
  have f: "f_access f = AWebSearch q" "f_eval f = None" "policy_forced_prompt (f_pre f)"
    using assms(1,3) by (simp_all add: f_def facts_of_def)
  have "early_stage cfg st f = None"
    using f assms(2,3) by (auto simp: early_stage_def early_grant_def unforced_def policy_forced_prompt_def split: option.split)
  moreover have "auto_stage st w f = AutoPass" using assms(3) by (simp add: auto_stage_def)
  moreover have "late_stage cfg st w f None = decided st Allow True SafeCommand"
    using f by (simp add: late_stage_def sandbox_allows_def late_policy_def policy_forced_prompt_def pre_decision_def
        access_pre_decision_def)
  ultimately show ?thesis using assms(4) by (simp add: handle_request_def handle_facts_def bash_facts_def f_def)
qed

theorem web_search_ask_not_asked_witness:
  "handle_request
     (example_config [\<lparr>rule_act = RuleAsk, rule_tool = FWebSearch, rule_pattern = None, rule_pattern_mode = Glob\<rparr>])
     (spawn (example_config []) default_state True False) example_world (AWebSearch (lit ''x'')) =
   decided (spawn (example_config []) default_state True False) Allow True SafeCommand"
proof (rule web_search_ask_not_asked)
  let ?c = "example_config [\<lparr>rule_act = RuleAsk, rule_tool = FWebSearch, rule_pattern = None, rule_pattern_mode = Glob\<rparr>]"
  show "policy_forced_prompt (preflight (cfg_env ?c) (cfg_policy ?c) (AWebSearch (lit ''x'')) (cfg_cwd ?c) False)"
    by code_simp
qed code_simp+

text \<open>C2: A deny rule on any command of a script is enforced in every mode. When a deny rule matches
  one of the commands of a script, as written, the script is denied with always-approve on or
  off, unless the requester is gone.\<close>

theorem denied_segment_denies_script:
  assumes "cfg_policy cfg = Some (new_policy (cfg_env cfg) config)"
    and "all_commands_from_script (cfg_env cfg) cmd = Some segs" and "raw \<in> set segs"
    and "evaluate (cfg_env cfg) (new_policy (cfg_env cfg) config) (ABash (join (lit '' '') raw)) = Some (Reject reason)"
  shows "(\<exists>reason. response (handle_request cfg st w (ABash cmd)) = Some (PolicyDeny reason)) \<or>
         response (handle_request cfg st w (ABash cmd)) = None"
proof -
  have "at_least gate_rank 3 (bash_command (preflight (cfg_env cfg) (cfg_policy cfg) (ABash cmd) (cfg_cwd cfg) (auto_mode st)))"
    using gate_at_least [OF assms(2,3), of 3 config] assms(1,4)
    by (simp add: preflight_def Let_def escalate_def at_least_def)
  then show ?thesis using rejecting_gate_denies [OF refl, of cfg cmd st] by simp
qed

theorem denied_segment_denies_script_witness:
  "(\<exists>reason. response (handle_request (example_config [bash_prefix_rule RuleDeny ''rm'']) (spawn (example_config []) default_state True True)
      example_world (ABash (lit ''rm x''))) = Some (PolicyDeny reason)) \<or>
   response (handle_request (example_config [bash_prefix_rule RuleDeny ''rm'']) (spawn (example_config []) default_state True True)
      example_world (ABash (lit ''rm x''))) = None"
proof (rule denied_segment_denies_script)
  let ?c = "example_config [bash_prefix_rule RuleDeny ''rm'']"
  show "cfg_policy ?c = Some (new_policy (cfg_env ?c) (rules_config [bash_prefix_rule RuleDeny ''rm'']))"
    by (simp add: example_config_def)
  show "all_commands_from_script (cfg_env ?c) (lit ''rm x'') = Some [map lit [''rm'', ''x'']]" by code_simp
  show "map lit [''rm'', ''x''] \<in> set [map lit [''rm'', ''x'']]" by simp
  show "evaluate (cfg_env ?c) (new_policy (cfg_env ?c) (rules_config [bash_prefix_rule RuleDeny ''rm'']))
      (ABash (join (lit '' '') (map lit [''rm'', ''x'']))) = Some (Reject (deny_reason (bash_prefix_rule RuleDeny ''rm'')))"
    by code_simp
qed

text \<open>Allow rules see through wrappers. With an allow rule for \<open>ls\<close> the policy allows
  \<open>timeout 5 ls\<close>.\<close>

theorem allow_rule_sees_through_wrapper:
  "evaluate words_env (new_policy words_env (rules_config [bash_prefix_rule RuleAllow ''ls''])) (ABash (lit ''timeout 5 ls'')) =
   Some Allow"
  by code_simp

end
