(* ===== verification/FileGateSafety.thy ===== *)
theory FileGateSafety
  imports PermissionSafety
begin

text \<open>
  What the gate on files guarantees. The specification says which files a script touches: the
  targets of its redirects, the operands of the programs it runs, and those of the literal scripts
  it hands to a shell. The lemmas show that every step of the gate keeps what earlier steps have
  found, so that the strictest rule on any touched file decides.
\<close>

section \<open>Specification\<close>

definition operands_of :: "rstr \<Rightarrow> argv \<Rightarrow> (rstr \<times> shell_file_mode) list" where
  "operands_of program ws =
     (if one_of program [''cd'', ''pushd'', ''popd''] then []
      else
        special_file_operands program ws @
        (if program = lit ''dd'' then []
         else
           (case shell_path_command_operands program ws of
              Some operands \<Rightarrow> operands
            | None \<Rightarrow> concat (map (\<lambda>t. map (Pair t) (file_modes program ws)) (shell_file_candidates ws)))))"

text \<open>Whether the directory may have changed before a command at a byte in a scope: an earlier \<open>cd\<close>, \<open>pushd\<close> or
  \<open>popd\<close> whose scope holds that of the command.\<close>

definition directory_moved :: "shell_tree \<Rightarrow> nat \<Rightarrow> execution_scope \<Rightarrow> bool" where
  "directory_moved tree at_byte scope \<longleftrightarrow>
     (\<exists>x \<in> set (walk_tree tree).
        changes_directory (fst x) \<and> start_byte (fst x) < at_byte \<and> scope_contains (execution_scope x) scope)"

text \<open>\<open>touches env u k cmd t m u'\<close>: the script \<open>cmd\<close> touches what the word \<open>t\<close> names, for reading or writing, \<open>k\<close> literal
  scripts down; \<open>u\<close> says whether the directory is unknown where the script starts, \<open>u'\<close> whether it is where the file is
  touched.\<close>

definition moved_for :: "bool \<Rightarrow> shell_tree \<Rightarrow> shell_invocation \<Rightarrow> bool" where
  "moved_for u tree i \<longleftrightarrow> u \<or> directory_moved tree (inv_start i) (inv_scope i) \<or> inv_chdir (unwrap_invocation_checked i)"

inductive touches :: "'g policy_env \<Rightarrow> bool \<Rightarrow> nat \<Rightarrow> rstr \<Rightarrow> rstr \<Rightarrow> shell_file_mode \<Rightarrow> bool \<Rightarrow> bool" for env where
  redirect: "try_parse_shell env cmd = Some tree \<Longrightarrow> r \<in> set (shell_redirect_targets tree) \<Longrightarrow>
    redirect_path r = Some t \<Longrightarrow>
    touches env u 0 cmd t (redirect_mode r) (u \<or> directory_moved tree (redirect_start r) (redirect_scope r))"
| operand: "try_parse_shell env cmd = Some tree \<Longrightarrow> i \<in> set (shell_command_invocations tree) \<Longrightarrow>
    inv_peeled (unwrap_invocation_checked i) = InvLiteral program # rest \<Longrightarrow>
    (t, m) \<in> set (operands_of (to_ascii_lowercase (basename program)) (literal_words (InvLiteral program # rest))) \<Longrightarrow>
    touches env u 0 cmd t m (moved_for u tree i)"
| inline: "try_parse_shell env cmd = Some tree \<Longrightarrow> i \<in> set (shell_command_invocations tree) \<Longrightarrow>
    shell_dash_c_script (shell_words_of (inv_peeled (unwrap_invocation_checked i))) = InlineLiteral k \<Longrightarrow>
    shell_words_of (inv_peeled (unwrap_invocation_checked i)) ! k = WordLiteral script \<Longrightarrow>
    touches env (moved_for u tree i) d script t m u' \<Longrightarrow> touches env u (Suc d) cmd t m u'"

text \<open>The names under which a word is looked up: its normalized spelling; when the word is relative and the directory is
  known, its place in that directory; and what the links of the absolute spelling lead to.\<close>

definition names_file :: "'g policy_env \<Rightarrow> path \<Rightarrow> bool \<Rightarrow> rstr \<Rightarrow> rstr \<Rightarrow> bool" where
  "names_file env cwd u t q \<longleftrightarrow>
     (let n = normalize_shell_path t; raw = normalize_shell_path_raw t
      in q = n \<or>
         \<not> u \<and> \<not> is_absolute_shell_path n \<and> q = normalize_shell_path (path_join cwd n) \<or>
         (u \<longrightarrow> is_absolute_shell_path n \<and> is_absolute_shell_path raw) \<and>
         resolve_symlink_target (file_view env)
           (if is_absolute_shell_path raw then raw else normalize_shell_path_raw (path_join cwd raw)) = Some q)"

section \<open>Lemmas\<close>

abbreviation rank_from :: "nat \<Rightarrow> gate_acc \<Rightarrow> bool" where
  "rank_from n acc \<equiv> at_least gate_rank n (fst acc)"

definition keeps :: "(gate_acc \<Rightarrow> gate_acc) \<Rightarrow> bool" where
  "keeps f \<longleftrightarrow> (\<forall>n acc. (rank_from n acc \<longrightarrow> rank_from n (f acc)) \<and> (snd acc \<longrightarrow> snd (f acc)))"

named_theorems kept "steps that lose nothing of the decision so far"

lemma keepsI:
  assumes "\<And>n acc. rank_from n acc \<Longrightarrow> rank_from n (f acc)" "\<And>acc. snd acc \<Longrightarrow> snd (f acc)"
  shows "keeps f"
  unfolding keeps_def using assms by blast

lemma keeps_rank: "keeps f \<Longrightarrow> rank_from n acc \<Longrightarrow> rank_from n (f acc)"
  unfolding keeps_def by blast

lemma keeps_force: "keeps f \<Longrightarrow> snd acc \<Longrightarrow> snd (f acc)"
  unfolding keeps_def by blast

lemma keeps_basic: "keeps (acc_decision g)" "keeps (acc_force b)"
  by (rule keepsI; simp add: acc_decision_def acc_force_def gate.comb_at_least)+

lemmas [kept] = keeps_basic [THEN keeps_rank] keeps_basic [THEN keeps_force]

interpretation raised: step_order "\<lambda>acc acc'. \<forall>n. (rank_from n acc \<longrightarrow> rank_from n acc') \<and> (snd acc \<longrightarrow> snd acc')"
  by unfold_locales blast+

lemma keeps_fold: "(\<And>x. keeps (f x)) \<Longrightarrow> keeps (fold f xs)"
  using raised.over_fold [of xs f] unfolding keeps_def by blast

lemma fold_raises:
  assumes "x \<in> set xs" "\<And>x. keeps (f x)" "\<And>acc. rank_from n (f x acc)"
  shows "rank_from n (fold f xs acc)"
proof -
  obtain us vs where "xs = us @ x # vs" using assms(1) by (meson split_list)
  then have "fold f xs acc = fold f vs (f x (fold f us acc))" by simp
  with keeps_rank [OF keeps_fold [of f vs]] assms show ?thesis by metis
qed

lemma fold_forces:
  assumes "x \<in> set xs" "\<And>x. keeps (f x)" "\<And>acc. snd (f x acc)"
  shows "snd (fold f xs acc)"
proof -
  obtain us vs where "xs = us @ x # vs" using assms(1) by (meson split_list)
  then have "fold f xs acc = fold f vs (f x (fold f us acc))" by simp
  with keeps_force [OF keeps_fold [of f vs]] assms show ?thesis by metis
qed

lemma keeps_path_gate: "keeps (path_gate env p cwd u x)"
  by (rule keepsI) (simp_all add: path_gate_def kept)

lemmas [kept] = keeps_fold [OF keeps_path_gate, THEN keeps_rank] keeps_fold [OF keeps_path_gate, THEN keeps_force]

lemmas keeps_decisions = keeps_fold [where f = "\<lambda>m. acc_decision (g m)" for g, OF keeps_basic(1)]

lemma keeps_candidate_gate: "keeps (candidate_gate env p cwd u ms t)"
  by (rule keepsI)
    (simp_all add: candidate_gate_def kept keeps_decisions [THEN keeps_rank] keeps_decisions [THEN keeps_force])

lemmas [kept] = keeps_fold [OF keeps_candidate_gate, THEN keeps_rank] keeps_fold [OF keeps_candidate_gate, THEN keeps_force]

lemma keeps_candidates_gate: "keeps (candidates_gate env p cwd u prog ws)"
  by (rule keepsI) (simp_all add: candidates_gate_def kept)

lemma keeps_inline_files: "keeps (inline_files rec u ws)"
  by (rule keepsI)
    (simp_all add: inline_files_def kept split: inline_shell_script.split option.split shell_word.split)

lemmas [kept] = keeps_candidates_gate [THEN keeps_rank] keeps_candidates_gate [THEN keeps_force]
  keeps_inline_files [THEN keeps_rank] keeps_inline_files [THEN keeps_force]

lemma keeps_operands_gate: "keeps (operands_gate env p cwd u inc prog ws)"
  by (rule keepsI) (simp_all add: operands_gate_def Let_def kept split: option.split)

lemmas [kept] = keeps_operands_gate [THEN keeps_rank] keeps_operands_gate [THEN keeps_force]

lemma keeps_peeled_gate: "keeps (peeled_gate env p rec cwd u pf peeled)"
  by (rule keepsI) (simp_all add: peeled_gate_def Let_def kept split: list.split invocation_word.split)

lemma keeps_invocation_gate: "keeps (invocation_gate env p rec cwd u cs pf i)"
  by (rule keepsI)
    (simp_all add: invocation_gate_def Let_def keeps_peeled_gate [THEN keeps_rank] keeps_peeled_gate [THEN keeps_force])

lemma keeps_redirect_gate: "keeps (redirect_gate env p cwd u cs r)"
  by (rule keepsI) (simp_all add: redirect_gate_def Let_def kept split: option.split)

lemma operands_gate_raises:
  assumes "(t, m) \<in> set (operands_of prog ws)" "\<And>acc. rank_from n (path_gate env p cwd u (t, m) acc)"
  shows "rank_from n (operands_gate env p cwd u inc prog ws acc)"
proof -
  have paths: "rank_from n (fold (path_gate env p cwd u) xs acc)" if "(t, m) \<in> set xs" for xs acc
    using that assms(2) by (rule fold_raises [OF _ keeps_path_gate])
  have raised: "at_least gate_rank n (evaluate_shell_path env p cwd t m u)" for acc
    using assms(2) [of "(None, False)"] 
    by (simp add: path_gate_def acc_decision_def acc_force_def gate.comb_at_least at_least_def)
  have cands: "rank_from n (candidates_gate env p cwd u prog ws acc)"
    if "t \<in> set (shell_file_candidates ws)" "m \<in> set (file_modes prog ws)" for acc
  proof -
    have "rank_from n (candidate_gate env p cwd u (file_modes prog ws) t acc)" for acc
      unfolding candidate_gate_def
      by (rule fold_raises [OF that(2) keeps_basic(1)]) (simp add: acc_decision_def gate.comb_at_least raised)
    then have "rank_from n (fold (candidate_gate env p cwd u (file_modes prog ws)) (shell_file_candidates ws) acc)"
      by (rule fold_raises [OF that(1) keeps_candidate_gate])
    moreover have "shell_file_mode_of prog \<noteq> None" using that(2) by (cases "shell_file_mode_of prog") (simp_all add: file_modes_def)
    ultimately show ?thesis unfolding candidates_gate_def by (simp only: if_False) (rule keeps_rank [OF keeps_basic(2)])
  qed
  have cd: "\<not> one_of prog [''cd'', ''pushd'', ''popd'']" using assms(1) by (auto simp: operands_of_def)
  consider "(t, m) \<in> set (special_file_operands prog ws)"
    | operands where "prog \<noteq> lit ''dd''" "shell_path_command_operands prog ws = Some operands" "(t, m) \<in> set operands"
    | "prog \<noteq> lit ''dd''" "shell_path_command_operands prog ws = None" "t \<in> set (shell_file_candidates ws)"
      "m \<in> set (file_modes prog ws)"
    using assms(1) by (auto simp: operands_of_def split: if_splits option.splits)
  then show ?thesis
    unfolding operands_gate_def Let_def
    by cases (cases "prog = lit ''dd''", use cd in \<open>simp_all add: paths cands kept split: option.split\<close>)
qed

lemma directory_moved_poison:
  "cwd_unpinned_before (cwd_poison_positions tree) b scope = directory_moved tree b scope"
proof -
  have "(a = scope \<or> scope_contains a scope) = scope_contains a scope" for a
    by (auto simp: scope_contains_def split: option.split)
  then show ?thesis
    by (simp add: cwd_unpinned_before_def cwd_poison_positions_def directory_moved_def list_ex_iff Bex_def conj_assoc)
qed

lemma path_gate_raises:
  assumes "names_file env cwd u t q" "at_least gate_rank n (escalate_access env p (shell_access m q))"
  shows "at_least gate_rank n (evaluate_shell_path env p cwd t m u)"
proof -
  let ?n = "normalize_shell_path t" and ?raw = "normalize_shell_path_raw t"
  consider "q = ?n" | "\<not> u" "q = anchored cwd ?n"
    | "q \<noteq> anchored cwd ?n" "u \<longrightarrow> is_absolute_shell_path ?n"
      "resolved_gate env p cwd m ?n (raw_anchored cwd u ?raw) = escalate_access env p (shell_access m q)"
    | "u" "is_absolute_shell_path ?n" "q = anchored cwd ?n"
    using assms(1)
    by (cases "q = anchored cwd ?n"; cases u)
      (auto simp: names_file_def Let_def anchored_def raw_anchored_def resolved_gate_def split: if_splits)
  then show ?thesis
    using assms(2) by cases (auto simp: evaluate_shell_path_def Let_def gate.comb_at_least)
qed

lemma unknown_directory_asks:
  "u \<Longrightarrow> \<not> is_absolute_shell_path (normalize_shell_path t) \<Longrightarrow> at_least gate_rank 1 (evaluate_shell_path env p cwd t m u)"
  by (simp add: evaluate_shell_path_def Let_def gate.comb_at_least fail_closed_if_def) (simp add: at_least_def)

lemmas keeps_invocations = keeps_fold [where f = "invocation_gate env p rec cwd u cs pf" for env p rec cwd u cs pf,
  OF keeps_invocation_gate]

lemma tree_redirect_raised:
  assumes "r \<in> set (shell_redirect_targets tree)" "\<And>acc. rank_from n (redirect_gate env p cwd u (cwd_poison_positions tree) r acc)"
  shows "at_least gate_rank n (tree_files_gate env p rec cwd u e tree)"
proof -
  have "rank_from n (fold (redirect_gate env p cwd u (cwd_poison_positions tree)) (shell_redirect_targets tree) acc)" for acc
    by (rule fold_raises [OF assms(1)]) (rule keeps_redirect_gate assms(2))+
  then show ?thesis
    by (simp add: tree_files_gate_def Let_def gate.comb_at_least keeps_invocations [THEN keeps_rank])
qed

lemma tree_invocation_raised:
  assumes "i \<in> set (shell_command_invocations tree)"
    "\<And>acc. rank_from n (invocation_gate env p rec cwd u (cwd_poison_positions tree) (has_error tree) i acc)"
  shows "at_least gate_rank n (tree_files_gate env p rec cwd u e tree)"
proof -
  have "rank_from n (fold (invocation_gate env p rec cwd u (cwd_poison_positions tree) (has_error tree))
      (shell_command_invocations tree) acc)" for acc
    by (rule fold_raises [OF assms(1)]) (rule keeps_invocation_gate assms(2))+
  then show ?thesis by (simp add: tree_files_gate_def Let_def gate.comb_at_least)
qed

lemma tree_invocation_forced:
  assumes "i \<in> set (shell_command_invocations tree)"
    "\<And>cs acc. snd (invocation_gate env p rec cwd u cs (has_error tree) i acc)"
  shows "at_least gate_rank 1 (tree_files_gate env p rec cwd u e tree)"
proof -
  have "snd (fold (invocation_gate env p rec cwd u cs (has_error tree)) (shell_command_invocations tree) acc)" for cs acc
    by (rule fold_forces [OF assms(1)]) (rule keeps_invocation_gate assms(2))+
  then show ?thesis
    by (simp add: tree_files_gate_def Let_def gate.comb_at_least fail_closed_if_def) (simp add: at_least_def)
qed

lemma invocation_gate_moved:
  "invocation_gate env p rec cwd u (cwd_poison_positions tree) pf i =
     peeled_gate env p rec cwd (moved_for u tree i) pf (unwrap_invocation_checked i)"
  by (rule ext) (simp add: invocation_gate_def Let_def moved_for_def directory_moved_poison)

lemma invocation_operand_raises:
  assumes "inv_peeled (unwrap_invocation_checked i) = InvLiteral program # rest"
    "(t, m) \<in> set (operands_of (to_ascii_lowercase (basename program)) (literal_words (InvLiteral program # rest)))"
    "at_least gate_rank n (evaluate_shell_path env p cwd t m (moved_for u tree i))"
  shows "rank_from n (invocation_gate env p rec cwd u (cwd_poison_positions tree) pf i acc)"
proof -
  have "rank_from n (path_gate env p cwd (moved_for u tree i) (t, m) acc)" for acc
    using assms(3) by (simp add: path_gate_def acc_decision_def gate.comb_at_least)
  from operands_gate_raises [OF assms(2) this] show ?thesis
    by (simp add: invocation_gate_moved peeled_gate_def Let_def assms(1))
qed

lemma program_keeps:
  assumes "\<And>program. keeps (f program)"
  shows "rank_from n acc \<Longrightarrow> rank_from n (case ws of InvLiteral program # _ \<Rightarrow> f program acc | _ \<Rightarrow> acc)"
    and "snd acc \<Longrightarrow> snd (case ws of InvLiteral program # _ \<Rightarrow> f program acc | _ \<Rightarrow> acc)"
  using assms by (simp_all add: keeps_rank keeps_force split: list.split invocation_word.split)

lemma invocation_inline:
  assumes "\<And>acc. rank_from n (inline_files rec (moved_for u tree i) (shell_words_of (inv_peeled (unwrap_invocation_checked i))) acc)"
  shows "rank_from n (invocation_gate env p rec cwd u (cwd_poison_positions tree) pf i acc)"
  unfolding invocation_gate_moved peeled_gate_def Let_def by (intro program_keeps keeps_operands_gate assms)

lemma invocation_inline_forces:
  assumes "\<And>u acc. snd (inline_files rec u (shell_words_of (inv_peeled (unwrap_invocation_checked i))) acc)"
  shows "snd (invocation_gate env p rec cwd u cs pf i acc)"
  unfolding invocation_gate_def peeled_gate_def Let_def by (intro program_keeps keeps_operands_gate assms)

text \<open>A script raises the decision to that of every file it touches, or runs out of levels and asks.\<close>

lemma touches_raises:
  assumes "touches env u k cmd t m u'" "at_least gate_rank n (evaluate_shell_path env p cwd t m u')"
  shows "at_least gate_rank n (evaluate_shell_file_access_inner env p cwd d u e cmd) \<or>
         d < k \<and> at_least gate_rank 1 (evaluate_shell_file_access_inner env p cwd d u e cmd)"
  using assms
proof (induction arbitrary: d e rule: touches.induct)
  case (redirect cmd tree r t u)
  have "rank_from n (redirect_gate env p cwd u (cwd_poison_positions tree) r acc)" for acc
    using redirect(3,4) by (simp add: redirect_gate_def Let_def acc_decision_def gate.comb_at_least directory_moved_poison)
  from tree_redirect_raised [OF redirect(2) this] show ?case
    using redirect(1) by (cases d) (simp_all add: script_files_gate_def)
next
  case (operand cmd tree i program rest t m u)
  from tree_invocation_raised [OF operand(2) invocation_operand_raises [OF operand(3-5)]] show ?case
    using operand(1) by (cases d) (simp_all add: script_files_gate_def)
next
  case (inline cmd tree i j script u k t m u')
  show ?case
  proof (cases d)
    case 0
    have "snd (inline_files None u (shell_words_of (inv_peeled (unwrap_invocation_checked i))) acc)" for u acc
      using inline(3) by (simp add: inline_files_def acc_force_def)
    then have "at_least gate_rank 1 (tree_files_gate env p None cwd u e tree)"
      by (intro tree_invocation_forced [OF inline(2)] invocation_inline_forces)
    then show ?thesis
      using inline(1) 0 by (simp add: script_files_gate_def)
  next
    case (Suc d')
    let ?rec = "\<lambda>script u. evaluate_shell_file_access_inner env p cwd d' u True script"
    let ?v = "moved_for u tree i"
    have *: "at_least gate_rank l (tree_files_gate env p (Some ?rec) cwd u e tree)"
      if "at_least gate_rank l (?rec script ?v)" for l
    proof (rule tree_invocation_raised [OF inline(2) invocation_inline])
      show "rank_from l (inline_files (Some ?rec) ?v (shell_words_of (inv_peeled (unwrap_invocation_checked i))) acc)" for acc
        using inline(3,4) that by (simp add: inline_files_def acc_decision_def gate.comb_at_least)
    qed
    from inline.IH [OF inline.prems, of d' True] show ?thesis
      using inline(1) Suc by (auto simp: script_files_gate_def dest: *)
  qed
qed

lemma escalate_access_restricts:
  assumes "at_least gate_rank n (escalate_access env (new_policy env config) (shell_access m q))"
  shows "has_file_restrictions (new_policy env config)"
proof -
  obtain d where "evaluate env (new_policy env config) (shell_access m q) = Some d" "d \<noteq> Allow"
    using assms by (auto simp: escalate_access_def at_least_def split: option.splits decision.splits)
  from evaluate_restricting [OF this]
  obtain r where "r \<in> set (config_rules config)" "restricts r" "tool_filter_matches (shell_access m q) (rule_tool r)" by blast
  moreover from this have "rule_tool r \<in> {FRead, FEdit, FAny}"
    by (auto simp: tool_filter_matches_def shell_access_def split: tool_filter.splits shell_file_mode.splits)
  ultimately show ?thesis by (auto simp: new_policy_def list_ex_iff)
qed

lemma file_gate_raised:
  assumes "touches env False k cmd t m u" "at_least gate_rank n (evaluate_shell_path env p cwd t m u)" "has_file_restrictions p"
  shows "at_least gate_rank n (evaluate_shell_file_access_gate env p cmd cwd) \<or>
         MAX_INLINE_SHELL_DEPTH < k \<and> at_least gate_rank 1 (evaluate_shell_file_access_gate env p cmd cwd)"
  using touches_raises [OF assms(1,2), of MAX_INLINE_SHELL_DEPTH False] assms(3)
  by (simp add: evaluate_shell_file_access_gate_def)

section \<open>Properties\<close>

definition no_links :: fs_view where
  "no_links = \<lparr>canonicalize = Some, symlink_metadata = (\<lambda>_. MetaNotFound), read_link = (\<lambda>_. None)\<rparr>"

definition exact_env :: "(rstr \<Rightarrow> argv list option) \<Rightarrow> rstr policy_env" where
  "exact_env parse =
     \<lparr>glob_new = Some, glob_matches_with = (\<lambda>g s _. g = s), url_host = (\<lambda>_. None), to_lowercase = id,
      try_parse_shell = (\<lambda>s. map_option plain_tree (parse s)), file_view = no_links\<rparr>"

definition file_env :: "rstr policy_env" where
  "file_env = exact_env (\<lambda>s. Some [split_char 32 s])"

definition read_rule :: "rule_action \<Rightarrow> string \<Rightarrow> permission_rule" where
  "read_rule act p = \<lparr>rule_act = act, rule_tool = FRead, rule_pattern = Some (lit p), rule_pattern_mode = Glob\<rparr>"

definition file_config :: "permission_rule list \<Rightarrow> rstr manager_config" where
  "file_config rules =
     \<lparr>cfg_env = file_env, cfg_policy = Some (new_policy file_env (rules_config rules)), cfg_prompt_policy = PromptAsk,
      cfg_yolo_pin = None, cfg_remember = False, cfg_cwd = lit ''/w'',
      cfg_url = (\<lambda>_. None), cfg_matcher = Map.empty,
      cfg_default_allowlist = False, cfg_git_bool = (\<lambda>_. None), cfg_args = (\<lambda>_. []),
      cfg_tilde = id, cfg_grok_home = None\<rparr>"

text \<open>C4: A deny rule on a file is enforced on the shell in every mode, up to eight literal scripts deep and as far as
  the directory is known. When a script touches a file, by a redirect, as an operand of a program behind wrappers, or in a
  literal script handed to a shell, and a deny rule forbids that access under the normalized spelling of the word, under
  its place in the directory of the manager or under the target of its links, then the script is denied with
  always-approve on or off, unless the requester is gone. Behind a \<open>cd\<close>, \<open>pushd\<close> or \<open>popd\<close> of the same scope, or a wrapper
  that changes the directory, a relative word has only its spelling. What the gate takes for operands of a program is
  what the source takes for them; a \<open>cd\<close> behind \<open>command\<close> is not seen and the old directory is used.\<close>

theorem denied_file_denies_script:
  assumes "cfg_policy cfg = Some (new_policy (cfg_env cfg) config)"
    and "touches (cfg_env cfg) False k cmd t m u" and "k \<le> MAX_INLINE_SHELL_DEPTH"
    and "names_file (cfg_env cfg) (cfg_cwd cfg) u t q"
    and "evaluate (cfg_env cfg) (new_policy (cfg_env cfg) config) (shell_access m q) = Some (Reject reason)"
  shows "(\<exists>reason. response (handle_request cfg st w (ABash cmd)) = Some (PolicyDeny reason)) \<or>
         response (handle_request cfg st w (ABash cmd)) = None"
proof -
  have r: "at_least gate_rank 3 (escalate_access (cfg_env cfg) (new_policy (cfg_env cfg) config) (shell_access m q))"
    using assms(5) by (simp add: escalate_access_def at_least_def)
  from file_gate_raised [OF assms(2) path_gate_raises [OF assms(4) r] escalate_access_restricts [OF r]] assms(1,3)
  have "at_least gate_rank 3 (shell_file (preflight (cfg_env cfg) (cfg_policy cfg) (ABash cmd) (cfg_cwd cfg) (auto_mode st)))"
    by (simp add: preflight_def Let_def)
  then show ?thesis using rejecting_gate_denies [OF refl, of cfg cmd st] by simp
qed

lemma nice_cat_key_touches: "touches file_env False 0 (lit ''nice cat ./key'') (lit ''./key'') FileRead False"
proof -
  let ?tree = "plain_tree [map lit [''nice'', ''cat'', ''./key'']]"
  let ?i = "hd (shell_command_invocations ?tree)"
  have "(lit ''./key'', FileRead) \<in> set (operands_of (to_ascii_lowercase (basename (lit ''cat'')))
      (literal_words [InvLiteral (lit ''cat''), InvLiteral (lit ''./key'')]))" by code_simp
  moreover have "try_parse_shell file_env (lit ''nice cat ./key'') = Some ?tree" by code_simp
  moreover have "inv_peeled (unwrap_invocation_checked ?i) = [InvLiteral (lit ''cat''), InvLiteral (lit ''./key'')]"
    by code_simp
  moreover have "?i \<in> set (shell_command_invocations ?tree)" by (rule hd_in_set) code_simp
  moreover have "\<not> moved_for False ?tree ?i" by code_simp
  ultimately show ?thesis by (metis touches.operand)
qed

theorem denied_file_denies_script_witness:
  "(\<exists>reason. response (handle_request (file_config [read_rule RuleDeny ''/w/key'']) (spawn (file_config []) default_state True True)
      example_world (ABash (lit ''nice cat ./key''))) = Some (PolicyDeny reason)) \<or>
   response (handle_request (file_config [read_rule RuleDeny ''/w/key'']) (spawn (file_config []) default_state True True)
      example_world (ABash (lit ''nice cat ./key''))) = None"
proof (rule denied_file_denies_script [where k = 0 and t = "lit ''./key''" and m = FileRead and u = False and q = "lit ''/w/key''"])
  let ?c = "file_config [read_rule RuleDeny ''/w/key'']"
  show "cfg_policy ?c = Some (new_policy (cfg_env ?c) (rules_config [read_rule RuleDeny ''/w/key'']))"
    by (simp add: file_config_def)
  show "touches (cfg_env ?c) False 0 (lit ''nice cat ./key'') (lit ''./key'') FileRead False"
    using nice_cat_key_touches by (simp add: file_config_def)
  have "normalize_shell_path (lit ''./key'') = lit ''key''" "\<not> is_absolute_shell_path (lit ''key'')"
    "normalize_shell_path (path_join (cfg_cwd ?c) (lit ''key'')) = lit ''/w/key''" by code_simp+
  then show "names_file (cfg_env ?c) (cfg_cwd ?c) False (lit ''./key'') (lit ''/w/key'')" by (simp add: names_file_def Let_def)
  show "evaluate (cfg_env ?c) (new_policy (cfg_env ?c) (rules_config [read_rule RuleDeny ''/w/key'']))
      (shell_access FileRead (lit ''/w/key'')) = Some (Reject (deny_reason (read_rule RuleDeny ''/w/key'')))" by code_simp
qed simp

text \<open>C5: No silent access to a restricted file, as far as the gate sees the directory. When the combined decision of the
  policy for a shell command is neither a rejection nor a prompt, no word by which the script touches a file, at any depth
  of literal scripts, names a file that the rules reject or ask about, under its spelling, its place in the directory of
  the manager or the target of its links; and, when there are rules on files, every such word behind a change of the
  directory is absolute. A change of the directory is a \<open>cd\<close>, \<open>pushd\<close> or \<open>popd\<close> written as such, earlier in a scope that
  holds the command, or one by a wrapper; \<open>command cd\<close> is not seen, and behind it a relative word is still looked up in
  the old directory.\<close>

theorem quiet_policy_no_file_bypass:
  assumes "policy_decision (preflight env (Some (new_policy env config)) (ABash cmd) cwd auto) \<in> {None, Some Allow}"
    and "touches env False k cmd t m u"
  shows "(names_file env cwd u t q \<longrightarrow> evaluate env (new_policy env config) (shell_access m q) \<in> {None, Some Allow}) \<and>
         (has_file_restrictions (new_policy env config) \<and> u \<longrightarrow> is_absolute_shell_path (normalize_shell_path t))"
proof -
  let ?p = "new_policy env config"
  have quiet: "evaluate_shell_file_access_gate env ?p cmd cwd = None"
    using policy_decision_quiet(2) [OF assms(1)] by (simp add: preflight_def Let_def)
  have none: False if "at_least gate_rank n (evaluate_shell_path env ?p cwd t m u)" "has_file_restrictions ?p" for n
    using file_gate_raised [OF assms(2) that] quiet by (simp add: at_least_def)
  have "evaluate env ?p (shell_access m q) \<in> {None, Some Allow}" if q: "names_file env cwd u t q"
  proof -
    have "escalate_access env ?p (shell_access m q) = None"
    proof (rule ccontr)
      assume "escalate_access env ?p (shell_access m q) \<noteq> None"
      then have "at_least gate_rank 0 (escalate_access env ?p (shell_access m q))" by (auto simp: at_least_def)
      from none [OF path_gate_raises [OF q this] escalate_access_restricts [OF this]] show False .
    qed
    with evaluate_not_other [of env ?p "shell_access m q"] show ?thesis
      by (auto simp: escalate_access_def split: option.splits decision.splits)
  qed
  with none [OF unknown_directory_asks] show ?thesis by blast
qed

theorem quiet_policy_no_file_bypass_witness:
  "evaluate file_env (new_policy file_env (rules_config [read_rule RuleDeny ''/w/log'']))
     (shell_access FileRead (lit ''/w/key'')) \<in> {None, Some Allow}"
proof -
  let ?tree = "plain_tree [map lit [''nice'', ''cat'', ''./key'']]" and ?cmd = "lit ''nice cat ./key''"
  let ?p = "new_policy file_env (rules_config [read_rule RuleDeny ''/w/log''])"
  have parse: "try_parse_shell file_env ?cmd = Some ?tree" by code_simp
  have "tree_files_gate file_env ?p rec (lit ''/w'') False False ?tree = None" for rec by code_simp
  then have "evaluate_shell_file_access_inner file_env ?p (lit ''/w'') d False False ?cmd = None" for d
    using parse by (cases d) (simp_all add: script_files_gate_def)
  then have "evaluate_shell_file_access_gate file_env ?p ?cmd (lit ''/w'') = None"
    by (simp add: evaluate_shell_file_access_gate_def)
  moreover have "evaluate file_env ?p (ABash ?cmd) = None" by code_simp
  moreover have "evaluate_bash_command_gate file_env ?p ?cmd = None" by code_simp
  ultimately have quiet: "policy_decision (preflight file_env (Some ?p) (ABash ?cmd) (lit ''/w'') False) \<in> {None, Some Allow}"
    by (simp add: preflight_def policy_decision_def)
  have "normalize_shell_path (lit ''./key'') = lit ''key''" "\<not> is_absolute_shell_path (lit ''key'')"
    "normalize_shell_path (path_join (lit ''/w'') (lit ''key'')) = lit ''/w/key''" by code_simp+
  then have "names_file file_env (lit ''/w'') False (lit ''./key'') (lit ''/w/key'')" by (simp add: names_file_def Let_def)
  with quiet_policy_no_file_bypass [OF quiet nice_cat_key_touches] show ?thesis by blast
qed

text \<open>A change of directory behind \<open>command\<close> is not seen. With a deny rule on \<open>/s/key\<close>, reading \<open>key\<close> behind
  \<open>cd /s\<close> asks, since the directory is no longer known; behind \<open>command cd /s\<close>, which changes the
  directory just the same, the operand is still looked up in the old directory and nothing asks.\<close>

theorem command_cd_not_tracked:
  "tree_files_gate file_env (new_policy file_env (rules_config [read_rule RuleDeny ''/s/key''])) rec (lit ''/w'') False False
     (plain_tree [map lit [''cd'', ''/s''], map lit [''cat'', ''key'']]) = Some AskFailClosed"
  "tree_files_gate file_env (new_policy file_env (rules_config [read_rule RuleDeny ''/s/key''])) rec (lit ''/w'') False False
     (plain_tree [map lit [''command'', ''cd'', ''/s''], map lit [''cat'', ''key'']]) = None"
  by code_simp+

text \<open>A deny rule on a command does not see through a backslash. The words of the gate on commands
  keep the spelling of the source, so a deny rule on \<open>rm\<close> does not match \<open>r\m\<close>, which the shell runs
  as \<open>rm\<close> and the gate on files decodes to \<open>rm\<close>.\<close>

theorem escaped_name_evades_deny:
  "evaluate_bash_command_gate words_env (new_policy words_env (rules_config [bash_prefix_rule RuleDeny ''rm'']))
     ([114, 92, 109] @ lit '' x'') = None"
  "map inv_words (shell_command_invocations (plain_tree [[[114, 92, 109], lit ''x'']])) =
     [[InvLiteral (lit ''rm''), InvLiteral (lit ''x'')]]"
  by code_simp+

end
