(* ===== verification/EditSafety.thy ===== *)
theory EditSafety
  imports FileGateSafety
begin

text \<open>
  What the manager guarantees for edits: a file that a later session would run or trust, or that
  holds credentials, is never edited without a prompt outside always-approve, whatever spelling or
  links the model used for its path.
\<close>

section \<open>Specification\<close>

text \<open>The places that are protected, on the names of a path in lower case.\<close>

definition sensitive_place :: "pathbuf \<Rightarrow> bool" where
  "sensitive_place p \<longleftrightarrow>
     lit ''.ssh'' \<in> set (names p) \<or>
     (\<exists>us vs. names p = us @ lit ''.git'' # lit ''hooks'' # vs) \<or>
     (\<exists>us v vs. names p = us @ lit ''.git'' # lit ''modules'' # v # vs \<and> lit ''hooks'' \<in> set vs) \<or>
     (\<exists>us vs. names p = us @ lit ''.grok'' # lit ''hooks'' # vs) \<or>
     (\<exists>us f. names p = us @ [lit ''.grok'', lit f] \<and>
        f \<in> {''hooks-paths'', ''config.toml'', ''managed_config.toml'', ''requirements.toml'', ''sandbox.toml''}) \<or>
     (\<exists>us f. names p = us @ [lit ''.claude'', lit f] \<and> f \<in> {''settings.json'', ''settings.local.json''}) \<or>
     (\<exists>us. names p = us @ [lit ''.cursor'', lit ''hooks.json'']) \<or>
     (\<exists>us f. names p = us @ [lit f] \<and> f \<in> set STARTUP_FILES) \<or>
     (\<exists>rest. p = etc_path @ rest)"

section \<open>Lemmas\<close>

lemma has_pair_append: "has_pair a b (us @ lit a # lit b # vs)"
  by (induction us rule: induct_list012) auto

lemma has_module_hooks_append: "lit ''hooks'' \<in> set vs \<Longrightarrow> has_module_hooks (us @ lit ''.git'' # lit ''modules'' # v # vs)"
  by (induction us) auto

lemma ends_in_append: "ends_in (us @ [lit a, lit b]) [a, b]"
  by (simp add: ends_in_def suffix_def)

lemma config_file_protected:
  assumes "f \<in> {''config.toml'', ''managed_config.toml'', ''requirements.toml'', ''sandbox.toml''}"
  shows "protected_grok_config_file_with_home fs home p (us @ [lit ''.grok'', lit f]) \<noteq> None"
  using assms by (auto simp: protected_grok_config_file_with_home_def one_of_def nth_append Let_def)

lemma sensitive_protected:
  assumes "sensitive_place p"
  shows "protected_edit_reason fs home p \<noteq> None"
proof (rule ccontr)
  assume "\<not> ?thesis"
  then have none: "\<not> protected_grok_hook_root fs home p (names p)"
      "\<not> ends_in (names p) [''.claude'', ''settings.json'']" "\<not> ends_in (names p) [''.claude'', ''settings.local.json'']"
      "\<not> ends_in (names p) [''.cursor'', ''hooks.json'']" "\<not> protected_git_hooks_path (names p)"
      "lit ''.ssh'' \<notin> set (names p)" "\<not> one_of (if names p = [] then [] else last (names p)) STARTUP_FILES"
      "protected_grok_config_file_with_home fs home p (names p) = None" "\<not> prefix etc_path p"
    by (auto simp: protected_edit_reason_def Let_def split: if_splits option.splits)
  from assms show False
    unfolding sensitive_place_def
  proof (elim disjE exE conjE)
    fix us f assume "names p = us @ [lit ''.grok'', lit f]"
      "f \<in> {''hooks-paths'', ''config.toml'', ''managed_config.toml'', ''requirements.toml'', ''sandbox.toml''}"
    then show False
      using none(1,8) config_file_protected [of f fs home p us] ends_in_append [of us "''.grok''" "''hooks-paths''"]
      by (auto simp: protected_grok_hook_root_def)
  next
    fix us f assume "names p = us @ [lit ''.claude'', lit f]" "f \<in> {''settings.json'', ''settings.local.json''}"
    then show False using none(2,3) ends_in_append [of us "''.claude''" f] by auto
  next
    fix us f assume "names p = us @ [lit f]" "f \<in> set STARTUP_FILES"
    then show False using none(7) by (auto simp: one_of_def)
  qed (use none ends_in_append has_pair_append has_module_hooks_append in
        \<open>auto simp: protected_git_hooks_path_def protected_grok_hook_root_def\<close>)
qed

lemma silent_edit_not_protected:
  assumes "response (handle_request cfg st w (AEdit path)) = Some Allow"
    "\<not> ev_prompted (event (handle_request cfg st w (AEdit path)))" "\<not> yolo_mode st"
  shows "protected_edit cfg w (AEdit path) = None"
proof (rule ccontr)
  let ?f = "facts_of cfg st w (AEdit path) None"
  assume "\<not> ?thesis"
  then have f: "f_protected ?f" by (simp add: facts_of_def)
  have acc: "f_access ?f = AEdit path" "f_eval ?f = None" by (simp_all add: facts_of_def)
  have early: "early_stage cfg st ?f = None \<or> (\<exists>r. early_stage cfg st ?f = Some r \<and> response r \<noteq> Some Allow)"
    using f assms(3) by (auto simp: early_stage_def early_grant_def unforced_def decided_def split: option.split decision.split)
  have auto: "auto_stage st w ?f = AutoPass \<or> (\<exists>reason. auto_stage st w ?f = AutoForced reason)"
    using f by (auto simp: auto_stage_def auto_mode_fast_path_def)
  have "pre_decision cfg st ?f b \<noteq> Some (Allow, r)" for b r
    using f acc by (auto simp: pre_decision_def access_pre_decision_def split: if_splits)
  moreover have "late_policy ?f \<noteq> Some Allow" using f by (auto simp: late_policy_def split: option.splits decision.splits if_splits)
  moreover have "\<not> sandbox_allows w ?f b" for b using acc by (simp add: sandbox_allows_def)
  ultimately have late: "response (late_stage cfg st w ?f a) \<noteq> Some Allow \<or> ev_prompted (event (late_stage cfg st w ?f a))" for a
    by (auto simp: late_stage_def decided_def abandoned_def prompt_stage_def Let_def split: option.split prod.split)
  have "handle_request cfg st w (AEdit path) = handle_facts cfg st w ?f \<or> handle_request cfg st w (AEdit path) = abandoned st"
    by (simp add: handle_request_def bash_facts_def)
  then show False
    using assms(1,2) early auto late by (auto simp: handle_facts_def abandoned_def split: option.splits)
qed

section \<open>Properties\<close>

text \<open>C6: Protected files are never edited silently. An edit that is allowed without a prompt, with
  always-approve off, has a target whose links can all be followed, and neither the path as
  written, with dots removed, nor the file that the links lead to is a protected place: keys,
  hooks of git or of the program, start-up files of a shell, settings that change permissions, or
  the system configuration under any alias of it.\<close>

theorem silent_edit_is_unprotected:
  assumes "response (handle_request cfg st w (AEdit path)) = Some Allow"
    and "\<not> ev_prompted (event (handle_request cfg st w (AEdit path)))" and "\<not> yolo_mode st"
  shows "\<exists>resolved etc. path_is_absolute (edit_target cfg w path) \<and>
           resolve_following_symlinks (file_view (cfg_env cfg)) (edit_target cfg w path) = Some resolved \<and>
           \<not> sensitive_place (normalize_lexically (edit_target cfg w path)) \<and> \<not> sensitive_place resolved \<and>
           resolve_following_symlinks (file_view (cfg_env cfg)) etc_path = Some etc \<and> \<not> prefix etc resolved"
proof -
  have "edit_target_protection (file_view (cfg_env cfg)) (cfg_grok_home cfg) (edit_target cfg w path) = None"
    using silent_edit_not_protected [OF assms] by (simp add: protected_edit_def)
  then obtain resolved etc where "path_is_absolute (edit_target cfg w path)"
    "resolve_following_symlinks (file_view (cfg_env cfg)) (edit_target cfg w path) = Some resolved"
    "protected_edit_reason (file_view (cfg_env cfg)) (cfg_grok_home cfg) (normalize_lexically (edit_target cfg w path)) = None"
    "protected_edit_reason (file_view (cfg_env cfg)) (cfg_grok_home cfg) resolved = None"
    "resolve_following_symlinks (file_view (cfg_env cfg)) etc_path = Some etc" "\<not> prefix etc resolved"
    by (auto simp: edit_target_protection_def resolved_path_is_within_root_def split: if_splits option.splits)
  then show ?thesis using sensitive_protected by metis
qed

theorem silent_edit_is_unprotected_witness:
  "\<exists>resolved etc. path_is_absolute (edit_target (file_config []) example_world (lit ''src/a.rs'')) \<and>
     resolve_following_symlinks (file_view (cfg_env (file_config []))) (edit_target (file_config []) example_world (lit ''src/a.rs'')) =
       Some resolved \<and>
     \<not> sensitive_place (normalize_lexically (edit_target (file_config []) example_world (lit ''src/a.rs''))) \<and>
     \<not> sensitive_place resolved \<and>
     resolve_following_symlinks (file_view (cfg_env (file_config []))) etc_path = Some etc \<and> \<not> prefix etc resolved"
proof (rule silent_edit_is_unprotected)
  let ?st = "(spawn (file_config []) default_state True False)\<lparr>allow_edits_for_session := True\<rparr>"
  show "response (handle_request (file_config []) ?st example_world (AEdit (lit ''src/a.rs''))) = Some Allow" by code_simp
  show "\<not> ev_prompted (event (handle_request (file_config []) ?st example_world (AEdit (lit ''src/a.rs''))))" by code_simp
  show "\<not> yolo_mode ?st" by code_simp
qed

end
