(* ===== verification/PathNormal.thy ===== *)
theory PathNormal
  imports ShellFiles
begin

text \<open>
  What the lexical normalization of shell paths guarantees: in a file system without links the
  normalized path leads to the same place from every directory, as long as it has the same kind of start,
  and normalizing again changes nothing.
\<close>

section \<open>Specification\<close>

text \<open>A path in normal form: names, behind two dots only if the path is relative.\<close>

definition plain_name :: "rstr \<Rightarrow> bool" where
  "plain_name s \<longleftrightarrow> s \<noteq> [] \<and> s \<noteq> lit ''.'' \<and> s \<noteq> lit ''..'' \<and> 47 \<notin> set s"

definition normal_form :: "bool \<Rightarrow> rstr list \<Rightarrow> bool" where
  "normal_form absolute segs \<longleftrightarrow>
     (\<exists>n ns. segs = replicate n (lit ''..'') @ ns \<and> list_all plain_name ns \<and> (absolute \<longrightarrow> n = 0))"

text \<open>Where a path leads in a file system without links, from a directory.\<close>

definition go :: "rstr list \<Rightarrow> rstr \<Rightarrow> rstr list" where
  "go dir seg = (if seg = [] \<or> seg = lit ''.'' then dir else if seg = lit ''..'' then butlast dir else dir @ [seg])"

definition location :: "rstr list \<Rightarrow> rstr \<Rightarrow> rstr \<times> rstr list" where
  "location dir path =
     (let k = (if has_drive path then 2 else 0); rest = drop k path
      in (take k path, foldl go (if starts_with (lit ''/'') rest then [] else dir) (split_char 47 rest)))"

section \<open>Lemmas\<close>

lemma dots_distinct [simp]: "lit ''..'' \<noteq> []" "lit ''..'' \<noteq> lit ''.''" "lit ''.'' \<noteq> []" "47 \<notin> set (lit ''..'')"
  by (simp_all add: lit_def)

lemma plain_not_dots [simp]: "\<not> plain_name (lit ''..'')" "\<not> plain_name (lit ''.'')" "\<not> plain_name []"
  by (simp_all add: plain_name_def)

lemma go_simps [simp]: "plain_name m \<Longrightarrow> go dir m = dir @ [m]" "go dir (lit ''..'') = butlast dir" "go dir [] = dir"
  by (auto simp: go_def plain_name_def)

lemma foldl_go_plain: "list_all plain_name ns \<Longrightarrow> foldl go dir ns = dir @ ns"
  by (induction ns arbitrary: dir) (auto simp: go_def plain_name_def)

lemma normal_formI: "list_all plain_name ns \<Longrightarrow> (absolute \<longrightarrow> n = 0) \<Longrightarrow> normal_form absolute (replicate n (lit ''..'') @ ns)"
  unfolding normal_form_def by blast

lemma normal_step_normal:
  assumes "normal_form absolute out" "47 \<notin> set seg" "absolute \<longrightarrow> dir = []"
  shows "normal_form absolute (normal_step absolute out seg)"
    and "foldl go dir (normal_step absolute out seg) = go (foldl go dir out) seg"
proof -
  obtain n ns where out: "out = replicate n (lit ''..'') @ ns" "list_all plain_name ns" "absolute \<longrightarrow> n = 0"
    using assms(1) by (auto simp: normal_form_def)
  have all: "normal_form absolute (normal_step absolute out seg) \<and>
      foldl go dir (normal_step absolute out seg) = go (foldl go dir out) seg"
  proof -
    consider "seg = [] \<or> seg = lit ''.''" | "seg = lit ''..''" "ns = []" | m ms where "seg = lit ''..''" "ns = ms @ [m]"
      | "plain_name seg"
      using assms(2) by (cases ns rule: rev_cases) (auto simp: plain_name_def)
    then show ?thesis
    proof cases
      case 1 then show ?thesis using assms(1) by (auto simp: normal_step_def go_def)
    next
      case 2
      then have "normal_step absolute out seg = (if absolute then [] else out @ [lit ''..''])"
        using out by (auto simp: normal_step_def lit_def)
      moreover have "normal_form False (out @ [lit ''..''])"
        unfolding normal_form_def by (rule exI [of _ "Suc n"], rule exI [of _ "[]"]) (simp add: out(1) 2 replicate_append_same)
      ultimately show ?thesis using out 2 assms(3) by (auto simp: normal_form_def go_def)
    next
      case 3
      then have "normal_step absolute out seg = replicate n (lit ''..'') @ ms"
        using out by (auto simp: normal_step_def butlast_append lit_def plain_name_def)
      then show ?thesis using out 3 by (auto simp: normal_form_def foldl_go_plain butlast_append)
    next
      case 4
      then have "normal_step absolute out seg = replicate n (lit ''..'') @ (ns @ [seg])"
        using out(1) by (auto simp: normal_step_def plain_name_def)
      then show ?thesis using 4 out normal_formI [of "ns @ [seg]" absolute n] by (simp add: foldl_go_plain)
    qed
  qed
  then show "normal_form absolute (normal_step absolute out seg)"
    and "foldl go dir (normal_step absolute out seg) = go (foldl go dir out) seg" by blast+
qed

lemma normal_fold:
  assumes "normal_form absolute out" "\<forall>s \<in> set segs. 47 \<notin> set s" "absolute \<longrightarrow> dir = []"
  shows "normal_form absolute (foldl (normal_step absolute) out segs) \<and>
         foldl go dir (foldl (normal_step absolute) out segs) = foldl go (foldl go dir out) segs"
  using assms(1,2)
proof (induction segs arbitrary: out)
  case (Cons s segs)
  from normal_step_normal [OF Cons.prems(1) _ assms(3), of s] Cons.prems(2)
  have "normal_form absolute (normal_step absolute out s)"
    "foldl go dir (normal_step absolute out s) = go (foldl go dir out) s" by auto
  with Cons.IH [OF this(1)] Cons.prems(2) show ?case by simp
qed simp

lemma split_char_no_slash: "s \<in> set (split_char d p) \<Longrightarrow> d \<notin> set s"
  by (induction d p arbitrary: s rule: split_char.induct) (auto split: if_splits list.splits)

lemma normal_segments_spec:
  assumes "absolute \<longrightarrow> dir = []"
  shows "normal_form absolute (normal_segments absolute rest)"
    and "foldl go dir (normal_segments absolute rest) = foldl go dir (split_char 47 rest)"
proof -
  have "normal_form absolute []" by (auto simp: normal_form_def)
  from normal_fold [OF this _ assms, of "split_char 47 rest"] split_char_no_slash
  show "normal_form absolute (normal_segments absolute rest)"
    and "foldl go dir (normal_segments absolute rest) = foldl go dir (split_char 47 rest)"
    by (auto simp: normal_segments_def)
qed

text \<open>What a normalized text splits into.\<close>

lemma split_normal:
  assumes "normal_form absolute segs"
  shows "filter (\<lambda>s. s \<noteq> []) (split_char 47 ((if absolute then lit ''/'' else []) @ join (lit ''/'') segs)) = segs"
    and "starts_with (lit ''/'') ((if absolute then lit ''/'' else []) @ join (lit ''/'') segs) = absolute"
proof -
  obtain n ns where form: "segs = replicate n (lit ''..'') @ ns" "list_all plain_name ns"
    using assms by (auto simp: normal_form_def)
  have slash: "lit ''/'' = [47]" by (simp add: lit_def)
  have segs: "\<forall>s \<in> set segs. s \<noteq> [] \<and> 47 \<notin> set s"
  proof
    fix s assume "s \<in> set segs"
    then have "s = lit ''..'' \<or> plain_name s" using form by (auto simp: list_all_iff)
    then show "s \<noteq> [] \<and> 47 \<notin> set s"
    proof
      assume "s = lit ''..''"
      then show ?thesis by (simp add: lit_def)
    qed (simp add: plain_name_def)
  qed
  have "split_char 47 (join [47] segs) = segs" if "segs \<noteq> []" using split_char_join [OF that] segs by blast
  then have "split_char 47 (join (lit ''/'') segs) = (if segs = [] then [[]] else segs)"
    unfolding slash by (cases "segs = []") simp_all
  moreover have "filter (\<lambda>s. s \<noteq> []) segs = segs" using segs by (simp add: filter_id_conv)
  moreover have "split_char 47 (lit ''/'' @ p) = [] # split_char 47 p" for p by (simp add: lit_def)
  ultimately show "filter (\<lambda>s. s \<noteq> []) (split_char 47 ((if absolute then lit ''/'' else []) @ join (lit ''/'') segs)) = segs"
    by (cases absolute) simp_all
  show "starts_with (lit ''/'') ((if absolute then lit ''/'' else []) @ join (lit ''/'') segs) = absolute"
  proof (cases segs)
    case (Cons s ss)
    with segs obtain c t where "s = c # t" "c \<noteq> 47" by (cases s) auto
    with Cons show ?thesis by (cases ss) (simp_all add: lit_def starts_with_def)
  qed (simp add: lit_def starts_with_def)
qed

lemma go_filter: "foldl go dir (filter (\<lambda>s. s \<noteq> []) segs) = foldl go dir segs"
  by (induction segs arbitrary: dir) (auto simp: go_def)

lemma normal_step_filter:
  "foldl (normal_step absolute) out (filter (\<lambda>s. s \<noteq> []) segs) = foldl (normal_step absolute) out segs"
  by (induction segs arbitrary: out) (auto simp: normal_step_def)

lemma normal_segments_id:
  assumes "normal_form absolute segs"
  shows "foldl (normal_step absolute) [] segs = segs"
proof -
  obtain n ns where segs: "segs = replicate n (lit ''..'') @ ns" "list_all plain_name ns" "absolute \<longrightarrow> n = 0"
    using assms by (auto simp: normal_form_def)
  have names: "foldl (normal_step absolute) out ns = out @ ns" for out
    using segs(2) by (induction ns arbitrary: out) (auto simp: normal_step_def plain_name_def)
  have dots: "normal_step False (replicate k (lit ''..'')) (lit ''..'') = replicate (Suc k) (lit ''..'')" for k
    by (cases "k = 0") (simp_all add: normal_step_def replicate_append_same)
  have "foldl (normal_step False) (replicate k (lit ''..'')) (replicate n (lit ''..'')) = replicate (k + n) (lit ''..'')" for k
  proof (induction n arbitrary: k)
    case (Suc n)
    then show ?case using dots [of k] Suc [of "Suc k"] by simp
  qed simp
  from this [of 0] have "foldl (normal_step absolute) [] (replicate n (lit ''..'')) = replicate n (lit ''..'')"
    using segs(3) by (cases absolute) auto
  then show ?thesis using segs(1) names by simp
qed

section \<open>Properties\<close>

text \<open>C24: Normalization keeps the meaning of a path, when two dots are read without links and the start of the path
  stays of the same kind. Removing empty segments, dots and two dots from a shell path gives a path that leads to the same
  place from every directory, and that normalization leaves alone, provided that the path and the result both have a drive
  or both have none and that neither starts in the home directory with a tilde and a slash. Where the start changes its
  kind, the meaning is lost: see the two facts below.\<close>

theorem normalize_keeps_location:
  assumes "has_drive (lexical_normalize path) = has_drive path"
    and "\<not> starts_with (lit ''~/'') path" and "\<not> starts_with (lit ''~/'') (lexical_normalize path)"
  shows "location dir (lexical_normalize path) = location dir path \<and>
         lexical_normalize (lexical_normalize path) = lexical_normalize path"
proof -
  define k where "k = (if has_drive path then 2 else (0::nat))"
  define absolute where "absolute = starts_with (lit ''/'') (drop k path)"
  define segs where "segs = normal_segments absolute (drop k path)"
  define body where "body = (if absolute then lit ''/'' else []) @ join (lit ''/'') segs"
  have norm: "lexical_normalize path = take k path @ body"
    by (simp add: lexical_normalize_def Let_def k_def absolute_def segs_def body_def)
  have k: "length (take k path) = k" by (auto simp: k_def has_drive_def split: list.splits)
  have nf: "normal_form absolute segs" unfolding segs_def by (rule normal_segments_spec(1) [where dir = "[]"]) simp
  note split = split_normal [OF nf, folded body_def]
  have "foldl go (if absolute then [] else dir) (split_char 47 body) = foldl go (if absolute then [] else dir) segs"
    using go_filter [of _ "split_char 47 body"] split(1) by simp
  also have "\<dots> = foldl go (if absolute then [] else dir) (split_char 47 (drop k path))"
    unfolding segs_def by (rule normal_segments_spec(2)) simp
  finally have same: "location dir (lexical_normalize path) = location dir path"
    using assms(1) k split(2) by (simp add: location_def Let_def norm flip: k_def absolute_def)
  have "normal_segments absolute body = segs"
    unfolding normal_segments_def using normal_step_filter [of absolute "[]" "split_char 47 body"] split(1) normal_segments_id [OF nf]
    by simp
  then have "lexical_normalize (lexical_normalize path) = lexical_normalize path"
    using assms(1) k split(2) by (subst lexical_normalize_def) (simp add: Let_def norm body_def flip: k_def)
  with same show ?thesis ..
qed

theorem normalize_keeps_location_witness:
  "location [lit ''w''] (lexical_normalize (lit ''a//./b/../../../c'')) = location [lit ''w''] (lit ''a//./b/../../../c'') \<and>
   lexical_normalize (lexical_normalize (lit ''a//./b/../../../c'')) = lexical_normalize (lit ''a//./b/../../../c'')"
  by (rule normalize_keeps_location) code_simp+

text \<open>A drive appears: the file \<open>c:x\<close> of the current directory, written with a dot in front, normalizes to
  a text that counts as absolute and is not joined with the directory.\<close>

lemma relative_becomes_drive:
  "lexical_normalize (lit ''./c:x'') = lit ''c:x'' \<and> \<not> is_absolute_shell_path (lit ''./c:x'') \<and>
   is_absolute_shell_path (lit ''c:x'')"
  by code_simp

text \<open>A home directory disappears or appears: two dots remove the tilde like a name, so that a path outside of the
  directory becomes relative to it, and a dot in front of a directory named by a tilde is removed.\<close>

lemma tilde_is_a_name:
  "lexical_normalize (lit ''~/../x'') = lit ''x'' \<and> is_absolute_shell_path (lit ''~/../x'') \<and> \<not> is_absolute_shell_path (lit ''x'')"
  "lexical_normalize (lit ''./~/x'') = lit ''~/x'' \<and> \<not> is_absolute_shell_path (lit ''./~/x'') \<and> is_absolute_shell_path (lit ''~/x'')"
  by code_simp+

end
