(* ===== verification/HunkDiff.thy ===== *)
theory HunkDiff
  imports ShellFiles Utf8
begin

text \<open>
  Hunks of the hunk tracker and their computation (\<open>xai-hunk-tracker/src/types.rs\<close>, \<open>diff.rs\<close>). The line diff
  of the \<open>similar\<close> crate is an argument; what the tracker relies on is \<open>diff_contract\<close>. Identifiers, which
  are random in the source, are numbers that a counter gives out; time stamps are left out.
\<close>

section \<open>Types\<close>

record hunk_line_info =
  old_start :: nat
  old_count :: nat
  new_start :: nat
  new_count :: nat

datatype hunk_source = AgentEdit nat | ExternalEditOnAgentFile | External

definition is_agent_edit :: "hunk_source \<Rightarrow> bool" where
  "is_agent_edit s = (case s of AgentEdit _ \<Rightarrow> True | _ \<Rightarrow> False)"

definition is_external :: "hunk_source \<Rightarrow> bool" where
  "is_external s = (case s of AgentEdit _ \<Rightarrow> False | _ \<Rightarrow> True)"

definition prompt_index :: "hunk_source \<Rightarrow> nat option" where
  "prompt_index s = (case s of AgentEdit p \<Rightarrow> Some p | _ \<Rightarrow> None)"

type_synonym hunk_id = nat

record tracked_hunk =
  h_id :: hunk_id
  h_path :: pathbuf
  line_info :: hunk_line_info
  h_source :: hunk_source
  old_text :: "rstr option"
  new_text :: rstr
  h_patch :: "rstr option"

definition file_created :: "hunk_id \<Rightarrow> pathbuf \<Rightarrow> rstr \<Rightarrow> hunk_source \<Rightarrow> tracked_hunk" where
  "file_created i p content src =
     \<lparr>h_id = i, h_path = p,
      line_info = \<lparr>old_start = 0, old_count = 0, new_start = 1, new_count = max (length (lines content)) 1\<rparr>,
      h_source = src, old_text = None, new_text = content, h_patch = None\<rparr>"

definition file_deleted :: "hunk_id \<Rightarrow> pathbuf \<Rightarrow> rstr \<Rightarrow> hunk_source \<Rightarrow> tracked_hunk" where
  "file_deleted i p content src =
     \<lparr>h_id = i, h_path = p,
      line_info = \<lparr>old_start = 1, old_count = max (length (lines content)) 1, new_start = 0, new_count = 0\<rparr>,
      h_source = src, old_text = Some content, new_text = [], h_patch = None\<rparr>"

definition hunk_summary :: "tracked_hunk \<Rightarrow> rstr" where
  "hunk_summary h =
     lit ''+'' @ decimal (length (lines (new_text h))) @ lit ''/-'' @
     decimal (case old_text h of None \<Rightarrow> 0 | Some t \<Rightarrow> length (lines t))"

section \<open>Computing hunks\<close>

datatype change_tag = Equal | Delete | Insert

text \<open>The \<open>similar\<close> crate and its clock: the changes of a line diff, and whether it ran into the timeout.\<close>

record differ =
  diff_lines :: "rstr \<Rightarrow> rstr \<Rightarrow> (change_tag \<times> rstr) list"
  diff_timed_out :: "rstr \<Rightarrow> rstr \<Rightarrow> bool"

definition CONTEXT_LINES :: nat where "CONTEXT_LINES = 3"
definition MAX_DIFF_FILE_SIZE :: nat where "MAX_DIFF_FILE_SIZE = 1048576"

record hunk_builder =
  b_old_start :: nat
  b_new_start :: nat
  b_old_lines :: "rstr list"
  b_new_lines :: "rstr list"

definition new_builder :: "nat \<Rightarrow> nat \<Rightarrow> hunk_builder" where
  "new_builder ol nl = \<lparr>b_old_start = ol, b_new_start = nl, b_old_lines = [], b_new_lines = []\<rparr>"

definition add_old_line :: "rstr \<Rightarrow> hunk_builder \<Rightarrow> hunk_builder" where
  "add_old_line l b = b\<lparr>b_old_lines := b_old_lines b @ [l]\<rparr>"

definition add_new_line :: "rstr \<Rightarrow> hunk_builder \<Rightarrow> hunk_builder" where
  "add_new_line l b = b\<lparr>b_new_lines := b_new_lines b @ [l]\<rparr>"

definition build_hunk :: "hunk_id \<Rightarrow> pathbuf \<Rightarrow> hunk_source \<Rightarrow> hunk_builder \<Rightarrow> tracked_hunk" where
  "build_hunk i p src b =
     \<lparr>h_id = i, h_path = p,
      line_info = \<lparr>old_start = b_old_start b, old_count = length (b_old_lines b),
                   new_start = b_new_start b, new_count = length (b_new_lines b)\<rparr>,
      h_source = src,
      old_text = (if b_old_lines b = [] then None else Some (concat (b_old_lines b))),
      new_text = concat (b_new_lines b), h_patch = None\<rparr>"

text \<open>The loop over all changes; \<open>get_or_insert_with\<close> starts a builder at the current lines.\<close>

definition builder_or_new :: "hunk_builder option \<Rightarrow> nat \<Rightarrow> nat \<Rightarrow> hunk_builder" where
  "builder_or_new b ol nl = (case b of Some b \<Rightarrow> b | None \<Rightarrow> new_builder ol nl)"

fun changes_loop ::
  "pathbuf \<Rightarrow> hunk_source \<Rightarrow> hunk_id \<Rightarrow> nat \<Rightarrow> nat \<Rightarrow> hunk_builder option \<Rightarrow> (change_tag \<times> rstr) list \<Rightarrow> tracked_hunk list" where
  "changes_loop p src i ol nl b [] = (case b of None \<Rightarrow> [] | Some b \<Rightarrow> [build_hunk i p src b])"
| "changes_loop p src i ol nl b ((Equal, l) # cs) =
     (case b of
        None \<Rightarrow> changes_loop p src i (ol + 1) (nl + 1) None cs
      | Some b \<Rightarrow> build_hunk i p src b # changes_loop p src (i + 1) (ol + 1) (nl + 1) None cs)"
| "changes_loop p src i ol nl b ((Delete, l) # cs) =
     changes_loop p src i (ol + 1) nl (Some (add_old_line l (builder_or_new b ol nl))) cs"
| "changes_loop p src i ol nl b ((Insert, l) # cs) =
     changes_loop p src i ol (nl + 1) (Some (add_new_line l (builder_or_new b ol nl))) cs"

definition over_diff_limit :: "rstr \<Rightarrow> bool" where
  "over_diff_limit t \<longleftrightarrow> byte_len t > MAX_DIFF_FILE_SIZE"

lemma over_diff_limit_code [code]: "over_diff_limit t \<longleftrightarrow> int (byte_len t) > 1048576"
  by (simp add: over_diff_limit_def MAX_DIFF_FILE_SIZE_def)

definition compute_hunks ::
  "differ \<Rightarrow> hunk_id \<Rightarrow> pathbuf \<Rightarrow> rstr \<Rightarrow> rstr \<Rightarrow> hunk_source \<Rightarrow> tracked_hunk list" where
  "compute_hunks d i p baseline current src =
     (if baseline = current then []
      else if over_diff_limit baseline \<or> over_diff_limit current then []
      else if diff_timed_out d baseline current then []
      else changes_loop p src i 1 1 None (diff_lines d baseline current))"

section \<open>Patching\<close>

definition patch_lines :: "rstr \<Rightarrow> nat \<Rightarrow> nat \<Rightarrow> rstr \<Rightarrow> rstr" where
  "patch_lines content start_line remove_count insert_text =
     (let ls = lines content;
          start_idx = start_line - 1;
          result = take start_idx ls @ (if insert_text = [] then [] else lines insert_text) @
                   drop (min (start_idx + remove_count) (length ls)) ls;
          output = join [newline] result
      in if ends_with [newline] content \<and> output \<noteq> [] then output @ [newline] else output)"

text \<open>One hunk put into the old text, and taken out of the new one.\<close>

definition accepted_text :: "tracked_hunk \<Rightarrow> rstr \<Rightarrow> rstr" where
  "accepted_text h t = patch_lines t (old_start (line_info h)) (old_count (line_info h)) (new_text h)"

definition rejected_text :: "tracked_hunk \<Rightarrow> rstr \<Rightarrow> rstr" where
  "rejected_text h t =
     patch_lines t (new_start (line_info h)) (new_count (line_info h)) (case old_text h of None \<Rightarrow> [] | Some x \<Rightarrow> x)"

text \<open>\<open>sort_by_key(|h| Reverse(..))\<close>, a stable sort.\<close>

definition sorted_by_reverse :: "(tracked_hunk \<Rightarrow> nat) \<Rightarrow> tracked_hunk list \<Rightarrow> tracked_hunk list" where
  "sorted_by_reverse k hs = sort_key (\<lambda>h. - int (k h)) hs"

definition accept_all_text :: "tracked_hunk list \<Rightarrow> rstr \<Rightarrow> rstr" where
  "accept_all_text hs t = fold accepted_text (sorted_by_reverse (\<lambda>h. old_start (line_info h)) hs) t"

definition reject_all_text :: "tracked_hunk list \<Rightarrow> rstr \<Rightarrow> rstr" where
  "reject_all_text hs t = fold rejected_text (sorted_by_reverse (\<lambda>h. new_start (line_info h)) hs) t"

section \<open>Matching\<close>

definition hunks_match_content :: "tracked_hunk \<Rightarrow> tracked_hunk \<Rightarrow> bool" where
  "hunks_match_content a b \<longleftrightarrow> h_path a = h_path b \<and> old_text a = old_text b \<and> new_text a = new_text b"

definition hunk_moved :: "tracked_hunk \<Rightarrow> tracked_hunk \<Rightarrow> bool" where
  "hunk_moved old new \<longleftrightarrow> hunks_match_content old new \<and> line_info old \<noteq> line_info new"

definition hunks_overlap :: "tracked_hunk \<Rightarrow> tracked_hunk \<Rightarrow> bool" where
  "hunks_overlap a b =
     (let a_start = old_start (line_info a); a_end = a_start + old_count (line_info a);
          b_start = old_start (line_info b); b_end = b_start + old_count (line_info b)
      in if h_path a \<noteq> h_path b then False
         else if old_count (line_info a) = 0 \<and> old_count (line_info b) = 0 then a_start = b_start
         else if old_count (line_info a) = 0 then b_start \<le> a_start \<and> a_start \<le> b_end
         else if old_count (line_info b) = 0 then a_start \<le> b_start \<and> b_start \<le> a_end
         else \<not> (a_end < b_start \<or> b_end < a_start))"

definition calculate_overlap_size :: "hunk_line_info \<Rightarrow> hunk_line_info \<Rightarrow> nat" where
  "calculate_overlap_size a b =
     min (old_start a + old_count a) (old_start b + old_count b) - max (old_start a) (old_start b)"

definition abs_diff :: "nat \<Rightarrow> nat \<Rightarrow> nat" where
  "abs_diff a b = (if a < b then b - a else a - b)"

text \<open>\<open>min_by_key\<close> gives the first of the least elements, \<open>max_by_key\<close> the last of the greatest.\<close>

fun min_by_key :: "('a \<Rightarrow> nat) \<Rightarrow> 'a list \<Rightarrow> 'a option" where
  "min_by_key k [] = None"
| "min_by_key k (x # xs) =
     (case min_by_key k xs of None \<Rightarrow> Some x | Some y \<Rightarrow> if k x \<le> k y then Some x else Some y)"

fun max_by_key :: "('a \<Rightarrow> nat) \<Rightarrow> 'a list \<Rightarrow> 'a option" where
  "max_by_key k [] = None"
| "max_by_key k (x # xs) =
     (case max_by_key k xs of None \<Rightarrow> Some x | Some y \<Rightarrow> if k x \<le> k y then Some y else Some x)"

definition find_matching_old_hunk :: "tracked_hunk \<Rightarrow> tracked_hunk list \<Rightarrow> tracked_hunk option" where
  "find_matching_old_hunk new olds =
     (let content_matches = filter (\<lambda>old. hunks_match_content old new) olds
      in if content_matches \<noteq> [] then
           min_by_key (\<lambda>old. abs_diff (new_start (line_info old)) (new_start (line_info new))) content_matches
         else
           max_by_key (\<lambda>old. calculate_overlap_size (line_info old) (line_info new))
             (filter (\<lambda>old. hunks_overlap old new) olds))"

definition find_overlapping_hunks :: "tracked_hunk \<Rightarrow> tracked_hunk list \<Rightarrow> tracked_hunk list" where
  "find_overlapping_hunks new olds = filter (\<lambda>old. hunks_overlap old new) olds"

section \<open>Patch texts\<close>

text \<open>\<open>writeln!\<close> of a line with a mark in front.\<close>

definition marked :: "string \<Rightarrow> rstr list \<Rightarrow> rstr" where
  "marked m ls = concat (map (\<lambda>l. lit m @ l @ [newline]) ls)"

definition header_line :: "nat \<Rightarrow> nat \<Rightarrow> nat \<Rightarrow> nat \<Rightarrow> rstr" where
  "header_line os oc ns nc =
     lit ''@@ -'' @ decimal os @ lit '','' @ decimal oc @ lit '' +'' @ decimal ns @ lit '','' @ decimal nc @ lit '' @@'' @ [newline]"

definition hunk_body :: "tracked_hunk \<Rightarrow> rstr" where
  "hunk_body h =
     (case old_text h of None \<Rightarrow> [] | Some t \<Rightarrow> marked ''-'' (lines t)) @ marked ''+'' (lines (new_text h))"

definition format_unified_diff :: "tracked_hunk \<Rightarrow> rstr" where
  "format_unified_diff h =
     lit ''--- a/'' @ path_text (h_path h) @ [newline] @ lit ''+++ b/'' @ path_text (h_path h) @ [newline] @
     header_line (old_start (line_info h)) (old_count (line_info h)) (new_start (line_info h)) (new_count (line_info h)) @
     hunk_body h"

text \<open>\<open>None\<close> stands for the underflow of a subtraction of line numbers.\<close>

definition checked_sub :: "nat \<Rightarrow> nat \<Rightarrow> nat option" where
  "checked_sub a b = (if b \<le> a then Some (a - b) else None)"

definition generate_hunk_patch :: "rstr \<Rightarrow> rstr \<Rightarrow> tracked_hunk \<Rightarrow> rstr option" where
  "generate_hunk_patch baseline current h =
     (let old_lines = lines baseline; new_lines = lines current; info = line_info h;
          old_start_idx = old_start info - 1;
          new_start_idx = new_start info - 1;
          context_before_start = old_start_idx - CONTEXT_LINES;
          changes_end_new = new_start_idx + new_count info;
          context_after_end = min (changes_end_new + CONTEXT_LINES) (length new_lines);
          changes_end_old = old_start_idx + old_count info;
          context_after_end_old = min (changes_end_old + CONTEXT_LINES) (length old_lines);
          before = old_start_idx - context_before_start
      in case (checked_sub context_after_end_old changes_end_old, checked_sub context_after_end changes_end_new) of
           (Some after_old, Some after_new) \<Rightarrow>
             Some
               (header_line (context_before_start + 1) (before + old_count info + after_old)
                  (context_before_start + 1) (before + new_count info + after_new) @
                marked '' '' (drop context_before_start (take old_start_idx old_lines)) @
                hunk_body h @
                marked '' '' (drop changes_end_new (take context_after_end new_lines)))
         | _ \<Rightarrow> None)"

end
