(* ===== verification/HunkFiles.thy ===== *)
theory HunkFiles
  imports HunkDiff ProtectedEdit
begin

text \<open>
  What the hunk tracker knows of a file (\<open>xai-hunk-tracker/src/actor/state.rs\<close>, \<open>file_utils.rs\<close>) and what it reads
  from git (\<open>git.rs\<close>). The entries of the file system and the answers of the \<open>gix\<close> crate are arguments.
\<close>

section \<open>Contents\<close>

definition MAX_TRACKED_TEXT_BYTES :: nat where "MAX_TRACKED_TEXT_BYTES = 1048576"

definition over_text_limit :: "nat \<Rightarrow> bool" where
  "over_text_limit n \<longleftrightarrow> n > MAX_TRACKED_TEXT_BYTES"

lemma over_text_limit_code [code]: "over_text_limit n \<longleftrightarrow> int n > 1048576"
  by (simp add: over_text_limit_def MAX_TRACKED_TEXT_BYTES_def)

datatype file_content_state =
  Missing
| Binary "nat option"
| TooLarge nat
| LfsPointer nat
| Symlink
| Full rstr

definition content_as_str :: "file_content_state \<Rightarrow> rstr option" where
  "content_as_str c = (case c of Full s \<Rightarrow> Some s | _ \<Rightarrow> None)"

definition is_diffable :: "file_content_state \<Rightarrow> bool" where
  "is_diffable c = (case c of Full _ \<Rightarrow> True | _ \<Rightarrow> False)"

definition LFS_POINTER_PREFIX :: bytes where
  "LFS_POINTER_PREFIX = as_bytes (lit ''version https://git-lfs.github.com/spec/v1'' @ [newline])"

definition pointer_sized :: "bytes \<Rightarrow> bool" where
  "pointer_sized bs \<longleftrightarrow> length bs < 1024"

lemma pointer_sized_code [code]: "pointer_sized bs \<longleftrightarrow> int (length bs) < 1024"
  by (simp add: pointer_sized_def)

definition is_lfs_pointer :: "bytes \<Rightarrow> bool" where
  "is_lfs_pointer bs \<longleftrightarrow> pointer_sized bs \<and> starts_with LFS_POINTER_PREFIX bs"

text \<open>At most the first 8000 bytes.\<close>

definition head_bytes :: "bytes \<Rightarrow> bytes" where
  "head_bytes bs = take (min (length bs) 8000) bs"

lemma head_bytes_take: "head_bytes bs = take 8000 bs"
  by (cases "8000 \<le> length bs") (simp_all add: head_bytes_def min_def)

lemma head_bytes_code [code]: "head_bytes bs = (if int (length bs) \<le> 8000 then bs else take 8000 bs)"
  by (simp add: head_bytes_take)

definition is_binary :: "bytes \<Rightarrow> bool" where
  "is_binary bs \<longleftrightarrow> 0 \<in> set (head_bytes bs)"

text \<open>\<open>String::from_utf8\<close>: the text whose encoding the bytes are.\<close>

definition from_utf8 :: "bytes \<Rightarrow> rstr option" where
  "from_utf8 bs = (let s = from_utf8_lossy bs in if as_bytes s = bs then Some s else None)"

definition text_or_binary :: "nat \<Rightarrow> bytes \<Rightarrow> file_content_state" where
  "text_or_binary len bs = (case from_utf8 bs of Some s \<Rightarrow> Full s | None \<Rightarrow> Binary (Some len))"

definition classify_bytes :: "bytes \<Rightarrow> file_content_state" where
  "classify_bytes bs =
     (if over_text_limit (length bs) then TooLarge (length bs)
      else if is_lfs_pointer bs then LfsPointer (length bs)
      else if is_binary bs then Binary (Some (length bs))
      else text_or_binary (length bs) bs)"

definition classify_string :: "rstr \<Rightarrow> file_content_state" where
  "classify_string s =
     (if over_text_limit (byte_len s) then TooLarge (byte_len s)
      else if is_lfs_pointer (as_bytes s) then LfsPointer (byte_len s)
      else if is_binary (as_bytes s) then Binary (Some (byte_len s))
      else Full s)"

section \<open>The file system\<close>

text \<open>An entry: a link with whether its target exists and whether that is a directory, a directory with
  the length its metadata gives, a file with its bytes, or something that cannot be read.\<close>

datatype disk_entry =
  NoEntry
| LinkEntry bool bool
| DirEntry nat
| FileEntry bytes
| UnreadableEntry nat

definition entry_exists :: "disk_entry \<Rightarrow> bool" where
  "entry_exists e = (case e of NoEntry \<Rightarrow> False | LinkEntry found _ \<Rightarrow> found | _ \<Rightarrow> True)"

definition entry_is_dir :: "disk_entry \<Rightarrow> bool" where
  "entry_is_dir e = (case e of LinkEntry found dir \<Rightarrow> found \<and> dir | DirEntry _ \<Rightarrow> True | _ \<Rightarrow> False)"

text \<open>The bounded read: the length first, then a prefix, then the rest. Reading a directory fails.\<close>

definition read_file_bounded :: "disk_entry \<Rightarrow> file_content_state" where
  "read_file_bounded e =
     (case e of
        NoEntry \<Rightarrow> Missing
      | LinkEntry _ _ \<Rightarrow> Symlink
      | DirEntry n \<Rightarrow> if over_text_limit n then TooLarge n else Missing
      | UnreadableEntry n \<Rightarrow> if over_text_limit n then TooLarge n else Missing
      | FileEntry bs \<Rightarrow>
          (let len = length bs; prefix_buf = head_bytes bs; prefix_size = length prefix_buf
           in if over_text_limit len then TooLarge len
              else if is_lfs_pointer prefix_buf then LfsPointer len
              else if is_binary prefix_buf then Binary (Some len)
              else text_or_binary len
                (if len > prefix_size then prefix_buf @ drop prefix_size bs else prefix_buf)))"

section \<open>Git\<close>

text \<open>The entry of a path in the tree of \<open>HEAD\<close>, and an item of the status of the work tree.\<close>

datatype tree_entry = GitLink | GitBlob bytes | GitOther

datatype status_item = IndexWorktree pathbuf | TreeIndex pathbuf | StatusError

datatype git_repo_state = GitUnknown | NotARepo | Discovered pathbuf

record repo_sync =
  head_oid :: "rstr option"
  index_mtime :: "nat option"

record git_view =
  git_root :: "pathbuf option"
  git_head_tree :: "(pathbuf \<Rightarrow> tree_entry option) option"
  git_index_len :: "nat option"
  git_status :: "pathbuf list \<Rightarrow> status_item list option"
  git_sync :: repo_sync
  git_canonical :: "pathbuf \<Rightarrow> pathbuf option"
  git_task_fails :: bool

definition or_same :: "(pathbuf \<Rightarrow> pathbuf option) \<Rightarrow> pathbuf \<Rightarrow> pathbuf" where
  "or_same f p = (case f p of Some q \<Rightarrow> q | None \<Rightarrow> p)"

text \<open>The prefix of the working directory in the repository, and the state to cache, if it was
  discovered only now.\<close>

definition open_or_discover ::
  "git_view \<Rightarrow> git_repo_state \<Rightarrow> pathbuf \<Rightarrow> (pathbuf \<times> git_repo_state option) option" where
  "open_or_discover g cached working_dir =
     (case cached of
        Discovered pre \<Rightarrow> Some (pre, None)
      | NotARepo \<Rightarrow> None
      | GitUnknown \<Rightarrow>
          (case git_root g of
             None \<Rightarrow> None
           | Some repo_root \<Rightarrow>
               (case strip_base (or_same (git_canonical g) repo_root) (or_same (git_canonical g) working_dir) of
                  None \<Rightarrow> None
                | Some pre \<Rightarrow> Some (pre, Some (Discovered pre)))))"

definition cached_after :: "git_repo_state \<Rightarrow> (pathbuf \<times> git_repo_state option) option \<Rightarrow> git_repo_state" where
  "cached_after cached r =
     (case r of
        None \<Rightarrow> if cached = GitUnknown then NotARepo else cached
      | Some (_, Some st) \<Rightarrow> st
      | Some (_, None) \<Rightarrow> cached)"

definition canonicalize_or_parent :: "git_view \<Rightarrow> pathbuf \<Rightarrow> pathbuf" where
  "canonicalize_or_parent g p =
     (case git_canonical g p of
        Some q \<Rightarrow> q
      | None \<Rightarrow>
          (case (Option.bind (path_parent p) (git_canonical g), file_name p) of
             (Some cp, Some f) \<Rightarrow> path_append cp [Normal f]
           | _ \<Rightarrow> p))"

definition tree_content :: "tree_entry \<Rightarrow> file_content_state option" where
  "tree_content e = (case e of GitLink \<Rightarrow> Some Symlink | GitBlob bs \<Rightarrow> Some (classify_bytes bs) | GitOther \<Rightarrow> None)"

definition head_content :: "git_view \<Rightarrow> pathbuf \<Rightarrow> pathbuf \<Rightarrow> pathbuf \<Rightarrow> file_content_state" where
  "head_content g working_dir pre p =
     (case strip_base (or_same (git_canonical g) working_dir) (canonicalize_or_parent g p) of
        None \<Rightarrow> Missing
      | Some wd_relative \<Rightarrow>
          (case Option.bind (Option.bind (git_head_tree g) (\<lambda>tree. tree (path_append pre wd_relative))) tree_content of
             None \<Rightarrow> Missing
           | Some c \<Rightarrow> c))"

section \<open>The bounded read is the classification of the whole file\<close>

lemma is_lfs_pointer_head: "is_lfs_pointer (head_bytes bs) = is_lfs_pointer bs"
  by (cases "length bs \<le> 8000") (simp_all add: is_lfs_pointer_def pointer_sized_def head_bytes_take)

lemma read_is_classify: "read_file_bounded (FileEntry bs) = classify_bytes bs"
proof -
  have "(if length bs > length (head_bytes bs) then head_bytes bs @ drop (length (head_bytes bs)) bs else head_bytes bs) = bs"
    by (simp add: head_bytes_take min_def)
  moreover have "is_binary (head_bytes bs) = is_binary bs" by (simp add: is_binary_def head_bytes_take)
  ultimately show ?thesis by (simp add: read_file_bounded_def classify_bytes_def Let_def is_lfs_pointer_head)
qed

text \<open>Reading a file in bounded steps (its length, a prefix of 8000 bytes, the rest) gives for every file the same
  content state as classifying all of its bytes, and a state with a text is given for exactly the files whose
  bytes are the encoding of that text, within the limit, not a pointer of the large file storage and without a
  zero in the first 8000 bytes.\<close>

theorem read_file_bounded_classifies:
  "read_file_bounded (FileEntry bs) = classify_bytes bs \<and>
   (read_file_bounded (FileEntry bs) = Full s \<longleftrightarrow>
      from_utf8 bs = Some s \<and> length bs \<le> MAX_TRACKED_TEXT_BYTES \<and> \<not> is_lfs_pointer bs \<and> 0 \<notin> set (take 8000 bs))"
  unfolding read_is_classify
  by (auto simp: classify_bytes_def text_or_binary_def is_binary_def head_bytes_take over_text_limit_def split: option.splits)

lemma as_bytes_from_utf8: "from_utf8 bs = Some s \<longleftrightarrow> as_bytes s = bs \<and> from_utf8_lossy bs = s"
  by (auto simp: from_utf8_def Let_def split: if_splits)

lemma from_utf8_as_bytes: "list_all is_scalar s \<Longrightarrow> from_utf8 (as_bytes s) = Some s"
  by (simp add: as_bytes_from_utf8 from_utf8_lossy_as_bytes)

text \<open>What was written is read back as it would have been classified.\<close>

lemma read_written: "list_all is_scalar s \<Longrightarrow> read_file_bounded (FileEntry (as_bytes s)) = classify_string s"
  by (auto simp: read_is_classify classify_bytes_def classify_string_def text_or_binary_def from_utf8_as_bytes length_as_bytes)

end
