(* ===== verification/HunkTracker.thy ===== *)
theory HunkTracker
  imports HunkFiles "HOL-Library.AList"
begin

text \<open>
  The state of the hunk tracker, the recomputation of hunks and the accepting and rejecting of hunks
  (\<open>xai-hunk-tracker/src/actor/state.rs\<close>, \<open>hunks.rs\<close>, \<open>actions.rs\<close>, \<open>events.rs\<close>). A hash map is an association list:
  its order stands for the arbitrary one of the source, and theorems hold for each.
\<close>

section \<open>State\<close>

record file_hunk_state =
  baseline :: file_content_state
  current_content :: file_content_state
  hunks :: "tracked_hunk list"
  is_agent_file :: bool
  baseline_accepted :: bool

datatype removal_reason = Accepted | Rejected | Superseded

datatype hunk_event =
  HunkAdded pathbuf tracked_hunk
| HunkRemoved pathbuf hunk_id removal_reason
| HunkMoved pathbuf hunk_id hunk_line_info
| HunkContentChanged pathbuf tracked_hunk hunk_source nat nat
| FileAdded pathbuf bool
| FileRemoved pathbuf
| BaselineUpdated pathbuf

record session_stats =
  accepted_hunks :: nat
  rejected_hunks :: nat
  accepted_lines_added :: nat
  accepted_lines_removed :: nat
  rejected_lines_added :: nat
  rejected_lines_removed :: nat

definition no_stats :: session_stats where
  "no_stats = \<lparr>accepted_hunks = 0, rejected_hunks = 0, accepted_lines_added = 0, accepted_lines_removed = 0,
               rejected_lines_added = 0, rejected_lines_removed = 0\<rparr>"

datatype tracking_mode = AgentOnly | AllDirty

datatype hunk_action = AcceptHunk | RejectHunk

datatype hunk_action_error =
  HunkNotFound hunk_id
| WriteError pathbuf
| DeleteError pathbuf

text \<open>The last three fields are not part of the actor: the events it has sent, the file system it shares
  with other programs, and the next identifier that is unused.\<close>

record tracker =
  working_dir :: pathbuf
  file_states :: "(pathbuf \<times> file_hunk_state) list"
  turn_index :: "nat \<rightharpoonup> hunk_id list"
  git_dirty_cache :: "pathbuf list"
  git_staged_cache :: "pathbuf list"
  repo_state :: git_repo_state
  repo_sync_state :: repo_sync
  mode :: tracking_mode
  stats :: session_stats
  events :: "hunk_event list"
  disk :: "pathbuf \<Rightarrow> disk_entry"
  fresh :: hunk_id

text \<open>What the tracker meets: the line diff, git, the writes that fail (and the entry such a write leaves
  behind) and the removals that fail.\<close>

record outside =
  similar :: differ
  git :: git_view
  failed_write :: "pathbuf \<Rightarrow> disk_entry option"
  remove_fails :: "pathbuf \<Rightarrow> bool"

definition send_event :: "hunk_event \<Rightarrow> tracker \<Rightarrow> tracker" where
  "send_event e s = s\<lparr>events := events s @ [e]\<rparr>"

definition send_events :: "hunk_event list \<Rightarrow> tracker \<Rightarrow> tracker" where
  "send_events es s = fold send_event es s"

definition file_of :: "tracker \<Rightarrow> pathbuf \<Rightarrow> file_hunk_state option" where
  "file_of s p = map_of (file_states s) p"

definition put_file :: "pathbuf \<Rightarrow> file_hunk_state \<Rightarrow> tracker \<Rightarrow> tracker" where
  "put_file p f s = s\<lparr>file_states := AList.update p f (file_states s)\<rparr>"

definition drop_file :: "pathbuf \<Rightarrow> tracker \<Rightarrow> tracker" where
  "drop_file p s = s\<lparr>file_states := AList.delete p (file_states s)\<rparr>"

definition is_tracked :: "tracker \<Rightarrow> pathbuf \<Rightarrow> bool" where
  "is_tracked s p \<longleftrightarrow> file_of s p \<noteq> None"

section \<open>Index of turns\<close>

text \<open>The body of the loops that take a hunk out of the index, and the one that puts it in.\<close>

definition remove_from_turn_index :: "tracked_hunk \<Rightarrow> tracker \<Rightarrow> tracker" where
  "remove_from_turn_index h s =
     (case prompt_index (h_source h) of
        None \<Rightarrow> s
      | Some k \<Rightarrow>
          (case turn_index s k of
             None \<Rightarrow> s
           | Some ids \<Rightarrow> s\<lparr>turn_index := (turn_index s)(k \<mapsto> removeAll (h_id h) ids)\<rparr>))"

definition add_to_turn_index :: "tracked_hunk \<Rightarrow> tracker \<Rightarrow> tracker" where
  "add_to_turn_index h s =
     (case prompt_index (h_source h) of
        None \<Rightarrow> s
      | Some k \<Rightarrow>
          s\<lparr>turn_index := (turn_index s)(k \<mapsto> List.insert (h_id h) (case turn_index s k of None \<Rightarrow> [] | Some ids \<Rightarrow> ids))\<rparr>)"

section \<open>Recomputation\<close>

definition new_hunks_of ::
  "differ \<Rightarrow> hunk_id \<Rightarrow> pathbuf \<Rightarrow> file_content_state \<Rightarrow> file_content_state \<Rightarrow> hunk_source \<Rightarrow> tracked_hunk list" where
  "new_hunks_of d i p base cur src =
     (case (base, cur) of
        (Full b, Full c) \<Rightarrow> compute_hunks d i p b c src
      | (Full b, Missing) \<Rightarrow> if b = [] then [] else [file_deleted i p b src]
      | (Missing, Full c) \<Rightarrow> if c = [] then [] else [file_created i p c src]
      | _ \<Rightarrow> [])"

text \<open>Identifiers and attributions go over from matching old hunks, each claimed at most once.\<close>

fun claim_ids :: "tracked_hunk list \<Rightarrow> hunk_id list \<Rightarrow> tracked_hunk list \<Rightarrow> tracked_hunk list" where
  "claim_ids old claimed [] = []"
| "claim_ids old claimed (h # hs) =
     (case find_matching_old_hunk h old of
        None \<Rightarrow> h # claim_ids old claimed hs
      | Some m \<Rightarrow>
          if h_id m \<in> set claimed then h # claim_ids old claimed hs
          else
            h\<lparr>h_id := h_id m,
              h_source := (if is_external (h_source h) \<and> is_agent_edit (h_source m) then h_source m else h_source h)\<rparr> #
            claim_ids old (h_id m # claimed) hs)"

definition removed_events :: "pathbuf \<Rightarrow> tracked_hunk list \<Rightarrow> tracked_hunk list \<Rightarrow> hunk_event list" where
  "removed_events p old new =
     map (\<lambda>h. HunkRemoved p (h_id h) Superseded)
       (filter (\<lambda>h. \<not> list_ex (\<lambda>n. hunks_overlap h n \<or> hunks_match_content h n) new) old)"

definition prev_counts :: "tracked_hunk list \<Rightarrow> tracked_hunk \<Rightarrow> nat \<times> nat" where
  "prev_counts old n =
     (case (case find (\<lambda>x. h_id x = h_id n) old of Some x \<Rightarrow> Some x | None \<Rightarrow> find (\<lambda>x. hunks_overlap x n) old) of
        None \<Rightarrow> (0, 0)
      | Some x \<Rightarrow> (new_count (line_info x), old_count (line_info x)))"

definition changed_events :: "pathbuf \<Rightarrow> tracked_hunk list \<Rightarrow> hunk_source \<Rightarrow> tracked_hunk \<Rightarrow> hunk_event list" where
  "changed_events p old trigger n =
     (case find (\<lambda>x. hunks_match_content x n) old of
        Some x \<Rightarrow> if hunk_moved x n then [HunkMoved p (h_id x) (line_info n)] else []
      | None \<Rightarrow>
          if \<not> list_ex (\<lambda>x. hunks_overlap x n) old then [HunkAdded p n]
          else [HunkContentChanged p n trigger (fst (prev_counts old n)) (snd (prev_counts old n))])"

definition hunk_diff_events :: "pathbuf \<Rightarrow> tracked_hunk list \<Rightarrow> tracked_hunk list \<Rightarrow> hunk_source \<Rightarrow> hunk_event list" where
  "hunk_diff_events p old new trigger =
     removed_events p old new @ concat (map (changed_events p old trigger) new)"

definition recompute_hunks ::
  "outside \<Rightarrow> pathbuf \<Rightarrow> file_content_state option \<Rightarrow> hunk_source \<Rightarrow> tracker \<Rightarrow> tracker" where
  "recompute_hunks w p new_current src s =
     (case file_of s p of
        None \<Rightarrow> s
      | Some f \<Rightarrow>
          (let cur = (case new_current of None \<Rightarrow> Missing | Some c \<Rightarrow> c);
               computed = new_hunks_of (similar w) (fresh s) p (baseline f) cur src;
               new = claim_ids (hunks f) [] computed;
               s1 = put_file p (f\<lparr>current_content := cur, hunks := new\<rparr>) (s\<lparr>fresh := fresh s + length computed\<rparr>);
               s2 = fold add_to_turn_index new (fold remove_from_turn_index (hunks f) s1)
           in send_events (hunk_diff_events p (hunks f) new src) s2))"

section \<open>Accepting\<close>

definition saturating_add :: "nat \<Rightarrow> nat \<Rightarrow> nat" where
  "saturating_add a b = min (a + b) (2 ^ 64 - 1)"

lemma saturating_add_code [code]: "saturating_add a b = (if int a + int b \<le> 18446744073709551615 then a + b else 2 ^ 64 - 1)"
  by (simp add: saturating_add_def)

definition update_session_stats :: "hunk_line_info \<Rightarrow> hunk_action \<Rightarrow> tracker \<Rightarrow> tracker" where
  "update_session_stats info action s =
     (let st = stats s
      in s\<lparr>stats :=
         (case action of
            AcceptHunk \<Rightarrow>
              st\<lparr>accepted_hunks := saturating_add (accepted_hunks st) 1,
                 accepted_lines_added := saturating_add (accepted_lines_added st) (new_count info),
                 accepted_lines_removed := saturating_add (accepted_lines_removed st) (old_count info)\<rparr>
          | RejectHunk \<Rightarrow>
              st\<lparr>rejected_hunks := saturating_add (rejected_hunks st) 1,
                 rejected_lines_added := saturating_add (rejected_lines_added st) (new_count info),
                 rejected_lines_removed := saturating_add (rejected_lines_removed st) (old_count info)\<rparr>)\<rparr>)"

definition without_hunks :: "tracked_hunk list \<Rightarrow> tracked_hunk list \<Rightarrow> tracked_hunk list" where
  "without_hunks gone hs = filter (\<lambda>h. h_id h \<notin> h_id ` set gone) hs"

text \<open>The source of the first hunk that is left.\<close>

definition remaining_source :: "tracker \<Rightarrow> pathbuf \<Rightarrow> hunk_source" where
  "remaining_source s p =
     (case file_of s p of
        None \<Rightarrow> External
      | Some f \<Rightarrow> (case hunks f of [] \<Rightarrow> External | h # _ \<Rightarrow> h_source h))"

definition patched_baseline :: "tracked_hunk list \<Rightarrow> file_content_state \<Rightarrow> file_content_state" where
  "patched_baseline hs base = (case base of Full b \<Rightarrow> Full (accept_all_text hs b) | _ \<Rightarrow> base)"

definition removals :: "pathbuf \<Rightarrow> removal_reason \<Rightarrow> tracked_hunk list \<Rightarrow> hunk_event list" where
  "removals p reason hs = map (\<lambda>h. HunkRemoved p (h_id h) reason) hs"

definition accept_hunks_batch :: "outside \<Rightarrow> pathbuf \<Rightarrow> tracked_hunk list \<Rightarrow> tracker \<Rightarrow> tracker" where
  "accept_hunks_batch w p hs s =
     (if hs = [] then s
      else
        (case file_of s p of
           None \<Rightarrow> s
         | Some f \<Rightarrow>
             (let left = without_hunks hs (hunks f); evs = removals p Accepted hs @ [BaselineUpdated p]
              in if baseline f = Missing then
                   send_events evs
                     (put_file p (f\<lparr>baseline := current_content f, baseline_accepted := True, hunks := left\<rparr>) s)
                 else
                   (let s1 = send_events evs
                          (put_file p (f\<lparr>baseline := patched_baseline hs (baseline f), baseline_accepted := True, hunks := left\<rparr>) s)
                    in recompute_hunks w p (Some (current_content f)) (remaining_source s1 p) s1))))"

definition accept_hunk :: "outside \<Rightarrow> pathbuf \<Rightarrow> tracked_hunk \<Rightarrow> tracker \<Rightarrow> tracker" where
  "accept_hunk w p h s =
     (case file_of s p of
        None \<Rightarrow> s
      | Some f \<Rightarrow>
          (let left = filter (\<lambda>x. h_id x \<noteq> h_id h) (hunks f);
               base = (if baseline f = Missing then current_content f
                       else (case baseline f of Full b \<Rightarrow> Full (accepted_text h b) | other \<Rightarrow> other));
               s1 = send_event (BaselineUpdated p)
                      (send_event (HunkRemoved p (h_id h) Accepted)
                        (put_file p (f\<lparr>baseline := base, baseline_accepted := True, hunks := left\<rparr>) s))
           in if baseline f = Missing then s1
              else recompute_hunks w p (Some (current_content f)) (remaining_source s1 p) s1))"

section \<open>Rejecting\<close>

text \<open>A write goes through a link; its own entry stays.\<close>

definition write_entry :: "disk_entry \<Rightarrow> rstr \<Rightarrow> disk_entry" where
  "write_entry old content = (case old of LinkEntry _ _ \<Rightarrow> LinkEntry True False | _ \<Rightarrow> FileEntry (as_bytes content))"

definition fs_write :: "outside \<Rightarrow> pathbuf \<Rightarrow> rstr \<Rightarrow> tracker \<Rightarrow> hunk_action_error option \<times> tracker" where
  "fs_write w p content s =
     (case failed_write w p of
        Some e \<Rightarrow> (Some (WriteError p), s\<lparr>disk := (disk s)(p := e)\<rparr>)
      | None \<Rightarrow> (None, s\<lparr>disk := (disk s)(p := write_entry (disk s p) content)\<rparr>))"

definition fs_remove :: "outside \<Rightarrow> pathbuf \<Rightarrow> tracker \<Rightarrow> hunk_action_error option \<times> tracker" where
  "fs_remove w p s =
     (if remove_fails w p then (Some (DeleteError p), s) else (None, s\<lparr>disk := (disk s)(p := NoEntry)\<rparr>))"

datatype reject_action = RestoreDeleted rstr | DeleteCreated | RevertChange rstr | NoOp

text \<open>The texts of the change are taken out by \<open>revert\<close>.\<close>

definition reject_action_of :: "(rstr \<Rightarrow> rstr) \<Rightarrow> file_hunk_state \<Rightarrow> reject_action" where
  "reject_action_of revert f =
     (case (current_content f, baseline f) of
        (Missing, Full b) \<Rightarrow> RestoreDeleted b
      | (Full _, Missing) \<Rightarrow> DeleteCreated
      | (Full c, _) \<Rightarrow> RevertChange (revert c)
      | _ \<Rightarrow> NoOp)"

definition reject_io :: "outside \<Rightarrow> pathbuf \<Rightarrow> reject_action \<Rightarrow> tracker \<Rightarrow> hunk_action_error option \<times> tracker" where
  "reject_io w p action s =
     (case action of
        RestoreDeleted b \<Rightarrow> fs_write w p b s
      | DeleteCreated \<Rightarrow> fs_remove w p s
      | RevertChange t \<Rightarrow> fs_write w p t s
      | NoOp \<Rightarrow> (None, s))"

definition content_after_reject :: "reject_action \<Rightarrow> file_content_state \<Rightarrow> file_content_state" where
  "content_after_reject action cur =
     (case action of RestoreDeleted b \<Rightarrow> Full b | DeleteCreated \<Rightarrow> Missing | RevertChange t \<Rightarrow> Full t | NoOp \<Rightarrow> cur)"

text \<open>The part of both rejections behind the choice of the action: \<open>hs\<close> are the hunks to reject.\<close>

definition reject_with ::
  "outside \<Rightarrow> pathbuf \<Rightarrow> reject_action \<Rightarrow> tracked_hunk list \<Rightarrow> file_hunk_state \<Rightarrow> tracker \<Rightarrow> hunk_action_error option \<times> tracker" where
  "reject_with w p action hs f s =
     (case reject_io w p action s of
        (Some e, s1) \<Rightarrow> (Some e, s1)
      | (None, s1) \<Rightarrow>
          (let cur = content_after_reject action (current_content f);
               s2 = send_events (removals p Rejected hs)
                      (put_file p (f\<lparr>current_content := cur, hunks := without_hunks hs (hunks f)\<rparr>) s1)
           in case action of
                NoOp \<Rightarrow> (None, s1)
              | RevertChange _ \<Rightarrow> (None, recompute_hunks w p (Some cur) (remaining_source s2 p) s2)
              | _ \<Rightarrow> (None, s2)))"

definition reject_hunk :: "outside \<Rightarrow> pathbuf \<Rightarrow> tracked_hunk \<Rightarrow> tracker \<Rightarrow> hunk_action_error option \<times> tracker" where
  "reject_hunk w p h s =
     (case file_of s p of
        None \<Rightarrow> (None, s)
      | Some f \<Rightarrow> reject_with w p (reject_action_of (rejected_text h) f) [h] f s)"

definition reject_hunks_batch :: "outside \<Rightarrow> pathbuf \<Rightarrow> tracked_hunk list \<Rightarrow> tracker \<Rightarrow> hunk_action_error option \<times> tracker" where
  "reject_hunks_batch w p hs s =
     (if hs = [] then (None, s)
      else
        (case file_of s p of
           None \<Rightarrow> (None, s)
         | Some f \<Rightarrow> reject_with w p (reject_action_of (reject_all_text hs) f) hs f s))"

section \<open>Actions\<close>

definition find_hunk :: "tracker \<Rightarrow> hunk_id \<Rightarrow> (pathbuf \<times> tracked_hunk) option" where
  "find_hunk s i =
     find (\<lambda>(p, h). h_id h = i) (concat (map (\<lambda>(p, f). map (Pair p) (hunks f)) (file_states s)))"

text \<open>What happens to each hunk before it is accepted or rejected.\<close>

definition count_hunk :: "hunk_action \<Rightarrow> tracked_hunk \<Rightarrow> tracker \<Rightarrow> tracker" where
  "count_hunk action h s = remove_from_turn_index h (update_session_stats (line_info h) action s)"

definition apply_hunk_action ::
  "outside \<Rightarrow> hunk_id \<Rightarrow> hunk_action \<Rightarrow> tracker \<Rightarrow> (hunk_action_error + unit) \<times> tracker" where
  "apply_hunk_action w i action s =
     (case find_hunk s i of
        None \<Rightarrow> (Inl (HunkNotFound i), s)
      | Some (p, h) \<Rightarrow>
          (let s1 = count_hunk action h s
           in case action of
                AcceptHunk \<Rightarrow> (Inr (), accept_hunk w p h s1)
              | RejectHunk \<Rightarrow>
                  (case reject_hunk w p h s1 of (Some e, s2) \<Rightarrow> (Inl e, s2) | (None, s2) \<Rightarrow> (Inr (), s2))))"

fun apply_action_batch ::
  "outside \<Rightarrow> hunk_action \<Rightarrow> (pathbuf \<times> tracked_hunk list) list \<Rightarrow> tracker \<Rightarrow> (hunk_action_error + hunk_id list) \<times> tracker" where
  "apply_action_batch w action [] s = (Inr [], s)"
| "apply_action_batch w action ((p, hs) # rest) s =
     (let s1 = fold (count_hunk action) hs s;
          (err, s2) = (case action of
             AcceptHunk \<Rightarrow> (None, accept_hunks_batch w p hs s1)
           | RejectHunk \<Rightarrow> reject_hunks_batch w p hs s1)
      in case err of
           Some e \<Rightarrow> (Inl e, s2)
         | None \<Rightarrow>
             (case apply_action_batch w action rest s2 of
                (Inl e, s3) \<Rightarrow> (Inl e, s3)
              | (Inr ids, s3) \<Rightarrow> (Inr (map h_id hs @ ids), s3)))"

definition apply_file_action ::
  "outside \<Rightarrow> pathbuf \<Rightarrow> hunk_action \<Rightarrow> tracker \<Rightarrow> (hunk_action_error + hunk_id list) \<times> tracker" where
  "apply_file_action w p action s =
     (case file_of s p of
        None \<Rightarrow> (Inr [], s)
      | Some f \<Rightarrow> if hunks f = [] then (Inr [], s) else apply_action_batch w action [(p, hunks f)] s)"

definition apply_all_action :: "outside \<Rightarrow> hunk_action \<Rightarrow> tracker \<Rightarrow> (hunk_action_error + hunk_id list) \<times> tracker" where
  "apply_all_action w action s =
     apply_action_batch w action (map (\<lambda>(p, f). (p, hunks f)) (filter (\<lambda>(p, f). hunks f \<noteq> []) (file_states s))) s"

definition turn_hunks_of :: "nat \<Rightarrow> file_hunk_state \<Rightarrow> tracked_hunk list" where
  "turn_hunks_of k f = filter (\<lambda>h. prompt_index (h_source h) = Some k) (hunks f)"

definition apply_turn_action ::
  "outside \<Rightarrow> nat \<Rightarrow> hunk_action \<Rightarrow> tracker \<Rightarrow> (hunk_action_error + hunk_id list) \<times> tracker" where
  "apply_turn_action w k action s =
     apply_action_batch w action
       (filter (\<lambda>(p, hs). hs \<noteq> []) (map (\<lambda>(p, f). (p, turn_hunks_of k f)) (file_states s))) s"

end
