(* ===== verification/HunkMutations.thy ===== *)
theory HunkMutations
  imports HunkTracker
begin

text \<open>
  File changes, refreshes and modes of the hunk tracker (\<open>xai-hunk-tracker/src/actor/mutations.rs\<close>, \<open>git.rs\<close>).
\<close>

section \<open>Baselines\<close>

definition read_baseline :: "outside \<Rightarrow> pathbuf \<Rightarrow> tracker \<Rightarrow> file_content_state \<times> tracker" where
  "read_baseline w p s =
     (if repo_state s = NotARepo \<or> git_task_fails (git w) then (Missing, s)
      else
        (let r = open_or_discover (git w) (repo_state s) (working_dir s);
             s1 = s\<lparr>repo_state := cached_after (repo_state s) r\<rparr>
         in case r of
              None \<Rightarrow> (Missing, s1)
            | Some (pre, _) \<Rightarrow> (head_content (git w) (working_dir s) pre p, s1)))"

definition read_baselines_batch ::
  "outside \<Rightarrow> pathbuf list \<Rightarrow> tracker \<Rightarrow> (pathbuf \<times> file_content_state) list \<times> tracker" where
  "read_baselines_batch w ps s =
     (if ps = [] \<or> repo_state s = NotARepo \<or> git_task_fails (git w) then ([], s)
      else
        (let r = open_or_discover (git w) (repo_state s) (working_dir s);
             s1 = s\<lparr>repo_state := cached_after (repo_state s) r\<rparr>
         in case r of
              None \<Rightarrow> (map (\<lambda>p. (p, Missing)) ps, s1)
            | Some (pre, _) \<Rightarrow> (map (\<lambda>p. (p, head_content (git w) (working_dir s) pre p)) ps, s1)))"

definition read_repo_sync_state :: "outside \<Rightarrow> tracker \<Rightarrow> repo_sync option \<times> tracker" where
  "read_repo_sync_state w s =
     (if repo_state s = NotARepo \<or> git_task_fails (git w) then (None, s)
      else
        (let r = open_or_discover (git w) (repo_state s) (working_dir s);
             s1 = s\<lparr>repo_state := cached_after (repo_state s) r\<rparr>
         in (if r = None then None else Some (git_sync (git w)), s1)))"

definition in_dirty_cache :: "tracker \<Rightarrow> pathbuf \<Rightarrow> bool" where
  "in_dirty_cache s p \<longleftrightarrow> or_same (strip_base (working_dir s)) p \<in> set (git_dirty_cache s)"

text \<open>A path without a baseline that git does not call dirty is ignored, unless it is a directory.\<close>

definition ignored_path :: "tracker \<Rightarrow> pathbuf \<Rightarrow> file_content_state \<Rightarrow> bool" where
  "ignored_path s p base \<longleftrightarrow>
     mode s = AllDirty \<and> base = Missing \<and> \<not> entry_is_dir (disk s p) \<and> \<not> in_dirty_cache s p"

definition strip_single_trailing_newline :: "rstr \<Rightarrow> rstr" where
  "strip_single_trailing_newline t =
     (if ends_with [carriage_return, newline] t then butlast (butlast t)
      else if ends_with [newline] t then butlast t else t)"

section \<open>Writes of the agent\<close>

definition tracked_file :: "file_content_state \<Rightarrow> file_content_state \<Rightarrow> bool \<Rightarrow> file_hunk_state" where
  "tracked_file base cur agent =
     \<lparr>baseline = base, current_content = cur, hunks = [], is_agent_file = agent, baseline_accepted = False\<rparr>"

definition start_tracking :: "pathbuf \<Rightarrow> file_content_state \<Rightarrow> file_content_state \<Rightarrow> bool \<Rightarrow> tracker \<Rightarrow> tracker" where
  "start_tracking p base cur agent s = send_event (FileAdded p agent) (put_file p (tracked_file base cur agent) s)"

definition record_agent_write ::
  "outside \<Rightarrow> pathbuf \<Rightarrow> rstr \<Rightarrow> nat \<Rightarrow> rstr option \<Rightarrow> tracker \<Rightarrow> tracker" where
  "record_agent_write w p content k previous s =
     (let cur = classify_string content
      in if \<not> is_diffable cur then
           (case file_of s p of
              None \<Rightarrow>
                (let (base, s1) = (case previous of Some t \<Rightarrow> (classify_string t, s) | None \<Rightarrow> read_baseline w p s)
                 in start_tracking p base cur True s1)
            | Some f \<Rightarrow> put_file p (f\<lparr>is_agent_file := True, current_content := cur, hunks := []\<rparr>) s)
         else
           (let s2 =
              (case file_of s p of
                 None \<Rightarrow>
                   (let (head, s1) = read_baseline w p s;
                        base = (if head = Missing then (case previous of Some t \<Rightarrow> classify_string t | None \<Rightarrow> Missing) else head)
                    in start_tracking p base cur True s1)
               | Some f \<Rightarrow> put_file p (f\<lparr>is_agent_file := True\<rparr>) s)
            in recompute_hunks w p (Some cur) (AgentEdit k) s2))"

section \<open>Changes on disk\<close>

definition external_source :: "file_hunk_state \<Rightarrow> hunk_source" where
  "external_source f = (if is_agent_file f then ExternalEditOnAgentFile else External)"

definition matches_head :: "tracker \<Rightarrow> pathbuf \<Rightarrow> file_content_state \<Rightarrow> file_content_state \<Rightarrow> bool" where
  "matches_head s p cur head =
     (case (cur, head) of
        (Full c, Full h) \<Rightarrow> strip_single_trailing_newline c = strip_single_trailing_newline h
      | (Missing, Missing) \<Rightarrow> True
      | (Binary _, Binary _) \<Rightarrow> True
      | (TooLarge _, TooLarge _) \<Rightarrow> True
      | (LfsPointer _, LfsPointer _) \<Rightarrow> True
      | (Symlink, Symlink) \<Rightarrow> True
      | (Symlink, Full _) \<Rightarrow> \<not> in_dirty_cache s p
      | (Full _, Symlink) \<Rightarrow> \<not> in_dirty_cache s p
      | _ \<Rightarrow> False)"

definition baseline_or_read ::
  "outside \<Rightarrow> pathbuf \<Rightarrow> file_content_state option \<Rightarrow> tracker \<Rightarrow> file_content_state \<times> tracker" where
  "baseline_or_read w p preloaded s = (case preloaded of Some b \<Rightarrow> (b, s) | None \<Rightarrow> read_baseline w p s)"

definition untracked_change ::
  "outside \<Rightarrow> pathbuf \<Rightarrow> file_content_state option \<Rightarrow> file_content_state \<Rightarrow> tracker \<Rightarrow> tracker" where
  "untracked_change w p preloaded cur s =
     (if \<not> is_diffable cur then
        (let (base, s1) = (if mode s = AllDirty then baseline_or_read w p preloaded s else (Missing, s))
         in if ignored_path s1 p base then s1
            else
              (let s2 = start_tracking p base cur False s1
               in if is_diffable base then recompute_hunks w p None External s2 else s2))
      else
        (let (base, s1) = baseline_or_read w p preloaded s
         in if ignored_path s1 p base then s1
            else recompute_hunks w p (Some cur) External (start_tracking p base Missing False s1)))"

definition tracked_change ::
  "outside \<Rightarrow> pathbuf \<Rightarrow> file_content_state option \<Rightarrow> file_content_state \<Rightarrow> file_hunk_state \<Rightarrow> tracker \<Rightarrow> tracker" where
  "tracked_change w p preloaded cur f s =
     (if baseline_accepted f then
        (let (head, s1) = baseline_or_read w p preloaded s
         in if matches_head s1 p cur head then
              put_file p (f\<lparr>baseline := head, current_content := head, baseline_accepted := False, hunks := []\<rparr>) s1
            else recompute_hunks w p (Some cur) (external_source f) s1)
      else recompute_hunks w p (Some cur) (external_source f) s)"

definition process_file_change :: "outside \<Rightarrow> pathbuf \<Rightarrow> file_content_state option \<Rightarrow> tracker \<Rightarrow> tracker" where
  "process_file_change w p preloaded s =
     (if mode s = AgentOnly \<and> \<not> is_tracked s p then s
      else
        (let cur = read_file_bounded (disk s p)
         in case file_of s p of
              None \<Rightarrow> untracked_change w p preloaded cur s
            | Some f \<Rightarrow> tracked_change w p preloaded cur f s))"

definition handle_file_change :: "outside \<Rightarrow> pathbuf \<Rightarrow> tracker \<Rightarrow> tracker" where
  "handle_file_change w p s = process_file_change w p None s"

definition needs_baseline :: "tracker \<Rightarrow> pathbuf \<Rightarrow> bool" where
  "needs_baseline s p =
     (case file_of s p of None \<Rightarrow> mode s \<noteq> AgentOnly | Some f \<Rightarrow> baseline_accepted f)"

fun process_changes :: "outside \<Rightarrow> pathbuf list \<Rightarrow> (pathbuf \<times> file_content_state) list \<Rightarrow> tracker \<Rightarrow> tracker" where
  "process_changes w [] baselines s = s"
| "process_changes w (p # ps) baselines s =
     process_changes w ps (AList.delete p baselines) (process_file_change w p (map_of baselines p) s)"

definition handle_file_changes_batch :: "outside \<Rightarrow> pathbuf list \<Rightarrow> tracker \<Rightarrow> tracker" where
  "handle_file_changes_batch w ps s =
     (if ps = [] then s
      else
        (let need = filter (needs_baseline s) ps;
             (baselines, s1) = (if need = [] then ([], s) else read_baselines_batch w need s)
         in process_changes w ps baselines s1))"

definition handle_file_deleted :: "outside \<Rightarrow> pathbuf \<Rightarrow> tracker \<Rightarrow> tracker" where
  "handle_file_deleted w p s =
     (case file_of s p of
        None \<Rightarrow>
          if mode s = AgentOnly then s
          else if entry_exists (disk s p) then s
          else
            (let (base, s1) = read_baseline w p s
             in if base = Missing then s1
                else recompute_hunks w p None External (start_tracking p base Missing False s1))
      | Some f \<Rightarrow>
          if entry_exists (disk s p) then handle_file_change w p s
          else recompute_hunks w p None (external_source f) s)"

section \<open>Resets and refreshes\<close>

definition supersede :: "pathbuf \<Rightarrow> tracked_hunk list \<Rightarrow> tracker \<Rightarrow> tracker" where
  "supersede p hs s =
     fold (\<lambda>h s. send_event (HunkRemoved p (h_id h) Superseded) (remove_from_turn_index h s)) hs s"

definition reset_baseline :: "pathbuf \<Rightarrow> tracker \<Rightarrow> tracker" where
  "reset_baseline p s =
     (case file_of s p of
        None \<Rightarrow> s
      | Some f \<Rightarrow>
          send_event (BaselineUpdated p)
            (supersede p (hunks f)
              (put_file p (f\<lparr>baseline := current_content f, baseline_accepted := False, hunks := []\<rparr>) s)))"

definition status_paths :: "pathbuf \<Rightarrow> status_item list \<Rightarrow> pathbuf list" where
  "status_paths pre items =
     remdups (List.map_filter (\<lambda>i. case i of IndexWorktree p \<Rightarrow> strip_base pre p | TreeIndex p \<Rightarrow> strip_base pre p | StatusError \<Rightarrow> None) items)"

definition staged_paths :: "pathbuf \<Rightarrow> status_item list \<Rightarrow> pathbuf list" where
  "staged_paths pre items =
     remdups (List.map_filter (\<lambda>i. case i of TreeIndex p \<Rightarrow> strip_base pre p | _ \<Rightarrow> None) items)"

text \<open>The dirty and the staged files; nothing for an empty index or when the status cannot be had.\<close>

definition scan_status :: "git_view \<Rightarrow> pathbuf \<Rightarrow> pathbuf list option \<Rightarrow> pathbuf list \<times> pathbuf list" where
  "scan_status g pre scope =
     (if git_index_len g = None \<or> git_index_len g = Some 0 then ([], [])
      else
        (case git_status g (case scope of None \<Rightarrow> [] | Some rels \<Rightarrow> map (path_append pre) rels) of
           None \<Rightarrow> ([], [])
         | Some items \<Rightarrow> (status_paths pre items, staged_paths pre items)))"

definition refresh_git_dirty_cache :: "outside \<Rightarrow> pathbuf list option \<Rightarrow> tracker \<Rightarrow> tracker" where
  "refresh_git_dirty_cache w scope s =
     (if repo_state s = NotARepo \<or> git_task_fails (git w) then s
      else
        (let r = open_or_discover (git w) (repo_state s) (working_dir s);
             (dirty, staged) = (case r of None \<Rightarrow> ([], []) | Some (pre, _) \<Rightarrow> scan_status (git w) pre scope);
             to_track = filter (\<lambda>rel. \<not> is_tracked s (path_append (working_dir s) rel)) dirty;
             s1 = s\<lparr>repo_state := cached_after (repo_state s) r, git_dirty_cache := dirty, git_staged_cache := staged\<rparr>
         in if mode s = AllDirty then
              fold (\<lambda>rel s. handle_file_change w (path_append (working_dir s) rel) s) to_track s1
            else s1))"

definition is_clean :: "tracker \<Rightarrow> pathbuf \<Rightarrow> file_content_state \<Rightarrow> file_content_state \<Rightarrow> bool" where
  "is_clean s p base cur =
     (case (base, cur) of
        (Full b, Full c) \<Rightarrow> strip_single_trailing_newline b = strip_single_trailing_newline c
      | (Binary _, Binary _) \<Rightarrow> \<not> in_dirty_cache s p
      | (TooLarge _, TooLarge _) \<Rightarrow> \<not> in_dirty_cache s p
      | (LfsPointer _, _) \<Rightarrow> \<not> in_dirty_cache s p
      | (Symlink, Symlink) \<Rightarrow> \<not> in_dirty_cache s p
      | (_, LfsPointer _) \<Rightarrow> \<not> in_dirty_cache s p
      | (Symlink, Full _) \<Rightarrow> \<not> in_dirty_cache s p
      | (Full _, Symlink) \<Rightarrow> \<not> in_dirty_cache s p
      | (Missing, Missing) \<Rightarrow> \<not> entry_exists (disk s p)
      | (Missing, _) \<Rightarrow> \<not> in_dirty_cache s p
      | _ \<Rightarrow> False)"

definition refresh_file :: "outside \<Rightarrow> (pathbuf \<times> file_content_state) list \<Rightarrow> pathbuf \<Rightarrow> tracker \<Rightarrow> tracker" where
  "refresh_file w baselines p s =
     (case file_of s p of
        None \<Rightarrow> s
      | Some f \<Rightarrow>
          (let base = (case map_of baselines p of None \<Rightarrow> Missing | Some b \<Rightarrow> b);
               cur = read_file_bounded (disk s p);
               f1 = f\<lparr>baseline := base, current_content := cur, baseline_accepted := False\<rparr>
           in if is_clean s p base cur \<and> \<not> is_agent_file f then
                send_event (FileRemoved p) (supersede p (hunks f) (drop_file p s))
              else if is_clean s p base cur then
                send_event (BaselineUpdated p) (supersede p (hunks f) (put_file p (f1\<lparr>hunks := []\<rparr>) s))
              else
                send_event (BaselineUpdated p)
                  (recompute_hunks w p (Some cur) (external_source f) (put_file p f1 s))))"

definition refresh_files :: "outside \<Rightarrow> pathbuf list \<Rightarrow> tracker \<Rightarrow> tracker" where
  "refresh_files w skip s =
     (let scope = (if mode s = AllDirty then None
                   else Some (List.map_filter (strip_base (working_dir s)) (map fst (file_states s))));
          s1 = (if scope = Some [] then s\<lparr>git_dirty_cache := [], git_staged_cache := []\<rparr>
                else refresh_git_dirty_cache w scope s);
          paths = filter (\<lambda>p. p \<notin> set skip) (map fst (file_states s1));
          (baselines, s2) = (if paths = [] then ([], s1) else read_baselines_batch w paths s1)
      in fold (refresh_file w baselines) paths s2)"

definition refresh_all_baselines_except :: "outside \<Rightarrow> pathbuf list \<Rightarrow> tracker \<Rightarrow> tracker" where
  "refresh_all_baselines_except w skip s =
     (if mode s = AgentOnly \<and> file_states s = [] then s
      else
        (case read_repo_sync_state w s of
           (None, s1) \<Rightarrow> refresh_files w skip s1
         | (Some sync, s1) \<Rightarrow>
             if sync = repo_sync_state s1 then s1
             else refresh_files w skip (s1\<lparr>repo_sync_state := sync\<rparr>)))"

section \<open>Modes\<close>

definition stop_tracking :: "pathbuf \<Rightarrow> tracker \<Rightarrow> tracker" where
  "stop_tracking p s =
     (case file_of s p of
        None \<Rightarrow> s
      | Some f \<Rightarrow> send_event (FileRemoved p) (supersede p (hunks f) (drop_file p s)))"

definition set_mode :: "outside \<Rightarrow> tracking_mode \<Rightarrow> tracker \<Rightarrow> tracker" where
  "set_mode w m s =
     (let s1 = s\<lparr>mode := m\<rparr>
      in if mode s = AgentOnly \<and> m = AllDirty then refresh_git_dirty_cache w None s1
         else if mode s = AllDirty \<and> m = AgentOnly then
           fold stop_tracking (map fst (filter (\<lambda>(p, f). \<not> is_agent_file f) (file_states s1))) s1
         else s1)"

end
