(* ===== verification/HunkCommands.thy ===== *)
theory HunkCommands
  imports HunkMutations
begin

text \<open>
  Queries, snapshots, the coalescing of queued commands and the loop of the hunk tracker
  (\<open>xai-hunk-tracker/src/actor/queries.rs\<close>, \<open>mod.rs\<close>, \<open>types.rs\<close>, \<open>commands.rs\<close>).
\<close>

section \<open>Queries\<close>

definition get_all_hunks :: "tracker \<Rightarrow> tracked_hunk list" where
  "get_all_hunks s = concat (map (hunks \<circ> snd) (file_states s))"

definition get_hunks_for_path :: "tracker \<Rightarrow> pathbuf \<Rightarrow> tracked_hunk list" where
  "get_hunks_for_path s p = (case file_of s p of None \<Rightarrow> [] | Some f \<Rightarrow> hunks f)"

datatype hunk_source_filter = AgentSource | ExternalSource

definition get_hunks_by_source :: "tracker \<Rightarrow> hunk_source_filter \<Rightarrow> tracked_hunk list" where
  "get_hunks_by_source s k =
     filter (\<lambda>h. case k of AgentSource \<Rightarrow> is_agent_edit (h_source h) | ExternalSource \<Rightarrow> is_external (h_source h)) (get_all_hunks s)"

definition get_hunk :: "tracker \<Rightarrow> hunk_id \<Rightarrow> tracked_hunk option" where
  "get_hunk s i = find (\<lambda>h. h_id h = i) (get_all_hunks s)"

definition get_hunks_for_turn :: "tracker \<Rightarrow> nat \<Rightarrow> tracked_hunk list" where
  "get_hunks_for_turn s k =
     (case turn_index s k of None \<Rightarrow> [] | Some ids \<Rightarrow> List.map_filter (get_hunk s) ids)"

definition get_all_tracked_paths :: "tracker \<Rightarrow> pathbuf list" where
  "get_all_tracked_paths s = map fst (file_states s)"

datatype file_content_status = SMissing | SBinary | STooLarge | SLfsPointer | SSymlink | SFull

record file_content_view =
  view_status :: file_content_status
  view_byte_len :: "nat option"
  view_content :: "rstr option"

definition view :: "file_content_status \<Rightarrow> nat option \<Rightarrow> rstr option \<Rightarrow> file_content_view" where
  "view st n t = \<lparr>view_status = st, view_byte_len = n, view_content = t\<rparr>"

definition from_content_state :: "file_content_state \<Rightarrow> file_content_view" where
  "from_content_state c =
     (case c of
        Missing \<Rightarrow> view SMissing None None
      | Binary n \<Rightarrow> view SBinary n None
      | TooLarge n \<Rightarrow> view STooLarge (Some n) None
      | LfsPointer n \<Rightarrow> view SLfsPointer (Some n) None
      | Symlink \<Rightarrow> view SSymlink None None
      | Full t \<Rightarrow> view SFull (Some (byte_len t)) (Some t))"

record file_hunk_data =
  data_hunks :: "tracked_hunk list"
  data_baseline :: file_content_view
  data_current :: file_content_view

definition text_or_empty :: "file_content_state \<Rightarrow> rstr" where
  "text_or_empty c = (case content_as_str c of None \<Rightarrow> [] | Some t \<Rightarrow> t)"

text \<open>\<open>None\<close> when the patch of a hunk cannot be written because a subtraction of line numbers underflows. The
  fields kept for old clients repeat the texts of the two views.\<close>

definition with_patch :: "file_hunk_state \<Rightarrow> tracked_hunk \<Rightarrow> tracked_hunk option" where
  "with_patch f h =
     (if content_as_str (baseline f) = None \<and> content_as_str (current_content f) = None then Some (h\<lparr>h_patch := None\<rparr>)
      else map_option (\<lambda>t. h\<lparr>h_patch := Some t\<rparr>)
             (generate_hunk_patch (text_or_empty (baseline f)) (text_or_empty (current_content f)) h))"

definition get_file_hunk_data :: "tracker \<Rightarrow> pathbuf \<Rightarrow> file_hunk_data option" where
  "get_file_hunk_data s p =
     (case file_of s p of
        None \<Rightarrow> Some \<lparr>data_hunks = [], data_baseline = view SMissing None None, data_current = view SMissing None None\<rparr>
      | Some f \<Rightarrow>
          map_option
            (\<lambda>hs. \<lparr>data_hunks = hs, data_baseline = from_content_state (baseline f),
                   data_current = from_content_state (current_content f)\<rparr>)
            (those (map (with_patch f) (hunks f))))"

record file_content_entry =
  entry_path :: pathbuf
  entry_baseline :: file_content_view
  entry_current :: file_content_view
  entry_is_agent :: bool
  entry_staged :: bool

definition get_all_file_contents :: "tracker \<Rightarrow> file_content_entry list" where
  "get_all_file_contents s =
     map (\<lambda>(p, f).
       \<lparr>entry_path = p, entry_baseline = from_content_state (baseline f), entry_current = from_content_state (current_content f),
        entry_is_agent = is_agent_file f,
        entry_staged = (or_same (strip_base (working_dir s)) p \<in> set (git_staged_cache s))\<rparr>) (file_states s)"

record turn_summary =
  turn_prompt :: nat
  turn_files :: "pathbuf list"
  turn_pending :: "tracked_hunk list"
  turn_lines_added :: nat
  turn_lines_removed :: nat

record session_summary =
  sum_stats :: session_stats
  sum_turns :: "turn_summary list"
  sum_files_modified :: nat
  sum_files_with_pending :: nat
  sum_pending_hunks :: nat
  sum_pending_lines_added :: nat
  sum_pending_lines_removed :: nat
  sum_unattributed :: nat

definition turn_summary_of :: "tracker \<Rightarrow> nat \<Rightarrow> turn_summary" where
  "turn_summary_of s k =
     (let pending = concat (map (turn_hunks_of k \<circ> snd) (file_states s))
      in \<lparr>turn_prompt = k,
          turn_files = map fst (filter (\<lambda>(p, f). turn_hunks_of k f \<noteq> []) (file_states s)),
          turn_pending = pending,
          turn_lines_added = sum_list (map (new_count \<circ> line_info) pending),
          turn_lines_removed = sum_list (map (old_count \<circ> line_info) pending)\<rparr>)"

definition compute_session_summary :: "tracker \<Rightarrow> session_summary" where
  "compute_session_summary s =
     (let turns = map (turn_summary_of s) (sort (remdups (List.map_filter (prompt_index \<circ> h_source) (get_all_hunks s))));
          modified = filter (\<lambda>(p, f). list_ex (\<lambda>h. prompt_index (h_source h) \<noteq> None) (hunks f)) (file_states s)
      in \<lparr>sum_stats = stats s, sum_turns = turns,
          sum_files_modified = length modified, sum_files_with_pending = length modified,
          sum_pending_hunks = sum_list (map (length \<circ> turn_pending) turns),
          sum_pending_lines_added = sum_list (map turn_lines_added turns),
          sum_pending_lines_removed = sum_list (map turn_lines_removed turns),
          sum_unattributed = length (filter (\<lambda>h. prompt_index (h_source h) = None) (get_all_hunks s))\<rparr>)"

section \<open>Snapshots\<close>

record file_snapshot =
  snap_baseline :: file_content_state
  snap_current :: file_content_state
  snap_hunks :: "tracked_hunk list"
  snap_is_agent :: bool
  snap_accepted :: bool

record tracker_snapshot =
  snap_files :: "(pathbuf \<times> file_snapshot) list"
  snap_turns :: "nat \<rightharpoonup> hunk_id list"
  snap_stats :: session_stats

record turn_delta =
  delta_prompt :: nat
  delta_files :: "(pathbuf \<times> file_snapshot) list"
  delta_ids :: "hunk_id list"

definition snapshot_file_state :: "file_hunk_state \<Rightarrow> file_snapshot" where
  "snapshot_file_state f =
     \<lparr>snap_baseline = baseline f, snap_current = current_content f, snap_hunks = hunks f,
      snap_is_agent = is_agent_file f, snap_accepted = baseline_accepted f\<rparr>"

definition restore_file_state :: "file_snapshot \<Rightarrow> file_hunk_state" where
  "restore_file_state n =
     \<lparr>baseline = snap_baseline n, current_content = snap_current n, hunks = snap_hunks n,
      is_agent_file = snap_is_agent n, baseline_accepted = snap_accepted n\<rparr>"

definition take_snapshot :: "tracker \<Rightarrow> tracker_snapshot" where
  "take_snapshot s =
     \<lparr>snap_files = map (\<lambda>(p, f). (p, snapshot_file_state f)) (file_states s),
      snap_turns = turn_index s, snap_stats = stats s\<rparr>"

definition take_turn_delta :: "nat \<Rightarrow> tracker \<Rightarrow> turn_delta" where
  "take_turn_delta k s =
     (let ids = (case turn_index s k of None \<Rightarrow> [] | Some ids \<Rightarrow> ids)
      in \<lparr>delta_prompt = k,
          delta_files = map (\<lambda>(p, f). (p, snapshot_file_state f))
            (filter (\<lambda>(p, f). list_ex (\<lambda>h. h_id h \<in> set ids) (hunks f)) (file_states s)),
          delta_ids = ids\<rparr>)"

definition restore_snapshot :: "tracker_snapshot \<Rightarrow> tracker \<Rightarrow> tracker" where
  "restore_snapshot n s =
     s\<lparr>file_states := map (\<lambda>(p, f). (p, restore_file_state f)) (snap_files n),
       turn_index := snap_turns n, stats := snap_stats n\<rparr>"

definition rewrite_single_path :: "pathbuf \<Rightarrow> pathbuf \<Rightarrow> pathbuf \<Rightarrow> pathbuf \<Rightarrow> pathbuf option" where
  "rewrite_single_path old_cwd canonical_old new_cwd p =
     map_option (path_append new_cwd)
       (case strip_base canonical_old p of Some rel \<Rightarrow> Some rel | None \<Rightarrow> strip_base old_cwd p)"

definition rewrite_paths :: "pathbuf \<Rightarrow> pathbuf \<Rightarrow> pathbuf \<Rightarrow> tracker_snapshot \<Rightarrow> tracker_snapshot" where
  "rewrite_paths old_cwd canonical_old new_cwd n =
     n\<lparr>snap_files :=
        fold (\<lambda>(p, f) m.
          let q = or_same (rewrite_single_path old_cwd canonical_old new_cwd) p
          in AList.update q (f\<lparr>snap_hunks := map (\<lambda>h. h\<lparr>h_path := q\<rparr>) (snap_hunks f)\<rparr>) m) (snap_files n) []\<rparr>"

section \<open>Commands\<close>

datatype command =
  RecordAgentWrite pathbuf rstr nat "rstr option"
| HandleFileChange pathbuf
| HandleFileDeleted pathbuf
| RefreshGitDirtyCache
| ResetBaseline pathbuf
| SetMode tracking_mode
| HunkAction hunk_id hunk_action
| FileAction pathbuf hunk_action
| AllAction hunk_action
| TurnAction nat hunk_action
| GetAllHunks
| GetHunksForPath pathbuf
| GetFileHunkData pathbuf
| GetHunksBySource hunk_source_filter
| GetHunk hunk_id
| IsAgentFile pathbuf
| GetAllTrackedPaths
| GetStagedFiles
| GetAllFileContents
| GetSessionSummary
| GetTurnHunks nat
| ResetStats
| RefreshAllBaselines
| SnapshotState
| SnapshotTurnDelta nat
| RestoreState tracker_snapshot

datatype tracker_reply =
  NoReply
| ActionReply "hunk_action_error + unit"
| IdsReply "hunk_action_error + hunk_id list"
| HunksReply "tracked_hunk list"
| HunkReply "tracked_hunk option"
| DataReply "file_hunk_data option"
| BoolReply bool
| PathsReply "pathbuf list"
| ContentsReply "file_content_entry list"
| SummaryReply session_summary
| SnapshotReply tracker_snapshot
| DeltaReply turn_delta

text \<open>The handler; the answer of the source, which says whether to go on, is always that.\<close>

fun handle_command :: "outside \<Rightarrow> command \<Rightarrow> tracker \<Rightarrow> tracker_reply \<times> tracker" where
  "handle_command w (RecordAgentWrite p t k prev) s = (NoReply, record_agent_write w p t k prev s)"
| "handle_command w (HandleFileChange p) s = (NoReply, handle_file_change w p s)"
| "handle_command w (HandleFileDeleted p) s = (NoReply, handle_file_deleted w p s)"
| "handle_command w RefreshGitDirtyCache s = (NoReply, refresh_git_dirty_cache w None s)"
| "handle_command w (ResetBaseline p) s = (NoReply, reset_baseline p s)"
| "handle_command w (SetMode m) s = (NoReply, set_mode w m s)"
| "handle_command w (HunkAction i a) s = apfst ActionReply (apply_hunk_action w i a s)"
| "handle_command w (FileAction p a) s = apfst IdsReply (apply_file_action w p a s)"
| "handle_command w (AllAction a) s = apfst IdsReply (apply_all_action w a s)"
| "handle_command w (TurnAction k a) s = apfst IdsReply (apply_turn_action w k a s)"
| "handle_command w GetAllHunks s = (HunksReply (get_all_hunks s), s)"
| "handle_command w (GetHunksForPath p) s = (HunksReply (get_hunks_for_path s p), s)"
| "handle_command w (GetFileHunkData p) s = (DataReply (get_file_hunk_data s p), s)"
| "handle_command w (GetHunksBySource k) s = (HunksReply (get_hunks_by_source s k), s)"
| "handle_command w (GetHunk i) s = (HunkReply (get_hunk s i), s)"
| "handle_command w (IsAgentFile p) s = (BoolReply (case file_of s p of None \<Rightarrow> False | Some f \<Rightarrow> is_agent_file f), s)"
| "handle_command w GetAllTrackedPaths s = (PathsReply (get_all_tracked_paths s), s)"
| "handle_command w GetStagedFiles s = (PathsReply (map (path_append (working_dir s)) (git_staged_cache s)), s)"
| "handle_command w GetAllFileContents s = (ContentsReply (get_all_file_contents s), s)"
| "handle_command w GetSessionSummary s = (SummaryReply (compute_session_summary s), s)"
| "handle_command w (GetTurnHunks k) s = (HunksReply (get_hunks_for_turn s k), s)"
| "handle_command w ResetStats s = (NoReply, s\<lparr>stats := no_stats\<rparr>)"
| "handle_command w RefreshAllBaselines s = (NoReply, refresh_all_baselines_except w [] s)"
| "handle_command w SnapshotState s = (SnapshotReply (take_snapshot s), s)"
| "handle_command w (SnapshotTurnDelta k) s = (DeltaReply (take_turn_delta k s), s)"
| "handle_command w (RestoreState n) s = (NoReply, restore_snapshot n s)"

section \<open>Coalescing\<close>

datatype path_action = Changed | Deleted | DeletedThenChanged

record coalesced_batch =
  file_actions :: "(pathbuf \<times> path_action) list"
  refresh_all :: bool
  refresh_dirty :: bool
  other_commands :: "command list"
  command_count :: nat

definition new_batch :: coalesced_batch where
  "new_batch = \<lparr>file_actions = [], refresh_all = False, refresh_dirty = False, other_commands = [], command_count = 0\<rparr>"

definition batch_add :: "command \<Rightarrow> coalesced_batch \<Rightarrow> coalesced_batch" where
  "batch_add c b =
     (let b1 = b\<lparr>command_count := command_count b + 1\<rparr>
      in case c of
           HandleFileChange p \<Rightarrow>
             b1\<lparr>file_actions := AList.update p
                (case map_of (file_actions b) p of
                   None \<Rightarrow> Changed
                 | Some Deleted \<Rightarrow> DeletedThenChanged
                 | Some a \<Rightarrow> a) (file_actions b)\<rparr>
         | HandleFileDeleted p \<Rightarrow> b1\<lparr>file_actions := AList.update p Deleted (file_actions b)\<rparr>
         | RefreshAllBaselines \<Rightarrow> b1\<lparr>refresh_all := True\<rparr>
         | RefreshGitDirtyCache \<Rightarrow> b1\<lparr>refresh_dirty := True\<rparr>
         | _ \<Rightarrow> b1\<lparr>other_commands := other_commands b @ [c]\<rparr>)"

definition is_coalescable :: "command \<Rightarrow> bool" where
  "is_coalescable c =
     (case c of HandleFileChange _ \<Rightarrow> True | HandleFileDeleted _ \<Rightarrow> True | RefreshAllBaselines \<Rightarrow> True
      | RefreshGitDirtyCache \<Rightarrow> True | _ \<Rightarrow> False)"

definition drain_and_coalesce :: "command \<Rightarrow> command list \<Rightarrow> coalesced_batch" where
  "drain_and_coalesce first queued = fold batch_add (first # queued) new_batch"

text \<open>The file events of a batch with a refresh of everything: only paths that are not tracked are looked at,
  and only tracked ones are deleted.\<close>

fun events_before_refresh :: "outside \<Rightarrow> (pathbuf \<times> path_action) list \<Rightarrow> pathbuf list \<Rightarrow> tracker \<Rightarrow> pathbuf list \<times> tracker" where
  "events_before_refresh w [] seen s = (seen, s)"
| "events_before_refresh w ((p, a) # rest) seen s =
     (if a = Deleted then
        events_before_refresh w rest seen (if is_tracked s p then handle_file_deleted w p s else s)
      else if is_tracked s p then events_before_refresh w rest seen s
      else events_before_refresh w rest (p # seen) (handle_file_change w p s))"

definition run_file_actions :: "outside \<Rightarrow> (pathbuf \<times> path_action) list \<Rightarrow> tracker \<Rightarrow> tracker" where
  "run_file_actions w acts s =
     handle_file_changes_batch w (map fst (filter (\<lambda>(p, a). a \<noteq> Deleted) acts))
       (fold (handle_file_deleted w) (map fst (filter (\<lambda>(p, a). a = Deleted) acts)) s)"

fun handle_commands :: "outside \<Rightarrow> command list \<Rightarrow> tracker \<Rightarrow> tracker_reply list \<times> tracker" where
  "handle_commands w [] s = ([], s)"
| "handle_commands w (c # cs) s =
     (let (r, s1) = handle_command w c s; (rs, s2) = handle_commands w cs s1 in (r # rs, s2))"

definition handle_coalesced_batch :: "outside \<Rightarrow> coalesced_batch \<Rightarrow> tracker \<Rightarrow> tracker_reply list \<times> tracker" where
  "handle_coalesced_batch w b s =
     (let s1 = (if refresh_dirty b \<and> \<not> refresh_all b then refresh_git_dirty_cache w None s else s);
          s2 = (if refresh_all b then
                  (let (seen, t) = events_before_refresh w (file_actions b) [] s1
                   in refresh_all_baselines_except w seen t)
                else run_file_actions w (file_actions b) s1)
      in handle_commands w (other_commands b) s2)"

section \<open>The actor\<close>

definition new_tracker :: "pathbuf \<Rightarrow> tracking_mode \<Rightarrow> (pathbuf \<Rightarrow> disk_entry) \<Rightarrow> tracker" where
  "new_tracker wd m d =
     \<lparr>working_dir = wd, file_states = [], turn_index = Map.empty, git_dirty_cache = [], git_staged_cache = [],
      repo_state = GitUnknown, repo_sync_state = \<lparr>head_oid = None, index_mtime = None\<rparr>, mode = m, stats = no_stats,
      events = [], disk = d, fresh = 0\<rparr>"

definition actor_start :: "outside \<Rightarrow> tracker \<Rightarrow> tracker" where
  "actor_start w s = (if mode s = AllDirty then refresh_git_dirty_cache w None s else s)"

text \<open>One turn of the loop on the commands in the channel, which are more than none; what is left of them.\<close>

definition actor_turn :: "outside \<Rightarrow> command \<Rightarrow> command list \<Rightarrow> tracker \<Rightarrow> tracker_reply list \<times> command list \<times> tracker" where
  "actor_turn w c queued s =
     (if is_coalescable c then
        (let (rs, s1) = handle_coalesced_batch w (drain_and_coalesce c queued) s in (rs, [], s1))
      else (let (r, s1) = handle_command w c s in ([r], queued, s1)))"

end
