(* ===== verification/HunkEdit.thy ===== *)
theory HunkEdit
  imports HunkDiff
begin

text \<open>
  What hunks guarantee. A diff is cut into blocks of changes (relation \<open>script\<close>); accepting all hunks
  turns the baseline into the current text and rejecting them all turns it back, for texts of
  lines that end in a line feed. The last section has the texts for which this fails.
\<close>

section \<open>Specification\<close>

definition text_of :: "rstr list \<Rightarrow> rstr" where
  "text_of ls = concat (map (\<lambda>l. l @ [newline]) ls)"

definition clean_line :: "rstr \<Rightarrow> bool" where
  "clean_line l \<longleftrightarrow> newline \<notin> set l \<and> carriage_return \<notin> set l"

definition olds :: "(change_tag \<times> 'a) list \<Rightarrow> 'a list" where
  "olds cs = map snd (filter (\<lambda>c. fst c \<noteq> Insert) cs)"

definition news :: "(change_tag \<times> 'a) list \<Rightarrow> 'a list" where
  "news cs = map snd (filter (\<lambda>c. fst c \<noteq> Delete) cs)"

text \<open>What the tracker relies on: for texts of lines that end in a line feed, the two sides of the
  diff are the lines of the two texts.\<close>

definition diff_contract :: "differ \<Rightarrow> bool" where
  "diff_contract d \<longleftrightarrow>
     (\<forall>bl cl. list_all clean_line bl \<longrightarrow> list_all clean_line cl \<longrightarrow>
        (\<exists>ks. diff_lines d (text_of bl) (text_of cl) = map (\<lambda>(t, l). (t, l @ [newline])) ks \<and> olds ks = bl \<and> news ks = cl))"

text \<open>The blocks of a list of changes, behind a number of old and of new lines.\<close>

definition describes :: "tracked_hunk \<Rightarrow> nat \<Rightarrow> nat \<Rightarrow> (change_tag \<times> rstr) list \<Rightarrow> bool" where
  "describes h a b blk \<longleftrightarrow>
     line_info h = \<lparr>old_start = a + 1, old_count = length (olds blk), new_start = b + 1, new_count = length (news blk)\<rparr> \<and>
     old_text h = (if olds blk = [] then None else Some (text_of (olds blk))) \<and>
     new_text h = text_of (news blk)"

inductive script :: "nat \<Rightarrow> nat \<Rightarrow> (change_tag \<times> rstr) list \<Rightarrow> tracked_hunk list \<Rightarrow> bool" where
  finish: "script a b [] []"
| equal: "script (Suc a) (Suc b) ks hs \<Longrightarrow> script a b ((Equal, l) # ks) hs"
| block: "blk \<noteq> [] \<Longrightarrow> \<forall>c \<in> set blk. fst c \<noteq> Equal \<Longrightarrow> describes h a b blk \<Longrightarrow> ks = [] \<or> fst (hd ks) = Equal \<Longrightarrow>
    script (a + length (olds blk)) (b + length (news blk)) ks hs \<Longrightarrow> script a b (blk @ ks) (h # hs)"

text \<open>No text on the way, between two blocks, is empty or a single empty line.\<close>

definition between :: "(change_tag \<times> rstr) list \<Rightarrow> (change_tag \<times> rstr) list \<Rightarrow> bool" where
  "between xs ys \<longleftrightarrow> xs = [] \<or> ys = [] \<or> fst (last xs) = Equal \<or> fst (hd ys) = Equal"

definition solid :: "rstr list \<Rightarrow> (change_tag \<times> rstr) list \<Rightarrow> bool" where
  "solid pre ks \<longleftrightarrow>
     (\<forall>xs ys. ks = xs @ ys \<longrightarrow> between xs ys \<longrightarrow>
        pre @ olds xs @ news ys \<noteq> [[]] \<and> (xs \<noteq> [] \<longrightarrow> pre @ olds xs @ news ys \<noteq> []))"

section \<open>Lemmas on lines\<close>

lemma sides_append [simp]: "olds (xs @ ys) = olds xs @ olds ys" "news (xs @ ys) = news xs @ news ys"
  by (simp_all add: olds_def news_def)

lemma sides_simps [simp]: "olds [] = []" "news [] = []"
  "olds ((Equal, l) # cs) = l # olds cs" "news ((Equal, l) # cs) = l # news cs"
  "olds ((Delete, l) # cs) = l # olds cs" "news ((Delete, l) # cs) = news cs"
  "olds ((Insert, l) # cs) = olds cs" "news ((Insert, l) # cs) = l # news cs"
  by (simp_all add: olds_def news_def)

lemma text_of_simps [simp]: "text_of [] = []" "text_of (l # ls) = l @ newline # text_of ls" "text_of (xs @ ys) = text_of xs @ text_of ys"
  by (simp_all add: text_of_def)

lemma text_of_join: "ls \<noteq> [] \<Longrightarrow> text_of ls = join [newline] ls @ [newline]"
  by (induction ls rule: induct_list012) auto

lemma text_of_Nil_iff [simp]: "text_of ls = [] \<longleftrightarrow> ls = []"
  by (cases ls) auto

lemma join_Nil_iff: "join [newline] ls = [] \<longleftrightarrow> ls = [] \<or> ls = [[]]"
  by (induction ls rule: induct_list012) auto

lemma lines_text_of:
  assumes "list_all clean_line ls"
  shows "lines (text_of ls) = ls"
proof (cases "ls = []")
  case False
  have "text_of ls = join [newline] (ls @ [[]])" using False by (induction ls rule: induct_list012) auto
  moreover have "split_char newline (join [newline] (ls @ [[]])) = ls @ [[]]"
    using assms by (intro split_char_join) (auto simp: list_all_iff clean_line_def)
  moreover have "map strip_cr ls = ls"
    using assms last_in_set by (intro map_idI) (fastforce simp: strip_cr_def list_all_iff clean_line_def)
  ultimately show ?thesis by (simp add: lines_def)
qed (simp add: lines_def)

lemma ends_text_of: "ends_with [newline] (text_of ls) \<longleftrightarrow> ls \<noteq> []"
  by (cases ls rule: rev_cases) (auto simp: ends_with_def starts_with_def)

lemma patch_text_of:
  assumes "list_all clean_line (xs @ ys @ zs)" "list_all clean_line ws" "xs @ ys @ zs \<noteq> []" "xs @ ws @ zs \<noteq> [[]]"
  shows "patch_lines (text_of (xs @ ys @ zs)) (Suc (length xs)) (length ys) (text_of ws) = text_of (xs @ ws @ zs)"
proof -
  have "(if text_of ws = [] then [] else lines (text_of ws)) = ws"
    using lines_text_of [OF assms(2)] by simp
  moreover have "take (length xs) (xs @ ys @ zs) = xs"
    "drop (min (length xs + length ys) (length (xs @ ys @ zs))) (xs @ ys @ zs) = zs" by simp_all
  moreover have "ends_with [newline] (text_of (xs @ ys @ zs))" unfolding ends_text_of by (rule assms(3))
  ultimately have "patch_lines (text_of (xs @ ys @ zs)) (Suc (length xs)) (length ys) (text_of ws) =
      (let output = join [newline] (xs @ ws @ zs) in if output \<noteq> [] then output @ [newline] else output)"
    unfolding patch_lines_def lines_text_of [OF assms(1)] Let_def by (simp only: diff_Suc_1 simp_thms)
  also have "\<dots> = text_of (xs @ ws @ zs)"
    using assms(4) text_of_join [of "xs @ ws @ zs"] by (cases "xs @ ws @ zs = []") (simp_all add: Let_def join_Nil_iff)
  finally show ?thesis .
qed

section \<open>Hunks are blocks of the diff\<close>

lemma concat_ends [simp]: "concat (map (\<lambda>l. l @ [newline]) ls) = text_of ls"
  by (simp add: text_of_def)

abbreviation ended :: "(change_tag \<times> rstr) list \<Rightarrow> (change_tag \<times> rstr) list" where
  "ended ks \<equiv> map (\<lambda>(t, l). (t, l @ [newline])) ks"

definition holds_block :: "hunk_builder \<Rightarrow> nat \<Rightarrow> nat \<Rightarrow> (change_tag \<times> rstr) list \<Rightarrow> bool" where
  "holds_block bld a b blk \<longleftrightarrow>
     bld = \<lparr>b_old_start = a + 1, b_new_start = b + 1, b_old_lines = map (\<lambda>l. l @ [newline]) (olds blk),
            b_new_lines = map (\<lambda>l. l @ [newline]) (news blk)\<rparr>"

lemma build_describes: "holds_block bld a b blk \<Longrightarrow> describes (build_hunk i p src bld) a b blk"
  by (simp add: holds_block_def build_hunk_def describes_def)

lemma loop_script:
  "(\<forall>c \<in> set blk. fst c \<noteq> Equal) \<Longrightarrow> blk \<noteq> [] \<Longrightarrow> holds_block bld a b blk \<Longrightarrow>
     script a b (blk @ ks)
       (changes_loop p src i (a + length (olds blk) + 1) (b + length (news blk) + 1) (Some bld) (ended ks))" (is "_ \<Longrightarrow> _ \<Longrightarrow> _ \<Longrightarrow> ?some blk bld a b i ks")
  and loop_script_None: "script a b ks (changes_loop p src i (a + 1) (b + 1) None (ended ks))"
proof (induction ks arbitrary: blk bld a b i)
  case Nil
  { case 1
    have "script a b (blk @ []) [build_hunk i p src bld]"
      by (rule script.block [OF 1(2) 1(1) build_describes [OF 1(3)]]) (auto intro: script.finish)
    then show ?case by simp }
  { case 2 then show ?case by (auto intro: script.finish) }
next
  case (Cons k ks)
  obtain t l where k: "k = (t, l)" by force
  { case 1
    have grown: "?some (blk @ [(t, l)]) bld' a b i ks" if "t \<noteq> Equal" "holds_block bld' a b (blk @ [(t, l)])" for bld'
      using that 1 by (intro Cons.IH(1)) auto
    show ?case
    proof (cases t)
      case Equal
      have "script (a + length (olds blk)) (b + length (news blk)) (k # ks)
          (changes_loop p src (i + 1) (a + length (olds blk) + 2) (b + length (news blk) + 2) None (ended ks))"
        unfolding k Equal using Cons.IH(2) [of "Suc (a + length (olds blk))" "Suc (b + length (news blk))" "i + 1"]
        by (intro script.equal) simp
      then have "script a b (blk @ k # ks) (build_hunk i p src bld #
          changes_loop p src (i + 1) (a + length (olds blk) + 2) (b + length (news blk) + 2) None (ended ks))"
        by (intro script.block [OF 1(2) 1(1) build_describes [OF 1(3)]]) (simp_all add: k Equal)
      then show ?thesis by (simp add: k Equal)
    next
      case Delete
      have "holds_block (add_old_line (l @ [newline]) bld) a b (blk @ [(t, l)])"
        using 1(3) by (simp add: holds_block_def add_old_line_def Delete)
      from grown [OF _ this] show ?thesis by (simp add: k Delete builder_or_new_def)
    next
      case Insert
      have "holds_block (add_new_line (l @ [newline]) bld) a b (blk @ [(t, l)])"
        using 1(3) by (simp add: holds_block_def add_new_line_def Insert)
      from grown [OF _ this] show ?thesis by (simp add: k Insert builder_or_new_def)
    qed }
  { case 2
    show ?case
    proof (cases t)
      case Equal
      then show ?thesis using script.equal [OF Cons.IH(2) [of "Suc a" "Suc b" i]] by (simp add: k)
    next
      case Delete
      have "?some [(Delete, l)] (add_old_line (l @ [newline]) (new_builder (a + 1) (b + 1))) a b i ks"
        by (intro Cons.IH(1)) (simp_all add: holds_block_def new_builder_def add_old_line_def)
      then show ?thesis by (simp add: k Delete builder_or_new_def)
    next
      case Insert
      have "?some [(Insert, l)] (add_new_line (l @ [newline]) (new_builder (a + 1) (b + 1))) a b i ks"
        by (intro Cons.IH(1)) (simp_all add: holds_block_def new_builder_def add_new_line_def)
      then show ?thesis by (simp add: k Insert builder_or_new_def)
    qed }
qed

section \<open>Accepting and rejecting all hunks\<close>

lemma solid_prefix:
  assumes "solid pre (xs @ ks)" "between xs ks"
  shows "solid (pre @ olds xs) ks"
  unfolding solid_def
proof (intro allI impI)
  fix us ys
  assume ks: "ks = us @ ys" and "between us ys"
  then have "between (xs @ us) ys" using assms(2) by (cases us) (auto simp: between_def last_append)
  then have "pre @ olds (xs @ us) @ news ys \<noteq> [[]] \<and> (xs @ us \<noteq> [] \<longrightarrow> pre @ olds (xs @ us) @ news ys \<noteq> [])"
    using assms(1) [unfolded solid_def ks, rule_format, of "xs @ us" ys] by simp
  then show "(pre @ olds xs) @ olds us @ news ys \<noteq> [[]] \<and> (us \<noteq> [] \<longrightarrow> (pre @ olds xs) @ olds us @ news ys \<noteq> [])" by auto
qed

lemma accept_script:
  assumes "script a b ks hs" "length pre = a" "solid pre ks" "list_all clean_line (pre @ olds ks)" "list_all clean_line (news ks)"
  shows "foldr accepted_text hs (text_of (pre @ olds ks)) = text_of (pre @ news ks)"
  using assms
proof (induction arbitrary: pre rule: script.induct)
  case (equal a b ks hs l)
  have "solid (pre @ [l]) ks" using solid_prefix [of pre "[(Equal, l)]" ks] equal.prems(2) by (simp add: between_def)
  then show ?case using equal.IH [of "pre @ [l]"] equal.prems by simp
next
  case (block blk h a b ks hs)
  have "foldr accepted_text hs (text_of ((pre @ olds blk) @ olds ks)) = text_of ((pre @ olds blk) @ news ks)"
    using block.prems solid_prefix [OF block.prems(2)] block.hyps(4) by (intro block.IH) (auto simp: between_def)
  moreover have "pre @ olds blk @ news ks \<noteq> []" "pre @ news blk @ news ks \<noteq> [[]]"
    using block.prems(2) block.hyps(1,4) unfolding solid_def between_def by (auto dest: spec [of _ blk] spec [of _ "[]"])
  then have "patch_lines (text_of (pre @ olds blk @ news ks)) (Suc (length pre)) (length (olds blk)) (text_of (news blk)) =
      text_of (pre @ news blk @ news ks)"
    using block.prems(3,4) by (intro patch_text_of) auto
  then have "accepted_text h (text_of (pre @ olds blk @ news ks)) = text_of (pre @ news blk @ news ks)"
    using block.hyps(3) block.prems(1) by (simp add: accepted_text_def describes_def)
  ultimately show ?case by simp
qed simp

text \<open>Rejecting is accepting with the two sides swapped.\<close>

definition swap_tag :: "change_tag \<Rightarrow> change_tag" where
  "swap_tag t = (case t of Equal \<Rightarrow> Equal | Delete \<Rightarrow> Insert | Insert \<Rightarrow> Delete)"

definition swap_sides :: "(change_tag \<times> 'a) list \<Rightarrow> (change_tag \<times> 'a) list" where
  "swap_sides ks = map (\<lambda>(t, l). (swap_tag t, l)) ks"

definition swap_hunk :: "tracked_hunk \<Rightarrow> tracked_hunk" where
  "swap_hunk h =
     h\<lparr>line_info := \<lparr>old_start = new_start (line_info h), old_count = new_count (line_info h),
                     new_start = old_start (line_info h), new_count = old_count (line_info h)\<rparr>,
       old_text := (if new_text h = [] then None else Some (new_text h)),
       new_text := (case old_text h of None \<Rightarrow> [] | Some t \<Rightarrow> t)\<rparr>"

lemma swap_sides_simps [simp]: "swap_sides [] = []" "swap_sides ((t, l) # ks) = (swap_tag t, l) # swap_sides ks"
  "swap_sides (xs @ ys) = swap_sides xs @ swap_sides ys" "swap_sides ks = [] \<longleftrightarrow> ks = []"
  by (simp_all add: swap_sides_def)

lemma sides_swap [simp]: "olds (swap_sides ks) = news ks" "news (swap_sides ks) = olds ks"
  by (induction ks) (auto simp: swap_tag_def olds_def news_def split: change_tag.split)

lemma swap_tag_Equal [simp]: "swap_tag t = Equal \<longleftrightarrow> t = Equal"
  by (cases t) (simp_all add: swap_tag_def)

lemma reject_swap: "rejected_text h t = accepted_text (swap_hunk h) t"
  by (simp add: rejected_text_def accepted_text_def swap_hunk_def)

lemma script_swap: "script a b ks hs \<Longrightarrow> script b a (swap_sides ks) (map swap_hunk hs)"
proof (induction rule: script.induct)
  case (block blk h a b ks hs)
  have "describes (swap_hunk h) b a (swap_sides blk)"
    using block.hyps(3) by (simp add: describes_def swap_hunk_def)
  moreover have "swap_sides ks = [] \<or> fst (hd (swap_sides ks)) = Equal"
    using block.hyps(4) by (cases ks) auto
  moreover have "\<forall>c \<in> set (swap_sides blk). fst c \<noteq> Equal" using block.hyps(2) by (auto simp: swap_sides_def)
  ultimately have "script b a (swap_sides blk @ swap_sides ks) (swap_hunk h # map swap_hunk hs)"
    using block by (intro script.block) auto
  then show ?case by simp
qed (auto simp: swap_tag_def intro: script.intros)

lemma reject_script:
  assumes "script a b ks hs" "length pre = b" "solid pre (swap_sides ks)" "list_all clean_line (pre @ news ks)"
    "list_all clean_line (olds ks)"
  shows "foldr rejected_text hs (text_of (pre @ news ks)) = text_of (pre @ olds ks)"
  using accept_script [OF script_swap [OF assms(1)], of pre] assms
  by (simp add: foldr_map comp_def reject_swap [symmetric, abs_def])

section \<open>The order of the patches\<close>

lemma insort_key_last: "\<forall>y \<in> set ys. f y < f x \<Longrightarrow> insort_key f x ys = ys @ [x]"
  by (induction ys) auto

lemma sorted_by_reverse_rev:
  assumes "sorted_wrt (\<lambda>x y. k x < k y) hs"
  shows "sorted_by_reverse k hs = rev hs"
  unfolding sorted_by_reverse_def using assms
  by (induction hs) (auto simp: insort_key_last)

lemma script_old_starts:
  "script a b ks hs \<Longrightarrow>
     (\<forall>h \<in> set hs. a < old_start (line_info h)) \<and>
     (ks = [] \<or> fst (hd ks) = Equal \<longrightarrow> (\<forall>h \<in> set hs. a + 1 < old_start (line_info h))) \<and>
     sorted_wrt (\<lambda>x y. old_start (line_info x) < old_start (line_info y)) hs"
proof (induction rule: script.induct)
  case (block blk h a b ks hs)
  have "old_start (line_info h) = a + 1" using block.hyps(3) by (simp add: describes_def)
  moreover have "\<forall>h \<in> set hs. a + length (olds blk) + 1 < old_start (line_info h)" using block.IH block.hyps(4) by auto
  ultimately have "\<forall>h' \<in> set hs. old_start (line_info h) < old_start (line_info h')" by fastforce
  moreover have "fst (hd (blk @ ks)) \<noteq> Equal" using block.hyps(1,2) by (cases blk) auto
  ultimately show ?case using block.IH block.hyps(1) \<open>old_start (line_info h) = a + 1\<close> by fastforce
qed auto

lemma script_new_starts:
  assumes "script a b ks hs"
  shows "sorted_wrt (\<lambda>x y. new_start (line_info x) < new_start (line_info y)) hs"
  using script_old_starts [OF script_swap [OF assms]] by (simp add: sorted_wrt_map swap_hunk_def)

lemma compute_script:
  assumes "diff_lines d b c = ended ks" "b \<noteq> c" "byte_len b \<le> MAX_DIFF_FILE_SIZE" "byte_len c \<le> MAX_DIFF_FILE_SIZE"
    "\<not> diff_timed_out d b c"
  shows "script 0 0 ks (compute_hunks d i p b c src)"
  using assms loop_script_None [of 0 0 ks p src i] by (simp add: compute_hunks_def over_diff_limit_def)

lemma script_roundtrip:
  assumes "script 0 0 ks hs" "solid [] ks" "solid [] (swap_sides ks)" "list_all clean_line (olds ks)" "list_all clean_line (news ks)"
  shows "accept_all_text hs (text_of (olds ks)) = text_of (news ks)" "reject_all_text hs (text_of (news ks)) = text_of (olds ks)"
  using accept_script [OF assms(1), of "[]"] reject_script [OF assms(1), of "[]"] script_old_starts [OF assms(1)]
    script_new_starts [OF assms(1)] assms(2-5)
  by (simp_all add: accept_all_text_def reject_all_text_def sorted_by_reverse_rev foldr_conv_fold)

lemma solid_iff:
  "solid pre ks \<longleftrightarrow>
     list_all (\<lambda>n. between (take n ks) (drop n ks) \<longrightarrow> pre @ olds (take n ks) @ news (drop n ks) \<noteq> [[]] \<and>
         (take n ks \<noteq> [] \<longrightarrow> pre @ olds (take n ks) @ news (drop n ks) \<noteq> []))
       [0..<Suc (length ks)]" (is "_ \<longleftrightarrow> list_all ?P _")
proof
  assume "solid pre ks"
  then have "?P n" for n unfolding solid_def using append_take_drop_id [of n ks] by (metis (no_types))
  then show "list_all ?P [0..<Suc (length ks)]" by (simp only: list_all_iff) blast
next
  assume "list_all ?P [0..<Suc (length ks)]"
  then have all: "?P n" if "n \<le> length ks" for n using that by (simp only: list_all_iff set_upt) simp
  have "between xs ys \<longrightarrow> pre @ olds xs @ news ys \<noteq> [[]] \<and> (xs \<noteq> [] \<longrightarrow> pre @ olds xs @ news ys \<noteq> [])" if "ks = xs @ ys" for xs ys
    using all [of "length xs"] that by simp
  then show "solid pre ks" unfolding solid_def by blast
qed

text \<open>For texts of lines that end in a line feed, accepting all hunks of a diff turns the baseline into the
  current text, and rejecting them all turns the current text back into the baseline, whatever the
  diff is, as long as its two sides are the lines of the two texts and no text on the way is empty
  or one empty line.\<close>

theorem hunks_roundtrip:
  assumes "diff_contract d" and "list_all clean_line bl" and "list_all clean_line cl"
    and "byte_len (text_of bl) \<le> MAX_DIFF_FILE_SIZE" and "byte_len (text_of cl) \<le> MAX_DIFF_FILE_SIZE"
    and "\<not> diff_timed_out d (text_of bl) (text_of cl)"
    and "\<And>ks. diff_lines d (text_of bl) (text_of cl) = ended ks \<Longrightarrow> solid [] ks \<and> solid [] (swap_sides ks)"
  shows "accept_all_text (compute_hunks d i p (text_of bl) (text_of cl) src) (text_of bl) = text_of cl \<and>
         reject_all_text (compute_hunks d i p (text_of bl) (text_of cl) src) (text_of cl) = text_of bl"
proof (cases "text_of bl = text_of cl")
  case True
  then show ?thesis by (simp add: compute_hunks_def accept_all_text_def reject_all_text_def sorted_by_reverse_def)
next
  case False
  obtain ks where ks: "diff_lines d (text_of bl) (text_of cl) = ended ks" "olds ks = bl" "news ks = cl"
    using assms(1-3) unfolding diff_contract_def by blast
  show ?thesis using script_roundtrip [OF compute_script [OF ks(1) False assms(4-6), of i p src]] assms(2,3) assms(7) [OF ks(1)] ks(2,3)
    by simp
qed

section \<open>A diff\<close>

text \<open>The coarsest diff, all lines out and all lines in, meets what the tracker relies on.\<close>

fun keep_ends :: "rstr \<Rightarrow> rstr list" where
  "keep_ends [] = []"
| "keep_ends (c # cs) =
     (if c = newline then [c] # keep_ends cs
      else (case keep_ends cs of [] \<Rightarrow> [[c]] | l # ls \<Rightarrow> (c # l) # ls))"

definition coarse_differ :: differ where
  "coarse_differ =
     \<lparr>diff_lines = (\<lambda>b c. map (Pair Delete) (keep_ends b) @ map (Pair Insert) (keep_ends c)), diff_timed_out = (\<lambda>_ _. False)\<rparr>"

lemma keep_ends_line: "newline \<notin> set l \<Longrightarrow> keep_ends (l @ newline # r) = (l @ [newline]) # keep_ends r"
  by (induction l) auto

lemma keep_ends_text_of: "list_all clean_line ls \<Longrightarrow> keep_ends (text_of ls) = map (\<lambda>l. l @ [newline]) ls"
  by (induction ls) (simp_all add: keep_ends_line clean_line_def)

lemma sides_map [simp]: "olds (map (Pair Delete) ls) = ls" "news (map (Pair Delete) ls) = []" "olds (map (Pair Insert) ls) = []"
  "news (map (Pair Insert) ls) = ls"
  by (induction ls) simp_all

lemma coarse_contract: "diff_contract coarse_differ"
  unfolding diff_contract_def
proof (intro allI impI)
  fix bl cl :: "rstr list"
  assume "list_all clean_line bl" "list_all clean_line cl"
  then have "diff_lines coarse_differ (text_of bl) (text_of cl) = ended (map (Pair Delete) bl @ map (Pair Insert) cl)"
    by (simp add: coarse_differ_def keep_ends_text_of)
  then show "\<exists>ks. diff_lines coarse_differ (text_of bl) (text_of cl) = ended ks \<and> olds ks = bl \<and> news ks = cl" by fastforce
qed

lemma ended_inj: "ended ks = ended ls \<Longrightarrow> ks = ls"
proof (rule map_injective)
  show "inj (\<lambda>(t, l). (t, l @ [newline]))" by (auto simp: inj_def)
qed

theorem hunks_roundtrip_witness:
  "accept_all_text (compute_hunks coarse_differ 0 [] (lit ''a'' @ [newline]) (lit ''b'' @ [newline] @ lit ''c'' @ [newline]) External)
     (lit ''a'' @ [newline]) = lit ''b'' @ [newline] @ lit ''c'' @ [newline] \<and>
   reject_all_text (compute_hunks coarse_differ 0 [] (lit ''a'' @ [newline]) (lit ''b'' @ [newline] @ lit ''c'' @ [newline]) External)
     (lit ''b'' @ [newline] @ lit ''c'' @ [newline]) = lit ''a'' @ [newline]"
proof -
  let ?b = "[lit ''a'']" and ?c = "[lit ''b'', lit ''c'']"
  have clean: "list_all clean_line ?b" "list_all clean_line ?c" by code_simp+
  have "byte_len (text_of ?b) = 2" "byte_len (text_of ?c) = 4" by code_simp+
  then have size: "byte_len (text_of ?b) \<le> MAX_DIFF_FILE_SIZE" "byte_len (text_of ?c) \<le> MAX_DIFF_FILE_SIZE"
    by (simp_all only: MAX_DIFF_FILE_SIZE_def)
  have "diff_lines coarse_differ (text_of ?b) (text_of ?c) = ended [(Delete, lit ''a''), (Insert, lit ''b''), (Insert, lit ''c'')]"
    by code_simp
  moreover have "solid [] [(Delete, lit ''a''), (Insert, lit ''b''), (Insert, lit ''c'')]"
    "solid [] (swap_sides [(Delete, lit ''a''), (Insert, lit ''b''), (Insert, lit ''c'')])"
    unfolding solid_iff by code_simp+
  ultimately have solid: "solid [] ks \<and> solid [] (swap_sides ks)"
    if "diff_lines coarse_differ (text_of ?b) (text_of ?c) = ended ks" for ks
    using that ended_inj by metis
  have "text_of ?b = lit ''a'' @ [newline]" "text_of ?c = lit ''b'' @ [newline] @ lit ''c'' @ [newline]"
    by (simp_all only: text_of_simps append_assoc append_Cons append_Nil)
  moreover have timely: "\<not> diff_timed_out coarse_differ (text_of ?b) (text_of ?c)" by (simp add: coarse_differ_def)
  ultimately show ?thesis using hunks_roundtrip [OF coarse_contract clean size timely solid, of 0 "[]" External] by metis
qed

section \<open>Texts that do not come back\<close>

text \<open>A patched text has no carriage returns, gets or keeps its last line feed by the text before it, and
  is empty when it should be one empty line.\<close>

definition crlf :: rstr where "crlf = [carriage_return, newline]"

lemma patch_drops_carriage_returns:
  "patch_lines (lit ''a'' @ crlf @ lit ''b'' @ crlf) 2 1 (lit ''c'' @ crlf) = lit ''a'' @ [newline] @ lit ''c'' @ [newline]"
  by code_simp

lemma patch_final_line_feed:
  "patch_lines (lit ''a'') 1 1 (lit ''a'' @ [newline]) = lit ''a''"
  "patch_lines [] 1 0 (lit ''x'' @ [newline]) = lit ''x''"
  "patch_lines (lit ''a'' @ [newline, newline]) 1 1 [] = []"
  by code_simp+

end
