(* ===== verification/HunkInvariant.thy ===== *)
theory HunkInvariant
  imports HunkCommands HunkEdit
begin

text \<open>
  The invariant of the hunk tracker. The hunks of a file, up to identifiers and authors, are the differences
  of its baseline and its content, or there are none; no identifier occurs twice; the index of turns is
  right for all pending hunks. Every turn of the actor keeps it.
\<close>

section \<open>Definitions\<close>

type_synonym line_diff = "rstr \<Rightarrow> rstr \<Rightarrow> (change_tag \<times> rstr) list"

definition shape :: "tracked_hunk \<Rightarrow> tracked_hunk" where
  "shape h = h\<lparr>h_id := 0, h_source := External\<rparr>"

text \<open>The differences of a baseline and a content.\<close>

definition differences :: "line_diff \<Rightarrow> pathbuf \<Rightarrow> file_content_state \<Rightarrow> file_content_state \<Rightarrow> tracked_hunk list" where
  "differences D p base cur =
     (case (base, cur) of
        (Full b, Full c) \<Rightarrow> changes_loop p External 0 1 1 None (D b c)
      | (Full b, Missing) \<Rightarrow> if b = [] then [] else [file_deleted 0 p b External]
      | (Missing, Full c) \<Rightarrow> if c = [] then [] else [file_created 0 p c External]
      | _ \<Rightarrow> [])"

text \<open>What the invariant is relative to: the line diff, the first identifier that has not been given out, and the
  identifiers that have been, with the file each was given to.\<close>

record regime =
  rg_diff :: line_diff
  rg_base :: nat
  rg_known :: "(hunk_id \<times> pathbuf) set"

text \<open>What has happened to a session: nothing unusual, a write or a removal has failed, or the session has been
  rewound to an earlier prompt (and writes may have failed, too).\<close>

datatype history = Faithful | Interrupted | Rewound

definition file_wf :: "regime \<Rightarrow> pathbuf \<Rightarrow> file_hunk_state \<Rightarrow> bool" where
  "file_wf D p f \<longleftrightarrow>
     hunks f = [] \<or> map shape (hunks f) = map shape (differences (rg_diff D) p (baseline f) (current_content f))"

definition file_ids :: "file_hunk_state \<Rightarrow> hunk_id set" where
  "file_ids f = h_id ` set (hunks f)"

definition ids_wf :: "tracker \<Rightarrow> bool" where
  "ids_wf s \<longleftrightarrow>
     distinct (map fst (file_states s)) \<and>
     (\<forall>p f. file_of s p = Some f \<longrightarrow> distinct (map h_id (hunks f)) \<and> (\<forall>i \<in> file_ids f. i < fresh s)) \<and>
     (\<forall>p q f g. p \<noteq> q \<longrightarrow> file_of s p = Some f \<longrightarrow> file_of s q = Some g \<longrightarrow> file_ids f \<inter> file_ids g = {})"

definition turn_ids :: "tracker \<Rightarrow> nat \<Rightarrow> hunk_id set" where
  "turn_ids s k = (case turn_index s k of None \<Rightarrow> {} | Some ids \<Rightarrow> set ids)"

definition index_sound :: "tracker \<Rightarrow> bool" where
  "index_sound s \<longleftrightarrow>
     (\<forall>k. \<forall>i \<in> turn_ids s k. i < fresh s) \<and>
     (\<forall>p f k. file_of s p = Some f \<longrightarrow> (\<forall>h \<in> set (hunks f). h_id h \<in> turn_ids s k \<longrightarrow> h_source h = AgentEdit k))"

definition indexed :: "tracker \<Rightarrow> file_hunk_state \<Rightarrow> bool" where
  "indexed s f \<longleftrightarrow> (\<forall>h \<in> set (hunks f). \<forall>k. h_source h = AgentEdit k \<longrightarrow> h_id h \<in> turn_ids s k)"

text \<open>An identifier never changes its file.\<close>

definition ids_stay :: "regime \<Rightarrow> tracker \<Rightarrow> bool" where
  "ids_stay D s \<longleftrightarrow>
     rg_base D \<le> fresh s \<and>
     (\<forall>p f. file_of s p = Some f \<longrightarrow> (\<forall>i \<in> file_ids f. rg_base D \<le> i \<or> (i, p) \<in> rg_known D))"

text \<open>The files in \<open>P\<close> are being worked on.\<close>

definition tracker_inv :: "regime \<Rightarrow> history \<Rightarrow> pathbuf set \<Rightarrow> tracker \<Rightarrow> bool" where
  "tracker_inv D io P s \<longleftrightarrow>
     ids_wf s \<and> ids_stay D s \<and> (io \<noteq> Rewound \<longrightarrow> index_sound s) \<and>
     (\<forall>p f. file_of s p = Some f \<longrightarrow> p \<notin> P \<longrightarrow> file_wf D p f \<and> (io = Faithful \<longrightarrow> indexed s f))"

section \<open>What the operations leave alone\<close>

lemma send_event_simps [simp]:
  "file_states (send_event e s) = file_states s" "fresh (send_event e s) = fresh s" "turn_index (send_event e s) = turn_index s"
  "disk (send_event e s) = disk s" "mode (send_event e s) = mode s" "stats (send_event e s) = stats s"
  "working_dir (send_event e s) = working_dir s"
  by (simp_all add: send_event_def)

lemma send_events_simps [simp]:
  "file_states (send_events es s) = file_states s" "fresh (send_events es s) = fresh s"
  "turn_index (send_events es s) = turn_index s" "disk (send_events es s) = disk s" "mode (send_events es s) = mode s"
  "stats (send_events es s) = stats s" "working_dir (send_events es s) = working_dir s"
  by (induction es arbitrary: s) (simp_all add: send_events_def)

lemma remove_from_turn_index_simps [simp]:
  "file_states (remove_from_turn_index h s) = file_states s" "fresh (remove_from_turn_index h s) = fresh s"
  "disk (remove_from_turn_index h s) = disk s" "mode (remove_from_turn_index h s) = mode s"
  "stats (remove_from_turn_index h s) = stats s" "working_dir (remove_from_turn_index h s) = working_dir s"
  by (simp_all add: remove_from_turn_index_def split: option.splits)

lemma add_to_turn_index_simps [simp]:
  "file_states (add_to_turn_index h s) = file_states s" "fresh (add_to_turn_index h s) = fresh s"
  "disk (add_to_turn_index h s) = disk s" "mode (add_to_turn_index h s) = mode s"
  "stats (add_to_turn_index h s) = stats s" "working_dir (add_to_turn_index h s) = working_dir s"
  by (simp_all add: add_to_turn_index_def split: option.splits)

lemma update_session_stats_simps [simp]:
  "file_states (update_session_stats i a s) = file_states s" "fresh (update_session_stats i a s) = fresh s"
  "disk (update_session_stats i a s) = disk s" "turn_index (update_session_stats i a s) = turn_index s"
  "mode (update_session_stats i a s) = mode s" "working_dir (update_session_stats i a s) = working_dir s"
  by (simp_all add: update_session_stats_def Let_def)

lemma put_file_simps [simp]:
  "fresh (put_file p f s) = fresh s" "turn_index (put_file p f s) = turn_index s" "disk (put_file p f s) = disk s"
  "mode (put_file p f s) = mode s" "stats (put_file p f s) = stats s" "working_dir (put_file p f s) = working_dir s"
  "file_of (put_file p f s) q = (if q = p then Some f else file_of s q)"
  by (simp_all add: put_file_def file_of_def update_conv')

lemma drop_file_simps [simp]:
  "fresh (drop_file p s) = fresh s" "turn_index (drop_file p s) = turn_index s" "disk (drop_file p s) = disk s"
  "mode (drop_file p s) = mode s" "stats (drop_file p s) = stats s" "working_dir (drop_file p s) = working_dir s"
  "file_of (drop_file p s) q = (if q = p then None else file_of s q)"
  by (simp_all add: drop_file_def file_of_def delete_conv')

lemmas fold_remove_simps [simp] =
  fold_same [where v = file_states and g = remove_from_turn_index, OF remove_from_turn_index_simps(1)]
  fold_same [where v = fresh and g = remove_from_turn_index, OF remove_from_turn_index_simps(2)]
  fold_same [where v = disk and g = remove_from_turn_index, OF remove_from_turn_index_simps(3)]
  fold_same [where v = mode and g = remove_from_turn_index, OF remove_from_turn_index_simps(4)]
  fold_same [where v = stats and g = remove_from_turn_index, OF remove_from_turn_index_simps(5)]
  fold_same [where v = working_dir and g = remove_from_turn_index, OF remove_from_turn_index_simps(6)]

lemmas fold_add_simps [simp] =
  fold_same [where v = file_states and g = add_to_turn_index, OF add_to_turn_index_simps(1)]
  fold_same [where v = fresh and g = add_to_turn_index, OF add_to_turn_index_simps(2)]
  fold_same [where v = disk and g = add_to_turn_index, OF add_to_turn_index_simps(3)]
  fold_same [where v = mode and g = add_to_turn_index, OF add_to_turn_index_simps(4)]
  fold_same [where v = stats and g = add_to_turn_index, OF add_to_turn_index_simps(5)]
  fold_same [where v = working_dir and g = add_to_turn_index, OF add_to_turn_index_simps(6)]

section \<open>The index of turns\<close>

lemma prompt_index_Some [simp]: "prompt_index src = Some k \<longleftrightarrow> src = AgentEdit k"
  by (cases src) (auto simp: prompt_index_def)

definition agent_ids :: "nat \<Rightarrow> tracked_hunk list \<Rightarrow> hunk_id set" where
  "agent_ids k hs = h_id ` {h \<in> set hs. h_source h = AgentEdit k}"

lemma agent_idsI: "h \<in> set hs \<Longrightarrow> h_source h = AgentEdit k \<Longrightarrow> h_id h \<in> agent_ids k hs"
  by (simp add: agent_ids_def)

lemma turn_ids_remove: "turn_ids (remove_from_turn_index h s) k = turn_ids s k - agent_ids k [h]"
  by (cases "h_source h") (auto simp: remove_from_turn_index_def turn_ids_def agent_ids_def prompt_index_def split: option.splits)

lemma turn_ids_add: "turn_ids (add_to_turn_index h s) k = turn_ids s k \<union> agent_ids k [h]"
  by (cases "h_source h") (auto simp: add_to_turn_index_def turn_ids_def agent_ids_def prompt_index_def split: option.splits)

lemma turn_ids_fold_remove: "turn_ids (fold remove_from_turn_index hs s) k = turn_ids s k - agent_ids k hs"
  by (induction hs arbitrary: s) (auto simp: turn_ids_remove agent_ids_def)

lemma turn_ids_fold_add: "turn_ids (fold add_to_turn_index hs s) k = turn_ids s k \<union> agent_ids k hs"
  by (induction hs arbitrary: s) (auto simp: turn_ids_add agent_ids_def)

lemma turn_ids_cong: "turn_index s = turn_index t \<Longrightarrow> turn_ids s k = turn_ids t k"
  by (simp add: turn_ids_def)

lemma turn_ids_simps [simp]:
  "turn_ids (send_event e s) k = turn_ids s k" "turn_ids (send_events es s) k = turn_ids s k"
  "turn_ids (put_file p f s) k = turn_ids s k" "turn_ids (drop_file p s) k = turn_ids s k"
  "turn_ids (update_session_stats i a s) k = turn_ids s k" "turn_ids (s\<lparr>fresh := n\<rparr>) k = turn_ids s k"
  "turn_ids (s\<lparr>disk := d\<rparr>) k = turn_ids s k"
  by (rule turn_ids_cong; simp)+

section \<open>Computed hunks\<close>

lemma shape_simps [simp]: "shape (h\<lparr>h_id := i\<rparr>) = shape h" "shape (h\<lparr>h_source := src\<rparr>) = shape h"
  by (simp_all add: shape_def)

lemma shape_build: "shape (build_hunk i p src b) = shape (build_hunk j p src' b)"
  by (simp add: shape_def build_hunk_def)

lemma shape_changes:
  "map shape (changes_loop p src i ol nl b cs) = map shape (changes_loop p src' j ol nl b cs)"
proof (induction p src i ol nl b cs arbitrary: j rule: changes_loop.induct)
  case (2 p src i ol nl b l cs)
  then show ?case by (cases b) (auto simp: shape_build [of i p src _ j src'])
qed (auto simp: shape_build split: option.split)

lemma ids_changes:
  "map h_id (changes_loop p src i ol nl b cs) = [i..<i + length (changes_loop p src i ol nl b cs)]"
proof (induction p src i ol nl b cs rule: changes_loop.induct)
  case (2 p src i ol nl b l cs)
  have "i # [Suc i..<Suc i + n] = [i..<i + Suc n]" for n by (simp add: upt_conv_Cons)
  then show ?case using 2 by (cases b) (simp_all add: build_hunk_def)
qed (auto simp: build_hunk_def split: option.split)

lemma ids_new_hunks: "map h_id (new_hunks_of d i p base cur src) = [i..<i + length (new_hunks_of d i p base cur src)]"
  by (auto simp: new_hunks_of_def compute_hunks_def ids_changes file_created_def file_deleted_def split: file_content_state.split)

lemma shape_compute:
  "compute_hunks d i p b c src = [] \<or>
   map shape (compute_hunks d i p b c src) = map shape (changes_loop p External 0 1 1 None (diff_lines d b c))"
  unfolding compute_hunks_def using shape_changes [of p src i 1 1 None "diff_lines d b c" External 0] by simp

lemma shape_new_hunks:
  "new_hunks_of d i p base cur src = [] \<or>
   map shape (new_hunks_of d i p base cur src) = map shape (differences (diff_lines d) p base cur)"
  using shape_compute [of d i p _ _ src]
  by (auto simp: new_hunks_of_def differences_def shape_def file_created_def file_deleted_def
      split: file_content_state.split)

lemma min_by_key_mem: "min_by_key k xs = Some x \<Longrightarrow> x \<in> set xs"
  by (induction xs arbitrary: x) (auto split: option.splits if_splits)

lemma max_by_key_mem: "max_by_key k xs = Some x \<Longrightarrow> x \<in> set xs"
  by (induction xs arbitrary: x) (auto split: option.splits if_splits)

lemma find_matching_mem: "find_matching_old_hunk h old = Some m \<Longrightarrow> m \<in> set old"
  by (auto simp: find_matching_old_hunk_def Let_def dest!: min_by_key_mem max_by_key_mem split: if_splits)

lemma shape_claim: "map shape (claim_ids old claimed hs) = map shape hs"
  by (induction old claimed hs rule: claim_ids.induct) (auto split: option.split)

lemma ids_claim_subset: "h_id ` set (claim_ids old claimed hs) \<subseteq> h_id ` set hs \<union> (h_id ` set old - set claimed)"
proof (induction old claimed hs rule: claim_ids.induct)
  case (2 old claimed h hs)
  then show ?case
    by (cases "find_matching_old_hunk h old") (auto dest: find_matching_mem)
qed simp

lemma ids_claim_distinct:
  "distinct (map h_id hs) \<Longrightarrow> h_id ` set hs \<inter> h_id ` set old = {} \<Longrightarrow> distinct (map h_id (claim_ids old claimed hs))"
proof (induction old claimed hs rule: claim_ids.induct)
  case (2 old claimed h hs)
  show ?case
  proof (cases "find_matching_old_hunk h old")
    case None
    then show ?thesis using 2 ids_claim_subset [of old claimed hs] by auto
  next
    case (Some m)
    have m: "h_id m \<in> h_id ` set old" using find_matching_mem [OF Some] by simp
    show ?thesis
    proof (cases "h_id m \<in> set claimed")
      case True
      then show ?thesis using 2 Some ids_claim_subset [of old claimed hs] by auto
    next
      case False
      have "distinct (map h_id (claim_ids old (h_id m # claimed) hs))" using 2(3) [OF Some False] 2(4,5) by auto
      moreover have "h_id m \<notin> h_id ` set hs" using 2(5) m by auto
      then have "h_id m \<notin> h_id ` set (claim_ids old (h_id m # claimed) hs)"
        using ids_claim_subset [of old "h_id m # claimed" hs] by auto
      ultimately show ?thesis using Some False by simp
    qed
  qed
qed simp

section \<open>Recomputation keeps the invariant\<close>

lemma file_of_cong: "file_states s = file_states t \<Longrightarrow> file_of s p = file_of t p"
  by (simp add: file_of_def)

lemma file_of_simps [simp]:
  "file_of (send_event e s) p = file_of s p" "file_of (send_events es s) p = file_of s p"
  "file_of (remove_from_turn_index h s) p = file_of s p" "file_of (add_to_turn_index h s) p = file_of s p"
  "file_of (fold remove_from_turn_index hs s) p = file_of s p" "file_of (fold add_to_turn_index hs s) p = file_of s p"
  "file_of (update_session_stats i a s) p = file_of s p" "file_of (s\<lparr>fresh := n\<rparr>) p = file_of s p"
  "file_of (s\<lparr>disk := d\<rparr>) p = file_of s p"
  by (rule file_of_cong; simp)+

lemma distinct_put_file: "distinct (map fst (file_states s)) \<Longrightarrow> distinct (map fst (file_states (put_file p f s)))"
  by (simp add: put_file_def distinct_update)

lemma distinct_drop_file: "distinct (map fst (file_states s)) \<Longrightarrow> distinct (map fst (file_states (drop_file p s)))"
  by (simp add: drop_file_def distinct_delete)

lemma index_sound_cong:
  assumes "file_states s = file_states t" "turn_index s = turn_index t" "fresh s = fresh t"
  shows "index_sound s = index_sound t"
  using turn_ids_cong [OF assms(2)] file_of_cong [OF assms(1)] assms(3) by (simp add: index_sound_def)

lemma tracker_inv_cong:
  assumes "file_states s = file_states t" "turn_index s = turn_index t" "fresh s = fresh t"
  shows "tracker_inv D io P s = tracker_inv D io P t"
  using turn_ids_cong [OF assms(2)] file_of_cong [OF assms(1)] assms index_sound_cong [OF assms]
  by (simp add: tracker_inv_def ids_wf_def ids_stay_def indexed_def)

lemma tracker_inv_simps [simp]:
  "tracker_inv D io P (send_event e s) = tracker_inv D io P s" "tracker_inv D io P (send_events es s) = tracker_inv D io P s"
  "tracker_inv D io P (update_session_stats i a s) = tracker_inv D io P s" "tracker_inv D io P (s\<lparr>disk := d\<rparr>) = tracker_inv D io P s"
  by (rule tracker_inv_cong; simp)+

text \<open>The identifiers that a file may get: its own and new ones.\<close>

definition own_or_new :: "tracker \<Rightarrow> pathbuf \<Rightarrow> nat \<Rightarrow> hunk_id set" where
  "own_or_new s p n = (case file_of s p of None \<Rightarrow> {} | Some f \<Rightarrow> file_ids f) \<union> {fresh s..<n}"

lemma ids_wf_put:
  assumes "ids_wf s" "distinct (map h_id (hunks f))" "file_ids f \<subseteq> own_or_new s p n" "fresh s \<le> n"
  shows "ids_wf (put_file p f (s\<lparr>fresh := n\<rparr>))"
proof -
  have own: "i < n" "q \<noteq> p \<Longrightarrow> file_of s q = Some g \<Longrightarrow> i \<notin> file_ids g" if "i \<in> file_ids f" for i q g
  proof -
    from assms(3) that consider f' where "file_of s p = Some f'" "i \<in> file_ids f'" | "fresh s \<le> i" "i < n"
      by (auto simp: own_or_new_def split: option.splits)
    then have "i < n \<and> (q \<noteq> p \<longrightarrow> file_of s q = Some g \<longrightarrow> i \<notin> file_ids g)"
    proof cases
      case 1
      then show ?thesis using assms(1,4) unfolding ids_wf_def by (metis disjoint_iff order_less_le_trans)
    next
      case 2
      then show ?thesis using assms(1) unfolding ids_wf_def by (metis not_less)
    qed
    then show "i < n" "q \<noteq> p \<Longrightarrow> file_of s q = Some g \<Longrightarrow> i \<notin> file_ids g" by auto
  qed
  have "distinct (map fst (file_states (put_file p f (s\<lparr>fresh := n\<rparr>))))"
    using assms(1) by (intro distinct_put_file) (simp add: ids_wf_def)
  moreover have "\<forall>q g. file_of s q = Some g \<longrightarrow> distinct (map h_id (hunks g)) \<and> (\<forall>i \<in> file_ids g. i < n)"
    using assms(1,4) unfolding ids_wf_def by (meson order_less_le_trans)
  moreover have "\<forall>q r f g. q \<noteq> r \<longrightarrow> file_of s q = Some f \<longrightarrow> file_of s r = Some g \<longrightarrow> file_ids f \<inter> file_ids g = {}"
    using assms(1) unfolding ids_wf_def by blast
  moreover have "\<forall>q g. q \<noteq> p \<longrightarrow> file_of s q = Some g \<longrightarrow> file_ids f \<inter> file_ids g = {}" using own(2) by blast
  ultimately show ?thesis using assms(2) own(1) unfolding ids_wf_def
    by (simp split: if_splits) (metis inf_commute)
qed

definition recomputed :: "outside \<Rightarrow> pathbuf \<Rightarrow> file_content_state option \<Rightarrow> hunk_source \<Rightarrow> file_hunk_state \<Rightarrow> tracker \<Rightarrow> tracked_hunk list" where
  "recomputed w p new_current src f s =
     claim_ids (hunks f) []
       (new_hunks_of (similar w) (fresh s) p (baseline f) (case new_current of None \<Rightarrow> Missing | Some c \<Rightarrow> c) src)"

lemma recompute_file:
  "file_of (recompute_hunks w p c src s) q =
     (if q = p then
        map_option (\<lambda>f. f\<lparr>current_content := (case c of None \<Rightarrow> Missing | Some c \<Rightarrow> c), hunks := recomputed w p c src f s\<rparr>) (file_of s p)
      else file_of s q)"
  by (simp add: recompute_hunks_def recomputed_def Let_def split: option.split)

lemma recompute_simps [simp]:
  "disk (recompute_hunks w p c src s) = disk s" "mode (recompute_hunks w p c src s) = mode s"
  "stats (recompute_hunks w p c src s) = stats s" "working_dir (recompute_hunks w p c src s) = working_dir s"
  by (simp_all add: recompute_hunks_def Let_def split: option.split)

lemma recompute_fresh: "fresh s \<le> fresh (recompute_hunks w p c src s)"
  by (simp add: recompute_hunks_def Let_def split: option.split)

lemma recompute_turn_ids:
  "file_of s p = Some f \<Longrightarrow>
     turn_ids (recompute_hunks w p c src s) k = turn_ids s k - agent_ids k (hunks f) \<union> agent_ids k (recomputed w p c src f s)"
  by (simp add: recompute_hunks_def recomputed_def Let_def turn_ids_fold_add turn_ids_fold_remove)

lemma agent_ids_subset: "agent_ids k hs \<subseteq> h_id ` set hs"
  by (auto simp: agent_ids_def)

lemma recompute_ids:
  fixes w :: outside and c :: "file_content_state option" and src :: hunk_source
  assumes "ids_wf s" "file_of s p = Some f"
  defines "new \<equiv> recomputed w p c src f s" and "t \<equiv> recompute_hunks w p c src s"
  shows "distinct (map h_id new)" "h_id ` set new \<subseteq> file_ids f \<union> {fresh s..<fresh t}" "ids_wf t"
proof -
  define raw where "raw = new_hunks_of (similar w) (fresh s) p (baseline f) (case c of None \<Rightarrow> Missing | Some c \<Rightarrow> c) src"
  have new: "new = claim_ids (hunks f) [] raw" by (simp add: new_def recomputed_def raw_def)
  have fresh: "fresh t = fresh s + length raw" using assms(2) by (simp add: t_def recompute_hunks_def raw_def Let_def)
  have raw: "h_id ` set raw = {fresh s..<fresh t}" "distinct (map h_id raw)"
    using arg_cong [OF ids_new_hunks, of set] ids_new_hunks unfolding fresh raw_def by (metis set_map set_upt, metis distinct_upt)
  have "\<forall>i \<in> file_ids f. i < fresh s" using assms(1,2) by (simp add: ids_wf_def)
  then have "h_id ` set raw \<inter> h_id ` set (hunks f) = {}" unfolding raw(1) file_ids_def by auto
  then show d: "distinct (map h_id new)" unfolding new using raw(2) by (intro ids_claim_distinct)
  show sub: "h_id ` set new \<subseteq> file_ids f \<union> {fresh s..<fresh t}"
    using ids_claim_subset [of "hunks f" "[]" raw] unfolding new raw(1) file_ids_def by auto
  define g where "g = f\<lparr>current_content := (case c of None \<Rightarrow> Missing | Some c \<Rightarrow> c), hunks := new\<rparr>"
  have "ids_wf (put_file p g (s\<lparr>fresh := fresh t\<rparr>))"
    using d sub assms(1,2) by (intro ids_wf_put) (auto simp: g_def file_ids_def own_or_new_def fresh)
  moreover have "file_states t = file_states (put_file p g (s\<lparr>fresh := fresh t\<rparr>))"
    using assms(2) by (simp add: t_def recompute_hunks_def Let_def g_def new raw_def put_file_def)
  ultimately show "ids_wf t" by (simp add: ids_wf_def file_of_def)
qed

lemma recompute_index_sound:
  assumes "ids_wf s" "index_sound s" "file_of s p = Some f"
  shows "index_sound (recompute_hunks w p c src s)"
proof -
  let ?t = "recompute_hunks w p c src s" and ?new = "recomputed w p c src f s"
  note ids = recompute_ids [OF assms(1,3), of w c src]
  note turn = recompute_turn_ids [OF assms(3), of w c src]
  have old_lt: "\<forall>i \<in> turn_ids s k. i < fresh s" for k using assms(2) by (simp add: index_sound_def)
  have f_lt: "\<forall>i \<in> file_ids f. i < fresh s" using assms(1,3) by (simp add: ids_wf_def)
  have new_lt: "\<forall>i \<in> h_id ` set ?new. i < fresh ?t"
    using f_lt ids(2) recompute_fresh [of s w p c src] by fastforce
  have "i < fresh ?t" if "i \<in> turn_ids ?t k" for i k
  proof (cases "i \<in> agent_ids k ?new")
    case True
    then show ?thesis using new_lt agent_ids_subset [of k ?new] by blast
  next
    case False
    then have "i < fresh s" using that old_lt [of k] unfolding turn by blast
    then show ?thesis using recompute_fresh [of s w p c src] by simp
  qed
  moreover have "h_source h = AgentEdit k"
    if hyp: "file_of ?t q = Some g" "h \<in> set (hunks g)" "h_id h \<in> turn_ids ?t k" for q g h k
  proof (cases "q = p")
    case True
    then have h: "h \<in> set ?new" using hyp(1,2) assms(3) by (auto simp: recompute_file)
    have "h_id h \<notin> turn_ids s k - agent_ids k (hunks f)"
    proof
      assume in_old: "h_id h \<in> turn_ids s k - agent_ids k (hunks f)"
      then have "h_id h \<in> file_ids f" using h ids(2) old_lt [of k] by force
      then obtain x where "x \<in> set (hunks f)" "h_id x = h_id h" by (auto simp: file_ids_def)
      moreover from this have "h_source x = AgentEdit k" using in_old assms(2,3) by (simp add: index_sound_def)
      ultimately show False using in_old agent_idsI [of x "hunks f" k] by simp
    qed
    then obtain x where "x \<in> set ?new" "h_source x = AgentEdit k" "h_id x = h_id h"
      using hyp(3) unfolding turn by (auto simp: agent_ids_def)
    then show ?thesis using h ids(1) by (metis distinct_map inj_onD)
  next
    case False
    then have g: "file_of s q = Some g" using hyp(1) by (simp add: recompute_file)
    then have "h_id h < fresh s" "h_id h \<notin> file_ids f"
      using assms(1,3) hyp(2) False unfolding ids_wf_def file_ids_def by (blast, metis disjoint_iff image_eqI)
    then have "h_id h \<notin> agent_ids k ?new" using ids(2) agent_ids_subset [of k ?new] by fastforce
    then have "h_id h \<in> turn_ids s k" using hyp(3) unfolding turn by auto
    then show ?thesis using assms(2) g hyp(2) by (auto simp: index_sound_def)
  qed
  ultimately show ?thesis by (auto simp: index_sound_def)
qed

lemma recomputed_wf:
  "diff_lines (similar w) = rg_diff D \<Longrightarrow> file_wf D p
     (f\<lparr>current_content := (case c of None \<Rightarrow> Missing | Some c \<Rightarrow> c), hunks := recomputed w p c src f s\<rparr>)"
proof -
  let ?cur = "case c of None \<Rightarrow> Missing | Some c \<Rightarrow> c"
  have "map shape (recomputed w p c src f s) = map shape (new_hunks_of (similar w) (fresh s) p (baseline f) ?cur src)"
    unfolding recomputed_def by (rule shape_claim)
  moreover assume "diff_lines (similar w) = rg_diff D"
  ultimately show ?thesis using shape_new_hunks [of "similar w" "fresh s" p "baseline f" ?cur src]
    by (auto simp: file_wf_def)
qed

lemma recompute_stays:
  assumes "ids_wf s" "ids_stay D s" "file_of s p = Some f"
  shows "ids_stay D (recompute_hunks w p c src s)"
proof -
  have "rg_base D \<le> i \<or> (i, p) \<in> rg_known D" if "i \<in> h_id ` set (recomputed w p c src f s)" for i
  proof -
    have "i \<in> file_ids f \<or> fresh s \<le> i" using recompute_ids(2) [OF assms(1,3), of w c src] that by fastforce
    then show ?thesis using assms(2,3) by (auto simp: ids_stay_def)
  qed
  then show ?thesis using assms(2,3) order_trans [OF _ recompute_fresh [of s w p c src]]
    by (auto simp: ids_stay_def recompute_file file_ids_def split: if_splits)
qed

lemma recompute_inv:
  assumes "tracker_inv D io {p} s" "diff_lines (similar w) = rg_diff D"
  shows "tracker_inv D io {} (recompute_hunks w p c src s)"
proof (cases "file_of s p")
  case None
  then have "q \<noteq> p" if "file_of s q = Some g" for q g using that by auto
  then show ?thesis using assms(1) None by (simp add: recompute_hunks_def tracker_inv_def)
next
  case (Some f)
  let ?t = "recompute_hunks w p c src s" and ?new = "recomputed w p c src f s"
  have wf: "ids_wf s" "ids_stay D s" using assms(1) by (simp_all add: tracker_inv_def)
  note ids = recompute_ids [OF wf(1) Some, of w c src]
  have "file_wf D q g \<and> (io = Faithful \<longrightarrow> indexed ?t g)" if g: "file_of ?t q = Some g" for q g
  proof (cases "q = p")
    case True
    have "file_wf D q g" using g Some recomputed_wf [OF assms(2)] unfolding True by (auto simp: recompute_file)
    moreover have "indexed ?t g" using g Some
      by (auto simp: True recompute_file indexed_def recompute_turn_ids [OF Some] agent_ids_def)
    ultimately show ?thesis by simp
  next
    case False
    then have old: "file_of s q = Some g" using g by (simp add: recompute_file)
    have "h_id h \<notin> agent_ids k (hunks f)" if "h \<in> set (hunks g)" for h k
      using wf(1) old Some False that agent_ids_subset [of k "hunks f"]
      unfolding ids_wf_def file_ids_def by (metis disjoint_iff image_eqI subsetD)
    then show ?thesis using assms(1) old False by (auto simp: tracker_inv_def indexed_def recompute_turn_ids [OF Some])
  qed
  moreover have "io \<noteq> Rewound \<longrightarrow> index_sound ?t"
    using assms(1) recompute_index_sound [OF wf(1) _ Some] by (simp add: tracker_inv_def)
  ultimately show ?thesis using ids(3) recompute_stays [OF wf Some] by (simp add: tracker_inv_def)
qed

end
