(* ===== verification/HunkSteps.thy ===== *)
theory HunkSteps
  imports HunkInvariant
begin

text \<open>
  Every operation of the hunk tracker keeps its invariant, and identifiers are never used again. The
  relation \<open>preserves\<close> composes, so that the proofs follow the calls of the source.
\<close>

section \<open>Single updates\<close>

lemma inv_weaken: "tracker_inv D io P s \<Longrightarrow> P \<subseteq> Q \<Longrightarrow> tracker_inv D io Q s"
  by (auto simp: tracker_inv_def)

lemma inv_not_tracked: "tracker_inv D io {p} s \<Longrightarrow> file_of s p = None \<Longrightarrow> tracker_inv D io {} s"
  unfolding tracker_inv_def by (metis empty_iff insert_iff option.distinct(1))

lemma inv_finished:
  "tracker_inv D io {p} s \<Longrightarrow> file_of s p = Some f \<Longrightarrow> file_wf D p f \<Longrightarrow> io \<noteq> Faithful \<Longrightarrow> tracker_inv D io {} s"
  unfolding tracker_inv_def by (metis empty_iff insert_iff option.inject)

definition hunks_at :: "tracker \<Rightarrow> pathbuf \<Rightarrow> tracked_hunk list" where
  "hunks_at s p = (case file_of s p of None \<Rightarrow> [] | Some f \<Rightarrow> hunks f)"

lemma inv_put:
  assumes "tracker_inv D io {p} s" "distinct (map h_id (hunks f))" "set (hunks f) \<subseteq> set (hunks_at s p)"
  shows "tracker_inv D io {p} (put_file p f s)"
proof -
  have "ids_wf (put_file p f (s\<lparr>fresh := fresh s\<rparr>))"
    using assms by (intro ids_wf_put) (auto simp: tracker_inv_def own_or_new_def file_ids_def hunks_at_def split: option.splits)
  moreover have "ids_stay D (put_file p f s)"
    using assms(1,3) unfolding tracker_inv_def ids_stay_def hunks_at_def file_ids_def
    by (cases "file_of s p") (auto split: if_splits)
  moreover have "h_source h = AgentEdit k" if "h \<in> set (hunks f)" "h_id h \<in> turn_ids s k" "io \<noteq> Rewound" for h k
    using that assms(1,3) unfolding tracker_inv_def index_sound_def hunks_at_def
    by (cases "file_of s p") auto
  then have "io \<noteq> Rewound \<longrightarrow> index_sound (put_file p f s)"
    using assms(1) unfolding tracker_inv_def index_sound_def by (auto split: if_splits)
  ultimately show ?thesis using assms(1) by (auto simp: tracker_inv_def indexed_def split: if_splits)
qed

lemma inv_put_wf:
  assumes "tracker_inv D io {p} (put_file p f s)" "file_wf D p f" "io = Faithful \<longrightarrow> indexed s f"
  shows "tracker_inv D io {} (put_file p f s)"
  using assms by (auto simp: tracker_inv_def indexed_def split: if_splits)

lemma inv_put_empty: "tracker_inv D io {p} s \<Longrightarrow> hunks f = [] \<Longrightarrow> tracker_inv D io {} (put_file p f s)"
  by (rule inv_put_wf, rule inv_put) (auto simp: file_wf_def indexed_def)

lemma inv_drop:
  assumes "tracker_inv D io {p} s"
  shows "tracker_inv D io {} (drop_file p s)"
proof -
  have "ids_wf (drop_file p s)"
    using assms distinct_drop_file [of s p] by (auto simp: tracker_inv_def ids_wf_def split: if_splits)
  moreover have "ids_stay D (drop_file p s)" using assms by (auto simp: tracker_inv_def ids_stay_def split: if_splits)
  moreover have "io \<noteq> Rewound \<longrightarrow> index_sound (drop_file p s)"
    using assms by (auto simp: tracker_inv_def index_sound_def split: if_splits)
  ultimately show ?thesis using assms by (auto simp: tracker_inv_def indexed_def split: if_splits)
qed

definition nowhere :: "pathbuf set \<Rightarrow> hunk_id \<Rightarrow> tracker \<Rightarrow> bool" where
  "nowhere P i s \<longleftrightarrow> (\<forall>q g. file_of s q = Some g \<longrightarrow> q \<notin> P \<longrightarrow> i \<notin> file_ids g)"

lemma inv_remove_index:
  assumes "tracker_inv D io P s" "nowhere P (h_id h) s"
  shows "tracker_inv D io P (remove_from_turn_index h s)"
proof -
  have "turn_ids (remove_from_turn_index h s) k \<subseteq> turn_ids s k" for k by (simp add: turn_ids_remove)
  then have "io \<noteq> Rewound \<longrightarrow> index_sound (remove_from_turn_index h s)"
    using assms(1) unfolding tracker_inv_def index_sound_def by (simp, meson subsetD)
  moreover have "indexed (remove_from_turn_index h s) g" if "file_of s q = Some g" "q \<notin> P" "indexed s g" for q g
  proof -
    have "h_id x \<noteq> h_id h" if "x \<in> set (hunks g)" for x
      using \<open>file_of s q = Some g\<close> \<open>q \<notin> P\<close> assms(2) that
      unfolding nowhere_def file_ids_def by (metis image_eqI)
    then show ?thesis using \<open>indexed s g\<close> by (auto simp: indexed_def turn_ids_remove agent_ids_def)
  qed
  moreover have "ids_wf (remove_from_turn_index h s)" "ids_stay D (remove_from_turn_index h s)"
    using assms(1) by (simp_all add: tracker_inv_def ids_wf_def ids_stay_def)
  ultimately show ?thesis using assms(1) by (auto simp: tracker_inv_def)
qed

lemma supersede_simps [simp]:
  "file_states (supersede p hs s) = file_states s" "fresh (supersede p hs s) = fresh s" "disk (supersede p hs s) = disk s"
  "mode (supersede p hs s) = mode s" "stats (supersede p hs s) = stats s" "working_dir (supersede p hs s) = working_dir s"
  unfolding supersede_def by (rule fold_same; simp)+

lemma inv_supersede:
  "tracker_inv D io P s \<Longrightarrow> (\<And>h. h \<in> set hs \<Longrightarrow> nowhere P (h_id h) s) \<Longrightarrow> tracker_inv D io P (supersede p hs s)"
proof (induction hs arbitrary: s)
  case (Cons h hs)
  have "tracker_inv D io P (remove_from_turn_index h s)" using Cons.prems by (intro inv_remove_index) auto
  then have "tracker_inv D io P (supersede p hs (send_event (HunkRemoved p (h_id h) Superseded) (remove_from_turn_index h s)))"
    using Cons.prems(2) by (intro Cons.IH) (auto simp: nowhere_def)
  then show ?case by (simp add: supersede_def)
qed (simp add: supersede_def)

lemma nowhere_else:
  assumes "tracker_inv D io P s" "file_of s p = Some f" "h \<in> set (hunks f)"
  shows "nowhere {p} (h_id h) s"
  using assms unfolding tracker_inv_def ids_wf_def nowhere_def file_ids_def
  by (metis disjoint_iff image_eqI singletonI)

lemma inv_clear:
  assumes "tracker_inv D io {p} s" "file_of s p = Some f"
  shows "hunks g = [] \<Longrightarrow> tracker_inv D io {} (supersede p (hunks f) (put_file p g s))"
    and "tracker_inv D io {} (supersede p (hunks f) (drop_file p s))"
proof -
  have other: "nowhere {p} (h_id h) s" if "h \<in> set (hunks f)" for h using nowhere_else [OF assms that] .
  show "tracker_inv D io {} (supersede p (hunks f) (put_file p g s))" if "hunks g = []"
    using inv_put_empty [OF assms(1) that] other
    by (intro inv_supersede) (auto simp: nowhere_def file_ids_def that split: if_splits)
  show "tracker_inv D io {} (supersede p (hunks f) (drop_file p s))"
    using inv_drop [OF assms(1)] other by (intro inv_supersede) (auto simp: nowhere_def split: if_splits)
qed

section \<open>Keeping the invariant\<close>

definition preserves :: "regime \<Rightarrow> history \<Rightarrow> tracker \<Rightarrow> tracker \<Rightarrow> bool" where
  "preserves D io s t \<longleftrightarrow> (tracker_inv D io {} s \<longrightarrow> tracker_inv D io {} t \<and> fresh s \<le> fresh t)"

definition admissible :: "line_diff \<Rightarrow> history \<Rightarrow> outside \<Rightarrow> bool" where
  "admissible D io w \<longleftrightarrow>
     diff_lines (similar w) = D \<and> (io = Faithful \<longrightarrow> (\<forall>p. failed_write w p = None \<and> \<not> remove_fails w p))"

lemma preserves_refl [simp]: "preserves D io s s"
  by (simp add: preserves_def)

lemma preserves_trans [trans]: "preserves D io s t \<Longrightarrow> preserves D io t u \<Longrightarrow> preserves D io s u"
  by (auto simp: preserves_def)

interpretation invariant: step_order "preserves D io" for D io
  by unfold_locales (simp, rule preserves_trans)

lemma preserves_same:
  assumes "file_states t = file_states s" "turn_index t = turn_index s" "fresh t = fresh s"
  shows "preserves D io s t"
  using tracker_inv_cong [OF assms] assms(3) by (simp add: preserves_def)

lemma preserves_event: "preserves D io s t \<Longrightarrow> preserves D io s (send_event e t)"
  by (simp add: preserves_def)

lemma preserves_recompute:
  assumes "admissible (rg_diff D) io w"
    and "tracker_inv D io {} s \<Longrightarrow> tracker_inv D io {p} t" "fresh s \<le> fresh t"
  shows "preserves D io s (recompute_hunks w p c src t)"
  using assms recompute_inv [of D io p t w c src] recompute_fresh [of t w p c src]
  by (auto simp: preserves_def admissible_def)

section \<open>Git\<close>

lemma read_baseline_same:
  "file_states (snd (read_baseline w p s)) = file_states s" "turn_index (snd (read_baseline w p s)) = turn_index s"
  "fresh (snd (read_baseline w p s)) = fresh s" "disk (snd (read_baseline w p s)) = disk s" "mode (snd (read_baseline w p s)) = mode s"
  by (simp_all add: read_baseline_def Let_def split: option.split)

lemma read_baselines_batch_same:
  "file_states (snd (read_baselines_batch w ps s)) = file_states s" "turn_index (snd (read_baselines_batch w ps s)) = turn_index s"
  "fresh (snd (read_baselines_batch w ps s)) = fresh s" "disk (snd (read_baselines_batch w ps s)) = disk s"
  "mode (snd (read_baselines_batch w ps s)) = mode s"
  by (simp_all add: read_baselines_batch_def Let_def split: option.split)

lemma read_repo_sync_state_same:
  "file_states (snd (read_repo_sync_state w s)) = file_states s" "turn_index (snd (read_repo_sync_state w s)) = turn_index s"
  "fresh (snd (read_repo_sync_state w s)) = fresh s"
  by (simp_all add: read_repo_sync_state_def Let_def)

lemma baseline_or_read_same:
  assumes "baseline_or_read w p pre s = (b, t)"
  shows "file_states t = file_states s" "turn_index t = turn_index s" "fresh t = fresh s"
  using assms read_baseline_same [of w p s] by (auto simp: baseline_or_read_def split: option.splits)

section \<open>Changes of files\<close>

lemma start_tracking_inv:
  assumes "tracker_inv D io {} s"
  shows "tracker_inv D io {} (start_tracking p b c agent s)"
  using inv_put_empty [OF inv_weaken [OF assms], of p] by (simp add: start_tracking_def tracked_file_def)

lemma start_tracking_keeps: "preserves D io s t \<Longrightarrow> preserves D io s (start_tracking p b c agent t)"
  using start_tracking_inv [of D io t p b c agent] by (auto simp: preserves_def start_tracking_def)

lemma start_recompute_keeps:
  assumes "admissible (rg_diff D) io w" "file_states t = file_states s" "turn_index t = turn_index s" "fresh t = fresh s"
  shows "preserves D io s (recompute_hunks w p c src (start_tracking p b c' agent t))"
proof (rule preserves_recompute [OF assms(1)])
  show "tracker_inv D io {p} (start_tracking p b c' agent t)" if "tracker_inv D io {} s"
    using start_tracking_inv [of D io t p b c' agent] tracker_inv_cong [OF assms(2-4)] that by (auto intro: inv_weaken)
  show "fresh s \<le> fresh (start_tracking p b c' agent t)" by (simp add: start_tracking_def assms(4))
qed

lemma put_keeps_empty: "preserves D io s t \<Longrightarrow> hunks f = [] \<Longrightarrow> preserves D io s (put_file p f t)"
  using inv_put_empty [OF inv_weaken, of D io "{}" t p f] by (auto simp: preserves_def)

lemma put_recompute_keeps:
  assumes "admissible (rg_diff D) io w" "file_of s p = Some f" "hunks g = hunks f"
  shows "preserves D io s (recompute_hunks w p c src (put_file p g s))"
proof (rule preserves_recompute [OF assms(1)])
  show "tracker_inv D io {p} (put_file p g s)" if "tracker_inv D io {} s"
    using inv_weaken [OF that, of "{p}"] that assms(2,3)
    by (intro inv_put) (auto simp: tracker_inv_def ids_wf_def hunks_at_def)
qed simp

lemma recompute_keeps: "admissible (rg_diff D) io w \<Longrightarrow> preserves D io s (recompute_hunks w p c src s)"
  by (rule preserves_recompute) (auto intro: inv_weaken)

lemma record_agent_write_keeps:
  assumes "admissible (rg_diff D) io w"
  shows "preserves D io s (record_agent_write w p t k prev s)"
proof (cases "file_of s p")
  case None
  obtain b s1 where rb: "read_baseline w p s = (b, s1)" by force
  have same: "file_states s1 = file_states s" "turn_index s1 = turn_index s" "fresh s1 = fresh s"
    using read_baseline_same [of w p s] by (simp_all add: rb)
  show ?thesis using start_tracking_keeps [OF preserves_same [OF same]] start_tracking_keeps [OF preserves_refl]
      start_recompute_keeps [OF assms same]
    by (auto simp: record_agent_write_def None rb Let_def split: option.split)
next
  case (Some f)
  then show ?thesis using put_recompute_keeps [OF assms Some] put_keeps_empty [OF preserves_refl]
    by (auto simp: record_agent_write_def Let_def)
qed

lemma process_file_change_keeps:
  assumes "admissible (rg_diff D) io w"
  shows "preserves D io s (process_file_change w p pre s)"
proof -
  obtain b s1 where br: "baseline_or_read w p pre s = (b, s1)" by force
  note same = baseline_or_read_same [OF br]
  show ?thesis
  proof (cases "file_of s p")
    case None
    have "preserves D io s (untracked_change w p pre cur s)" for cur
      using start_recompute_keeps [OF assms same] start_recompute_keeps [OF assms refl refl refl, of s]
        start_tracking_keeps [OF preserves_same [OF same]] start_tracking_keeps [OF preserves_refl] preserves_same [OF same]
      by (auto simp: untracked_change_def br Let_def)
    then show ?thesis by (simp add: process_file_change_def None Let_def)
  next
    case (Some f)
    have "preserves D io s (recompute_hunks w p c src s1)" for c src
      using preserves_trans [OF preserves_same [OF same] recompute_keeps [OF assms]] .
    then have "preserves D io s (tracked_change w p pre cur f s)" for cur
      using put_keeps_empty [OF preserves_same [OF same]] recompute_keeps [OF assms]
      by (auto simp: tracked_change_def br Let_def)
    then show ?thesis by (simp add: process_file_change_def Some Let_def)
  qed
qed

lemma handle_file_change_keeps: "admissible (rg_diff D) io w \<Longrightarrow> preserves D io s (handle_file_change w p s)"
  by (simp add: handle_file_change_def process_file_change_keeps)

lemma process_changes_keeps: "admissible (rg_diff D) io w \<Longrightarrow> preserves D io s (process_changes w ps bs s)"
proof (induction w ps bs s rule: process_changes.induct)
  case (2 w p ps bs s)
  then show ?case using preserves_trans [OF process_file_change_keeps [OF 2(2)]] by simp
qed simp

lemma handle_file_changes_batch_keeps:
  assumes "admissible (rg_diff D) io w"
  shows "preserves D io s (handle_file_changes_batch w ps s)"
proof -
  have "preserves D io s (process_changes w ps bs (snd (read_baselines_batch w qs s)))" for qs bs
    using preserves_trans [OF preserves_same [OF read_baselines_batch_same(1-3)] process_changes_keeps [OF assms]] .
  then show ?thesis using process_changes_keeps [OF assms]
    by (auto simp: handle_file_changes_batch_def Let_def split_beta)
qed

lemma handle_file_deleted_keeps:
  assumes "admissible (rg_diff D) io w"
  shows "preserves D io s (handle_file_deleted w p s)"
proof -
  obtain b s1 where rb: "read_baseline w p s = (b, s1)" by force
  have same: "file_states s1 = file_states s" "turn_index s1 = turn_index s" "fresh s1 = fresh s"
    using read_baseline_same [of w p s] by (simp_all add: rb)
  show ?thesis
    using start_recompute_keeps [OF assms same] preserves_same [OF same] handle_file_change_keeps [OF assms] recompute_keeps [OF assms]
    by (auto simp: handle_file_deleted_def rb Let_def split: option.split)
qed

end
