(* ===== verification/HunkActionSteps.thy ===== *)
theory HunkActionSteps
  imports HunkSteps
begin

text \<open>
  The actions on hunks and the commands of the hunk tracker keep its invariant; the states that the
  actor can reach.
\<close>

section \<open>One hunk and batches\<close>

lemma sorted_by_reverse_single [simp]: "sorted_by_reverse k [h] = [h]"
  by (simp add: sorted_by_reverse_def)

lemma without_single: "without_hunks [h] hs = filter (\<lambda>x. h_id x \<noteq> h_id h) hs"
  by (simp add: without_hunks_def)

lemma accept_hunk_batch: "accept_hunk w p h s = accept_hunks_batch w p [h] s"
  by (auto simp: accept_hunk_def accept_hunks_batch_def without_single removals_def patched_baseline_def accept_all_text_def
      send_events_def Let_def split: option.split file_content_state.split)

lemma reject_hunk_batch: "reject_hunk w p h s = reject_hunks_batch w p [h] s"
proof -
  have "reject_all_text [h] = rejected_text h" by (simp add: reject_all_text_def fun_eq_iff)
  then show ?thesis by (simp add: reject_hunk_def reject_hunks_batch_def split: option.split)
qed

section \<open>Accepting and rejecting\<close>

lemma whole_file_hunk:
  assumes "file_wf D p f" "hunks f \<noteq> []" "baseline f = Missing \<or> current_content f = Missing"
  shows "length (hunks f) = 1"
proof -
  have "length (hunks f) = length (differences (rg_diff D) p (baseline f) (current_content f))"
    using assms(1,2) unfolding file_wf_def by (metis length_map)
  moreover have "length (differences (rg_diff D) p (baseline f) (current_content f)) \<le> 1"
    using assms(3) by (auto simp: differences_def split: file_content_state.split)
  moreover have "0 < length (hunks f)" using assms(2) by simp
  ultimately show ?thesis by linarith
qed

lemma without_whole:
  assumes "file_wf D p f" "hs \<noteq> []" "set hs \<subseteq> set (hunks f)" "baseline f = Missing \<or> current_content f = Missing"
  shows "without_hunks hs (hunks f) = []"
proof -
  obtain h where "hunks f = [h]"
    using whole_file_hunk [OF assms(1) _ assms(4)] assms(2,3) by (cases "hunks f") auto
  then show ?thesis using assms(2,3) by (cases hs) (auto simp: without_hunks_def)
qed

lemma patchable:
  assumes "file_wf D p f" "hunks f \<noteq> []"
  obtains b c where "baseline f = Full b" "current_content f = Full c"
  | c where "baseline f = Missing" "current_content f = Full c"
  | b where "baseline f = Full b" "current_content f = Missing"
  using assms by (auto simp: file_wf_def differences_def split: file_content_state.splits)

lemma inv_put_left:
  assumes "tracker_inv D io {p} s" "file_of s p = Some f" "hunks g = without_hunks hs (hunks f)"
  shows "tracker_inv D io {p} (put_file p g s)"
proof (rule inv_put [OF assms(1)])
  show "distinct (map h_id (hunks g))" "set (hunks g) \<subseteq> set (hunks_at s p)"
    using assms by (auto simp: without_hunks_def tracker_inv_def ids_wf_def hunks_at_def distinct_map_filter)
qed

lemma accept_hunks_batch_inv:
  assumes "admissible (rg_diff D) io w" "tracker_inv D io {p} s" "file_of s p = Some f" "file_wf D p f" "hs \<noteq> []" "set hs \<subseteq> set (hunks f)"
  shows "tracker_inv D io {} (accept_hunks_batch w p hs s)"
proof (cases "baseline f = Missing")
  case True
  have "without_hunks hs (hunks f) = []" using without_whole [OF assms(4-6)] True by simp
  then show ?thesis using inv_put_empty [OF assms(2)] assms(3,5) True by (simp add: accept_hunks_batch_def)
next
  case False
  define s1 where "s1 = put_file p (f\<lparr>baseline := patched_baseline hs (baseline f), baseline_accepted := True,
      hunks := without_hunks hs (hunks f)\<rparr>) s"
  have "tracker_inv D io {p} s1" unfolding s1_def using assms(2,3) by (intro inv_put_left [where f = f and hs = hs]) auto
  then show ?thesis using assms(1,3,5) False
    by (simp add: accept_hunks_batch_def s1_def [symmetric] Let_def recompute_inv admissible_def)
qed

lemma accept_hunks_batch_other:
  "q \<noteq> p \<Longrightarrow> file_of (accept_hunks_batch w p hs s) q = file_of s q"
  by (simp add: accept_hunks_batch_def Let_def recompute_file split: option.split)

lemma accept_hunks_batch_fresh: "fresh s \<le> fresh (accept_hunks_batch w p hs s)"
  by (auto simp: accept_hunks_batch_def Let_def intro: order_trans [OF _ recompute_fresh] split: option.split)

lemma reject_io_disk:
  "\<exists>r d. reject_io w p a s = (r, s\<lparr>disk := d\<rparr>) \<and> (r \<noteq> None \<longrightarrow> failed_write w p \<noteq> None \<or> remove_fails w p)"
proof (cases a)
  case NoOp
  then show ?thesis by (intro exI [of _ None] exI [of _ "disk s"]) (simp add: reject_io_def)
next
  case DeleteCreated
  then show ?thesis
    by (cases "remove_fails w p", intro exI [of _ "Some (DeleteError p)"] exI [of _ "disk s"]) (auto simp: reject_io_def fs_remove_def)
qed (cases "failed_write w p"; auto simp: reject_io_def fs_write_def)+

lemma reject_io_cases:
  obtains (io_done) d where "reject_io w p a s = (None, s\<lparr>disk := d\<rparr>)"
  | (io_failed) e d where "reject_io w p a s = (Some e, s\<lparr>disk := d\<rparr>)" "failed_write w p \<noteq> None \<or> remove_fails w p"
  using reject_io_disk [of w p a s] by (metis option.exhaust)

lemma reject_hunks_batch_inv:
  assumes "admissible (rg_diff D) io w" "tracker_inv D io {p} s" "file_of s p = Some f" "file_wf D p f" "hs \<noteq> []" "set hs \<subseteq> set (hunks f)"
    and "reject_hunks_batch w p hs s = (r, t)"
  shows "tracker_inv D io {} t \<and> fresh s \<le> fresh t \<and> (\<forall>q. q \<noteq> p \<longrightarrow> file_of t q = file_of s q)"
proof -
  define a where "a = reject_action_of (reject_all_text hs) f"
  have t: "reject_with w p a hs f s = (r, t)" using assms(3,5,7) by (simp add: reject_hunks_batch_def a_def)
  have "hunks f \<noteq> []" using assms(5,6) by auto
  show ?thesis
  proof (cases rule: reject_io_cases [of w p a s])
    case (io_failed e d)
    then have "io \<noteq> Faithful" using assms(1) by (auto simp: admissible_def)
    then have "tracker_inv D io {} s" by (rule inv_finished [OF assms(2-4)])
    then show ?thesis using t io_failed by (auto simp: reject_with_def)
  next
    case (io_done d)
    define g where "g = f\<lparr>current_content := content_after_reject a (current_content f), hunks := without_hunks hs (hunks f)\<rparr>"
    have put: "tracker_inv D io {p} (put_file p g (s\<lparr>disk := d\<rparr>))"
      using assms(2,3) by (intro inv_put_left [where f = f and hs = hs]) (auto simp: g_def)
    show ?thesis
    proof (cases rule: patchable [OF assms(4) \<open>hunks f \<noteq> []\<close>])
      case (1 b c)
      then show ?thesis using t io_done put assms(1)
        by (auto simp: reject_with_def a_def reject_action_of_def g_def Let_def admissible_def recompute_inv recompute_file
            intro: order_trans [OF _ recompute_fresh])
    next
      case (2 c)
      have "without_hunks hs (hunks f) = []" using without_whole [OF assms(4-6)] 2 by simp
      then have "tracker_inv D io {} (put_file p g (s\<lparr>disk := d\<rparr>))" using assms(2) by (intro inv_put_empty) (auto simp: g_def)
      then show ?thesis using t io_done 2 by (auto simp: reject_with_def a_def reject_action_of_def g_def Let_def)
    next
      case (3 b)
      have "without_hunks hs (hunks f) = []" using without_whole [OF assms(4-6)] 3 by simp
      then have "tracker_inv D io {} (put_file p g (s\<lparr>disk := d\<rparr>))" using assms(2) by (intro inv_put_empty) (auto simp: g_def)
      then show ?thesis using t io_done 3 by (auto simp: reject_with_def a_def reject_action_of_def g_def Let_def)
    qed
  qed
qed

section \<open>Actions\<close>

lemma count_hunks_simps [simp]:
  "file_states (fold (count_hunk a) hs s) = file_states s" "fresh (fold (count_hunk a) hs s) = fresh s"
  "disk (fold (count_hunk a) hs s) = disk s"
  by (rule fold_same; simp add: count_hunk_def)+

lemma count_hunks_file [simp]: "file_of (fold (count_hunk a) hs s) q = file_of s q"
  by (rule file_of_cong) simp

lemma count_hunks_inv:
  "tracker_inv D io {p} s \<Longrightarrow> file_of s p = Some f \<Longrightarrow> set hs \<subseteq> set (hunks f) \<Longrightarrow> tracker_inv D io {p} (fold (count_hunk a) hs s)"
proof (induction hs arbitrary: s)
  case (Cons h hs)
  have "tracker_inv D io {p} (count_hunk a h s)"
    unfolding count_hunk_def using Cons.prems
    by (intro inv_remove_index nowhere_else [where p = p and f = f and P = "{p}" and D = D and io = io]) auto
  then have "tracker_inv D io {p} (fold (count_hunk a) hs (count_hunk a h s))"
    using Cons.prems by (intro Cons.IH) (auto simp: count_hunk_def)
  then show ?case by simp
qed simp

definition todo_ok :: "tracker \<Rightarrow> (pathbuf \<times> tracked_hunk list) list \<Rightarrow> bool" where
  "todo_ok s todo \<longleftrightarrow>
     distinct (map fst todo) \<and>
     (\<forall>(p, hs) \<in> set todo. hs \<noteq> [] \<and> (\<exists>f. file_of s p = Some f \<and> set hs \<subseteq> set (hunks f)))"

text \<open>The contract of the two ways to act on some hunks of one file; the batch of actions relies on nothing else.\<close>

locale review_batch =
  fixes act_on :: "outside \<Rightarrow> pathbuf \<Rightarrow> tracked_hunk list \<Rightarrow> tracker \<Rightarrow> hunk_action_error option \<times> tracker"
  assumes act_inv:
    "admissible (rg_diff D) io w \<Longrightarrow> tracker_inv D io {p} s \<Longrightarrow> file_of s p = Some f \<Longrightarrow> file_wf D p f \<Longrightarrow> hs \<noteq> [] \<Longrightarrow>
     set hs \<subseteq> set (hunks f) \<Longrightarrow> act_on w p hs s = (r, t) \<Longrightarrow>
     tracker_inv D io {} t \<and> fresh s \<le> fresh t \<and> (\<forall>q. q \<noteq> p \<longrightarrow> file_of t q = file_of s q)"
begin

lemma counted_step:
  assumes "admissible (rg_diff D) io w" "tracker_inv D io {} s" "todo_ok s ((p, hs) # rest)"
    and t: "act_on w p hs (fold (count_hunk a) hs s) = (r, t)"
  shows "tracker_inv D io {} t \<and> fresh s \<le> fresh t \<and> todo_ok t rest"
proof -
  obtain f where f: "file_of s p = Some f" "set hs \<subseteq> set (hunks f)" "hs \<noteq> []" using assms(3) by (auto simp: todo_ok_def)
  have wf: "file_wf D p f" using assms(2) f(1) by (simp add: tracker_inv_def)
  have inv: "tracker_inv D io {p} (fold (count_hunk a) hs s)" using count_hunks_inv [OF inv_weaken [OF assms(2)] f(1,2)] by simp
  have step: "tracker_inv D io {} t \<and> fresh s \<le> fresh t \<and> (\<forall>q. q \<noteq> p \<longrightarrow> file_of t q = file_of s q)"
    using act_inv [OF assms(1) inv _ wf f(3,2) t] f(1) by simp
  moreover have "\<forall>x \<in> set rest. fst x \<noteq> p" using assms(3) by (auto simp: todo_ok_def)
  ultimately have "todo_ok t rest" using assms(3) by (simp add: todo_ok_def case_prod_beta)
  then show ?thesis using step by simp
qed

end

interpretation accepting: review_batch "\<lambda>w p hs s. (None, accept_hunks_batch w p hs s)"
  by unfold_locales (auto simp: accept_hunks_batch_inv accept_hunks_batch_other accept_hunks_batch_fresh)

interpretation rejecting: review_batch reject_hunks_batch
  by unfold_locales (rule reject_hunks_batch_inv)

lemma action_batch_step:
  assumes "admissible (rg_diff D) io w" "tracker_inv D io {} s" "todo_ok s ((p, hs) # rest)"
    and "(case a of AcceptHunk \<Rightarrow> (None, accept_hunks_batch w p hs (fold (count_hunk a) hs s))
          | RejectHunk \<Rightarrow> reject_hunks_batch w p hs (fold (count_hunk a) hs s)) = (r, t)"
  shows "tracker_inv D io {} t \<and> fresh s \<le> fresh t \<and> todo_ok t rest"
  using assms accepting.counted_step [OF assms(1-3), of a r t] rejecting.counted_step [OF assms(1-3), of a r t]
  by (cases a) simp_all

lemma apply_action_batch_inv:
  assumes "admissible (rg_diff D) io w"
  shows "tracker_inv D io {} s \<Longrightarrow> todo_ok s todo \<Longrightarrow>
    tracker_inv D io {} (snd (apply_action_batch w a todo s)) \<and> fresh s \<le> fresh (snd (apply_action_batch w a todo s))"
proof (induction todo arbitrary: s)
  case (Cons x rest)
  obtain p hs where x: "x = (p, hs)" by force
  obtain r t where t: "(case a of AcceptHunk \<Rightarrow> (None, accept_hunks_batch w p hs (fold (count_hunk a) hs s))
      | RejectHunk \<Rightarrow> reject_hunks_batch w p hs (fold (count_hunk a) hs s)) = (r, t)" by (metis surj_pair)
  have step: "tracker_inv D io {} t" "fresh s \<le> fresh t" "todo_ok t rest"
    using action_batch_step [OF assms Cons.prems(1) _ t] Cons.prems(2) by (simp_all add: x)
  have "apply_action_batch w a (x # rest) s =
      (case r of Some e \<Rightarrow> (Inl e, t)
       | None \<Rightarrow> (case apply_action_batch w a rest t of (Inl e, u) \<Rightarrow> (Inl e, u) | (Inr ids, u) \<Rightarrow> (Inr (map h_id hs @ ids), u)))"
    unfolding x apply_action_batch.simps Let_def t by simp
  then have "snd (apply_action_batch w a (x # rest) s) = (if r = None then snd (apply_action_batch w a rest t) else t)"
    by (auto split: option.split prod.split sum.split)
  then show ?case using step Cons.IH [OF step(1,3)] by auto
qed simp

lemma action_batch_keeps:
  assumes "admissible (rg_diff D) io w" "tracker_inv D io {} s \<Longrightarrow> todo_ok s todo"
  shows "preserves D io s (snd (apply_action_batch w a todo s))"
  using apply_action_batch_inv [OF assms(1)] assms(2) by (simp add: preserves_def)

lemma file_states_file_of: "tracker_inv D io P s \<Longrightarrow> (p, f) \<in> set (file_states s) \<longleftrightarrow> file_of s p = Some f"
  by (simp add: tracker_inv_def ids_wf_def file_of_def)

lemma todo_ok_files:
  assumes "tracker_inv D io {} s" "\<And>f. set (sel f) \<subseteq> set (hunks f)"
  shows "todo_ok s (filter (\<lambda>(p, hs). hs \<noteq> []) (map (\<lambda>(p, f). (p, sel f)) (file_states s)))"
proof -
  have "distinct (map fst (file_states s))" using assms(1) by (simp add: tracker_inv_def ids_wf_def)
  then have "distinct (map fst (filter (\<lambda>(p, hs). hs \<noteq> []) (map (\<lambda>(p, f). (p, sel f)) (file_states s))))"
    by (intro distinct_map_filter) (simp add: comp_def case_prod_beta)
  then show ?thesis using assms(2) file_states_file_of [OF assms(1)] by (auto simp: todo_ok_def)
qed

lemma apply_file_action_keeps: "admissible (rg_diff D) io w \<Longrightarrow> preserves D io s (snd (apply_file_action w p a s))"
  using action_batch_keeps [of D io w s "[(p, hs)]" a for hs]
  by (auto simp: apply_file_action_def todo_ok_def simp del: apply_action_batch.simps split: option.split)

lemma filter_map_files:
  "map (\<lambda>(p, f). (p, hunks f)) (filter (\<lambda>(p, f). hunks f \<noteq> []) fs) =
   filter (\<lambda>(p, hs). hs \<noteq> []) (map (\<lambda>(p, f). (p, hunks f)) fs)"
  by (induction fs) auto

lemma apply_all_action_keeps: "admissible (rg_diff D) io w \<Longrightarrow> preserves D io s (snd (apply_all_action w a s))"
  unfolding apply_all_action_def filter_map_files by (intro action_batch_keeps todo_ok_files) auto

lemma apply_turn_action_keeps: "admissible (rg_diff D) io w \<Longrightarrow> preserves D io s (snd (apply_turn_action w k a s))"
  unfolding apply_turn_action_def by (intro action_batch_keeps todo_ok_files) (auto simp: turn_hunks_of_def)

lemma find_SomeD: "find P xs = Some x \<Longrightarrow> x \<in> set xs \<and> P x"
  by (induction xs) (auto split: if_splits)

lemma find_hunk_Some:
  assumes "tracker_inv D io P s" "find_hunk s i = Some (p, h)"
  obtains f where "file_of s p = Some f" "h \<in> set (hunks f)" "h_id h = i"
proof -
  obtain f where "(p, f) \<in> set (file_states s)" "h \<in> set (hunks f)" "h_id h = i"
    using find_SomeD [OF assms(2) [unfolded find_hunk_def]] by auto
  then show thesis using that file_states_file_of [OF assms(1)] by blast
qed

text \<open>Acting on one hunk is acting on the batch of it.\<close>

lemma apply_hunk_action_batch:
  "find_hunk s i = Some (p, h) \<Longrightarrow>
     apply_hunk_action w i a s = (case apply_action_batch w a [(p, [h])] s of (Inl e, t) \<Rightarrow> (Inl e, t) | (Inr _, t) \<Rightarrow> (Inr (), t))"
  by (cases a) (simp_all add: apply_hunk_action_def accept_hunk_batch reject_hunk_batch Let_def split: prod.split option.split)

lemma apply_hunk_action_keeps:
  assumes "admissible (rg_diff D) io w"
  shows "preserves D io s (snd (apply_hunk_action w i a s))"
proof (cases "find_hunk s i")
  case None
  then show ?thesis by (simp add: apply_hunk_action_def)
next
  case (Some x)
  obtain p h where x: "x = (p, h)" by force
  have "todo_ok s [(p, [h])]" if "tracker_inv D io {} s"
    using find_hunk_Some [OF that Some [unfolded x]] by (auto simp: todo_ok_def)
  then have "preserves D io s (snd (apply_action_batch w a [(p, [h])] s))" by (intro action_batch_keeps [OF assms])
  moreover have "snd (apply_hunk_action w i a s) = snd (apply_action_batch w a [(p, [h])] s)"
    unfolding apply_hunk_action_batch [OF Some [unfolded x]] by (simp split: prod.split sum.split)
  ultimately show ?thesis by simp
qed

end
