(* ===== verification/HunkRewind.thy ===== *)
theory HunkRewind
  imports HunkCommands
begin

text \<open>
  Rewinding of the hunk tracker (\<open>xai-grok-workspace/src/session/checkpoint.rs\<close>). At the end of a prompt the session
  keeps what the prompt has changed; to rewind, it composes what it has kept of the earlier
  prompts and restores the tracker from that. The store is a map from prompts to deltas, as an
  association list.
\<close>

type_synonym checkpoint_store = "(nat \<times> turn_delta) list"

text \<open>The answer of the tracker is absent when the actor is gone.\<close>

definition capture_hunk_delta :: "nat \<Rightarrow> turn_delta option \<Rightarrow> checkpoint_store \<Rightarrow> bool \<times> checkpoint_store" where
  "capture_hunk_delta prompt answer store =
     (case answer of
        None \<Rightarrow> (False, store)
      | Some d \<Rightarrow> if delta_files d = [] then (False, store) else (True, AList.update prompt d store))"

definition insert_all :: "('k \<times> 'v) list \<Rightarrow> ('k \<times> 'v) list \<Rightarrow> ('k \<times> 'v) list" where
  "insert_all xs m = fold (\<lambda>(k, v) m. AList.update k v m) xs m"

definition compose_step ::
  "checkpoint_store \<Rightarrow> nat \<Rightarrow> (pathbuf \<times> file_snapshot) list \<times> (nat \<rightharpoonup> hunk_id list) \<Rightarrow>
   (pathbuf \<times> file_snapshot) list \<times> (nat \<rightharpoonup> hunk_id list)" where
  "compose_step store idx acc =
     (case map_of store idx of
        None \<Rightarrow> acc
      | Some d \<Rightarrow> (insert_all (delta_files d) (fst acc), (snd acc)(idx \<mapsto> delta_ids d)))"

definition present_ids :: "(pathbuf \<times> file_snapshot) list \<Rightarrow> hunk_id list" where
  "present_ids files = concat (map (\<lambda>(p, n). map h_id (snap_hunks n)) files)"

definition retain_present :: "hunk_id list \<Rightarrow> (nat \<rightharpoonup> hunk_id list) \<Rightarrow> nat \<rightharpoonup> hunk_id list" where
  "retain_present present index =
     (\<lambda>k. case index k of
            None \<Rightarrow> None
          | Some ids \<Rightarrow> let kept = filter (\<lambda>i. i \<in> set present) ids in if kept = [] then None else Some kept)"

text \<open>The snapshot to restore, if any, and the store afterwards; the counters are those of the tracker at the time.\<close>

definition restore_hunk_checkpoints ::
  "nat \<Rightarrow> session_stats \<Rightarrow> checkpoint_store \<Rightarrow> tracker_snapshot option \<times> checkpoint_store" where
  "restore_hunk_checkpoints target st store =
     (if store = [] then (None, store)
      else
        (let prompts = sort (filter (\<lambda>idx. idx < target) (map fst store))
         in if prompts = [] \<and> target > 0 then (None, store)
            else
              (let (files, index) = fold (compose_step store) prompts ([], Map.empty)
               in (Some \<lparr>snap_files = files, snap_turns = retain_present (present_ids files) index, snap_stats = st\<rparr>,
                   filter (\<lambda>(idx, d). idx < target) store))))"

lemma insert_all_keys: "distinct (map fst m) \<Longrightarrow> distinct (map fst (insert_all xs m))"
  unfolding insert_all_def by (induction xs arbitrary: m) (auto simp: distinct_update)

lemma insert_all_mem: "distinct (map fst m) \<Longrightarrow> x \<in> set (insert_all xs m) \<Longrightarrow> x \<in> set xs \<or> x \<in> set m"
proof (induction xs arbitrary: m)
  case (Cons y xs)
  obtain k v where y: "y = (k, v)" by force
  have "distinct (map fst (AList.update k v m))" using Cons.prems(1) by (simp add: distinct_update)
  moreover have "x \<in> set (insert_all xs (AList.update k v m))" using Cons.prems(2) by (simp add: y insert_all_def)
  ultimately have "x \<in> set xs \<or> x \<in> set (AList.update k v m)" by (rule Cons.IH)
  moreover have "set (AList.update k v m) \<subseteq> insert (k, v) (set m)" by (induction m) auto
  ultimately show ?case using y by auto
qed (simp add: insert_all_def)

text \<open>A composed snapshot has each path once, and its files are files of the deltas.\<close>

lemma composed_files:
  assumes "fold (compose_step store) prompts acc = (files, index)" "distinct (map fst (fst acc))"
  shows "distinct (map fst files)"
    and "(p, n) \<in> set files \<Longrightarrow> (p, n) \<in> set (fst acc) \<or> (\<exists>k d. (k, d) \<in> set store \<and> (p, n) \<in> set (delta_files d))"
proof -
  have "distinct (map fst files) \<and> (\<forall>p n. (p, n) \<in> set files \<longrightarrow>
      (p, n) \<in> set (fst acc) \<or> (\<exists>k d. (k, d) \<in> set store \<and> (p, n) \<in> set (delta_files d)))"
    using assms
  proof (induction prompts arbitrary: acc)
    case (Cons k ks)
    show ?case
    proof (cases "map_of store k")
      case None
      then show ?thesis using Cons by (simp add: compose_step_def [of store k])
    next
      case (Some d)
      define acc' where "acc' = (insert_all (delta_files d) (fst acc), (snd acc)(k \<mapsto> delta_ids d))"
      have "fold (compose_step store) ks acc' = (files, index)" using Cons.prems(1) by (simp add: compose_step_def [of store k] Some acc'_def)
      moreover have "distinct (map fst (fst acc'))" using Cons.prems(2) by (simp add: acc'_def insert_all_keys)
      ultimately show ?thesis using Cons.IH [of acc'] insert_all_mem [OF Cons.prems(2)] map_of_SomeD [OF Some]
        unfolding acc'_def by (metis fst_conv)
    qed
  qed simp
  then show "distinct (map fst files)"
    and "(p, n) \<in> set files \<Longrightarrow> (p, n) \<in> set (fst acc) \<or> (\<exists>k d. (k, d) \<in> set store \<and> (p, n) \<in> set (delta_files d))" by blast+
qed

end
