(* ===== verification/HunkReach.thy ===== *)
theory HunkReach
  imports HunkActionSteps HunkRewind
begin

text \<open>
  Commands, batches and turns of the actor keep the invariant; the states that the tracker of a session can
  reach, while other programs change the files, writes fail and the session is rewound, satisfy it.
\<close>

section \<open>Refreshes\<close>

lemma preserves_caches: "preserves D io s t \<Longrightarrow> preserves D io s (t\<lparr>git_dirty_cache := a, git_staged_cache := b\<rparr>)"
  by (rule preserves_trans, assumption, rule preserves_same) simp_all

lemma reset_baseline_keeps: "preserves D io s (reset_baseline p s)"
proof (cases "file_of s p")
  case (Some f)
  then show ?thesis using inv_clear(1) [OF inv_weaken Some, of D io "{}"]
    by (simp add: reset_baseline_def preserves_def)
qed (simp add: reset_baseline_def)

lemma stop_tracking_keeps: "preserves D io s (stop_tracking p s)"
proof (cases "file_of s p")
  case (Some f)
  then show ?thesis using inv_clear(2) [OF inv_weaken Some, of D io "{}"]
    by (simp add: stop_tracking_def preserves_def)
qed (simp add: stop_tracking_def)

lemma refresh_git_dirty_cache_keeps:
  assumes "admissible (rg_diff D) io w"
  shows "preserves D io s (refresh_git_dirty_cache w scope s)"
proof -
  obtain dirty staged where ds: "(case open_or_discover (git w) (repo_state s) (working_dir s) of None \<Rightarrow> ([], [])
      | Some (pre, _) \<Rightarrow> scan_status (git w) pre scope) = (dirty, staged)" by (metis surj_pair)
  define s1 where "s1 = s\<lparr>repo_state := cached_after (repo_state s) (open_or_discover (git w) (repo_state s) (working_dir s)),
      git_dirty_cache := dirty, git_staged_cache := staged\<rparr>"
  have "preserves D io s s1" unfolding s1_def by (rule preserves_same) simp_all
  moreover have "preserves D io s1 (fold (\<lambda>rel s. handle_file_change w (path_append (working_dir s) rel) s) rels s1)" for rels
    by (rule invariant.over_fold) (rule handle_file_change_keeps [OF assms])
  ultimately show ?thesis using preserves_trans
    by (simp add: refresh_git_dirty_cache_def ds s1_def [symmetric] Let_def)
qed

lemma refresh_file_keeps:
  assumes "admissible (rg_diff D) io w"
  shows "preserves D io s (refresh_file w bs p s)"
proof (cases "file_of s p")
  case (Some f)
  have drop: "preserves D io s (send_event e (supersede p (hunks f) (drop_file p s)))" for e
    using inv_clear(2) [OF inv_weaken Some, of D io "{}"] by (simp add: preserves_def)
  have clear: "preserves D io s (send_event e (supersede p (hunks f) (put_file p g s)))" if "hunks g = []" for e g
    using inv_clear(1) [OF inv_weaken Some, of D io "{}" g] that by (simp add: preserves_def)
  have "preserves D io s (send_event e (recompute_hunks w p c src (put_file p g s)))" if "hunks g = hunks f" for e c src g
    using put_recompute_keeps [OF assms Some that] by (rule preserves_event)
  with drop clear show ?thesis by (simp add: refresh_file_def Some Let_def)
qed (simp add: refresh_file_def)

lemma refresh_files_keeps:
  assumes "admissible (rg_diff D) io w"
  shows "preserves D io s (refresh_files w skip s)"
proof -
  define scope where "scope = (if mode s = AllDirty then None
    else Some (List.map_filter (strip_base (working_dir s)) (map fst (file_states s))))"
  define s1 where "s1 = (if scope = Some [] then s\<lparr>git_dirty_cache := [], git_staged_cache := []\<rparr> else refresh_git_dirty_cache w scope s)"
  define paths where "paths = filter (\<lambda>p. p \<notin> set skip) (map fst (file_states s1))"
  have 1: "preserves D io s s1"
    using preserves_caches [OF preserves_refl] refresh_git_dirty_cache_keeps [OF assms] by (simp add: s1_def)
  obtain bs s2 where s2: "(if paths = [] then ([], s1) else read_baselines_batch w paths s1) = (bs, s2)" by (metis surj_pair)
  have "preserves D io s1 s2"
    using s2 read_baselines_batch_same [of w paths s1] by (intro preserves_same) (auto split: if_splits)
  also have "preserves D io s2 (fold (refresh_file w bs) paths s2)"
    by (rule invariant.over_fold) (rule refresh_file_keeps [OF assms])
  finally show ?thesis using 1 preserves_trans
    unfolding refresh_files_def scope_def [symmetric] Let_def s1_def [symmetric] paths_def [symmetric] s2 by auto
qed

lemma refresh_all_keeps:
  assumes "admissible (rg_diff D) io w"
  shows "preserves D io s (refresh_all_baselines_except w skip s)"
proof -
  obtain r s1 where r: "read_repo_sync_state w s = (r, s1)" by force
  have same: "file_states s1 = file_states s" "turn_index s1 = turn_index s" "fresh s1 = fresh s"
    using read_repo_sync_state_same [of w s] by (simp_all add: r)
  have "preserves D io s (refresh_files w skip (s1\<lparr>repo_sync_state := x\<rparr>))" for x
    by (rule preserves_trans [OF preserves_same refresh_files_keeps [OF assms]]) (simp_all add: same)
  moreover have "preserves D io s s1" by (rule preserves_same [OF same])
  moreover from this have "preserves D io s (refresh_files w skip s1)" by (rule preserves_trans [OF _ refresh_files_keeps [OF assms]])
  ultimately show ?thesis by (simp add: refresh_all_baselines_except_def r split: option.split)
qed

lemma set_mode_keeps:
  assumes "admissible (rg_diff D) io w"
  shows "preserves D io s (set_mode w m s)"
proof -
  have 1: "preserves D io s (s\<lparr>mode := m\<rparr>)" by (rule preserves_same) simp_all
  have "preserves D io s (refresh_git_dirty_cache w None (s\<lparr>mode := m\<rparr>))"
    by (rule preserves_trans [OF 1 refresh_git_dirty_cache_keeps [OF assms]])
  moreover have "preserves D io s (fold stop_tracking ps (s\<lparr>mode := m\<rparr>))" for ps
    by (rule preserves_trans [OF 1 invariant.over_fold]) (rule stop_tracking_keeps)
  ultimately show ?thesis using 1 by (auto simp: set_mode_def Let_def)
qed

section \<open>Snapshots\<close>

definition restored :: "tracker_snapshot \<Rightarrow> nat \<Rightarrow> tracker" where
  "restored n i = (restore_snapshot n (new_tracker [] AgentOnly (\<lambda>_. NoEntry)))\<lparr>fresh := i\<rparr>"

text \<open>A snapshot that may be restored: as a state it satisfies the invariant, with identifiers given out before.\<close>

definition snapshot_ok :: "regime \<Rightarrow> history \<Rightarrow> nat \<Rightarrow> tracker_snapshot \<Rightarrow> bool" where
  "snapshot_ok D io i n \<longleftrightarrow> tracker_inv D io {} (restored n i)"

lemma tracker_inv_fresh:
  assumes "tracker_inv D io P s" "fresh s \<le> i"
  shows "tracker_inv D io P (s\<lparr>fresh := i\<rparr>)"
proof -
  have "ids_wf (s\<lparr>fresh := i\<rparr>)" using assms unfolding tracker_inv_def ids_wf_def
    by simp (meson order_less_le_trans)
  moreover have "ids_stay D (s\<lparr>fresh := i\<rparr>)" using assms unfolding tracker_inv_def ids_stay_def by simp
  moreover have "io \<noteq> Rewound \<longrightarrow> index_sound (s\<lparr>fresh := i\<rparr>)" using assms unfolding tracker_inv_def index_sound_def
    by simp (meson order_less_le_trans)
  ultimately show ?thesis using assms(1) by (simp add: tracker_inv_def indexed_def)
qed

lemma snapshot_ok_mono: "snapshot_ok D io i n \<Longrightarrow> i \<le> j \<Longrightarrow> snapshot_ok D io j n"
  using tracker_inv_fresh [of D io "{}" "restored n i" j] by (simp add: snapshot_ok_def restored_def)

lemma restore_snapshot_keeps:
  assumes "snapshot_ok D io (fresh s) n"
  shows "preserves D io s (restore_snapshot n s)"
proof -
  have "tracker_inv D io {} (restore_snapshot n s) = tracker_inv D io {} (restored n (fresh s))"
    by (rule tracker_inv_cong) (simp_all add: restored_def restore_snapshot_def)
  then show ?thesis using assms by (simp add: preserves_def snapshot_ok_def restore_snapshot_def)
qed

lemma restore_snapshot_file [simp]: "restore_file_state (snapshot_file_state f) = f"
  by (simp add: restore_file_state_def snapshot_file_state_def)

lemma restore_taken_files: "map (\<lambda>(p, f). (p, restore_file_state f)) (snap_files (take_snapshot s)) = file_states s"
  by (simp add: take_snapshot_def case_prod_beta comp_def)

lemma take_snapshot_ok: "tracker_inv D io {} s \<Longrightarrow> snapshot_ok D io (fresh s) (take_snapshot s)"
proof -
  assume "tracker_inv D io {} s"
  moreover have "tracker_inv D io {} (restored (take_snapshot s) (fresh s)) = tracker_inv D io {} s"
    using restore_taken_files [of s]
    by (intro tracker_inv_cong) (simp_all add: restored_def restore_snapshot_def take_snapshot_def)
  ultimately show ?thesis by (simp add: snapshot_ok_def)
qed

section \<open>Commands\<close>

definition commands_ok :: "regime \<Rightarrow> history \<Rightarrow> nat \<Rightarrow> command list \<Rightarrow> bool" where
  "commands_ok D io i cs \<longleftrightarrow> (\<forall>n. RestoreState n \<in> set cs \<longrightarrow> snapshot_ok D io i n)"

lemma commands_ok_mono: "commands_ok D io i cs \<Longrightarrow> set ds \<subseteq> set cs \<Longrightarrow> i \<le> j \<Longrightarrow> commands_ok D io j ds"
  using snapshot_ok_mono by (auto simp: commands_ok_def)

lemma handle_command_keeps:
  assumes "admissible (rg_diff D) io w" "commands_ok D io (fresh s) [c]"
  shows "preserves D io s (snd (handle_command w c s))"
proof (cases c)
  case (RestoreState n)
  then show ?thesis using restore_snapshot_keeps [of D io s n] assms(2) by (simp add: commands_ok_def)
next
  case ResetStats
  have "preserves D io s (s\<lparr>stats := no_stats\<rparr>)" by (rule preserves_same) simp_all
  then show ?thesis by (simp add: ResetStats)
qed (simp_all add: assms(1) record_agent_write_keeps handle_file_change_keeps handle_file_deleted_keeps
  refresh_git_dirty_cache_keeps reset_baseline_keeps set_mode_keeps apply_hunk_action_keeps apply_file_action_keeps
  apply_all_action_keeps apply_turn_action_keeps refresh_all_keeps)

lemma handle_commands_keeps:
  assumes "admissible (rg_diff D) io w"
  shows "commands_ok D io (fresh s) cs \<Longrightarrow> preserves D io s (snd (handle_commands w cs s))"
proof (induction cs arbitrary: s)
  case (Cons c cs)
  let ?t = "snd (handle_command w c s)"
  have 1: "preserves D io s ?t" using Cons.prems by (intro handle_command_keeps [OF assms]) (auto simp: commands_ok_def)
  have "snd (handle_commands w (c # cs) s) = snd (handle_commands w cs ?t)" by (simp add: Let_def case_prod_beta)
  moreover have "preserves D io ?t (snd (handle_commands w cs ?t))" if "fresh s \<le> fresh ?t"
    using Cons.prems commands_ok_mono [OF Cons.prems _ that, of cs] by (intro Cons.IH) auto
  ultimately show ?case using 1 unfolding preserves_def by auto
qed simp

lemma events_before_refresh_keeps:
  "admissible (rg_diff D) io w \<Longrightarrow> preserves D io s (snd (events_before_refresh w acts seen s))"
proof (induction w acts seen s rule: events_before_refresh.induct)
  case (2 w p a rest seen s)
  have "preserves D io s (handle_file_deleted w p s)" "preserves D io s (handle_file_change w p s)"
    by (rule handle_file_deleted_keeps [OF 2(4)], rule handle_file_change_keeps [OF 2(4)])
  then show ?case using 2 preserves_trans [of D io s _ _] by (cases "a = Deleted"; cases "is_tracked s p") auto
qed simp

lemma run_file_actions_keeps:
  assumes "admissible (rg_diff D) io w"
  shows "preserves D io s (run_file_actions w acts s)"
  unfolding run_file_actions_def
  by (rule preserves_trans [OF invariant.over_fold handle_file_changes_batch_keeps [OF assms]]) (rule handle_file_deleted_keeps [OF assms])

lemma other_commands_subset: "set (other_commands (batch_add c b)) \<subseteq> insert c (set (other_commands b))"
  by (cases c) (simp_all add: batch_add_def Let_def insert_commute subset_insertI)

lemma drained_commands: "set (other_commands (fold batch_add cs b)) \<subseteq> set cs \<union> set (other_commands b)"
proof (induction cs arbitrary: b)
  case (Cons c cs)
  show ?case using Cons.IH [of "batch_add c b"] other_commands_subset [of c b] by auto
qed simp

lemma handle_coalesced_batch_keeps:
  assumes "admissible (rg_diff D) io w" "commands_ok D io (fresh s) (other_commands b)"
  shows "preserves D io s (snd (handle_coalesced_batch w b s))"
proof -
  define s1 where "s1 = (if refresh_dirty b \<and> \<not> refresh_all b then refresh_git_dirty_cache w None s else s)"
  obtain seen t where t: "events_before_refresh w (file_actions b) [] s1 = (seen, t)" by force
  define s2 where "s2 = (if refresh_all b then refresh_all_baselines_except w seen t else run_file_actions w (file_actions b) s1)"
  have "preserves D io s s1" using refresh_git_dirty_cache_keeps [OF assms(1)] by (simp add: s1_def)
  also have "preserves D io s1 t" using events_before_refresh_keeps [OF assms(1), of s1 "file_actions b" "[]"] by (simp add: t)
  then have "preserves D io s1 s2"
    using preserves_trans [OF _ refresh_all_keeps [OF assms(1)]] run_file_actions_keeps [OF assms(1)] by (simp add: s2_def)
  finally have 2: "preserves D io s s2" .
  moreover have "preserves D io s2 (snd (handle_commands w (other_commands b) s2))" if "fresh s \<le> fresh s2"
    using commands_ok_mono [OF assms(2) _ that] by (intro handle_commands_keeps [OF assms(1)]) auto
  moreover have "snd (handle_coalesced_batch w b s) = snd (handle_commands w (other_commands b) s2)"
    unfolding handle_coalesced_batch_def s1_def [symmetric] Let_def t by (simp add: s2_def)
  ultimately show ?thesis unfolding preserves_def by auto
qed

lemma actor_turn_keeps:
  assumes "admissible (rg_diff D) io w" "commands_ok D io (fresh s) (c # queued)" "actor_turn w c queued s = (rs, rest, t)"
  shows "preserves D io s t"
proof (cases "is_coalescable c")
  case True
  have "set (other_commands (drain_and_coalesce c queued)) \<subseteq> set (c # queued)"
    using drained_commands [of "c # queued" new_batch] by (auto simp: drain_and_coalesce_def new_batch_def)
  then have "preserves D io s (snd (handle_coalesced_batch w (drain_and_coalesce c queued) s))"
    using commands_ok_mono [OF assms(2)] by (intro handle_coalesced_batch_keeps [OF assms(1)]) auto
  then show ?thesis using True assms(3) by (auto simp: actor_turn_def split: prod.splits)
next
  case False
  have "preserves D io s (snd (handle_command w c s))"
    using assms(2) by (intro handle_command_keeps [OF assms(1)]) (auto simp: commands_ok_def)
  then show ?thesis using False assms(3) by (auto simp: actor_turn_def split: prod.splits)
qed

section \<open>Reachable states\<close>

text \<open>A session: the tracker, the snapshots that can be sent back to it, and what it has kept for rewinding.\<close>

record session =
  trk :: tracker
  snaps :: "tracker_snapshot list"
  checkpoints :: checkpoint_store

text \<open>The actor starts, takes turns on what is in its channel, and other programs change files in between.
  A snapshot that is restored has been taken before, or was composed to rewind the session. A new
  tracker can take over; identifiers are not used again.\<close>

inductive session_reach :: "line_diff \<Rightarrow> history \<Rightarrow> session \<Rightarrow> bool" where
  start: "admissible D io w \<Longrightarrow> session_reach D io \<lparr>trk = actor_start w (new_tracker wd m d), snaps = [], checkpoints = []\<rparr>"
| turn: "session_reach D io x \<Longrightarrow> admissible D io w \<Longrightarrow> \<forall>n. RestoreState n \<in> set (c # queued) \<longrightarrow> n \<in> set (snaps x) \<Longrightarrow>
    actor_turn w c queued (trk x) = (rs, rest, t) \<Longrightarrow> session_reach D io (x\<lparr>trk := t\<rparr>)"
| elsewhere: "session_reach D io x \<Longrightarrow> session_reach D io (x\<lparr>trk := (trk x)\<lparr>disk := d\<rparr>\<rparr>)"
| snapshot: "session_reach D io x \<Longrightarrow> session_reach D io (x\<lparr>snaps := take_snapshot (trk x) # snaps x\<rparr>)"
| capture: "session_reach D io x \<Longrightarrow>
    session_reach D io (x\<lparr>checkpoints := snd (capture_hunk_delta k (Some (take_turn_delta k (trk x))) (checkpoints x))\<rparr>)"
| rewind: "session_reach D Rewound x \<Longrightarrow> restore_hunk_checkpoints target st (checkpoints x) = (Some n, store) \<Longrightarrow>
    session_reach D Rewound (x\<lparr>snaps := n # snaps x, checkpoints := store\<rparr>)"
| restart: "session_reach D io x \<Longrightarrow> admissible D io w \<Longrightarrow>
    session_reach D io (x\<lparr>trk := actor_start w ((new_tracker wd m d)\<lparr>fresh := fresh (trk x)\<rparr>)\<rparr>)"

definition tracker_reach :: "line_diff \<Rightarrow> history \<Rightarrow> tracker \<Rightarrow> bool" where
  "tracker_reach D io s \<longleftrightarrow> (\<exists>N C. session_reach D io \<lparr>trk = s, snaps = N, checkpoints = C\<rparr>)"

text \<open>What is known of a session: every identifier that was given out has one file, here, in the snapshots and in
  the deltas.\<close>

definition saved_file_ok :: "regime \<Rightarrow> pathbuf \<Rightarrow> file_snapshot \<Rightarrow> bool" where
  "saved_file_ok R p n \<longleftrightarrow>
     file_wf R p (restore_file_state n) \<and> distinct (map h_id (snap_hunks n)) \<and> (\<forall>h \<in> set (snap_hunks n). (h_id h, p) \<in> rg_known R)"

definition regime_ok :: "regime \<Rightarrow> bool" where
  "regime_ok R \<longleftrightarrow> single_valued (rg_known R) \<and> (\<forall>(i, p) \<in> rg_known R. i < rg_base R)"

definition session_inv :: "regime \<Rightarrow> history \<Rightarrow> session \<Rightarrow> bool" where
  "session_inv R io x \<longleftrightarrow>
     regime_ok R \<and> tracker_inv R io {} (trk x) \<and> fresh (trk x) = rg_base R \<and>
     (\<forall>n \<in> set (snaps x). snapshot_ok R io (rg_base R) n) \<and>
     (\<forall>(k, d) \<in> set (checkpoints x). \<forall>(p, n) \<in> set (delta_files d). saved_file_ok R p n)"

text \<open>When the tracker has moved on, what it has given out since becomes known.\<close>

definition given :: "tracker \<Rightarrow> (hunk_id \<times> pathbuf) set" where
  "given s = {(i, p). \<exists>f. file_of s p = Some f \<and> i \<in> file_ids f}"

definition moved_on :: "regime \<Rightarrow> tracker \<Rightarrow> regime" where
  "moved_on R t = R\<lparr>rg_base := fresh t, rg_known := rg_known R \<union> given t\<rparr>"

lemma moved_on_diff [simp]: "rg_diff (moved_on R t) = rg_diff R"
  by (simp add: moved_on_def)

lemma file_wf_diff: "rg_diff R = rg_diff Q \<Longrightarrow> file_wf R p f = file_wf Q p f"
  by (simp add: file_wf_def)

lemma moved_on_ok:
  assumes "regime_ok R" "tracker_inv R io {} t"
  shows "regime_ok (moved_on R t)"
proof -
  have t: "ids_wf t" "ids_stay R t" using assms(2) by (simp_all add: tracker_inv_def)
  have new: "(i, p) \<in> rg_known R \<or> rg_base R \<le> i" "i < fresh t" if "(i, p) \<in> given t" for i p
    using t that by (auto simp: given_def ids_stay_def ids_wf_def)
  have old: "i < rg_base R" if "(i, p) \<in> rg_known R" for i p using assms(1) that by (auto simp: regime_ok_def)
  have "p = q" if "file_of t p = Some f" "i \<in> file_ids f" "file_of t q = Some g" "i \<in> file_ids g" for p q f g i
    using t(1) that unfolding ids_wf_def by (metis disjoint_iff)
  then have "single_valued (given t)" by (auto simp: single_valued_def given_def)
  moreover have "p = q" if "(i, p) \<in> rg_known R" "(i, q) \<in> given t" for i p q
    using new(1) [OF that(2)] old [OF that(1)] that(1) assms(1) by (auto simp: regime_ok_def single_valued_def)
  ultimately have "single_valued (rg_known R \<union> given t)" using assms(1) unfolding regime_ok_def single_valued_def by (metis Un_iff)
  moreover have "rg_base R \<le> fresh t" using t(2) by (simp add: ids_stay_def)
  then have "i < fresh t" if "(i, p) \<in> rg_known R \<union> given t" for i p using that old new(2) by fastforce
  ultimately show ?thesis by (auto simp: regime_ok_def moved_on_def)
qed

lemma inv_known:
  assumes "tracker_inv R io P s" "rg_diff Q = rg_diff R" "ids_stay Q s"
  shows "tracker_inv Q io P s"
  using assms file_wf_diff [OF assms(2)] by (simp add: tracker_inv_def)

lemma moved_on_inv: "tracker_inv R io {} t \<Longrightarrow> tracker_inv (moved_on R t) io {} t"
  by (erule inv_known) (auto simp: ids_stay_def moved_on_def given_def)

lemma snapshot_known:
  assumes "snapshot_ok R io i n" "rg_diff Q = rg_diff R" "rg_known R \<subseteq> rg_known Q" "rg_base R \<le> rg_base Q" "rg_base Q \<le> j" "i \<le> rg_base R"
  shows "snapshot_ok Q io j n"
proof -
  have "tracker_inv R io {} (restored n i)" using assms(1) by (simp add: snapshot_ok_def)
  moreover from this have "tracker_inv R io {} (restored n j)" using snapshot_ok_mono [OF assms(1), of j] assms(4-6) by (simp add: snapshot_ok_def)
  moreover have "file_of (restored n j) p = file_of (restored n i) p" for p by (rule file_of_cong) (simp add: restored_def restore_snapshot_def)
  moreover have "fresh (restored n i) = i" "fresh (restored n j) = j" by (simp_all add: restored_def)
  ultimately have known: "(k, p) \<in> rg_known R" if "file_of (restored n j) p = Some f" "k \<in> file_ids f" for p f k
    using that assms(6) unfolding tracker_inv_def ids_stay_def ids_wf_def by (metis linorder_not_less order_less_le_trans)
  have "ids_stay Q (restored n j)" using known assms(3,5) by (auto simp: ids_stay_def restored_def)
  then show ?thesis unfolding snapshot_ok_def by (rule inv_known [OF \<open>tracker_inv R io {} (restored n j)\<close> assms(2)])
qed

lemma saved_known: "saved_file_ok R p n \<Longrightarrow> rg_diff Q = rg_diff R \<Longrightarrow> rg_known R \<subseteq> rg_known Q \<Longrightarrow> saved_file_ok Q p n"
  unfolding saved_file_ok_def using file_wf_diff by blast

lemma session_moves:
  assumes "session_inv R io x" "tracker_inv R io {} t" "fresh (trk x) \<le> fresh t"
  shows "session_inv (moved_on R t) io (x\<lparr>trk := t\<rparr>)"
proof -
  have base: "rg_base R \<le> fresh t" using assms(1,3) by (simp add: session_inv_def)
  have "snapshot_ok (moved_on R t) io (fresh t) n" if "n \<in> set (snaps x)" for n
  proof (rule snapshot_known [of R io "rg_base R"])
    show "snapshot_ok R io (rg_base R) n" using assms(1) that by (simp add: session_inv_def)
  qed (use base in \<open>auto simp: moved_on_def\<close>)
  moreover have "saved_file_ok (moved_on R t) p n" if "(k, d) \<in> set (checkpoints x)" "(p, n) \<in> set (delta_files d)" for k d p n
  proof (rule saved_known [of R])
    show "saved_file_ok R p n" using assms(1) that by (auto simp: session_inv_def)
  qed (auto simp: moved_on_def)
  ultimately show ?thesis using assms(1,2) moved_on_ok [OF _ assms(2)] moved_on_inv [OF assms(2)]
    by (auto simp: session_inv_def moved_on_def)
qed

lemma new_tracker_inv: "rg_base R \<le> i \<Longrightarrow> tracker_inv R io P ((new_tracker wd m d)\<lparr>fresh := i\<rparr>)"
  by (simp add: tracker_inv_def ids_wf_def ids_stay_def index_sound_def new_tracker_def file_of_def turn_ids_def)

lemma started_inv:
  assumes "admissible (rg_diff R) io w" "rg_base R \<le> i"
  shows "tracker_inv R io {} (actor_start w ((new_tracker wd m d)\<lparr>fresh := i\<rparr>)) \<and>
    i \<le> fresh (actor_start w ((new_tracker wd m d)\<lparr>fresh := i\<rparr>))"
proof -
  have "preserves R io s (actor_start w s)" for s
    using refresh_git_dirty_cache_keeps [OF assms(1)] by (simp add: actor_start_def)
  from this [of "(new_tracker wd m d)\<lparr>fresh := i\<rparr>"] show ?thesis using new_tracker_inv [OF assms(2)] by (simp add: preserves_def)
qed

lemma captured_ok:
  assumes "session_inv R io x" "(p, n) \<in> set (delta_files (take_turn_delta k (trk x)))"
  shows "saved_file_ok R p n"
proof -
  obtain f where f: "(p, f) \<in> set (file_states (trk x))" "n = snapshot_file_state f"
    using assms(2) by (auto simp: take_turn_delta_def Let_def)
  have inv: "tracker_inv R io {} (trk x)" "fresh (trk x) = rg_base R" using assms(1) by (simp_all add: session_inv_def)
  have "file_of (trk x) p = Some f" using file_states_file_of [OF inv(1)] f(1) by simp
  then have "file_wf R p f" "distinct (map h_id (hunks f))" "\<forall>i \<in> file_ids f. i < rg_base R"
    "\<forall>i \<in> file_ids f. rg_base R \<le> i \<or> (i, p) \<in> rg_known R"
    using inv by (simp_all add: tracker_inv_def ids_wf_def ids_stay_def)
  then show ?thesis unfolding f(2) saved_file_ok_def restore_snapshot_file
    by (simp add: snapshot_file_state_def file_ids_def) (meson not_less)
qed

lemma composed_ok:
  assumes "session_inv R Rewound x" "restore_hunk_checkpoints target st (checkpoints x) = (Some n, store)"
  shows "snapshot_ok R Rewound (rg_base R) n"
proof -
  obtain index where c: "fold (compose_step (checkpoints x)) (sort (filter (\<lambda>idx. idx < target) (map fst (checkpoints x)))) ([], Map.empty) =
      (snap_files n, index)"
    using assms(2) by (auto simp: restore_hunk_checkpoints_def Let_def split: prod.splits if_splits)
  have files: "distinct (map fst (snap_files n))" using composed_files(1) [OF c] by simp
  have saved: "saved_file_ok R p f" if "(p, f) \<in> set (snap_files n)" for p f
    using composed_files(2) [OF c _ that] assms(1) by (fastforce simp: session_inv_def)
  have ok: "regime_ok R" using assms(1) by (simp add: session_inv_def)
  let ?s = "restored n (rg_base R)"
  have states: "file_states ?s = map (\<lambda>(p, f). (p, restore_file_state f)) (snap_files n)" by (simp add: restored_def restore_snapshot_def)
  have of: "\<exists>f. (p, f) \<in> set (snap_files n) \<and> g = restore_file_state f" if "file_of ?s p = Some g" for p g
    using map_of_SomeD [OF that [unfolded file_of_def states]] by auto
  have each: "file_wf R p g" "distinct (map h_id (hunks g))" "i \<in> file_ids g \<Longrightarrow> (i, p) \<in> rg_known R" if "file_of ?s p = Some g" for p g i
    using of [OF that] saved by (auto simp: saved_file_ok_def restore_file_state_def file_ids_def)
  have "ids_wf ?s"
  proof -
    have "distinct (map fst (file_states ?s))" using files by (simp add: states case_prod_beta comp_def)
    moreover have "i < fresh ?s" if "file_of ?s p = Some g" "i \<in> file_ids g" for p g i
      using each(3) [OF that] ok by (auto simp: regime_ok_def restored_def)
    moreover have "file_ids f \<inter> file_ids g = {}" if "p \<noteq> q" "file_of ?s p = Some f" "file_of ?s q = Some g" for p q f g
      using each(3) [OF that(2)] each(3) [OF that(3)] that(1) ok unfolding regime_ok_def single_valued_def by blast
    ultimately show ?thesis using each(2) unfolding ids_wf_def by blast
  qed
  moreover have "ids_stay R ?s" using each(3) by (auto simp: ids_stay_def restored_def)
  ultimately show ?thesis using each(1) by (simp add: snapshot_ok_def tracker_inv_def)
qed

lemma session_reach_inv: "session_reach D io x \<Longrightarrow> \<exists>R. rg_diff R = D \<and> session_inv R io x"
proof (induction rule: session_reach.induct)
  case (start D io w wd m d)
  define R where "R = \<lparr>rg_diff = D, rg_base = 0, rg_known = {}\<rparr>"
  let ?s = "actor_start w (new_tracker wd m d)"
  have new: "(new_tracker wd m d)\<lparr>fresh := 0\<rparr> = new_tracker wd m d" by (simp add: new_tracker_def)
  have s: "tracker_inv R io {} ?s" using started_inv [of R io w 0 wd m d] start by (simp add: R_def new)
  have "regime_ok (moved_on R ?s)" by (rule moved_on_ok [OF _ s]) (simp add: R_def regime_ok_def)
  then have "session_inv (moved_on R ?s) io \<lparr>trk = ?s, snaps = [], checkpoints = []\<rparr>"
    using moved_on_inv [OF s] by (simp add: session_inv_def moved_on_def)
  then show ?case by (metis R_def moved_on_diff regime.select_convs(1))
next
  case (turn D io x w c queued rs rest t)
  then obtain R where R: "rg_diff R = D" "session_inv R io x" by blast
  have "commands_ok R io (fresh (trk x)) (c # queued)" using turn(3) R(2) by (auto simp: commands_ok_def session_inv_def)
  then have "preserves R io (trk x) t" using actor_turn_keeps [OF _ _ turn(4)] turn(2) R(1) by simp
  then have "session_inv (moved_on R t) io (x\<lparr>trk := t\<rparr>)" using R(2) by (intro session_moves) (auto simp: preserves_def session_inv_def)
  then show ?case using R(1) moved_on_diff by blast
next
  case (elsewhere D io x d)
  then show ?case by (auto simp: session_inv_def)
next
  case (snapshot D io x)
  then obtain R where R: "rg_diff R = D" "session_inv R io x" by blast
  then have "snapshot_ok R io (rg_base R) (take_snapshot (trk x))" using take_snapshot_ok [of R io "trk x"] by (simp add: session_inv_def)
  then show ?case using R by (auto simp: session_inv_def)
next
  case (capture D io x k)
  then obtain R where R: "rg_diff R = D" "session_inv R io x" by blast
  have "set (AList.update k d C) \<subseteq> insert (k, d) (set C)" for d and C :: checkpoint_store by (induction C) auto
  then have "saved_file_ok R p n" if "(j, d) \<in> set (snd (capture_hunk_delta k (Some (take_turn_delta k (trk x))) (checkpoints x)))"
    "(p, n) \<in> set (delta_files d)" for j d p n
    using that captured_ok [OF R(2), of p n k] R(2)
    by (fastforce simp: capture_hunk_delta_def session_inv_def split: if_splits)
  then show ?case using R by (auto simp: session_inv_def)
next
  case (rewind D x target st n store)
  then obtain R where R: "rg_diff R = D" "session_inv R Rewound x" by blast
  have "set store \<subseteq> set (checkpoints x)" using rewind(2) by (auto simp: restore_hunk_checkpoints_def Let_def split: prod.splits if_splits)
  then show ?case using R composed_ok [OF R(2) rewind(2)] by (fastforce simp: session_inv_def)
next
  case (restart D io x w wd m d)
  then obtain R where R: "rg_diff R = D" "session_inv R io x" by blast
  then have "session_inv (moved_on R (actor_start w ((new_tracker wd m d)\<lparr>fresh := fresh (trk x)\<rparr>))) io
      (x\<lparr>trk := actor_start w ((new_tracker wd m d)\<lparr>fresh := fresh (trk x)\<rparr>)\<rparr>)"
    using started_inv [of R io w "fresh (trk x)" wd m d] restart(2) by (intro session_moves) (simp_all add: session_inv_def)
  then show ?case using R(1) moved_on_diff by blast
qed

lemma reach_inv:
  assumes "tracker_reach D io s"
  obtains R where "rg_diff R = D" "tracker_inv R io {} s"
proof -
  obtain N C where "session_reach D io \<lparr>trk = s, snaps = N, checkpoints = C\<rparr>" using assms by (auto simp: tracker_reach_def)
  from session_reach_inv [OF this] show thesis using that by (auto simp: session_inv_def)
qed

end
