(* ===== verification/HunkSafety.thy ===== *)
theory HunkSafety
  imports HunkReach
begin

text \<open>
  What the hunk tracker promises to its clients: pending hunks are the differences of the baseline and the
  file, accepting and rejecting all of them ends the review of a file, errors change nothing that
  is pending, the index of turns agrees with the hunks, snapshots and moved snapshots come back,
  and queued events are merged without loss.
\<close>

section \<open>A concrete run\<close>

definition demo_git :: git_view where
  "demo_git =
     \<lparr>git_root = None, git_head_tree = None, git_index_len = None, git_status = (\<lambda>_. None),
      git_sync = \<lparr>head_oid = None, index_mtime = None\<rparr>, git_canonical = (\<lambda>_. None), git_task_fails = False\<rparr>"

definition demo_outside :: outside where
  "demo_outside = \<lparr>similar = coarse_differ, git = demo_git, failed_write = (\<lambda>_. None), remove_fails = (\<lambda>_. False)\<rparr>"

definition demo_path :: pathbuf where "demo_path = [RootDir, Normal (lit ''w''), Normal (lit ''f'')]"
definition demo_old :: rstr where "demo_old = lit ''a'' @ [newline]"
definition demo_new :: rstr where "demo_new = lit ''b'' @ [newline] @ lit ''c'' @ [newline]"

text \<open>The agent has written a file that had another text before.\<close>

definition demo_state :: tracker where
  "demo_state =
     snd (snd (actor_turn demo_outside (RecordAgentWrite demo_path demo_new 1 (Some demo_old)) []
       (actor_start demo_outside (new_tracker [RootDir, Normal (lit ''w'')] AgentOnly
         (\<lambda>p. if p = demo_path then FileEntry (as_bytes demo_new) else NoEntry)))))"

lemma demo_admissible: "admissible (diff_lines coarse_differ) Faithful demo_outside"
  by (simp add: admissible_def demo_outside_def)

lemma reach_start: "admissible D io w \<Longrightarrow> tracker_reach D io (actor_start w (new_tracker wd m d))"
  unfolding tracker_reach_def by (blast intro: session_reach.start)

lemma reach_turn:
  assumes "tracker_reach D io s" "admissible D io w" "\<forall>n. RestoreState n \<notin> set (c # queued)"
  shows "tracker_reach D io (snd (snd (actor_turn w c queued s)))"
proof -
  obtain N C where x: "session_reach D io \<lparr>trk = s, snaps = N, checkpoints = C\<rparr>" using assms(1) by (auto simp: tracker_reach_def)
  obtain rs rest t where t: "actor_turn w c queued s = (rs, rest, t)" by (metis surj_pair)
  have "session_reach D io (\<lparr>trk = s, snaps = N, checkpoints = C\<rparr>\<lparr>trk := t\<rparr>)"
    by (rule session_reach.turn [OF x assms(2)]) (use assms(3) t in auto)
  then show ?thesis using t by (auto simp: tracker_reach_def)
qed

lemma demo_reach: "tracker_reach (diff_lines coarse_differ) Faithful demo_state"
  unfolding demo_state_def by (intro reach_turn reach_start demo_admissible) simp

lemma demo_file:
  "file_of demo_state demo_path =
     Some \<lparr>baseline = Full demo_old, current_content = Full demo_new,
           hunks = [\<lparr>h_id = 0, h_path = demo_path, line_info = \<lparr>old_start = 1, old_count = 1, new_start = 1, new_count = 2\<rparr>,
                     h_source = AgentEdit 1, old_text = Some demo_old, new_text = demo_new, h_patch = None\<rparr>],
           is_agent_file = True, baseline_accepted = False\<rparr>"
  by code_simp

section \<open>Pending hunks\<close>

lemma distinct_all_hunks:
  assumes "ids_wf s"
  shows "distinct (map h_id (get_all_hunks s))"
proof -
  have keys: "distinct (map fst (file_states s))" using assms by (simp add: ids_wf_def)
  have each: "distinct (map h_id (hunks f))" if "(p, f) \<in> set (file_states s)" for p f
    using assms that keys by (auto simp: ids_wf_def file_of_def)
  have apart: "file_ids f \<inter> file_ids g = {}"
    if "(p, f) \<in> set (file_states s)" "(q, g) \<in> set (file_states s)" "p \<noteq> q" for p q f g
    using assms that unfolding ids_wf_def file_of_def by (metis map_of_is_SomeI)
  have "distinct (map h_id (concat (map (hunks \<circ> snd) fs)))" if "set fs \<subseteq> set (file_states s)" "distinct (map fst fs)" for fs
    using that
  proof (induction fs)
    case (Cons x fs)
    obtain p f where x: "x = (p, f)" by force
    have "file_ids f \<inter> file_ids g = {}" if "(q, g) \<in> set fs" for q g
    proof -
      have "p \<noteq> q" using that Cons.prems(2) x by (auto simp: image_iff)
      then show ?thesis using Cons.prems(1) that x by (intro apart) auto
    qed
    then have "h_id ` set (hunks f) \<inter> h_id ` set (concat (map (hunks \<circ> snd) fs)) = {}"
      unfolding file_ids_def by fastforce
    moreover have "distinct (map h_id (hunks f))" using Cons.prems(1) x by (intro each) auto
    ultimately show ?case using Cons x by auto
  qed simp
  then show ?thesis using keys by (simp add: get_all_hunks_def)
qed

text \<open>When a file is compared: the two sides are not the same text, neither is too long, and the line diff ends in
  time.\<close>

definition compared :: "outside \<Rightarrow> file_content_state \<Rightarrow> file_content_state \<Rightarrow> bool" where
  "compared w base cur =
     (case (base, cur) of
        (Full b, Full c) \<Rightarrow> b \<noteq> c \<and> \<not> over_diff_limit b \<and> \<not> over_diff_limit c \<and> \<not> diff_timed_out (similar w) b c
      | _ \<Rightarrow> True)"

lemma recompute_finds_all:
  assumes "diff_lines (similar w) = D" "file_of s p = Some f" "compared w (baseline f) c"
  shows "map shape (get_hunks_for_path (recompute_hunks w p (Some c) src s) p) = map shape (differences D p (baseline f) c)"
proof -
  have "map shape (new_hunks_of (similar w) (fresh s) p (baseline f) c src) = map shape (differences D p (baseline f) c)"
    using assms(1,3) shape_changes [of p src "fresh s" 1 1 None _ External 0]
    by (auto simp: compared_def new_hunks_of_def differences_def compute_hunks_def shape_def file_created_def file_deleted_def
        split: file_content_state.splits)
  then show ?thesis using assms(2) by (simp add: get_hunks_for_path_def recompute_file recomputed_def shape_claim)
qed

text \<open>C10: Take any state of the tracker of a session, after any series of commands, of changes to the files by others,
  of failures to write, of restarts, of restored snapshots that the tracker gave out before, and of
  rewinds to earlier prompts. No two pending hunks have the same identifier. The hunks of a file
  are, up to identifiers and authors, all differences of its baseline and its content, or the
  file has none; so hunks are pending only for files whose two sides are texts, or a text
  and nothing. Whenever a tracked file gets a new content that can be compared with its baseline (the texts differ, are
  not too long, and the line diff ends in time), all differences are pending afterwards.\<close>

theorem pending_hunks_are_differences:
  assumes "tracker_reach D io s"
  shows "distinct (map h_id (get_all_hunks s)) \<and>
    (\<forall>p f. file_of s p = Some f \<longrightarrow> hunks f \<noteq> [] \<longrightarrow>
       map shape (hunks f) = map shape (differences D p (baseline f) (current_content f)) \<and>
       (is_diffable (baseline f) \<and> is_diffable (current_content f) \<or>
        is_diffable (baseline f) \<and> current_content f = Missing \<or> baseline f = Missing \<and> is_diffable (current_content f))) \<and>
    (\<forall>w p f c src. diff_lines (similar w) = D \<longrightarrow> file_of s p = Some f \<longrightarrow> compared w (baseline f) c \<longrightarrow>
       map shape (get_hunks_for_path (recompute_hunks w p (Some c) src s) p) = map shape (differences D p (baseline f) c))"
proof -
  obtain R where R: "rg_diff R = D" "tracker_inv R io {} s" by (rule reach_inv [OF assms])
  then have "distinct (map h_id (get_all_hunks s))" by (intro distinct_all_hunks) (simp add: tracker_inv_def)
  moreover have "map shape (hunks f) = map shape (differences D p (baseline f) (current_content f)) \<and>
      (is_diffable (baseline f) \<and> is_diffable (current_content f) \<or>
       is_diffable (baseline f) \<and> current_content f = Missing \<or> baseline f = Missing \<and> is_diffable (current_content f))"
    if f: "file_of s p = Some f" "hunks f \<noteq> []" for p f
  proof -
    have "file_wf R p f" using R(2) f(1) by (simp add: tracker_inv_def)
    then show ?thesis using f(2) R(1) by (cases rule: patchable [OF \<open>file_wf R p f\<close> f(2)]) (auto simp: file_wf_def is_diffable_def)
  qed
  ultimately show ?thesis using recompute_finds_all by blast
qed

theorem pending_hunks_are_differences_witness:
  "distinct (map h_id (get_all_hunks demo_state)) \<and> get_all_hunks demo_state \<noteq> [] \<and>
   map shape (get_all_hunks demo_state) = map shape (differences (diff_lines coarse_differ) demo_path (Full demo_old) (Full demo_new))"
  using pending_hunks_are_differences [OF demo_reach]
proof (elim conjE, intro conjI)
  show "get_all_hunks demo_state \<noteq> []" by code_simp
  show "map shape (get_all_hunks demo_state) = map shape (differences (diff_lines coarse_differ) demo_path (Full demo_old) (Full demo_new))"
    by code_simp
qed

section \<open>Accepting and rejecting a file\<close>

lemma script_shape: "script a b ks hs \<Longrightarrow> map shape hs = map shape hs' \<Longrightarrow> script a b ks hs'"
proof (induction arbitrary: hs' rule: script.induct)
  case (block blk h a b ks hs)
  obtain h' hs'' where hs': "hs' = h' # hs''" "shape h = shape h'" "map shape hs = map shape hs''"
    using block.prems by (auto simp: Cons_eq_map_conv)
  have "line_info h = line_info h'" "old_text h = old_text h'" "new_text h = new_text h'"
    using arg_cong [OF hs'(2), of line_info] arg_cong [OF hs'(2), of old_text] arg_cong [OF hs'(2), of new_text]
    by (simp_all add: shape_def)
  then have "describes h' a b blk" using block.hyps(3) by (simp add: describes_def)
  then show ?case unfolding hs'(1) using block hs'(3) by (intro script.block) auto
qed (auto intro: script.intros)

text \<open>Two texts of whole lines whose diff has their lines as its sides and leaves no text on the way
  empty or one empty line.\<close>

definition regular :: "line_diff \<Rightarrow> rstr \<Rightarrow> rstr \<Rightarrow> bool" where
  "regular D b c \<longleftrightarrow>
     (\<exists>ks. D b c = ended ks \<and> b = text_of (olds ks) \<and> c = text_of (news ks) \<and> list_all clean_line (olds ks) \<and>
        list_all clean_line (news ks) \<and> solid [] ks \<and> solid [] (swap_sides ks))"

definition regular_file :: "line_diff \<Rightarrow> file_hunk_state \<Rightarrow> bool" where
  "regular_file D f = (case (baseline f, current_content f) of (Full b, Full c) \<Rightarrow> regular D b c | _ \<Rightarrow> True)"

lemma file_script:
  assumes "file_wf D p f" "hunks f \<noteq> []" "baseline f = Full b" "current_content f = Full c" "regular (rg_diff D) b c"
  obtains ks where "b = text_of (olds ks)" "c = text_of (news ks)" "list_all clean_line (olds ks)" "list_all clean_line (news ks)"
    "solid [] ks" "solid [] (swap_sides ks)" "script 0 0 ks (hunks f)"
proof -
  obtain ks where ks: "rg_diff D b c = ended ks" "b = text_of (olds ks)" "c = text_of (news ks)" "list_all clean_line (olds ks)"
    "list_all clean_line (news ks)" "solid [] ks" "solid [] (swap_sides ks)" using assms(5) by (auto simp: regular_def)
  have "map shape (changes_loop p External 0 1 1 None (ended ks)) = map shape (hunks f)"
    using assms(1-4) ks(1) by (simp add: file_wf_def differences_def)
  then have "script 0 0 ks (hunks f)" using script_shape loop_script_None [of 0 0 ks p External 0] by simp
  then show thesis using that ks by blast
qed

lemma file_texts:
  assumes "file_wf D p f" "hunks f \<noteq> []" "baseline f = Full b" "current_content f = Full c" "regular (rg_diff D) b c"
  shows "accept_all_text (hunks f) b = c" "reject_all_text (hunks f) c = b"
  using file_script [OF assms] script_roundtrip by metis+

lemma without_all [simp]: "without_hunks hs hs = []"
  by (auto simp: without_hunks_def)

lemma no_changes [simp]: "new_hunks_of d i p c c src = []"
  by (simp add: new_hunks_of_def compute_hunks_def split: file_content_state.split)

lemma patch_all: "length (lines b) \<le> n \<Longrightarrow> patch_lines b (Suc 0) n [] = []"
  by (simp add: patch_lines_def Let_def)

lemma deleted_file_text:
  assumes "file_wf D p f" "hunks f \<noteq> []" "baseline f = Full b" "current_content f = Missing"
  shows "accept_all_text (hunks f) b = []"
proof -
  have "map shape (hunks f) = [shape (file_deleted 0 p b External)]" using assms by (auto simp: file_wf_def differences_def split: if_splits)
  then obtain h where h: "hunks f = [h]" "shape h = shape (file_deleted 0 p b External)" by auto
  have "line_info h = line_info (file_deleted 0 p b External)" "new_text h = []"
    using arg_cong [OF h(2), of line_info] arg_cong [OF h(2), of new_text] by (simp_all add: shape_def file_deleted_def)
  then show ?thesis by (simp add: h(1) accept_all_text_def accepted_text_def file_deleted_def patch_all)
qed

lemma file_action_batch:
  "file_of s p = Some f \<Longrightarrow> hunks f \<noteq> [] \<Longrightarrow>
     apply_file_action w p AcceptHunk s = (Inr (map h_id (hunks f)), accept_hunks_batch w p (hunks f) (fold (count_hunk AcceptHunk) (hunks f) s))"
  "file_of s p = Some f \<Longrightarrow> hunks f \<noteq> [] \<Longrightarrow>
     reject_hunks_batch w p (hunks f) (fold (count_hunk RejectHunk) (hunks f) s) = (None, t) \<Longrightarrow>
     apply_file_action w p RejectHunk s = (Inr (map h_id (hunks f)), t)"
  by (simp_all add: apply_file_action_def)

lemma accept_hunks_batch_disk: "disk (accept_hunks_batch w p hs s) = disk s"
  by (simp add: accept_hunks_batch_def Let_def split: option.split)

text \<open>What accepting all hunks of a file leaves as its baseline.\<close>

definition accepted_baseline :: "file_hunk_state \<Rightarrow> file_content_state" where
  "accepted_baseline f = (if current_content f = Missing then Full [] else current_content f)"

lemma accept_all_file:
  assumes "file_wf D p f" "hunks f \<noteq> []" "regular_file (rg_diff D) f" "file_of s p = Some f"
  shows "file_of (accept_hunks_batch w p (hunks f) s) p =
    Some (f\<lparr>baseline := accepted_baseline f, baseline_accepted := True, hunks := []\<rparr>)"
proof (cases rule: patchable [OF assms(1,2)])
  case (1 b c)
  then have "accept_all_text (hunks f) b = c" using file_texts [OF assms(1,2) 1] assms(3) by (simp add: regular_file_def)
  then show ?thesis using 1 assms(2,4)
    by (simp add: accept_hunks_batch_def Let_def recompute_file recomputed_def patched_baseline_def accepted_baseline_def)
next
  case (2 c)
  then show ?thesis using assms(2,4) by (simp add: accept_hunks_batch_def Let_def accepted_baseline_def)
next
  case (3 b)
  then show ?thesis using assms(2,4) deleted_file_text [OF assms(1,2) 3]
    by (simp add: accept_hunks_batch_def Let_def recompute_file recomputed_def patched_baseline_def accepted_baseline_def new_hunks_of_def)
qed

text \<open>C12: Accepting all hunks of a file whose baseline and content, if both are texts, consist of whole lines that end in a
  line feed alone, and whose line diff has these lines as its two sides and leaves no text on the
  way empty or one empty line: it succeeds and reports all hunks, leaves none of the file pending,
  writes nothing to the disk, leaves the other files as they were, and makes the content of the
  file its baseline; the baseline of a deleted file becomes the empty text. For other texts it
  can fail to end the review (\<open>crlf_review\<close>).\<close>

theorem accept_file_ends_review:
  assumes "tracker_reach D io s" and "file_of s p = Some f" and "hunks f \<noteq> []" and "regular_file D f"
  shows "\<exists>t. apply_file_action w p AcceptHunk s = (Inr (map h_id (hunks f)), t) \<and> disk t = disk s \<and>
    file_of t p = Some (f\<lparr>baseline := accepted_baseline f, baseline_accepted := True, hunks := []\<rparr>) \<and>
    (\<forall>q. q \<noteq> p \<longrightarrow> file_of t q = file_of s q)"
proof -
  obtain R where R: "rg_diff R = D" "tracker_inv R io {} s" by (rule reach_inv [OF assms(1)])
  then have "file_wf R p f" using assms(2) by (simp add: tracker_inv_def)
  then show ?thesis
    using accept_all_file [of R, OF _ assms(3)] assms(2,4) R(1)
    by (simp add: file_action_batch(1) [OF assms(2,3)] accept_hunks_batch_disk accept_hunks_batch_other)
qed

lemma demo_regular: "regular (diff_lines coarse_differ) demo_old demo_new"
proof -
  let ?ks = "[(Delete, lit ''a''), (Insert, lit ''b''), (Insert, lit ''c'')]"
  have "diff_lines coarse_differ demo_old demo_new = ended ?ks" "demo_old = text_of (olds ?ks)" "demo_new = text_of (news ?ks)"
    "list_all clean_line (olds ?ks)" "list_all clean_line (news ?ks)" by code_simp+
  moreover have "solid [] ?ks" "solid [] (swap_sides ?ks)" unfolding solid_iff by code_simp+
  ultimately show ?thesis unfolding regular_def by blast
qed

theorem accept_file_ends_review_witness:
  "\<exists>t f. apply_file_action demo_outside demo_path AcceptHunk demo_state = (Inr [0], t) \<and> disk t = disk demo_state \<and>
     file_of t demo_path = Some f \<and> baseline f = Full demo_new \<and> current_content f = Full demo_new \<and> hunks f = []"
  using accept_file_ends_review [OF demo_reach demo_file, of demo_outside] demo_regular
  by (auto simp: regular_file_def accepted_baseline_def)

text \<open>The entry of a file with a given content.\<close>

definition entry_with :: "file_content_state \<Rightarrow> disk_entry" where
  "entry_with c = (case c of Full t \<Rightarrow> FileEntry (as_bytes t) | _ \<Rightarrow> NoEntry)"

definition is_link :: "disk_entry \<Rightarrow> bool" where
  "is_link e = (case e of LinkEntry _ _ \<Rightarrow> True | _ \<Rightarrow> False)"

lemma write_entry_file: "\<not> is_link e \<Longrightarrow> write_entry e t = FileEntry (as_bytes t)"
  by (cases e) (simp_all add: is_link_def write_entry_def)

lemma reject_all_file:
  assumes "file_wf D p f" "hunks f \<noteq> []" "regular_file (rg_diff D) f" "file_of s p = Some f"
    and "failed_write w p = None" "\<not> remove_fails w p" "\<not> is_link (disk s p)"
  shows "\<exists>t. reject_hunks_batch w p (hunks f) s = (None, t) \<and> disk t = (disk s)(p := entry_with (baseline f)) \<and>
    file_of t p = Some (f\<lparr>current_content := baseline f, hunks := []\<rparr>) \<and> (\<forall>q. q \<noteq> p \<longrightarrow> file_of t q = file_of s q)"
proof (cases rule: patchable [OF assms(1,2)])
  case (1 b c)
  then have "reject_all_text (hunks f) c = b" using file_texts [OF assms(1,2) 1] assms(3) by (simp add: regular_file_def)
  then show ?thesis using 1 assms(2,4-7)
    by (simp add: reject_hunks_batch_def reject_action_of_def reject_with_def reject_io_def fs_write_def content_after_reject_def
        Let_def recompute_file recomputed_def write_entry_file entry_with_def)
next
  case (2 c)
  then show ?thesis using assms(2,4-7)
    by (simp add: reject_hunks_batch_def reject_action_of_def reject_with_def reject_io_def fs_remove_def content_after_reject_def
        Let_def entry_with_def)
next
  case (3 b)
  then show ?thesis using assms(2,4-7)
    by (simp add: reject_hunks_batch_def reject_action_of_def reject_with_def reject_io_def fs_write_def content_after_reject_def
        Let_def write_entry_file entry_with_def)
qed

text \<open>C11: Rejecting all hunks of a file whose baseline and content, if both are texts, consist of whole lines that end in a
  line feed alone, and whose line diff has these lines as its two sides and leaves no text on the
  way empty or one empty line: when the path is no link on the disk and the write or the removal
  succeeds, it reports all hunks and leaves exactly the baseline on the disk, the text of the baseline or no
  file when there was none; nothing else on the disk and no other file changes, and no hunk of
  the file stays pending. For other texts it can write something else (\<open>crlf_review\<close>).\<close>

theorem reject_file_restores_baseline:
  assumes "tracker_reach D io s" and "file_of s p = Some f" and "hunks f \<noteq> []" and "regular_file D f"
    and "failed_write w p = None" and "\<not> remove_fails w p" and "\<not> is_link (disk s p)"
  shows "\<exists>t. apply_file_action w p RejectHunk s = (Inr (map h_id (hunks f)), t) \<and>
    disk t = (disk s)(p := entry_with (baseline f)) \<and>
    file_of t p = Some (f\<lparr>current_content := baseline f, hunks := []\<rparr>) \<and>
    (\<forall>q. q \<noteq> p \<longrightarrow> file_of t q = file_of s q)"
proof -
  obtain R where R: "rg_diff R = D" "tracker_inv R io {} s" by (rule reach_inv [OF assms(1)])
  then have wf: "file_wf R p f" "regular_file (rg_diff R) f" using assms(2,4) by (simp_all add: tracker_inv_def)
  let ?s1 = "fold (count_hunk RejectHunk) (hunks f) s"
  have "file_of ?s1 p = Some f" "\<not> is_link (disk ?s1 p)" by (simp_all add: assms(2,7))
  from reject_all_file [OF wf(1) assms(3) wf(2) this(1) assms(5,6) this(2)]
  show ?thesis using file_action_batch(2) [OF assms(2,3)] by auto
qed

theorem reject_file_restores_baseline_witness:
  "\<exists>t f. apply_file_action demo_outside demo_path RejectHunk demo_state = (Inr [0], t) \<and>
     disk t demo_path = FileEntry (as_bytes demo_old) \<and>
     file_of t demo_path = Some f \<and> current_content f = Full demo_old \<and> hunks f = []"
proof -
  have "\<not> is_link (disk demo_state demo_path)" by code_simp
  then show ?thesis
    using reject_file_restores_baseline [OF demo_reach demo_file, of demo_outside] demo_regular
    by (auto simp: regular_file_def entry_with_def demo_outside_def)
qed

end
