(* ===== verification/HunkProtocol.thy ===== *)
theory HunkProtocol
  imports HunkSafety
begin

text \<open>
  Errors, the index of turns, snapshots and the merging of queued events of the hunk tracker.
\<close>

section \<open>Errors\<close>

lemma find_hunk_None: "find_hunk s i = None \<longleftrightarrow> i \<notin> h_id ` set (get_all_hunks s)"
proof -
  have "find_hunk s i = None \<longleftrightarrow> (\<forall>(p, f) \<in> set (file_states s). \<forall>h \<in> set (hunks f). h_id h \<noteq> i)"
    unfolding find_hunk_def find_None_iff by (auto; fastforce)
  also have "\<dots> \<longleftrightarrow> i \<notin> h_id ` set (get_all_hunks s)" by (fastforce simp: get_all_hunks_def)
  finally show ?thesis .
qed

lemma reject_with_fails:
  assumes "reject_with w p a hs f s = (Some e, t)"
  shows "file_states t = file_states s \<and> turn_index t = turn_index s \<and>
    (e = WriteError p \<and> failed_write w p \<noteq> None \<or> e = DeleteError p \<and> remove_fails w p)"
  using assms
  by (cases a) (auto simp: reject_with_def reject_io_def fs_write_def fs_remove_def Let_def split: option.splits if_splits)

text \<open>C18: An action on a hunk that is not pending is answered with the error that names it and changes
  nothing. An action on a pending hunk fails only for a rejection whose write or removal failed; then
  every hunk of every file is still pending.\<close>

theorem hunk_action_errors:
  "(i \<notin> h_id ` set (get_all_hunks s) \<longrightarrow> apply_hunk_action w i a s = (Inl (HunkNotFound i), s)) \<and>
   (i \<in> h_id ` set (get_all_hunks s) \<longrightarrow> apply_hunk_action w i a s = (Inl e, t) \<longrightarrow>
      a = RejectHunk \<and> file_states t = file_states s \<and>
      (\<exists>p. e = WriteError p \<and> failed_write w p \<noteq> None \<or> e = DeleteError p \<and> remove_fails w p))"
proof (cases "find_hunk s i")
  case None
  then show ?thesis using find_hunk_None [of s i] by (simp add: apply_hunk_action_def)
next
  case (Some x)
  obtain p h where x: "x = (p, h)" by force
  have same: "file_states (count_hunk a h s) = file_states s" by (simp add: count_hunk_def)
  have "a = RejectHunk \<and> file_states t = file_states s \<and>
      (\<exists>p. e = WriteError p \<and> failed_write w p \<noteq> None \<or> e = DeleteError p \<and> remove_fails w p)"
    if fail: "apply_hunk_action w i a s = (Inl e, t)"
  proof (cases a)
    case AcceptHunk
    then show ?thesis using fail Some x by (simp add: apply_hunk_action_def Let_def)
  next
    case RejectHunk
    have "reject_hunk w p h (count_hunk a h s) = (Some e, t)"
      using fail Some x RejectHunk by (auto simp: apply_hunk_action_def Let_def split: prod.splits option.splits)
    then obtain f where "reject_with w p (reject_action_of (rejected_text h) f) [h] f (count_hunk a h s) = (Some e, t)"
      by (auto simp: reject_hunk_def split: option.splits)
    from reject_with_fails [OF this] show ?thesis using RejectHunk same by auto
  qed
  then show ?thesis using Some find_hunk_None [of s i] by auto
qed

theorem hunk_action_errors_witness:
  "apply_hunk_action demo_outside 7 AcceptHunk demo_state = (Inl (HunkNotFound 7), demo_state)"
proof -
  have "7 \<notin> h_id ` set (get_all_hunks demo_state)" by code_simp
  then show ?thesis using hunk_action_errors [of 7 demo_state demo_outside AcceptHunk] by simp
qed

text \<open>A failed rejection has already been counted and taken out of the index of turns.\<close>

definition readonly_outside :: outside where
  "readonly_outside = demo_outside\<lparr>failed_write := (\<lambda>p. Some (FileEntry (as_bytes demo_new)))\<rparr>"

lemma failed_rejection_is_counted:
  "fst (apply_hunk_action readonly_outside 0 RejectHunk demo_state) = Inl (WriteError demo_path)"
  "rejected_hunks (stats (snd (apply_hunk_action readonly_outside 0 RejectHunk demo_state))) = 1"
  "map h_id (get_all_hunks (snd (apply_hunk_action readonly_outside 0 RejectHunk demo_state))) = [0]"
  "get_hunks_for_turn demo_state 1 \<noteq> []"
  "get_hunks_for_turn (snd (apply_hunk_action readonly_outside 0 RejectHunk demo_state)) 1 = []"
  by code_simp+

section \<open>Turns\<close>

lemma get_hunk_Some:
  assumes "ids_wf s"
  shows "get_hunk s i = Some h \<longleftrightarrow> h \<in> set (get_all_hunks s) \<and> h_id h = i"
proof
  assume "h \<in> set (get_all_hunks s) \<and> h_id h = i"
  moreover from this obtain g where "get_hunk s i = Some g"
    unfolding get_hunk_def by (cases "find (\<lambda>h. h_id h = i) (get_all_hunks s)") (auto simp: find_None_iff)
  moreover from this have "g \<in> set (get_all_hunks s)" "h_id g = i"
    using find_SomeD unfolding get_hunk_def by fastforce+
  ultimately show "get_hunk s i = Some h" using distinct_all_hunks [OF assms] by (auto simp: distinct_map dest: inj_onD)
qed (auto simp: get_hunk_def dest: find_SomeD)

lemma all_hunks_iff:
  assumes "ids_wf s"
  shows "h \<in> set (get_all_hunks s) \<longleftrightarrow> (\<exists>p f. file_of s p = Some f \<and> h \<in> set (hunks f))"
proof -
  have "file_of s p = Some f \<longleftrightarrow> (p, f) \<in> set (file_states s)" for p f using assms by (simp add: ids_wf_def file_of_def)
  then show ?thesis by (force simp: get_all_hunks_def)
qed

lemma turn_pending_iff: "set (turn_pending (turn_summary_of s k)) = {h \<in> set (get_all_hunks s). h_source h = AgentEdit k}"
  by (auto simp: turn_summary_of_def get_all_hunks_def turn_hunks_of_def Let_def)

lemma set_map_filter: "set (List.map_filter f xs) = {y. \<exists>x \<in> set xs. f x = Some y}"
  by (induction xs) (auto simp: map_filter_simps split: option.splits)

lemma hunks_for_turn_iff:
  assumes "ids_wf s"
  shows "set (get_hunks_for_turn s k) = {h \<in> set (get_all_hunks s). h_id h \<in> turn_ids s k}"
  using get_hunk_Some [OF assms]
  by (auto simp: get_hunks_for_turn_def turn_ids_def set_map_filter split: option.splits)

text \<open>C15: As long as a session has not been rewound, the index never gives for a turn a hunk of another author; while
  also no write and no removal has failed, the hunks that it gives for a turn are exactly the pending
  hunks with that turn as their author, those that the session summary lists. A rewind can break
  this (\<open>rewound_index_is_stale\<close>).\<close>

theorem turn_index_agrees:
  assumes "tracker_reach D io s" and "io \<noteq> Rewound"
  shows "set (get_hunks_for_turn s k) \<subseteq> set (turn_pending (turn_summary_of s k)) \<and>
    (io = Faithful \<longrightarrow> set (get_hunks_for_turn s k) = set (turn_pending (turn_summary_of s k)))"
proof -
  obtain R where inv: "tracker_inv R io {} s" by (rule reach_inv [OF assms(1)])
  then have ids: "ids_wf s" by (simp add: tracker_inv_def)
  have sound: "h_source h = AgentEdit k" if "h \<in> set (get_all_hunks s)" "h_id h \<in> turn_ids s k" for h
    using inv assms(2) that all_hunks_iff [OF ids] by (auto simp: tracker_inv_def index_sound_def)
  have complete: "h_id h \<in> turn_ids s k" if "h \<in> set (get_all_hunks s)" "h_source h = AgentEdit k" "io = Faithful" for h
    using inv that all_hunks_iff [OF ids] by (auto simp: tracker_inv_def indexed_def)
  show ?thesis unfolding hunks_for_turn_iff [OF ids] turn_pending_iff using sound complete by blast
qed

theorem turn_index_agrees_witness:
  "set (get_hunks_for_turn demo_state 1) = set (turn_pending (turn_summary_of demo_state 1)) \<and>
   get_hunks_for_turn demo_state 1 \<noteq> []"
  using turn_index_agrees [OF demo_reach, of 1] failed_rejection_is_counted(4) by simp

section \<open>The session summary\<close>

lemma sum_by_turn:
  assumes "distinct ks"
  shows "\<forall>h \<in> set hs. \<forall>k. q h = Some k \<longrightarrow> k \<in> set ks \<Longrightarrow>
    (\<Sum>k\<leftarrow>ks. \<Sum>h\<leftarrow>filter (\<lambda>h. q h = Some k) hs. (g h :: nat)) = (\<Sum>h\<leftarrow>filter (\<lambda>h. q h \<noteq> None) hs. g h)"
  unfolding sum_list_distinct_conv_sum_set [OF assms]
proof (induction hs)
  case (Cons h hs)
  then have rest: "(\<Sum>k \<in> set ks. \<Sum>h\<leftarrow>filter (\<lambda>h. q h = Some k) hs. g h) = (\<Sum>h\<leftarrow>filter (\<lambda>h. q h \<noteq> None) hs. g h)" by auto
  show ?case
  proof (cases "q h")
    case (Some k0)
    have "(\<Sum>k \<in> set ks. \<Sum>h\<leftarrow>filter (\<lambda>h. q h = Some k) (h # hs). g h) =
        (\<Sum>k \<in> set ks. (if k = k0 then g h else 0) + (\<Sum>h\<leftarrow>filter (\<lambda>h. q h = Some k) hs. g h))"
      by (rule sum.cong) (auto simp: Some)
    also have "\<dots> = g h + (\<Sum>h\<leftarrow>filter (\<lambda>h. q h \<noteq> None) hs. g h)"
      using Cons.prems Some by (simp add: sum.distrib rest)
    finally show ?thesis by (simp add: Some)
  qed (simp add: rest)
qed simp

lemma turn_pending_filter: "turn_pending (turn_summary_of s k) = filter (\<lambda>h. prompt_index (h_source h) = Some k) (get_all_hunks s)"
  by (simp add: turn_summary_of_def Let_def get_all_hunks_def filter_concat turn_hunks_of_def comp_def)

lemma turn_lines:
  "turn_lines_added (turn_summary_of s k) = (\<Sum>h\<leftarrow>turn_pending (turn_summary_of s k). new_count (line_info h))"
  "turn_lines_removed (turn_summary_of s k) = (\<Sum>h\<leftarrow>turn_pending (turn_summary_of s k). old_count (line_info h))"
  by (simp_all add: turn_summary_of_def Let_def comp_def)

text \<open>The session summary counts every pending hunk once: its turns partition the hunks that have an
  agent turn as their author, in the order of the turns, its totals of hunks and lines are those of
  these hunks, and all others are counted as unattributed.\<close>

theorem session_summary_counts_all:
  fixes s :: tracker
  defines "attributed \<equiv> filter (\<lambda>h. prompt_index (h_source h) \<noteq> None) (get_all_hunks s)"
    and "m \<equiv> compute_session_summary s"
  shows "sum_pending_hunks m = length attributed \<and> sum_pending_hunks m + sum_unattributed m = length (get_all_hunks s) \<and>
    sum_pending_lines_added m = (\<Sum>h\<leftarrow>attributed. new_count (line_info h)) \<and>
    sum_pending_lines_removed m = (\<Sum>h\<leftarrow>attributed. old_count (line_info h)) \<and>
    sorted (map turn_prompt (sum_turns m)) \<and> distinct (map turn_prompt (sum_turns m)) \<and>
    set (concat (map turn_pending (sum_turns m))) = set attributed"
proof -
  define ks where "ks = sort (remdups (List.map_filter (prompt_index \<circ> h_source) (get_all_hunks s)))"
  have ks: "distinct ks" "sorted ks" by (simp_all add: ks_def)
  have mem: "\<forall>h \<in> set (get_all_hunks s). \<forall>k. prompt_index (h_source h) = Some k \<longrightarrow> k \<in> set ks"
    by (auto simp: ks_def set_map_filter)
  have turns: "sum_turns m = map (turn_summary_of s) ks" by (simp add: m_def compute_session_summary_def ks_def Let_def)
  have prompts: "map turn_prompt (sum_turns m) = ks" by (simp add: turns turn_summary_of_def Let_def comp_def)
  note sums = sum_by_turn [OF ks(1) mem, folded attributed_def, folded turn_pending_filter]
  have "sum_pending_hunks m = (\<Sum>k\<leftarrow>ks. \<Sum>h\<leftarrow>turn_pending (turn_summary_of s k). 1)"
    by (simp add: m_def compute_session_summary_def ks_def Let_def comp_def sum_list_triv)
  also have "\<dots> = length attributed" unfolding sums by (simp add: sum_list_triv)
  finally have hunks: "sum_pending_hunks m = length attributed" .
  have "sum_unattributed m = length (filter (\<lambda>h. \<not> prompt_index (h_source h) \<noteq> None) (get_all_hunks s))"
    unfolding m_def compute_session_summary_def Let_def by (simp only: session_summary.select_convs not_not)
  then have "sum_pending_hunks m + sum_unattributed m = length (get_all_hunks s)"
    unfolding hunks attributed_def by (simp only: sum_length_filter_compl)
  moreover have "sum_pending_lines_added m = (\<Sum>h\<leftarrow>attributed. new_count (line_info h))"
    "sum_pending_lines_removed m = (\<Sum>h\<leftarrow>attributed. old_count (line_info h))"
    unfolding sums [symmetric] by (simp_all add: m_def compute_session_summary_def ks_def Let_def comp_def turn_lines)
  moreover have "set (concat (map turn_pending (sum_turns m))) = set attributed"
    using mem by (auto simp: turns turn_pending_filter attributed_def)
  ultimately show ?thesis using hunks prompts ks by simp
qed

section \<open>Merged events\<close>

definition file_events :: "pathbuf \<Rightarrow> command list \<Rightarrow> command list" where
  "file_events p cs = filter (\<lambda>c. c = HandleFileChange p \<or> c = HandleFileDeleted p) cs"

text \<open>What a series of events of one path comes to.\<close>

definition merged_action :: "pathbuf \<Rightarrow> command list \<Rightarrow> path_action option" where
  "merged_action p cs =
     (let es = file_events p cs
      in if es = [] then None
         else if last es = HandleFileDeleted p then Some Deleted
         else if HandleFileDeleted p \<in> set es then Some DeletedThenChanged
         else Some Changed)"

lemma merged_action_snoc:
  "merged_action p (cs @ [c]) =
     (if c = HandleFileDeleted p then Some Deleted
      else if c = HandleFileChange p then
        Some (case merged_action p cs of None \<Rightarrow> Changed | Some Deleted \<Rightarrow> DeletedThenChanged | Some a \<Rightarrow> a)
      else merged_action p cs)"
proof -
  have "last (file_events p cs) = HandleFileDeleted p \<Longrightarrow> file_events p cs \<noteq> [] \<Longrightarrow> HandleFileDeleted p \<in> set (file_events p cs)"
    by (metis last_in_set)
  then show ?thesis by (auto simp: merged_action_def file_events_def Let_def filter_empty_conv)
qed

text \<open>C19: Draining the queue into a batch loses nothing: for each path the batch has the action that the series of
  its events comes to (deleted when the last event is a deletion, changed otherwise), each path
  once; a refresh is done when one was queued; all other commands stay, in their order; and all
  are counted.\<close>

theorem coalescing_keeps_commands:
  fixes c :: command and queued :: "command list"
  defines "b \<equiv> drain_and_coalesce c queued"
  shows "map_of (file_actions b) p = merged_action p (c # queued) \<and> distinct (map fst (file_actions b)) \<and>
    (refresh_all b \<longleftrightarrow> RefreshAllBaselines \<in> set (c # queued)) \<and> (refresh_dirty b \<longleftrightarrow> RefreshGitDirtyCache \<in> set (c # queued)) \<and>
    other_commands b = filter (\<lambda>c. \<not> is_coalescable c) (c # queued) \<and> command_count b = length (c # queued)"
proof -
  have "map_of (file_actions (fold batch_add cs new_batch)) p = merged_action p cs \<and>
      distinct (map fst (file_actions (fold batch_add cs new_batch))) \<and>
      (refresh_all (fold batch_add cs new_batch) \<longleftrightarrow> RefreshAllBaselines \<in> set cs) \<and>
      (refresh_dirty (fold batch_add cs new_batch) \<longleftrightarrow> RefreshGitDirtyCache \<in> set cs) \<and>
      other_commands (fold batch_add cs new_batch) = filter (\<lambda>c. \<not> is_coalescable c) cs \<and>
      command_count (fold batch_add cs new_batch) = length cs" for cs p
  proof (induction cs arbitrary: p rule: rev_induct)
    case Nil
    show ?case by (simp add: new_batch_def merged_action_def file_events_def)
  next
    case (snoc x cs)
    then show ?case
      by (cases x) (auto simp: batch_add_def Let_def merged_action_snoc is_coalescable_def update_conv' distinct_update
          split: option.split path_action.split)
  qed
  from this [of "c # queued"] show ?thesis unfolding b_def drain_and_coalesce_def by blast
qed

section \<open>Texts of patches\<close>

lemma script_bounds:
  "script a b ks hs \<Longrightarrow> h \<in> set hs \<Longrightarrow>
     1 \<le> old_start (line_info h) \<and> old_start (line_info h) + old_count (line_info h) \<le> a + length (olds ks) + 1 \<and>
     1 \<le> new_start (line_info h) \<and> new_start (line_info h) + new_count (line_info h) \<le> b + length (news ks) + 1"
proof (induction rule: script.induct)
  case (block blk h' a b ks hs)
  then show ?case by (cases "h = h'") (auto simp: describes_def)
qed auto

lemma patch_exists:
  assumes "old_start (line_info h) - 1 + old_count (line_info h) \<le> length (lines b)"
    and "new_start (line_info h) - 1 + new_count (line_info h) \<le> length (lines c)"
  shows "generate_hunk_patch b c h \<noteq> None"
  using assms by (simp add: generate_hunk_patch_def checked_sub_def Let_def)

lemma lines_nonempty: "c \<noteq> [] \<Longrightarrow> 1 \<le> length (lines c)"
proof -
  assume "c \<noteq> []"
  then have "lines c \<noteq> []" by (cases c) (auto simp: lines_def Let_def split: list.splits if_splits)
  then show ?thesis by (cases "lines c") auto
qed

lemma whole_file_patch:
  assumes "shape h = shape (file_created 0 p c External)" "c \<noteq> []"
  shows "generate_hunk_patch [] c h \<noteq> None"
proof (rule patch_exists)
  have "line_info h = line_info (file_created 0 p c External)" using arg_cong [OF assms(1), of line_info] by (simp add: shape_def)
  then show "old_start (line_info h) - 1 + old_count (line_info h) \<le> length (lines [])"
    "new_start (line_info h) - 1 + new_count (line_info h) \<le> length (lines c)"
    using lines_nonempty [OF assms(2)] by (simp_all add: file_created_def)
qed

lemma deleted_file_patch:
  assumes "shape h = shape (file_deleted 0 p b External)" "b \<noteq> []"
  shows "generate_hunk_patch b [] h \<noteq> None"
proof (rule patch_exists)
  have "line_info h = line_info (file_deleted 0 p b External)" using arg_cong [OF assms(1), of line_info] by (simp add: shape_def)
  then show "old_start (line_info h) - 1 + old_count (line_info h) \<le> length (lines b)"
    "new_start (line_info h) - 1 + new_count (line_info h) \<le> length (lines [])"
    using lines_nonempty [OF assms(2)] by (simp_all add: file_deleted_def)
qed

lemma changed_file_patch:
  assumes "file_wf D p f" "baseline f = Full b" "current_content f = Full c" "regular (rg_diff D) b c" "h \<in> set (hunks f)"
  shows "generate_hunk_patch b c h \<noteq> None"
proof -
  obtain ks where ks: "b = text_of (olds ks)" "c = text_of (news ks)" "list_all clean_line (olds ks)" "list_all clean_line (news ks)"
    "script 0 0 ks (hunks f)"
    using file_script [OF assms(1) _ assms(2-4)] assms(5) by (metis empty_iff list.set(1))
  then show ?thesis using script_bounds [OF ks(5) assms(5)]
    by (intro patch_exists) (simp_all add: lines_text_of, linarith+)
qed

text \<open>C20: The texts of the patches of a tracked file can be written if its baseline and content, when both are texts,
  consist of whole lines that end in a line feed alone, with these lines as the two sides of the
  line diff and no text on the way empty or one empty line: the line numbers of its pending
  hunks lie within the two texts, so no difference of line numbers underflows. A diff that splits lines
  where the standard library does not can make it underflow (\<open>patch_can_underflow\<close>).\<close>

theorem hunk_data_available:
  assumes "tracker_reach D io s" and "file_of s p = Some f" and "regular_file D f"
  shows "\<exists>d. get_file_hunk_data s p = Some d \<and> map h_id (data_hunks d) = map h_id (hunks f) \<and>
    (\<forall>h \<in> set (data_hunks d). h_patch h \<noteq> None)"
proof -
  obtain R where R: "rg_diff R = D" "tracker_inv R io {} s" by (rule reach_inv [OF assms(1)])
  then have wf: "file_wf R p f" using assms(2) by (simp add: tracker_inv_def)
  have patched: "\<exists>t. with_patch f h = Some (h\<lparr>h_patch := Some t\<rparr>)" if h: "h \<in> set (hunks f)" for h
  proof -
    have ne: "hunks f \<noteq> []" using h by auto
    then have "shape h \<in> set (map shape (differences (rg_diff R) p (baseline f) (current_content f)))"
      using wf h unfolding file_wf_def by (metis image_eqI set_map)
    then have "generate_hunk_patch (text_or_empty (baseline f)) (text_or_empty (current_content f)) h \<noteq> None"
      using changed_file_patch [OF wf _ _ _ h] whole_file_patch deleted_file_patch assms(3) R(1)
      by (cases rule: patchable [OF wf ne])
        (auto simp: differences_def text_or_empty_def content_as_str_def regular_file_def split: if_splits)
    then show ?thesis by (cases rule: patchable [OF wf ne]) (auto simp: with_patch_def content_as_str_def)
  qed
  have "\<exists>ds. those (map (with_patch f) hs) = Some ds \<and> map h_id ds = map h_id hs \<and> (\<forall>h \<in> set ds. h_patch h \<noteq> None)"
    if "set hs \<subseteq> set (hunks f)" for hs
    using that
  proof (induction hs)
    case (Cons h hs)
    then show ?case using patched [of h] by auto
  qed simp
  from this [of "hunks f"] show ?thesis using assms(2) by (auto simp: get_file_hunk_data_def)
qed

theorem hunk_data_available_witness:
  "\<exists>d. get_file_hunk_data demo_state demo_path = Some d \<and> map h_id (data_hunks d) = [0] \<and>
     map h_patch (data_hunks d) \<noteq> [None]"
  using hunk_data_available [OF demo_reach demo_file] demo_regular by (fastforce simp: regular_file_def)

section \<open>What goes wrong\<close>

text \<open>With line ends of two characters a review never ends, and a rejection changes the line ends.\<close>

definition crlf_state :: tracker where
  "crlf_state =
     record_agent_write demo_outside demo_path (lit ''b'' @ crlf) 1 (Some (lit ''a'' @ crlf))
       (new_tracker [RootDir] AgentOnly (\<lambda>_. FileEntry (as_bytes (lit ''b'' @ crlf))))"

lemma crlf_review:
  "map_option baseline (file_of (snd (apply_file_action demo_outside demo_path AcceptHunk crlf_state)) demo_path) = Some (Full (lit ''b'' @ [newline]))"
  "map_option (length \<circ> hunks) (file_of (snd (apply_file_action demo_outside demo_path AcceptHunk crlf_state)) demo_path) = Some 1"
  "disk (snd (apply_file_action demo_outside demo_path RejectHunk crlf_state)) demo_path = FileEntry (as_bytes (lit ''a'' @ [newline]))"
  by code_simp+

text \<open>A write that cannot be shown as a diff clears the hunks without an event and without a change of the index.\<close>

lemma binary_write_is_silent:
  "get_all_hunks (record_agent_write demo_outside demo_path [0] 2 None demo_state) = []"
  "events (record_agent_write demo_outside demo_path [0] 2 None demo_state) = events demo_state"
  "turn_index (record_agent_write demo_outside demo_path [0] 2 None demo_state) 1 = Some [0]"
  by code_simp+

text \<open>A text that has become binary is taken for deleted, and rejecting that overwrites it.\<close>

definition repo_outside :: outside where
  "repo_outside = demo_outside\<lparr>git := demo_git\<lparr>git_root := Some [RootDir], git_head_tree := Some (\<lambda>_. Some (GitBlob (as_bytes demo_old)))\<rparr>\<rparr>"

definition binary_state :: tracker where
  "binary_state = handle_file_change repo_outside demo_path (new_tracker [RootDir] AllDirty (\<lambda>_. FileEntry [0, 1]))"

lemma binary_file_is_deleted:
  "map_option current_content (file_of binary_state demo_path) = Some Missing"
  "map (\<lambda>h. (old_text h, new_text h)) (get_all_hunks binary_state) = [(Some demo_old, [])]"
  "disk (snd (apply_file_action repo_outside demo_path RejectHunk binary_state)) demo_path = FileEntry (as_bytes demo_old)"
  by code_simp+

text \<open>The header of a patch has the old line number on both sides: the change is at line 7 of the new text, with
  three lines before it, but the header says 3 and not 4.\<close>

definition seven_lines :: rstr where "seven_lines = text_of (map lit [''1'', ''2'', ''3'', ''4'', ''5'', ''6'', ''7''])"

definition changed_lines :: rstr where "changed_lines = text_of (map lit [''0'', ''1'', ''2'', ''3'', ''4'', ''5'', ''x'', ''7''])"

definition sixth_line :: tracked_hunk where
  "sixth_line =
     \<lparr>h_id = 0, h_path = demo_path, line_info = \<lparr>old_start = 6, old_count = 1, new_start = 7, new_count = 1\<rparr>,
      h_source = External, old_text = Some (lit ''6'' @ [newline]), new_text = lit ''x'' @ [newline], h_patch = None\<rparr>"

lemma patch_header_start:
  "map_option (starts_with (lit ''@@ -3,5 +3,5 @@'')) (generate_hunk_patch seven_lines changed_lines sixth_line) = Some True"
  by code_simp

text \<open>A patch whose hunk lies behind the lines that the standard library sees: a diff that splits at a lone carriage
  return puts a change of the last part into line 3, while the text is one line for the
  source; the count of lines before the change underflows.\<close>

definition one_line :: rstr where "one_line = lit ''a'' @ [carriage_return] @ lit ''b'' @ [carriage_return] @ lit ''c'' @ [newline]"

definition third_part :: tracked_hunk where
  "third_part =
     \<lparr>h_id = 0, h_path = demo_path, line_info = \<lparr>old_start = 3, old_count = 1, new_start = 3, new_count = 1\<rparr>,
      h_source = External, old_text = Some (lit ''c'' @ [newline]), new_text = lit ''d'' @ [newline], h_patch = None\<rparr>"

lemma patch_can_underflow: "lines one_line \<noteq> [] \<and> length (lines one_line) < 3 \<and> generate_hunk_patch one_line one_line third_part = None"
  by code_simp

section \<open>Rewinding\<close>

text \<open>A hunk of turn 1 that turn 2 edits again keeps its identifier. Rewinding to a later prompt composes what was kept
  of both turns: the identifier is still listed for turn 1, and the index gives for turn 1 a hunk
  whose author is turn 2, while the summary of turn 1 has none.\<close>

definition second_turn :: tracker where
  "second_turn = record_agent_write demo_outside demo_path (demo_new @ lit ''d'' @ [newline]) 2 None demo_state"

definition kept_turns :: checkpoint_store where
  "kept_turns =
     snd (capture_hunk_delta 2 (Some (take_turn_delta 2 second_turn))
       (snd (capture_hunk_delta 1 (Some (take_turn_delta 1 demo_state)) [])))"

definition rewound :: tracker where
  "rewound =
     (case fst (restore_hunk_checkpoints 3 (stats second_turn) kept_turns) of
        None \<Rightarrow> second_turn
      | Some n \<Rightarrow> restore_snapshot n second_turn)"

lemma rewound_index_is_stale:
  "map h_source (get_hunks_for_turn rewound 1) = [AgentEdit 2]"
  "turn_pending (turn_summary_of rewound 1) = []"
  "get_hunks_for_turn second_turn 1 = []"
  by code_simp+

end
