(* ===== verification/HunkSnapshots.thy ===== *)
theory HunkSnapshots
  imports HunkProtocol
begin

text \<open>
  Snapshots of the hunk tracker: a snapshot can be moved to another directory and back, and restores the
  state it was taken from.
\<close>

definition plain :: "pathbuf \<Rightarrow> bool" where
  "plain rel \<longleftrightarrow> RootDir \<notin> set rel \<and> CurDir \<notin> set rel"

lemma append_plain: "plain rel \<Longrightarrow> b \<noteq> [] \<Longrightarrow> path_append b rel = b @ rel"
  by (cases rel) (auto simp: plain_def path_append_def path_is_absolute_def filter_id_conv split: component.splits)

lemma strip_base_append [simp]: "strip_base a (a @ rel) = Some rel"
  by (simp add: strip_base_def)

text \<open>The directory has two names, the given one and the resolved one. The part of a path below it, and a path that is
  below it under one of the names.\<close>

definition part :: "pathbuf \<Rightarrow> pathbuf \<Rightarrow> pathbuf \<Rightarrow> pathbuf" where
  "part a ca p = (if prefix ca p then drop (length ca) p else drop (length a) p)"

definition movable :: "pathbuf \<Rightarrow> pathbuf \<Rightarrow> pathbuf \<Rightarrow> bool" where
  "movable a ca p \<longleftrightarrow> (prefix ca p \<or> prefix a p) \<and> plain (part a ca p)"

text \<open>Neither name of a directory is above the other.\<close>

definition apart :: "pathbuf \<Rightarrow> pathbuf \<Rightarrow> bool" where
  "apart b cb \<longleftrightarrow> b = cb \<or> \<not> prefix b cb \<and> \<not> prefix cb b"

text \<open>A path with the given name of the directory in place of the resolved one.\<close>

definition home :: "pathbuf \<Rightarrow> pathbuf \<Rightarrow> pathbuf \<Rightarrow> pathbuf" where
  "home a ca p = (if prefix ca p then a @ drop (length ca) p else p)"

definition moved :: "pathbuf \<Rightarrow> pathbuf \<Rightarrow> pathbuf \<Rightarrow> pathbuf \<Rightarrow> pathbuf" where
  "moved a ca b p = b @ part a ca p"

lemma rewrite_moves:
  assumes "movable a ca p" "b \<noteq> []"
  shows "or_same (rewrite_single_path a ca b) p = moved a ca b p"
  using assms by (auto simp: movable_def part_def or_same_def rewrite_single_path_def moved_def append_plain strip_base_def)

lemma part_moved: "apart b cb \<Longrightarrow> part b cb (b @ rel) = rel"
  by (auto simp: part_def apart_def prefix_append dest: append_prefixD)

lemma moved_back: "movable a ca p \<Longrightarrow> apart b cb \<Longrightarrow> moved b cb a (moved a ca b p) = home a ca p"
  by (auto simp: moved_def part_moved) (auto simp: movable_def part_def home_def prefix_def)

lemma moved_movable: "movable a ca p \<Longrightarrow> apart b cb \<Longrightarrow> movable b cb (moved a ca b p)"
  by (simp add: movable_def moved_def part_moved)

lemma update_new: "k \<notin> fst ` set al \<Longrightarrow> AList.update k v al = al @ [(k, v)]"
  by (induction al) auto

lemma fold_update_new:
  "distinct (map k xs) \<Longrightarrow> k ` set xs \<inter> fst ` set al = {} \<Longrightarrow>
     fold (\<lambda>x m. AList.update (k x) (v x) m) xs al = al @ map (\<lambda>x. (k x, v x)) xs"
  by (induction xs arbitrary: al) (auto simp: update_new)

definition move_file :: "(pathbuf \<Rightarrow> pathbuf) \<Rightarrow> pathbuf \<times> file_snapshot \<Rightarrow> pathbuf \<times> file_snapshot" where
  "move_file f x = (f (fst x), (snd x)\<lparr>snap_hunks := map (\<lambda>h. h\<lparr>h_path := f (fst x)\<rparr>) (snap_hunks (snd x))\<rparr>)"

lemma rewrite_is_move:
  assumes "distinct (map (part a ca \<circ> fst) (snap_files n))" "\<forall>x \<in> set (snap_files n). movable a ca (fst x)" "b \<noteq> []"
  shows "rewrite_paths a ca b n = n\<lparr>snap_files := map (move_file (moved a ca b)) (snap_files n)\<rparr>"
proof -
  define k where "k = (\<lambda>x :: pathbuf \<times> file_snapshot. or_same (rewrite_single_path a ca b) (fst x))"
  define v where "v = (\<lambda>x :: pathbuf \<times> file_snapshot. (snd x)\<lparr>snap_hunks := map (\<lambda>h. h\<lparr>h_path := k x\<rparr>) (snap_hunks (snd x))\<rparr>)"
  have k: "k x = moved a ca b (fst x)" if "x \<in> set (snap_files n)" for x using assms(2,3) that by (simp add: k_def rewrite_moves)
  have "map k (snap_files n) = map ((@) b) (map (part a ca \<circ> fst) (snap_files n))" using k by (simp add: moved_def)
  moreover have "distinct (map ((@) b) (map (part a ca \<circ> fst) (snap_files n)))"
    using assms(1) by (subst distinct_map) (simp add: inj_on_def)
  ultimately have "distinct (map k (snap_files n))" by metis
  then have "fold (\<lambda>x m. AList.update (k x) (v x) m) (snap_files n) [] = map (\<lambda>x. (k x, v x)) (snap_files n)"
    by (subst fold_update_new) auto
  also have "\<dots> = map (move_file (moved a ca b)) (snap_files n)" using k by (auto simp: v_def move_file_def)
  finally show ?thesis unfolding rewrite_paths_def k_def v_def Let_def case_prod_beta' by simp
qed

lemma changes_path: "(\<forall>h \<in> set (changes_loop p src i ol nl b cs). h_path h = p)"
  by (induction p src i ol nl b cs rule: changes_loop.induct) (auto simp: build_hunk_def split: option.splits)

lemma differences_path: "h \<in> set (differences D p base cur) \<Longrightarrow> h_path h = p"
  using changes_path by (auto simp: differences_def file_created_def file_deleted_def split: file_content_state.splits if_splits)

lemma pending_path:
  assumes "tracker_inv D io {} s" "(p, f) \<in> set (file_states s)" "h \<in> set (hunks f)"
  shows "h_path h = p"
proof -
  have "file_wf D p f" using assms(1,2) file_states_file_of [OF assms(1)] by (simp add: tracker_inv_def)
  then have "shape h \<in> shape ` set (differences (rg_diff D) p (baseline f) (current_content f))"
    using assms(3) unfolding file_wf_def by (metis empty_iff image_eqI list.set(1) set_map)
  then show ?thesis using differences_path by (auto simp: shape_def dest: arg_cong [of _ _ h_path])
qed

text \<open>C17: The hunks of a session move with its files. Let the files of a tracker be below a directory, each under its
  given or its resolved name and none under both. The snapshot with its paths rewritten to another
  directory, neither name of which is above the other, and then back, restored in any tracker,
  gives the files with the resolved name replaced by the given one, and the index of turns and the
  counters as they were. When all files are tracked under the given name alone, the files are
  those of the first tracker.\<close>

theorem snapshot_moves_back:
  fixes s :: tracker
  defines "returned \<equiv> (\<lambda>a ca b cb t. restore_snapshot (rewrite_paths b cb a (rewrite_paths a ca b (take_snapshot s))) t)"
  assumes "tracker_reach D io s" and "\<forall>p \<in> set (get_all_tracked_paths s). movable a ca p"
    and "distinct (map (part a ca) (get_all_tracked_paths s))" and "apart b cb" and "a \<noteq> []" and "b \<noteq> []"
  shows "file_states (returned a ca b cb t) =
      map (\<lambda>(p, f). (home a ca p, f\<lparr>hunks := map (\<lambda>h. h\<lparr>h_path := home a ca p\<rparr>) (hunks f)\<rparr>)) (file_states s) \<and>
    turn_index (returned a ca b cb t) = turn_index s \<and> stats (returned a ca b cb t) = stats s \<and>
    ((\<forall>p \<in> set (get_all_tracked_paths s). ca = a \<or> \<not> prefix ca p) \<longrightarrow> file_states (returned a ca b cb t) = file_states s)"
proof -
  obtain R where inv: "tracker_inv R io {} s" by (rule reach_inv [OF assms(2)])
  let ?n = "take_snapshot s"
  have keys: "map fst (snap_files ?n) = get_all_tracked_paths s"
    by (simp add: take_snapshot_def get_all_tracked_paths_def case_prod_beta comp_def)
  have dist: "distinct (map (part a ca \<circ> fst) (snap_files ?n))" using assms(4) by (simp flip: keys)
  have mov: "movable a ca (fst x)" if "x \<in> set (snap_files ?n)" for x
    using assms(3) that unfolding keys [symmetric] by simp
  define m where "m = ?n\<lparr>snap_files := map (move_file (moved a ca b)) (snap_files ?n)\<rparr>"
  have there: "rewrite_paths a ca b ?n = m" unfolding m_def using rewrite_is_move [OF dist _ assms(7)] mov by blast
  have "distinct (map (part b cb \<circ> fst) (snap_files m))"
    using dist assms(5) by (simp add: m_def move_file_def comp_def moved_def part_moved)
  then have "rewrite_paths b cb a m = m\<lparr>snap_files := map (move_file (moved b cb a)) (snap_files m)\<rparr>"
    using mov assms(5,6) by (intro rewrite_is_move) (auto simp: m_def move_file_def intro: moved_movable)
  moreover have "map (move_file (moved b cb a)) (map (move_file (moved a ca b)) (snap_files ?n)) = map (move_file (home a ca)) (snap_files ?n)"
    using moved_back [OF mov assms(5)] by (auto simp: move_file_def comp_def)
  ultimately have returned: "returned a ca b cb t = restore_snapshot (?n\<lparr>snap_files := map (move_file (home a ca)) (snap_files ?n)\<rparr>) t"
    unfolding returned_def there by (simp add: m_def del: map_map)
  have files: "file_states (returned a ca b cb t) =
      map (\<lambda>(p, f). (home a ca p, f\<lparr>hunks := map (\<lambda>h. h\<lparr>h_path := home a ca p\<rparr>) (hunks f)\<rparr>)) (file_states s)"
    by (auto simp: returned restore_snapshot_def take_snapshot_def move_file_def restore_file_state_def snapshot_file_state_def)
  moreover have "file_states (returned a ca b cb t) = file_states s" if "\<forall>p \<in> set (get_all_tracked_paths s). ca = a \<or> \<not> prefix ca p"
    unfolding files
  proof (rule map_idI)
    fix x
    assume x: "x \<in> set (file_states s)"
    obtain p f where pf: "x = (p, f)" by force
    have "map (\<lambda>h. h\<lparr>h_path := p\<rparr>) (hunks f) = hunks f"
      using pending_path [OF inv, of p f] x pf
      by (intro map_idI) (metis (full_types) tracked_hunk.surjective tracked_hunk.update_convs(2) tracked_hunk.select_convs(2) old.unit.exhaust)
    moreover have "p \<in> set (get_all_tracked_paths s)" using x pf by (force simp: get_all_tracked_paths_def)
    then have "home a ca p = p" using that by (auto simp: home_def prefix_def)
    ultimately show "(case x of (p, f) \<Rightarrow> (home a ca p, f\<lparr>hunks := map (\<lambda>h. h\<lparr>h_path := home a ca p\<rparr>) (hunks f)\<rparr>)) = x"
      by (simp add: pf)
  qed
  ultimately show ?thesis by (simp add: returned restore_snapshot_def take_snapshot_def)
qed

text \<open>The file of the example is tracked under the resolved name \<open>/w\<close> of the directory \<open>/l\<close>.\<close>

theorem snapshot_moves_back_witness:
  "map fst (file_states (restore_snapshot (rewrite_paths [RootDir, Normal (lit ''v'')] [RootDir, Normal (lit ''v'')] [RootDir, Normal (lit ''l'')]
     (rewrite_paths [RootDir, Normal (lit ''l'')] [RootDir, Normal (lit ''w'')] [RootDir, Normal (lit ''v'')] (take_snapshot demo_state)))
     demo_state)) = [[RootDir, Normal (lit ''l''), Normal (lit ''f'')]]"
proof -
  have paths: "get_all_tracked_paths demo_state = [[RootDir, Normal (lit ''w''), Normal (lit ''f'')]]" by code_simp
  then have "\<forall>p \<in> set (get_all_tracked_paths demo_state). movable [RootDir, Normal (lit ''l'')] [RootDir, Normal (lit ''w'')] p"
    "distinct (map (part [RootDir, Normal (lit ''l'')] [RootDir, Normal (lit ''w'')]) (get_all_tracked_paths demo_state))"
    by (simp_all add: movable_def part_def plain_def)
  from snapshot_moves_back [OF demo_reach this, of "[RootDir, Normal (lit ''v'')]" "[RootDir, Normal (lit ''v'')]" demo_state]
  show ?thesis using paths by (auto simp: apart_def comp_def case_prod_beta get_all_tracked_paths_def home_def)
qed

end
