(* ===== verification/HunkLoc.thy ===== *)
theory HunkLoc
  imports HunkSafety
begin

text \<open>
  The accounting of lines (\<open>xai-hunk-tracker/src/loc/mod.rs\<close>): a task turns the events of the hunk tracker into records
  of added and removed lines with their authors. Counts are unbounded integers here; time stamps are left
  out. Which records the writer can write is an argument.
\<close>

section \<open>Records\<close>

datatype author_type = AgentAuthor | HumanAuthor

datatype source_type = SourceAgentEdit | SourceExternalOnAgentFile | SourceExternal

datatype event_type = Added | Updated | Removed

record hunk_record =
  rec_hunk_id :: hunk_id
  rec_path :: pathbuf
  rec_start :: nat
  rec_end :: nat
  rec_added :: int
  rec_removed :: int
  rec_author :: "author_type option"
  rec_author_id :: "rstr option"
  rec_agent_id :: rstr
  rec_session_id :: rstr
  rec_prompt :: "nat option"
  rec_source :: "source_type option"
  rec_event :: event_type
  rec_reason :: "removal_reason option"

record loc_context =
  loc_session_id :: rstr
  loc_agent_id :: rstr
  loc_user_id :: "rstr option"
  loc_aggregates :: bool

definition attribution :: "loc_context \<Rightarrow> hunk_source \<Rightarrow> author_type \<times> rstr option \<times> nat option \<times> source_type" where
  "attribution ctx src =
     (case src of
        AgentEdit k \<Rightarrow> (AgentAuthor, Some (loc_agent_id ctx), Some k, SourceAgentEdit)
      | ExternalEditOnAgentFile \<Rightarrow> (HumanAuthor, loc_user_id ctx, None, SourceExternalOnAgentFile)
      | External \<Rightarrow> (HumanAuthor, loc_user_id ctx, None, SourceExternal))"

definition from_hunk :: "loc_context \<Rightarrow> tracked_hunk \<Rightarrow> event_type \<Rightarrow> hunk_source \<Rightarrow> hunk_record" where
  "from_hunk ctx h ev src =
     (let (author, author_id, prompt, source) = attribution ctx src;
          info = line_info h;
          (start, count) = (if new_count info = 0 then (old_start info, old_count info) else (new_start info, new_count info))
      in \<lparr>rec_hunk_id = h_id h, rec_path = h_path h, rec_start = start,
          rec_end = (if count = 0 then start else start + count - 1),
          rec_added = int (new_count info), rec_removed = int (old_count info),
          rec_author = Some author, rec_author_id = author_id, rec_agent_id = loc_agent_id ctx,
          rec_session_id = loc_session_id ctx, rec_prompt = prompt, rec_source = Some source, rec_event = ev, rec_reason = None\<rparr>)"

datatype loc_aggregate = LinesChanged author_type int int pathbuf | LinesReverted int int

section \<open>The sink\<close>

record loc_sink =
  acc :: "hunk_id \<rightharpoonup> int \<times> int"
  recorded :: "hunk_record list"
  aggregates :: "loc_aggregate list"

definition empty_sink :: loc_sink where
  "empty_sink = \<lparr>acc = Map.empty, recorded = [], aggregates = []\<rparr>"

text \<open>A record that cannot be written is dropped.\<close>

definition write_record :: "(hunk_record \<Rightarrow> bool) \<Rightarrow> hunk_record \<Rightarrow> loc_sink \<Rightarrow> loc_sink" where
  "write_record writable r s = (if writable r then s\<lparr>recorded := recorded s @ [r]\<rparr> else s)"

definition send_aggregate :: "loc_context \<Rightarrow> loc_aggregate \<Rightarrow> loc_sink \<Rightarrow> loc_sink" where
  "send_aggregate ctx a s = (if loc_aggregates ctx then s\<lparr>aggregates := aggregates s @ [a]\<rparr> else s)"

definition accumulate :: "hunk_record \<Rightarrow> loc_sink \<Rightarrow> loc_sink" where
  "accumulate r s =
     (let (a, d) = (case acc s (rec_hunk_id r) of None \<Rightarrow> (0, 0) | Some x \<Rightarrow> x)
      in s\<lparr>acc := (acc s)(rec_hunk_id r \<mapsto> (a + rec_added r, d + rec_removed r))\<rparr>)"

definition record_change :: "loc_context \<Rightarrow> (hunk_record \<Rightarrow> bool) \<Rightarrow> author_type \<Rightarrow> hunk_record \<Rightarrow> loc_sink \<Rightarrow> loc_sink" where
  "record_change ctx writable fallback r s =
     write_record writable r
       (send_aggregate ctx
         (LinesChanged (case rec_author r of None \<Rightarrow> fallback | Some a \<Rightarrow> a) (rec_added r) (rec_removed r) (rec_path r))
         (accumulate r s))"

definition removal_record :: "loc_context \<Rightarrow> pathbuf \<Rightarrow> hunk_id \<Rightarrow> removal_reason \<Rightarrow> int \<Rightarrow> int \<Rightarrow> hunk_record" where
  "removal_record ctx p i reason total_added total_removed =
     \<lparr>rec_hunk_id = i, rec_path = p, rec_start = 0, rec_end = 0, rec_added = - total_added, rec_removed = - total_removed,
      rec_author = None, rec_author_id = None, rec_agent_id = loc_agent_id ctx, rec_session_id = loc_session_id ctx,
      rec_prompt = None, rec_source = None, rec_event = Removed, rec_reason = Some reason\<rparr>"

definition handle_event :: "loc_context \<Rightarrow> (hunk_record \<Rightarrow> bool) \<Rightarrow> hunk_event \<Rightarrow> loc_sink \<Rightarrow> loc_sink" where
  "handle_event ctx writable e s =
     (case e of
        HunkAdded _ h \<Rightarrow> record_change ctx writable AgentAuthor (from_hunk ctx h Added (h_source h)) s
      | HunkContentChanged _ h trigger prev_added prev_removed \<Rightarrow>
          record_change ctx writable HumanAuthor
            ((from_hunk ctx h Updated trigger)
              \<lparr>rec_added := int (new_count (line_info h)) - int prev_added,
               rec_removed := int (old_count (line_info h)) - int prev_removed\<rparr>) s
      | HunkRemoved p i reason \<Rightarrow>
          (let s1 = s\<lparr>acc := (acc s)(i := None)\<rparr>
           in case reason of
                Accepted \<Rightarrow> s1
              | _ \<Rightarrow>
                  (case acc s i of
                     None \<Rightarrow> s1
                   | Some (a, d) \<Rightarrow>
                       if a \<noteq> 0 \<or> d \<noteq> 0 then
                         write_record writable (removal_record ctx p i reason a d)
                           (send_aggregate ctx (LinesReverted (max a 0) (max d 0)) s1)
                       else s1))
      | _ \<Rightarrow> s)"

text \<open>The task handles what is in the channel until it is closed; on cancellation it drains the rest.\<close>

definition run_loc_sink :: "loc_context \<Rightarrow> (hunk_record \<Rightarrow> bool) \<Rightarrow> hunk_event list \<Rightarrow> loc_sink" where
  "run_loc_sink ctx writable es = fold (handle_event ctx writable) es empty_sink"

section \<open>The ledger\<close>

text \<open>The lines of a hunk, added and removed. What a hunk has contributed: lines that were accepted, and the lines it
  had when it was last reported. Accepting moves the open lines over, rejecting or superseding
  drops them.\<close>

definition hunk_lines :: "tracked_hunk \<Rightarrow> int \<times> int" where
  "hunk_lines h = (int (new_count (line_info h)), int (old_count (line_info h)))"

type_synonym ledger = "(int \<times> int) \<times> (int \<times> int)"

definition ledger_step :: "hunk_id \<Rightarrow> hunk_event \<Rightarrow> ledger \<Rightarrow> ledger" where
  "ledger_step i e l =
     (case e of
        HunkAdded _ h \<Rightarrow> if h_id h = i then (fst l, hunk_lines h) else l
      | HunkContentChanged _ h _ _ _ \<Rightarrow> if h_id h = i then (fst l, hunk_lines h) else l
      | HunkRemoved _ j reason \<Rightarrow>
          if j = i then
            (if reason = Accepted then ((fst (fst l) + fst (snd l), snd (fst l) + snd (snd l)), (0, 0)) else (fst l, (0, 0)))
          else l
      | _ \<Rightarrow> l)"

definition ledger_of :: "hunk_event list \<Rightarrow> hunk_id \<Rightarrow> ledger" where
  "ledger_of es i = fold (ledger_step i) es ((0, 0), (0, 0))"

text \<open>Events that report a hunk step by step: it is added when it has no open lines, and each change is reported
  against the lines it had before.\<close>

fun stepwise :: "hunk_id \<Rightarrow> ledger \<Rightarrow> hunk_event list \<Rightarrow> bool" where
  "stepwise i l [] = True"
| "stepwise i l (e # es) =
     ((case e of
         HunkAdded _ h \<Rightarrow> h_id h = i \<longrightarrow> snd l = (0, 0)
       | HunkContentChanged _ h _ prev_added prev_removed \<Rightarrow> h_id h = i \<longrightarrow> snd l = (int prev_added, int prev_removed)
       | _ \<Rightarrow> True) \<and>
      stepwise i (ledger_step i e l) es)"

definition lines_of :: "hunk_id \<Rightarrow> hunk_record list \<Rightarrow> int \<times> int" where
  "lines_of i rs =
     (let mine = filter (\<lambda>r. rec_hunk_id r = i) rs in (\<Sum>r\<leftarrow>mine. rec_added r, \<Sum>r\<leftarrow>mine. rec_removed r))"

definition open_lines :: "loc_sink \<Rightarrow> hunk_id \<Rightarrow> int \<times> int" where
  "open_lines s i = (case acc s i of None \<Rightarrow> (0, 0) | Some x \<Rightarrow> x)"

definition books :: "hunk_id \<Rightarrow> loc_sink \<Rightarrow> ledger \<Rightarrow> bool" where
  "books i s l \<longleftrightarrow>
     open_lines s i = snd l \<and>
     lines_of i (recorded s) = (fst (fst l) + fst (snd l), snd (fst l) + snd (snd l))"

lemma lines_of_snoc:
  "lines_of i (rs @ [r]) =
     (if rec_hunk_id r = i then (fst (lines_of i rs) + rec_added r, snd (lines_of i rs) + rec_removed r) else lines_of i rs)"
  by (simp add: lines_of_def Let_def)

lemma write_record_simps [simp]: "recorded (write_record writable r s) = (if writable r then recorded s @ [r] else recorded s)"
  "acc (write_record writable r s) = acc s"
  by (simp_all add: write_record_def)

lemma send_aggregate_simps [simp]: "recorded (send_aggregate ctx a s) = recorded s" "acc (send_aggregate ctx a s) = acc s"
  by (simp_all add: send_aggregate_def)

lemma accumulate_simps [simp]: "recorded (accumulate r s) = recorded s"
  "open_lines (accumulate r s) i =
     (if i = rec_hunk_id r then (fst (open_lines s i) + rec_added r, snd (open_lines s i) + rec_removed r) else open_lines s i)"
  by (auto simp: accumulate_def open_lines_def Let_def case_prod_beta)

lemma open_lines_cong [simp]: "open_lines (write_record writable r s) i = open_lines s i"
  "open_lines (send_aggregate ctx a s) i = open_lines s i"
  by (simp_all add: open_lines_def)

lemma from_hunk_simps [simp]: "rec_hunk_id (from_hunk ctx h ev src) = h_id h"
  "rec_added (from_hunk ctx h ev src) = int (new_count (line_info h))"
  "rec_removed (from_hunk ctx h ev src) = int (old_count (line_info h))"
  by (simp_all add: from_hunk_def Let_def case_prod_beta)

lemma record_change_books:
  assumes "books i s l"
  shows "books i (record_change ctx (\<lambda>_. True) fb r s)
    (if rec_hunk_id r = i then (fst l, (fst (snd l) + rec_added r, snd (snd l) + rec_removed r)) else l)"
  using assms by (auto simp: books_def record_change_def lines_of_snoc)

lemma removal_books:
  assumes "books i s l"
  shows "books i (handle_event ctx (\<lambda>_. True) (HunkRemoved p j reason) s) (ledger_step i (HunkRemoved p j reason) l)"
proof -
  obtain ka kr a r where l: "l = ((ka, kr), (a, r))" by (metis surj_pair)
  show ?thesis
  proof (cases "j = i")
    case True
    show ?thesis using assms
      by (cases "acc s i"; cases reason)
        (auto simp: True l books_def handle_event_def ledger_step_def open_lines_def lines_of_snoc removal_record_def Let_def
          write_record_def send_aggregate_def)
  next
    case False
    show ?thesis using assms False
      by (cases "acc s j"; cases reason)
        (auto simp: l books_def handle_event_def ledger_step_def open_lines_def lines_of_snoc removal_record_def Let_def
          write_record_def send_aggregate_def)
  qed
qed

lemma handle_event_books:
  assumes "books i s l" "stepwise i l (e # es)"
  shows "books i (handle_event ctx (\<lambda>_. True) e s) (ledger_step i e l)"
proof (cases e)
  case (HunkRemoved p j reason)
  then show ?thesis using removal_books [OF assms(1)] by simp
next
  case (HunkAdded p h)
  then show ?thesis using record_change_books [OF assms(1), of ctx AgentAuthor "from_hunk ctx h Added (h_source h)"] assms(2)
    by (auto simp: handle_event_def ledger_step_def hunk_lines_def split: if_splits)
next
  case (HunkContentChanged p h trigger pa pr)
  let ?r = "(from_hunk ctx h Updated trigger)
    \<lparr>rec_added := int (new_count (line_info h)) - int pa, rec_removed := int (old_count (line_info h)) - int pr\<rparr>"
  show ?thesis using record_change_books [OF assms(1), of ctx HumanAuthor ?r] assms(2)
    by (auto simp: HunkContentChanged handle_event_def ledger_step_def hunk_lines_def split: if_splits)
qed (use assms in \<open>simp_all add: handle_event_def ledger_step_def\<close>)

text \<open>A record that cannot be written is lost; everything else goes on as before.\<close>

definition lossy :: "(hunk_record \<Rightarrow> bool) \<Rightarrow> loc_sink \<Rightarrow> loc_sink \<Rightarrow> bool" where
  "lossy writable s t \<longleftrightarrow> acc s = acc t \<and> recorded s = filter writable (recorded t)"

lemma lossy_record: "lossy writable s t \<Longrightarrow> lossy writable (record_change ctx writable fb r s) (record_change ctx (\<lambda>_. True) fb r t)"
  by (simp add: lossy_def record_change_def accumulate_def Let_def case_prod_beta)

lemma lossy_event: "lossy writable s t \<Longrightarrow> lossy writable (handle_event ctx writable e s) (handle_event ctx (\<lambda>_. True) e t)"
  by (cases e) (auto simp: handle_event_def lossy_record, auto simp: lossy_def Let_def split: removal_reason.split option.split)

lemma lossy_events:
  "lossy writable s t \<Longrightarrow> lossy writable (fold (handle_event ctx writable) es s) (fold (handle_event ctx (\<lambda>_. True)) es t)"
  by (induction es arbitrary: s t) (simp_all add: lossy_event)

text \<open>A change of a hunk that has kept its identifier is reported against the lines it had.\<close>

lemma change_reports_old_lines:
  assumes "distinct (map h_id old)" "h \<in> set old" "h_id n = h_id h"
  shows "prev_counts old n = (new_count (line_info h), old_count (line_info h))"
proof -
  obtain g where g: "find (\<lambda>x. h_id x = h_id n) old = Some g"
    using assms(2,3) by (cases "find (\<lambda>x. h_id x = h_id n) old") (auto simp: find_None_iff)
  then have "g \<in> set old" "h_id g = h_id n" using find_SomeD [OF g] by auto
  then have "g = h" using assms by (auto simp: distinct_map dest: inj_onD)
  then show ?thesis using g by (simp add: prev_counts_def)
qed

text \<open>C16: The records of lines refine the ledger of a hunk that is reported step by step: added when it has no open
  lines, and changed against the lines it had before. When all records can be written, the added and
  the removed lines of its records sum up to its accepted lines and the lines it had when it was last
  reported, if it is still open; so a rejected or superseded hunk counts for nothing. With a
  writer that fails, exactly the records that it refused are missing. A hunk that is split or merged
  is not reported step by step, and its sums are wrong (\<open>split_hunk_total\<close>, \<open>merged_hunks_total\<close>).\<close>

theorem loc_records_balance:
  assumes "stepwise i ((0, 0), (0, 0)) es"
  shows "lines_of i (recorded (run_loc_sink ctx (\<lambda>_. True) es)) =
      (let ((ka, kr), (a, r)) = ledger_of es i in (ka + a, kr + r)) \<and>
    recorded (run_loc_sink ctx writable es) = filter writable (recorded (run_loc_sink ctx (\<lambda>_. True) es))"
proof -
  have "books i (fold (handle_event ctx (\<lambda>_. True)) es s) (fold (ledger_step i) es l)" if "books i s l" "stepwise i l es" for s l
    using that
  proof (induction es arbitrary: s l)
    case (Cons e es)
    then show ?case using handle_event_books [OF Cons.prems] by simp
  qed simp
  from this [of empty_sink "((0, 0), (0, 0))"] assms
  have "lines_of i (recorded (run_loc_sink ctx (\<lambda>_. True) es)) = (let ((ka, kr), (a, r)) = ledger_of es i in (ka + a, kr + r))"
    by (simp add: books_def empty_sink_def open_lines_def lines_of_def run_loc_sink_def ledger_of_def Let_def case_prod_beta)
  moreover have "lossy writable empty_sink empty_sink" by (simp add: lossy_def empty_sink_def)
  from lossy_events [OF this, of ctx es]
  have "recorded (run_loc_sink ctx writable es) = filter writable (recorded (run_loc_sink ctx (\<lambda>_. True) es))"
    by (simp add: lossy_def run_loc_sink_def)
  ultimately show ?thesis ..
qed

section \<open>Counting that goes wrong\<close>

definition plain_hunk :: "hunk_id \<Rightarrow> nat \<Rightarrow> nat \<Rightarrow> nat \<Rightarrow> nat \<Rightarrow> string \<Rightarrow> tracked_hunk" where
  "plain_hunk i os oc ns nc t =
     \<lparr>h_id = i, h_path = demo_path, line_info = \<lparr>old_start = os, old_count = oc, new_start = ns, new_count = nc\<rparr>,
      h_source = AgentEdit 1, old_text = None, new_text = lit t, h_patch = None\<rparr>"

definition demo_context :: loc_context where
  "demo_context = \<lparr>loc_session_id = lit ''s'', loc_agent_id = lit ''m'', loc_user_id = None, loc_aggregates = True\<rparr>"

definition total_added :: "hunk_event list \<Rightarrow> int" where
  "total_added es = (\<Sum>r\<leftarrow>recorded (run_loc_sink demo_context (\<lambda>_. True) es). rec_added r)"

text \<open>A hunk of two lines that grows to three and is accepted, and a second one that is rejected.\<close>

definition two_hunks :: "hunk_event list" where
  "two_hunks =
     [HunkAdded demo_path (plain_hunk 0 1 2 1 2 ''x''), HunkAdded demo_path (plain_hunk 1 9 1 9 1 ''y''),
      HunkContentChanged demo_path (plain_hunk 0 1 2 1 3 ''z'') (AgentEdit 2) 2 2,
      HunkRemoved demo_path 1 Rejected, HunkRemoved demo_path 0 Accepted]"

theorem loc_records_balance_witness:
  "lines_of 0 (recorded (run_loc_sink demo_context (\<lambda>_. True) two_hunks)) = (3, 2) \<and>
   lines_of 1 (recorded (run_loc_sink demo_context (\<lambda>_. True) two_hunks)) = (0, 0)"
proof -
  have "stepwise 0 ((0, 0), (0, 0)) two_hunks" "stepwise 1 ((0, 0), (0, 0)) two_hunks"
    "ledger_of two_hunks 0 = ((3, 2), (0, 0))" "ledger_of two_hunks 1 = ((0, 0), (0, 0))"
    by (simp_all add: two_hunks_def ledger_of_def ledger_step_def hunk_lines_def plain_hunk_def)
  with loc_records_balance [of 0 two_hunks demo_context "\<lambda>_. True"] loc_records_balance [of 1 two_hunks demo_context "\<lambda>_. True"]
  show ?thesis by (simp only: Let_def prod.case) simp
qed

text \<open>A hunk of three lines that an edit splits into two of one line: the second part is counted as a change
  of the whole, and the sum is less than nothing.\<close>

lemma split_hunk_total:
  "total_added
     (HunkAdded demo_path (plain_hunk 0 1 3 1 3 ''x'') #
      hunk_diff_events demo_path [plain_hunk 0 1 3 1 3 ''x'']
        (claim_ids [plain_hunk 0 1 3 1 3 ''x''] [] [plain_hunk 1 1 1 1 1 ''y'', plain_hunk 2 3 1 3 1 ''z'']) (AgentEdit 2)) = -1"
  by code_simp

text \<open>Two hunks that an edit merges: the second stays counted.\<close>

lemma merged_hunks_total:
  "total_added
     ([HunkAdded demo_path (plain_hunk 0 1 1 1 1 ''x''), HunkAdded demo_path (plain_hunk 1 3 1 3 1 ''y'')] @
      hunk_diff_events demo_path [plain_hunk 0 1 1 1 1 ''x'', plain_hunk 1 3 1 3 1 ''y'']
        (claim_ids [plain_hunk 0 1 1 1 1 ''x'', plain_hunk 1 3 1 3 1 ''y''] [] [plain_hunk 2 1 3 1 3 ''z'']) (AgentEdit 2)) = 4"
  by code_simp

text \<open>A write of the agent that is queued behind an event of another file: the event of the write itself is
  handled before the write is recorded, and the new line counts as written by a human.\<close>

definition written_again :: rstr where "written_again = demo_new @ lit ''d'' @ [newline]"

definition changed_disk :: tracker where
  "changed_disk = demo_state\<lparr>events := [], disk := (disk demo_state)(demo_path := FileEntry (as_bytes written_again))\<rparr>"

definition queued_write :: "command list" where
  "queued_write = [RecordAgentWrite demo_path written_again 2 None, HandleFileChange demo_path]"

definition authors :: "tracker \<Rightarrow> author_type option list" where
  "authors s = map rec_author (recorded (run_loc_sink demo_context (\<lambda>_. True) (events s)))"

lemma coalescing_changes_author:
  "authors (snd (handle_commands demo_outside (HandleFileChange [RootDir] # queued_write) changed_disk)) = [Some AgentAuthor]"
  "authors (snd (snd (actor_turn demo_outside (HandleFileChange [RootDir]) queued_write changed_disk))) = [Some HumanAuthor]"
  by code_simp+

end
