(* ===== verification/Spec2Isabelle.thy ===== *)
theory Spec2Isabelle
  imports BreakerConc BreakerRegistry PatchTool TokenEstimation Interjection PromptQueue IntraCompaction
    EditSafety PathNormal HunkSnapshots HunkLoc
begin

text \<open>
  A verification library for the core logic of a terminal coding agent
  (\<open>src/crates\<close>). The agent sends a conversation to a model, runs the tools the model asks for
  behind a permission check, tracks what the tools change in the files for the review of the
  user, compacts the conversation when it outgrows the context window, and talks to services
  through circuit breakers. Five subsystems carry that logic and are modelled here; the rest of the repository is user interface, transport and glue.

  \<^bold>\<open>Permissions\<close> (\<open>xai-grok-workspace/src/permission\<close>). Every tool call asks the manager, an actor that
  answers one request after another. The theories follow the way of a request:
  \<^item> \<open>ShellWords\<close> (\<open>bash_command_splitting.rs\<close>): the words of one command; wrappers (\<open>timeout\<close>, \<open>env\<close>,
    ...) and prefixes (\<open>exec\<close>, \<open>command\<close>, \<open>builtin\<close>) are peeled in bounded rounds. Specification: the
    relation \<open>peel_step\<close> removes one layer; normalization without an alarm is its normal form.
  \<^item> \<open>ShellTree\<close> (\<open>bash_command_splitting.rs\<close>, \<open>shell_access.rs\<close>): the syntax tree of a script as data, the walks
    over it, its decomposition into plain commands, its redirects and the literal words of its
    invocations. \<open>ShellFiles\<close> (\<open>shell_access.rs\<close>): the operands of known programs, the normal form of
    paths and the following of links. \<open>PathNormal\<close> shows that the normal form leads to the same
    place.
  \<^item> \<open>PermissionRules\<close> (\<open>rules.rs\<close>, \<open>types.rs\<close>): rules and their notation, with a round trip.
  \<^item> \<open>PermissionPolicy\<close> (\<open>policy.rs\<close>): matching and combining of rules and the gate on the commands of a
    script. \<open>ShellFileGate\<close> (\<open>shell_access.rs\<close>): the gate on the files of a script. \<open>PermissionPreflight\<close>
    (\<open>gate_preflight.rs\<close>): the combination of both for one request. \<open>PermissionGate\<close> proves that no
    command a script runs, at any depth, escapes the rules; the locale \<open>ranked_combination\<close> is the algebra of
    both ways to combine decisions and is interpreted for each.
  \<^item> \<open>ExecRisk\<close> (\<open>exec_risk.rs\<close>): flags of \<open>git\<close> and \<open>sort\<close> that run programs, and the directories whose
    git configuration has to be scanned.
  \<^item> \<open>BashPermission\<close> (\<open>manager.rs\<close>, \<open>auto_mode.rs\<close>, \<open>state.rs\<close>): evaluation of the segments of a script, the
    floors, and the grants of the session.
  \<^item> \<open>GrantTargets\<close> (\<open>xai-grok-mcp/src/servers.rs\<close>, \<open>xai-tool-protocol/src/ids.rs\<close>, \<open>web_fetch/domain.rs\<close>): the names
    grants are keyed by; the domain table refines the union of its entries.
  \<^item> \<open>ProtectedEdit\<close> (\<open>shell_access.rs\<close>, \<open>resources.rs\<close>, \<open>xai-grok-paths\<close>): the target of an edit and the reasons
    to confirm it.
  \<^item> \<open>PermissionManager\<close> (\<open>manager.rs\<close>): the stages of one request, the commands of the actor, the handle
    with its queue as a step relation. \<open>PermissionSafety\<close> has the properties of the whole: the
    invariant of the modes under every interleaving, deny and ask rules and floors through all
    stages, that every request is answered, and the bound on silent denials. \<open>FileGateSafety\<close>
    specifies the files that a script touches and shows that rules on them bind; \<open>EditSafety\<close> shows
    that protected files are never edited silently.

  \<^bold>\<open>Hunk tracker\<close> (\<open>xai-hunk-tracker/src\<close>). An actor keeps for each file a baseline, the content and the hunks
  between them; the user accepts or rejects hunks. It handles its queue in batches.
  \<^item> \<open>HunkDiff\<close> (\<open>diff.rs\<close>, \<open>types.rs\<close>): hunks from a line diff, their matching, patches and their texts.
    \<open>HunkEdit\<close> shows that patching with all hunks, in descending order, leads from one text to the other
    in both directions, for every diff that meets \<open>diff_contract\<close> and every text whose lines end in a
    line feed; its examples show what happens to other texts.
  \<^item> \<open>HunkFiles\<close> (\<open>file_utils.rs\<close>, \<open>state.rs\<close>, \<open>git.rs\<close>): the content states of files, bounded reading (equal to the
    classification of all bytes), baselines from HEAD and the cache of changed paths.
  \<^item> \<open>HunkTracker\<close> (\<open>hunks.rs\<close>, \<open>actions.rs\<close>), \<open>HunkMutations\<close> (\<open>mutations.rs\<close>), \<open>HunkCommands\<close> (\<open>mod.rs\<close>, \<open>queries.rs\<close>): the
    state of the actor, recomputing of hunks with their identifiers, accepting and rejecting, writes
    of the agent, events of the file system, refreshing after git commands, queries, snapshots, the
    coalescing of the queue and one turn of the actor.
  \<^item> \<open>HunkInvariant\<close>, \<open>HunkSteps\<close>, \<open>HunkActionSteps\<close>, \<open>HunkReach\<close>: the invariant of the state, that every
    operation preserves it, and the states that any sequence of batches and changes of the disk can
    reach, with or without failures of input and output. The locale \<open>review_batch\<close> is the contract of
    accepting and rejecting that the batches of actions rely on, interpreted for both. \<open>HunkSafety\<close> has what a review guarantees: pending hunks are the
    differences of the two sides, accepting ends a review, rejecting restores the baseline on the
    disk. \<open>HunkProtocol\<close> has errors, the index of turns, the session summary, the batches and the bounds behind the
    patches that are shown. \<open>HunkSnapshots\<close> has the round trip of snapshots through another directory.
  \<^item> \<open>HunkLoc\<close> (\<open>loc/mod.rs\<close>): the sink of events that records lines by author. Specification: a ledger of
    accepted and open lines per hunk.

  \<^bold>\<open>Circuit breakers\<close> (\<open>xai-circuit-breaker\<close>). \<open>Window\<close> is the sliding window, \<open>BreakerConfig\<close> the presets,
  the environment and the retry policies, \<open>Breaker\<close> the sequential operations on the cells,
  \<open>BreakerConc\<close> the same operations as steps of single atomic accesses by any number of tasks, and
  \<open>BreakerRegistry\<close> the table of shared breakers. Specification: a three-state automaton over the
  observer callbacks. \<open>Float64\<close> holds the binary64 rounding that the error rate uses.

  \<^bold>\<open>apply_patch\<close> (\<open>xai-grok-tools/.../codex/apply_patch\<close>). \<open>PatchParser\<close>, \<open>SeekSequence\<close>, \<open>PatchApply\<close> and \<open>PatchTool\<close>
  are the parser, the fuzzy search, the computation and application of replacements, and the
  tool over an abstract file system (\<open>Utf8\<close> decodes what it reads). Specification: one
  left-to-right splice per file, and the effect of the computed changes in order.

  \<^bold>\<open>Compaction\<close> (\<open>xai-grok-compaction\<close>). \<open>CompactionSelect\<close> finds the split point, \<open>CompactionFit\<close> fits the input
  of the summarizer, \<open>CompactionHistory\<close> filters and carries user queries, \<open>CompactionSummary\<close> cleans
  the summary, \<open>CompactionSample\<close> retries the model, and \<open>IntraCompaction\<close> runs the passes inside the
  agent loop. \<open>TokenEstimation\<close>, \<open>Interjection\<close> and \<open>PromptQueue\<close> are the counters and queues beside it.

  \<open>Prelude\<close> has the shared lemmas on lists, options and words, and the locale \<open>step_order\<close> of what loops keep; \<open>RustStr\<close> and \<open>RustStrSearch\<close> model the string
  functions of the Rust library: a string is the list of its code points, byte lengths are
  computed from them where the source counts bytes.

  \<^bold>\<open>State, errors, loops.\<close> A struct is a record and an enum a datatype with the constructors of the
  source; fallible functions return a sum or an option, panics are values. Loops are recursions
  on the data they consume, and terminate. Recursion that the source bounds by a counter takes
  the same counter: eight wrappers, eight prefixes, sixteen rounds, eight nested scripts, 41
  calls to follow links, the attempts of a retry loop. No other fuel is used. Counters that can wrap or saturate are words
  or have the saturation written out; counters of the permission manager stay below their
  limits, which is proved. A hash set is a list without duplicates where only membership and
  insertion matter, and the hash map of the tracked files is an association list: the order of
  its entries stands for the order of iteration, and the properties hold for every order that can come about. The random
  identifiers of hunks are drawn from a counter.

  \<^bold>\<open>Arguments of the definitions.\<close> Code outside the repository is an argument: the glob matcher, the
  URL parser, Unicode lower-casing and the bash grammar (record \<open>policy_env\<close>, whose
  \<open>try_parse_shell\<close> gives a tree), the answers of the file system about links (\<open>fs_view\<close>), the expansion
  of the home directory, libgit2 (\<open>repo_view\<close>), the classifier, the user and the requester (record \<open>world\<close>), the
  file system of the patch tool, and for the hunk tracker the line diff (\<open>differ\<close>), git (\<open>git_view\<close>) and the failures of writes
  and removals (record \<open>outside\<close>), the model behind the compaction sampler, the clock of the
  breaker. The properties hold for all of them, or under a stated contract with a witness.

  \<^bold>\<open>Not modelled.\<close> Of the permission subsystem: the heuristic classifier of automatic mode, merging of
  settings files (\<open>resolution.rs\<close>), the highlighting of commands and the prompt dialog. Log lines and
  telemetry fields that no decision reads. Of the hunk tracker: the handle that sends
  commands over a channel, the printing of a whole-file patch by the diff library and the file of
  records. Of compaction: the assembly of the compacted
  conversation and compaction between turns. The session runtime, the terminal interface,
  transport, configuration loading, storage and the other tools are input and output around
  third-party libraries. What is left of the agent's own logic is the heuristic classifier and
  the retry decisions of the sampling client.
\<close>

end
